(* ===== verification/Prelude.thy ===== *)
theory Prelude
  imports Main "HOL-Library.AList" "HOL-Library.Multiset" "HOL-Library.List_Lexorder"
    "HOL-Library.Char_ord"
begin

text \<open>
  What every component shares. A JavaScript string is a HOL \<open>string\<close>: a list of code units,
  restricted to the code units below 256; a JavaScript \<open>Map\<close> is an association list kept in
  insertion order (\<open>Map.prototype.set\<close> overwrites in place and appends a new key at the end);
  a call that may throw is a value of a sum type with the error on the left; \<open>Array.prototype.sort\<close>
  is a stable insertion sort whose comparator may throw. The host facilities ECMAScript leaves to
  the implementation (\<open>Date.parse\<close>, \<open>Date.prototype.toISOString\<close>,
  \<open>String.prototype.localeCompare\<close>) are the fields of a record that the definitions take as
  an argument.
\<close>

named_theorems err_simps \<open>evaluation and inversion of calls that may throw\<close>
named_theorems js_map_simps \<open>lookup and update of insertion-ordered maps\<close>

section \<open>Calls that may throw\<close>

fun and_then :: "'e + 'a \<Rightarrow> ('a \<Rightarrow> 'e + 'b) \<Rightarrow> 'e + 'b" where
  "and_then (Inl e) f = Inl e"
| "and_then (Inr x) f = f x"

lemma and_then_Inr [err_simps]: "and_then m f = Inr y \<longleftrightarrow> (\<exists>x. m = Inr x \<and> f x = Inr y)"
  by (cases m) auto

lemma and_then_Inl [err_simps]:
  "and_then m f = Inl e \<longleftrightarrow> m = Inl e \<or> (\<exists>x. m = Inr x \<and> f x = Inl e)"
  by (cases m) auto

text \<open>A guard that throws \<open>e\<close> when the condition fails.\<close>

definition ensure :: "bool \<Rightarrow> 'e \<Rightarrow> 'e + unit" where
  "ensure b e = (if b then Inr () else Inl e)"

lemma ensure_Inr [err_simps]: "ensure b e = Inr u \<longleftrightarrow> b"
  by (simp add: ensure_def)

lemma ensure_Inl [err_simps]: "ensure b e = Inl e' \<longleftrightarrow> \<not> b \<and> e' = e"
  by (auto simp: ensure_def)

lemma ensure_simps [simp]: "ensure True e = Inr ()" "ensure False e = Inl e"
  by (simp_all add: ensure_def)

text \<open>\<open>Array.prototype.map\<close> with a callback that may throw: left to right, stopping at the
  first error.\<close>

fun map_err :: "('a \<Rightarrow> 'e + 'b) \<Rightarrow> 'a list \<Rightarrow> 'e + 'b list" where
  "map_err f [] = Inr []"
| "map_err f (x # xs) =
     and_then (f x) (\<lambda>y. and_then (map_err f xs) (\<lambda>ys. Inr (y # ys)))"

lemma map_err_Inr:
  "map_err f xs = Inr ys \<longleftrightarrow> list_all2 (\<lambda>x y. f x = Inr y) xs ys"
  by (induction xs arbitrary: ys) (auto simp: err_simps list_all2_Cons1)

lemma list_all2_right: "list_all2 P xs ys \<Longrightarrow> y \<in> set ys \<Longrightarrow> \<exists>x \<in> set xs. P x y"
  by (induction rule: list_all2_induct) auto

lemma list_all2_left: "list_all2 P xs ys \<Longrightarrow> x \<in> set xs \<Longrightarrow> \<exists>y \<in> set ys. P x y"
  by (induction rule: list_all2_induct) auto

lemma map_err_length: "map_err f xs = Inr ys \<Longrightarrow> length ys = length xs"
  by (auto simp: map_err_Inr dest: list_all2_lengthD)

lemma map_err_map:
  assumes "map_err f xs = Inr ys" and "\<And>x y. f x = Inr y \<Longrightarrow> g y = h x"
  shows "map g ys = map h xs"
proof -
  have "list_all2 (\<lambda>x y. f x = Inr y) xs ys" using assms(1) by (simp add: map_err_Inr)
  then show ?thesis by (induction rule: list_all2_induct) (auto simp: assms(2))
qed

lemma map_err_total:
  assumes "\<And>x. x \<in> set xs \<Longrightarrow> f x = Inr (g x)"
  shows "map_err f xs = Inr (map g xs)"
  using assms by (induction xs) auto

text \<open>The same for an optional argument, and \<open>Array.prototype.filter\<close> with a callback that may
  throw.\<close>

fun map_opt_err :: "('a \<Rightarrow> 'e + 'b) \<Rightarrow> 'a option \<Rightarrow> 'e + 'b option" where
  "map_opt_err f None = Inr None"
| "map_opt_err f (Some x) = and_then (f x) (\<lambda>y. Inr (Some y))"

fun filter_err :: "('a \<Rightarrow> 'e + bool) \<Rightarrow> 'a list \<Rightarrow> 'e + 'a list" where
  "filter_err p [] = Inr []"
| "filter_err p (x # xs) = and_then (p x) (\<lambda>b. and_then (filter_err p xs) (\<lambda>ys.
     Inr (if b then x # ys else ys)))"

lemma map_opt_err_Inr [err_simps]:
  "map_opt_err f v = Inr w \<longleftrightarrow>
   (case v of None \<Rightarrow> w = None | Some x \<Rightarrow> \<exists>y. f x = Inr y \<and> w = Some y)"
  by (cases v) (auto simp: and_then_Inr)

lemma filter_err_Inr:
  "filter_err p xs = Inr ys \<Longrightarrow> ys = filter (\<lambda>x. p x = Inr True) xs"
  by (induction xs arbitrary: ys) (auto simp: and_then_Inr split: if_splits)

text \<open>A \<open>for\<close> loop with an accumulator whose body may throw.\<close>

fun fold_err :: "('a \<Rightarrow> 's \<Rightarrow> 'e + 's) \<Rightarrow> 'a list \<Rightarrow> 's \<Rightarrow> 'e + 's" where
  "fold_err f [] s = Inr s"
| "fold_err f (x # xs) s = and_then (f x s) (\<lambda>s'. fold_err f xs s')"

lemma fold_err_invariant:
  assumes "fold_err f xs s = Inr t" and "I s"
    and "\<And>x s s'. x \<in> set xs \<Longrightarrow> I s \<Longrightarrow> f x s = Inr s' \<Longrightarrow> I s'"
  shows "I t"
  using assms
proof (induction xs arbitrary: s)
  case (Cons x xs)
  from Cons.prems(1) obtain s' where s': "f x s = Inr s'" "fold_err f xs s' = Inr t"
    by (auto simp: err_simps)
  have "I s'" using Cons.prems(2,3) s'(1) by auto
  then show ?case using Cons.IH [OF s'(2)] Cons.prems(3) by auto
qed simp

lemma fold_err_append:
  "fold_err f (xs @ ys) s = and_then (fold_err f xs s) (fold_err f ys)"
proof (induction xs arbitrary: s)
  case (Cons x xs)
  then show ?case by (cases "f x s") auto
qed simp

section \<open>Array.prototype.sort\<close>

text \<open>
  The comparator is a number as in JavaScript (negative, zero, positive), and it may throw. The
  sort is stable, as ECMAScript requires. Which pairs an engine compares is not specified, so
  whether a throwing comparator is reached at all depends on the engine; the model is an insertion
  sort, and with a comparator that returns it computes the one stable result.
\<close>

fun insert_err :: "('a \<Rightarrow> 'a \<Rightarrow> 'e + int) \<Rightarrow> 'a \<Rightarrow> 'a list \<Rightarrow> 'e + 'a list" where
  "insert_err c x [] = Inr [x]"
| "insert_err c x (y # ys) =
     and_then (c x y) (\<lambda>n. if n \<le> 0 then Inr (x # y # ys)
       else and_then (insert_err c x ys) (\<lambda>zs. Inr (y # zs)))"

fun sort_err :: "('a \<Rightarrow> 'a \<Rightarrow> 'e + int) \<Rightarrow> 'a list \<Rightarrow> 'e + 'a list" where
  "sort_err c [] = Inr []"
| "sort_err c (x # xs) = and_then (sort_err c xs) (\<lambda>ys. insert_err c x ys)"

fun insert_by :: "('a \<Rightarrow> 'a \<Rightarrow> int) \<Rightarrow> 'a \<Rightarrow> 'a list \<Rightarrow> 'a list" where
  "insert_by c x [] = [x]"
| "insert_by c x (y # ys) = (if c x y \<le> 0 then x # y # ys else y # insert_by c x ys)"

definition sort_by :: "('a \<Rightarrow> 'a \<Rightarrow> int) \<Rightarrow> 'a list \<Rightarrow> 'a list" where
  "sort_by c xs = foldr (insert_by c) xs []"

lemma insert_err_mset: "insert_err c x ys = Inr zs \<Longrightarrow> mset zs = add_mset x (mset ys)"
  by (induction ys arbitrary: zs) (auto simp: err_simps split: if_splits)

lemma sort_err_mset: "sort_err c xs = Inr ys \<Longrightarrow> mset ys = mset xs"
  by (induction xs arbitrary: ys) (auto simp: err_simps dest: insert_err_mset)

lemma sort_err_set: "sort_err c xs = Inr ys \<Longrightarrow> set ys = set xs"
  by (metis sort_err_mset set_mset_mset)

lemma insert_err_total:
  "(\<And>y. y \<in> set ys \<Longrightarrow> c x y = Inr (d x y)) \<Longrightarrow> \<exists>zs. insert_err c x ys = Inr zs"
  by (induction ys) auto

lemma sort_err_total:
  assumes "\<And>x y. x \<in> set xs \<Longrightarrow> y \<in> set xs \<Longrightarrow> \<exists>n. c x y = Inr n"
  shows "\<exists>ys. sort_err c xs = Inr ys"
  using assms
proof (induction xs)
  case (Cons x xs)
  then obtain ys where ys: "sort_err c xs = Inr ys" by auto
  have "c x y = Inr (projr (c x y))" if "y \<in> set ys" for y
  proof -
    have "y \<in> set xs" using that sort_err_set [OF ys] by simp
    then obtain n where "c x y = Inr n" using Cons.prems by fastforce
    then show ?thesis by simp
  qed
  then obtain zs where "insert_err c x ys = Inr zs"
    using insert_err_total [of ys c x "\<lambda>x y. projr (c x y)"] by blast
  then show ?case by (simp add: ys)
qed simp

lemma insert_err_by: "insert_err (\<lambda>x y. Inr (c x y)) x ys = Inr (insert_by c x ys)"
  by (induction ys) auto

lemma sort_err_by: "sort_err (\<lambda>x y. Inr (c x y)) xs = Inr (sort_by c xs)"
  by (induction xs) (auto simp: sort_by_def insert_err_by)

lemma insert_by_mset [simp]: "mset (insert_by c x ys) = add_mset x (mset ys)"
  by (induction ys) auto

lemma sort_by_mset [simp]: "mset (sort_by c xs) = mset xs"
  by (induction xs) (auto simp: sort_by_def)

lemma sort_by_set [simp]: "set (sort_by c xs) = set xs"
  by (metis sort_by_mset set_mset_mset)

lemma sort_by_length [simp]: "length (sort_by c xs) = length xs"
  by (metis sort_by_mset size_mset)

lemma sort_by_Nil [simp]: "sort_by c [] = []"
  by (simp add: sort_by_def)

text \<open>A comparator is consistent, in ECMAScript's sense, when it is a total preorder.\<close>

locale consistent_comparator =
  fixes c :: "'a \<Rightarrow> 'a \<Rightarrow> int"
  assumes total: "c x y \<le> 0 \<or> c y x \<le> 0"
    and le_trans: "c x y \<le> 0 \<Longrightarrow> c y z \<le> 0 \<Longrightarrow> c x z \<le> 0"
begin

lemma insert_sorted:
  "sorted_wrt (\<lambda>x y. c x y \<le> 0) ys \<Longrightarrow> sorted_wrt (\<lambda>x y. c x y \<le> 0) (insert_by c x ys)"
proof (induction ys)
  case (Cons y ys)
  have set_eq: "set (insert_by c x ys) = insert x (set ys)"
    by (metis insert_by_mset set_mset_add_mset_insert set_mset_mset)
  show ?case using Cons total [of x y] by (auto simp: set_eq intro: le_trans)
qed simp

lemma sorted_sort_by: "sorted_wrt (\<lambda>x y. c x y \<le> 0) (sort_by c xs)"
  by (induction xs) (auto simp: sort_by_def intro: insert_sorted)

end

section \<open>Insertion-ordered maps\<close>

type_synonym ('k, 'v) js_map = "('k \<times> 'v) list"

definition map_get :: "('k, 'v) js_map \<Rightarrow> 'k \<Rightarrow> 'v option" where
  "map_get m k = map_of m k"

definition map_set :: "'k \<Rightarrow> 'v \<Rightarrow> ('k, 'v) js_map \<Rightarrow> ('k, 'v) js_map" where
  "map_set k v m = AList.update k v m"

definition map_values :: "('k, 'v) js_map \<Rightarrow> 'v list" where
  "map_values m = map snd m"

definition map_ok :: "('k, 'v) js_map \<Rightarrow> bool" where
  "map_ok m \<longleftrightarrow> distinct (map fst m)"

text \<open>\<open>new Map(pairs)\<close>: a later pair overwrites an earlier one of the same key.\<close>

definition map_from :: "('k \<times> 'v) list \<Rightarrow> ('k, 'v) js_map" where
  "map_from ps = fold (\<lambda>(k, v). map_set k v) ps []"

text \<open>The interface the stores rely on.\<close>

locale ordered_map =
  fixes get :: "'m \<Rightarrow> 'k \<Rightarrow> 'v option"
    and put :: "'k \<Rightarrow> 'v \<Rightarrow> 'm \<Rightarrow> 'm"
    and vals :: "'m \<Rightarrow> 'v list"
    and ok :: "'m \<Rightarrow> bool"
  assumes get_put: "get (put k v m) k' = (if k' = k then Some v else get m k')"
    and ok_put: "ok m \<Longrightarrow> ok (put k v m)"
    and vals_get: "ok m \<Longrightarrow> v \<in> set (vals m) \<longleftrightarrow> (\<exists>k. get m k = Some v)"
begin

lemma get_put_same: "get (put k v m) k = Some v"
  by (simp add: get_put)

lemma vals_put: "ok m \<Longrightarrow> w \<in> set (vals (put k v m)) \<Longrightarrow> w = v \<or> w \<in> set (vals m)"
  by (auto simp: vals_get ok_put get_put split: if_splits)

lemma vals_put_new: "ok m \<Longrightarrow> v \<in> set (vals (put k v m))"
  by (auto simp: vals_get ok_put get_put)

lemma get_vals: "ok m \<Longrightarrow> get m k = Some v \<Longrightarrow> v \<in> set (vals m)"
  by (auto simp: vals_get)

end

interpretation jm: ordered_map "map_get :: ('k, 'v) js_map \<Rightarrow> 'k \<Rightarrow> 'v option" map_set map_values map_ok
proof
  fix k k' :: 'k and v :: 'v and m :: "('k, 'v) js_map"
  show "map_get (map_set k v m) k' = (if k' = k then Some v else map_get m k')"
    by (simp add: map_get_def map_set_def update_conv)
  show "map_ok (map_set k v m)" if "map_ok m"
    using that by (simp add: map_ok_def map_set_def distinct_update)
  show "v \<in> set (map_values m) \<longleftrightarrow> (\<exists>k. map_get m k = Some v)" if "map_ok m"
    using that by (force simp: map_ok_def map_values_def map_get_def)
qed

lemmas map_get_set [js_map_simps, simp] = jm.get_put

lemma map_ok_Nil [simp]: "map_ok []"
  by (simp add: map_ok_def)

lemma map_get_Nil [simp]: "map_get [] k = None"
  by (simp add: map_get_def)

lemma map_values_Nil [simp]: "map_values [] = []"
  by (simp add: map_values_def)

lemma map_set_present:
  "map_ok m \<Longrightarrow> map_get m k = Some w \<Longrightarrow>
   map_set k v m = map (\<lambda>(k', v'). (k', if k' = k then v else v')) m"
proof (induction m)
  case (Cons p m)
  obtain k' v' where p: "p = (k', v')" by (cases p)
  show ?case
  proof (cases "k' = k")
    case True
    then have "\<And>q. q \<in> set m \<Longrightarrow> fst q \<noteq> k"
      using Cons.prems p by (force simp: map_ok_def)
    then have "map (\<lambda>(k', v'). (k', if k' = k then v else v')) m = m"
      by (intro map_idI) auto
    then show ?thesis using True p by (simp add: map_set_def)
  next
    case False
    then show ?thesis
      using Cons p by (simp add: map_set_def map_get_def map_ok_def)
  qed
qed simp

lemma map_set_absent: "map_get m k = None \<Longrightarrow> map_set k v m = m @ [(k, v)]"
  by (induction m) (auto simp: map_set_def map_get_def split: if_splits)

text \<open>Replacing a value changes a total over the values by the difference.\<close>

lemma sum_map_set:
  fixes f :: "'v \<Rightarrow> 'a :: comm_monoid_add"
  shows "map_ok m \<Longrightarrow> (\<Sum>x\<leftarrow>map_values (map_set k v m). f x) + (case map_get m k of None \<Rightarrow> 0 | Some w \<Rightarrow> f w) =
    (\<Sum>x\<leftarrow>map_values m. f x) + f v"
proof (induction m)
  case (Cons p m)
  obtain k' v' where p: "p = (k', v')" by (cases p)
  show ?case
  proof (cases "k' = k")
    case False
    have "(\<Sum>x\<leftarrow>map_values (map_set k v m). f x) + (case map_get m k of None \<Rightarrow> 0 | Some w \<Rightarrow> f w) =
        (\<Sum>x\<leftarrow>map_values m. f x) + f v" using Cons by (simp add: map_ok_def)
    then show ?thesis using False p
      by (simp add: map_set_def map_get_def map_values_def add.assoc)
  qed (simp add: p map_set_def map_get_def map_values_def add_ac)
qed (simp add: map_set_def map_get_def map_values_def)

text \<open>A map that stores every value under a key of its own.\<close>

definition keyed :: "('v \<Rightarrow> 'k) \<Rightarrow> ('k, 'v) js_map \<Rightarrow> bool" where
  "keyed f m \<longleftrightarrow> map_ok m \<and> (\<forall>k v. map_get m k = Some v \<longrightarrow> f v = k)"

lemma keyed_Nil [simp]: "keyed f []"
  by (simp add: keyed_def)

lemma keyedD: "keyed f m \<Longrightarrow> map_get m k = Some v \<Longrightarrow> f v = k"
  by (simp add: keyed_def)

lemma keyed_put: "keyed f m \<Longrightarrow> f v = k \<Longrightarrow> keyed f (map_set k v m)"
  by (auto simp: keyed_def jm.ok_put)

lemma keyed_values: "keyed f m \<Longrightarrow> v \<in> set (map_values m) \<longleftrightarrow> map_get m (f v) = Some v"
  using jm.vals_get [of m v] by (auto simp: keyed_def)

lemma keyed_put_values:
  assumes "keyed f m"
  shows "x \<in> set (map_values (map_set (f v) v m)) \<longleftrightarrow> x = v \<or> x \<in> set (map_values m) \<and> f x \<noteq> f v"
  unfolding keyed_values [OF assms] keyed_values [OF keyed_put [OF assms refl]] by auto

section \<open>The host\<close>

text \<open>
  \<open>Date.parse\<close> (\<open>None\<close> is \<open>NaN\<close>), \<open>new Date(ms).toISOString()\<close> for a finite time value, and
  \<open>localeCompare\<close>. The laws ECMAScript documents for them are stated where a result needs them.
\<close>

record host =
  dateParse :: "string \<Rightarrow> int option"
  toISOString :: "int \<Rightarrow> string"
  localeCompare :: "string \<Rightarrow> string \<Rightarrow> int"

text \<open>White space and line terminators below code unit 256, as \<open>String.prototype.trim\<close> strips
  them.\<close>

definition code :: "char \<Rightarrow> nat" where
  "code c = of_char c"

definition js_space :: "char \<Rightarrow> bool" where
  "js_space c \<longleftrightarrow> code c \<in> {9, 10, 11, 12, 13, 32, 160}"

definition js_trim :: "string \<Rightarrow> string" where
  "js_trim s = rev (dropWhile js_space (rev (dropWhile js_space s)))"

lemma js_trim_Nil: "js_trim s = [] \<longleftrightarrow> (\<forall>c \<in> set s. js_space c)"
proof -
  have "js_trim s = [] \<longleftrightarrow> (\<forall>c \<in> set (dropWhile js_space s). js_space c)"
    by (simp add: js_trim_def)
  also have "\<dots> \<longleftrightarrow> (\<forall>c \<in> set s. js_space c)"
    by (metis dropWhile_eq_Nil_conv set_dropWhileD hd_dropWhile hd_in_set)
  finally show ?thesis .
qed

text \<open>\<open>a || b\<close> on comparison results.\<close>

definition or_else :: "int \<Rightarrow> int \<Rightarrow> int" where
  "or_else a b = (if a \<noteq> 0 then a else b)"

end
