(* ===== verification/Amounts.thy ===== *)
theory Amounts
  imports Prelude
begin

text \<open>
  \<^verbatim>\<open>packages/protocol/src/amounts.ts\<close>: atomic token amounts travel as canonical decimal strings and
  are computed on as \<open>bigint\<close> (a HOL \<open>int\<close>). \<open>show_nat\<close> is \<open>BigInt.prototype.toString(10)\<close> on
  non-negative values, \<open>bigint_of_string\<close> the ECMAScript conversion \<open>BigInt(string)\<close>.
\<close>

section \<open>Decimal strings\<close>

definition is_digit :: "char \<Rightarrow> bool" where
  "is_digit c \<longleftrightarrow> 48 \<le> code c \<and> code c \<le> 57"

definition digit_char :: "nat \<Rightarrow> char" where
  "digit_char n = char_of (48 + n)"

definition digit_val :: "char \<Rightarrow> nat" where
  "digit_val c = code c - 48"

fun show_nat :: "nat \<Rightarrow> string" where
  "show_nat n = (if n < 10 then [digit_char n] else show_nat (n div 10) @ [digit_char (n mod 10)])"

declare show_nat.simps [simp del]

definition nat_of_digits :: "string \<Rightarrow> nat" where
  "nat_of_digits s = foldl (\<lambda>n c. 10 * n + digit_val c) 0 s"

definition show_int :: "int \<Rightarrow> string" where
  "show_int i = (if i < 0 then CHR ''-'' # show_nat (nat (- i)) else show_nat (nat i))"

lemma code_digit_char: "n < 10 \<Longrightarrow> code (digit_char n) = 48 + n"
  by (simp add: code_def digit_char_def)

lemma is_digit_char [simp]: "n < 10 \<Longrightarrow> is_digit (digit_char n)"
  by (simp add: is_digit_def code_digit_char)

lemma digit_val_char [simp]: "n < 10 \<Longrightarrow> digit_val (digit_char n) = n"
  by (simp add: digit_val_def code_digit_char)

lemma digit_char_val [simp]: "is_digit c \<Longrightarrow> digit_char (digit_val c) = c"
  by (simp add: digit_char_def digit_val_def is_digit_def code_def)

lemma digit_val_less [simp]: "is_digit c \<Longrightarrow> digit_val c < 10"
  by (auto simp: is_digit_def digit_val_def)

lemma digit_char_zero: "digit_char 0 = CHR ''0''"
  using char_of_char [of "CHR ''0''"] by (simp add: digit_char_def)

lemma digit_char_eq_zero: "n < 10 \<Longrightarrow> digit_char n = CHR ''0'' \<longleftrightarrow> n = 0"
  by (metis digit_char_zero digit_val_char zero_less_numeral)

lemma nat_of_digits_snoc [simp]:
  "nat_of_digits (s @ [c]) = 10 * nat_of_digits s + digit_val c"
  by (simp add: nat_of_digits_def)

lemma nat_of_digits_show [simp]: "nat_of_digits (show_nat n) = n"
proof (induction n rule: show_nat.induct)
  case (1 n)
  show ?case
  proof (cases "n < 10")
    case True
    then show ?thesis by (subst show_nat.simps) (simp add: nat_of_digits_def)
  next
    case False
    with 1 show ?thesis by (subst show_nat.simps) simp
  qed
qed

lemma show_nat_digits: "c \<in> set (show_nat n) \<Longrightarrow> is_digit c"
proof (induction n rule: show_nat.induct)
  case (1 n)
  then show ?case by (subst (asm) (2) show_nat.simps) (auto split: if_splits)
qed

lemma show_nat_nonempty [simp]: "show_nat n \<noteq> []"
  by (subst show_nat.simps) simp

lemma show_nat_inj: "show_nat m = show_nat n \<longleftrightarrow> m = n"
  by (metis nat_of_digits_show)

text \<open>The regular expression of an atomic amount, \<^verbatim>\<open>/^(0|[1-9][0-9]*)$/\<close>.\<close>

definition atomic_regex :: "string \<Rightarrow> bool" where
  "atomic_regex s \<longleftrightarrow>
     s = ''0'' \<or> (s \<noteq> [] \<and> hd s \<noteq> CHR ''0'' \<and> (\<forall>c \<in> set s. is_digit c))"

lemma hd_show_nat: "n \<noteq> 0 \<Longrightarrow> hd (show_nat n) \<noteq> CHR ''0''"
proof (induction n rule: show_nat.induct)
  case (1 n)
  show ?case
  proof (cases "n < 10")
    case True
    with 1 show ?thesis by (subst show_nat.simps) (simp add: digit_char_eq_zero)
  next
    case False
    then have "n div 10 \<noteq> 0" by auto
    with 1 False show ?thesis by (subst show_nat.simps) simp
  qed
qed

lemma show_nat_zero: "show_nat 0 = ''0''"
  by (subst show_nat.simps) (simp add: digit_char_zero)

lemma atomic_regex_show_nat [simp]: "atomic_regex (show_nat n)"
  by (cases "n = 0") (auto simp: atomic_regex_def show_nat_zero hd_show_nat dest: show_nat_digits)

text \<open>A digit string without a superfluous leading zero is the one decimal form of its value.\<close>

lemma nat_of_digits_pos:
  "s \<noteq> [] \<Longrightarrow> hd s \<noteq> CHR ''0'' \<Longrightarrow> \<forall>c \<in> set s. is_digit c \<Longrightarrow> 0 < nat_of_digits s"
proof (induction s rule: rev_induct)
  case (snoc c s)
  show ?case
  proof (cases "s = []")
    case True
    then have "digit_val c \<noteq> 0"
      using snoc.prems by (metis append_Nil digit_char_val digit_char_zero list.sel(1) list.set_intros(1))
    then show ?thesis using True by (simp add: nat_of_digits_def)
  next
    case False
    with snoc show ?thesis by simp
  qed
qed simp

lemma show_nat_of_digits:
  "s \<noteq> [] \<Longrightarrow> hd s \<noteq> CHR ''0'' \<Longrightarrow> \<forall>c \<in> set s. is_digit c \<Longrightarrow> show_nat (nat_of_digits s) = s"
proof (induction s rule: rev_induct)
  case (snoc c s)
  have c: "is_digit c" using snoc.prems by simp
  show ?case
  proof (cases "s = []")
    case True
    then show ?thesis
      using c by (subst show_nat.simps) (simp add: nat_of_digits_def)
  next
    case False
    then have "0 < nat_of_digits s" "show_nat (nat_of_digits s) = s"
      using snoc nat_of_digits_pos by auto
    then show ?thesis using c by (subst show_nat.simps) (simp add: div_mult2_eq)
  qed
qed simp

lemma show_nat_of_regex: "atomic_regex s \<Longrightarrow> show_nat (nat_of_digits s) = s"
  by (auto simp: atomic_regex_def show_nat_of_digits)
    (simp add: nat_of_digits_def digit_val_def code_def show_nat_zero)

section \<open>amounts.ts\<close>

definition parseAtomicAmount :: "string \<Rightarrow> string + int" where
  "parseAtomicAmount v =
     (if \<not> atomic_regex v then Inl ''atomic amount must be a non-negative decimal string''
      else Inr (int (nat_of_digits v)))"

definition serializeAtomicAmount :: "int \<Rightarrow> string + string" where
  "serializeAtomicAmount v =
     (if v < 0 then Inl ''atomic amount cannot be negative'' else Inr (show_int v))"

definition assertAtomicAmountString :: "string \<Rightarrow> string + unit" where
  "assertAtomicAmountString v = and_then (parseAtomicAmount v) (\<lambda>_. Inr ())"

text \<open>What the code uses the value of an amount string for, where the schema already holds.\<close>

definition amount_of :: "string \<Rightarrow> int" where
  "amount_of v = int (nat_of_digits v)"

lemma parseAtomicAmount_Inr: "parseAtomicAmount v = Inr n \<longleftrightarrow> atomic_regex v \<and> n = amount_of v"
  by (auto simp: parseAtomicAmount_def amount_of_def)

lemma parseAtomicAmount_Inl:
  "parseAtomicAmount v = Inl e \<longleftrightarrow>
   \<not> atomic_regex v \<and> e = ''atomic amount must be a non-negative decimal string''"
  by (auto simp: parseAtomicAmount_def)

lemma amount_of_nonneg [simp]: "0 \<le> amount_of v"
  by (simp add: amount_of_def)

lemma amount_of_show_int [simp]: "0 \<le> n \<Longrightarrow> amount_of (show_int n) = n"
  by (simp add: amount_of_def show_int_def)

lemma show_int_amount_of: "atomic_regex v \<Longrightarrow> show_int (amount_of v) = v"
  by (simp add: amount_of_def show_int_def show_nat_of_regex)

lemma atomic_regex_show_int [simp]: "0 \<le> n \<Longrightarrow> atomic_regex (show_int n)"
  by (simp add: show_int_def)

lemma amount_of_inj: "atomic_regex v \<Longrightarrow> atomic_regex w \<Longrightarrow> amount_of v = amount_of w \<longleftrightarrow> v = w"
  by (metis show_int_amount_of)

lemma serializeAtomicAmount_nonneg [simp]: "0 \<le> n \<Longrightarrow> serializeAtomicAmount n = Inr (show_int n)"
  by (simp add: serializeAtomicAmount_def)

text \<open>Atomic amounts round trip: serialising any non-negative amount yields a string that parses
  back to it, and every string the parser accepts is exactly the serialisation of the amount it
  parses to, so an amount has one accepted spelling.\<close>

theorem atomic_amount_roundtrip:
  "(\<forall>n. 0 \<le> n \<longrightarrow> and_then (serializeAtomicAmount n) parseAtomicAmount = Inr n) \<and>
   (\<forall>v n. parseAtomicAmount v = Inr n \<longrightarrow> 0 \<le> n \<and> serializeAtomicAmount n = Inr v)"
  by (auto simp: parseAtomicAmount_Inr show_int_amount_of)

theorem atomic_amount_roundtrip_witness:
  "and_then (serializeAtomicAmount 1907) parseAtomicAmount = Inr 1907 \<and>
   parseAtomicAmount ''0420'' = Inl ''atomic amount must be a non-negative decimal string''"
  using atomic_amount_roundtrip
  by (auto simp: parseAtomicAmount_def atomic_regex_def)

section \<open>BigInt(string)\<close>

text \<open>
  ECMAScript's \<open>StringToBigInt\<close>: surrounding white space is ignored, the empty string is 0, a sign
  is allowed before a decimal literal only, and 0x, 0o and 0b literals are accepted. \<open>None\<close> is the
  \<open>SyntaxError\<close>.
\<close>

definition radix_val :: "char \<Rightarrow> nat" where
  "radix_val c = (if is_digit c then digit_val c
     else if 97 \<le> code c \<and> code c \<le> 122 then code c - 87
     else if 65 \<le> code c \<and> code c \<le> 90 then code c - 55 else 36)"

definition nat_of_radix :: "nat \<Rightarrow> string \<Rightarrow> nat option" where
  "nat_of_radix b s =
     (if s \<noteq> [] \<and> (\<forall>c \<in> set s. radix_val c < b)
      then Some (foldl (\<lambda>n c. b * n + radix_val c) 0 s) else None)"

definition bigint_of_string :: "string \<Rightarrow> int option" where
  "bigint_of_string v = (case js_trim v of
       [] \<Rightarrow> Some 0
     | [c] \<Rightarrow> map_option int (nat_of_radix 10 [c])
     | c # d # s \<Rightarrow>
         (if c = CHR ''-'' then map_option (\<lambda>n. - int n) (nat_of_radix 10 (d # s))
          else if c = CHR ''+'' then map_option int (nat_of_radix 10 (d # s))
          else if c = CHR ''0'' \<and> d \<in> {CHR ''x'', CHR ''X''} then map_option int (nat_of_radix 16 s)
          else if c = CHR ''0'' \<and> d \<in> {CHR ''o'', CHR ''O''} then map_option int (nat_of_radix 8 s)
          else if c = CHR ''0'' \<and> d \<in> {CHR ''b'', CHR ''B''} then map_option int (nat_of_radix 2 s)
          else map_option int (nat_of_radix 10 (c # d # s))))"

lemma js_trim_id: "\<forall>c \<in> set s. \<not> js_space c \<Longrightarrow> js_trim s = s"
proof -
  have *: "dropWhile js_space t = t" if "\<forall>c \<in> set t. \<not> js_space c" for t
    using that by (cases t) auto
  assume "\<forall>c \<in> set s. \<not> js_space c"
  then show ?thesis by (simp add: js_trim_def *)
qed

lemma is_digit_not_space [simp]: "is_digit c \<Longrightarrow> \<not> js_space c"
  by (auto simp: is_digit_def js_space_def)

lemma not_digit [simp]:
  "\<not> is_digit (CHR ''-'')" "\<not> is_digit (CHR ''+'')" "\<not> is_digit (CHR ''x'')"
  "\<not> is_digit (CHR ''X'')" "\<not> is_digit (CHR ''o'')" "\<not> is_digit (CHR ''O'')"
  "\<not> is_digit (CHR ''b'')" "\<not> is_digit (CHR ''B'')" "is_digit (CHR ''0'')"
  by (simp_all add: is_digit_def code_def)

lemma not_space_minus [simp]: "\<not> js_space (CHR ''-'')"
  by (simp add: js_space_def code_def)

lemma radix_val_digit [simp]: "is_digit c \<Longrightarrow> radix_val c = digit_val c"
  by (simp add: radix_val_def)

lemma foldl_digits_cong:
  "\<forall>c \<in> set s. is_digit c \<Longrightarrow>
   foldl (\<lambda>n c. 10 * n + radix_val c) a s = foldl (\<lambda>n c. 10 * n + digit_val c) a s"
  by (induction s arbitrary: a) auto

lemma nat_of_radix_digits:
  "s \<noteq> [] \<Longrightarrow> \<forall>c \<in> set s. is_digit c \<Longrightarrow> nat_of_radix 10 s = Some (nat_of_digits s)"
  by (auto simp: nat_of_radix_def nat_of_digits_def foldl_digits_cong)

lemma bigint_digits:
  assumes "s \<noteq> []" and dig: "\<forall>c \<in> set s. is_digit c"
  shows "bigint_of_string s = Some (int (nat_of_digits s))"
proof -
  have trim: "js_trim s = s" using assms by (intro js_trim_id) auto
  have rad: "nat_of_radix 10 s = Some (nat_of_digits s)"
    using assms by (rule nat_of_radix_digits)
  show ?thesis
  proof (cases s rule: list.exhaust [case_product list.exhaust [of "tl s"]])
    case (Cons_Nil c s')
    then show ?thesis using trim rad by (simp add: bigint_of_string_def)
  next
    case (Cons_Cons c s' d s'')
    then have s: "s = c # d # s''" by simp
    then have "is_digit c" "is_digit d" using dig by auto
    then have "c \<noteq> CHR ''-''" "c \<noteq> CHR ''+''" "d \<notin> {CHR ''x'', CHR ''X''}"
      "d \<notin> {CHR ''o'', CHR ''O''}" "d \<notin> {CHR ''b'', CHR ''B''}" by auto
    then show ?thesis using trim rad unfolding s by (simp add: bigint_of_string_def)
  qed (use assms in auto)
qed

lemma bigint_neg_digits:
  assumes "s \<noteq> []" and "\<forall>c \<in> set s. is_digit c"
  shows "bigint_of_string (CHR ''-'' # s) = Some (- int (nat_of_digits s))"
proof -
  have "js_trim (CHR ''-'' # s) = CHR ''-'' # s"
    using assms by (intro js_trim_id) auto
  then show ?thesis
    using assms nat_of_radix_digits [OF assms]
    by (cases s) (simp_all add: bigint_of_string_def)
qed

lemma bigint_atomic [simp]: "atomic_regex v \<Longrightarrow> bigint_of_string v = Some (amount_of v)"
  by (auto simp: amount_of_def atomic_regex_def bigint_digits)

lemma show_nat_all_digits: "\<forall>c \<in> set (show_nat n). is_digit c"
  by (blast dest: show_nat_digits)

lemma bigint_show_int [simp]: "bigint_of_string (show_int i) = Some i"
  by (simp add: show_int_def bigint_digits bigint_neg_digits show_nat_all_digits
      del: bigint_atomic)

end
