(* ===== verification/Encoding.thy ===== *)
theory Encoding
  imports Amounts "HOL-Library.Word"
begin

text \<open>
  \<^verbatim>\<open>packages/protocol/src/encoding.ts\<close>: the byte encodings of keys, signatures and hashes. A byte is
  an \<open>8 word\<close>. The base58 digit arrays hold small non-negative numbers (below \<open>58 * 256\<close> while a
  carry is pending), so JavaScript's number and 32-bit operators on them agree with arithmetic on
  \<open>nat\<close>.
\<close>

type_synonym bytes = "8 word list"

definition byte :: "nat \<Rightarrow> 8 word" where
  "byte n = word_of_nat n"

lemma unat_byte [simp]: "n < 256 \<Longrightarrow> unat (byte n) = n"
  by (simp add: byte_def unat_of_nat)

lemma byte_unat [simp]: "byte (unat w) = w"
  by (simp add: byte_def)

lemma unat_lt256 [simp]: "unat (w :: 8 word) < 256"
  using unsigned_less [of w, where 'a = nat] by simp

lemma byte_eq: "m < 256 \<Longrightarrow> n < 256 \<Longrightarrow> byte m = byte n \<longleftrightarrow> m = n"
  by (metis unat_byte)

text \<open>\<open>TextEncoder.encode\<close> on code units below 256: one byte below 128, else two.\<close>

definition utf8_char :: "char \<Rightarrow> bytes" where
  "utf8_char c = (if code c < 128 then [byte (code c)]
     else [byte (192 + code c div 64), byte (128 + code c mod 64)])"

definition utf8Bytes :: "string \<Rightarrow> bytes" where
  "utf8Bytes s = concat (map utf8_char s)"

lemma code_lt256 [simp]: "code c < 256"
  by (simp add: code_def)

lemma code_inj [simp]: "code c = code d \<longleftrightarrow> c = d"
  by (metis code_def char_of_char)

lemma utf8_char_decode:
  assumes "utf8_char c @ xs = utf8_char d @ ys"
  shows "c = d \<and> xs = ys"
proof -
  have lead: "192 + code c div 64 < 256" "128 + code c mod 64 < 256" for c
    using code_lt256 [of c] by linarith+
  have "code c = code d \<and> xs = ys"
  proof (cases "code c < 128"; cases "code d < 128")
    assume "code c < 128" "code d < 128"
    then show ?thesis using assms by (simp add: utf8_char_def byte_eq)
  next
    assume "\<not> code c < 128" "\<not> code d < 128"
    then have "byte (192 + code c div 64) = byte (192 + code d div 64)"
      "byte (128 + code c mod 64) = byte (128 + code d mod 64)" "xs = ys"
      using assms by (auto simp: utf8_char_def)
    then have "code c div 64 = code d div 64" "code c mod 64 = code d mod 64" "xs = ys"
      using byte_eq lead add_left_cancel by metis+
    then show ?thesis by (metis div_mult_mod_eq)
  next
    assume h: "code c < 128" "\<not> code d < 128"
    then have "byte (code c) = byte (192 + code d div 64)"
      using assms by (simp add: utf8_char_def)
    then have "code c = 192 + code d div 64"
      using h(1) lead(1) [of d] by (simp add: byte_eq)
    then show ?thesis using h by linarith
  next
    assume h: "\<not> code c < 128" "code d < 128"
    then have "byte (192 + code c div 64) = byte (code d)"
      using assms by (simp add: utf8_char_def)
    then have "192 + code c div 64 = code d"
      using h(2) lead(1) [of c] by (simp add: byte_eq)
    then show ?thesis using h by linarith
  qed
  then show ?thesis by simp
qed

lemma utf8Bytes_inj: "utf8Bytes s = utf8Bytes t \<longleftrightarrow> s = t"
proof (induction s arbitrary: t)
  case Nil
  then show ?case by (cases t) (auto simp: utf8Bytes_def utf8_char_def)
next
  case (Cons c s)
  show ?case
  proof (cases t)
    case Nil
    then show ?thesis by (simp add: utf8Bytes_def utf8_char_def)
  next
    case (Cons d t')
    then show ?thesis
      using Cons.IH [of t'] utf8_char_decode [of c "utf8Bytes s" d "utf8Bytes t'"]
      by (auto simp: utf8Bytes_def)
  qed
qed

section \<open>Hexadecimal\<close>

definition hex_char :: "nat \<Rightarrow> char" where
  "hex_char n = (if n < 10 then digit_char n else char_of (87 + n))"

definition bytesToHex :: "bytes \<Rightarrow> string" where
  "bytesToHex bs = concat (map (\<lambda>b. [hex_char (unat b div 16), hex_char (unat b mod 16)]) bs)"

definition is_hex :: "char \<Rightarrow> bool" where
  "is_hex c \<longleftrightarrow> is_digit c \<or> (97 \<le> code c \<and> code c \<le> 102)"

fun hex_pairs :: "string \<Rightarrow> bytes" where
  "hex_pairs (c # d # s) = byte (16 * radix_val c + radix_val d) # hex_pairs s"
| "hex_pairs _ = []"

definition hexToBytes :: "string \<Rightarrow> string + bytes" where
  "hexToBytes h = (if \<not> (even (length h) \<and> (\<forall>c \<in> set h. is_hex c)) then Inl ''invalid lowercase hex''
     else Inr (hex_pairs h))"

lemma hex_char_props:
  assumes "n < 16"
  shows "is_hex (hex_char n)" "radix_val (hex_char n) = n"
proof -
  have "code (hex_char n) = (if n < 10 then 48 + n else 87 + n)"
    using assms by (simp add: hex_char_def code_digit_char) (simp add: code_def)
  then show "is_hex (hex_char n)" "radix_val (hex_char n) = n"
    using assms by (auto simp: is_hex_def is_digit_def radix_val_def digit_val_def)
qed

lemma hex_chars_ok: "c \<in> set (bytesToHex bs) \<Longrightarrow> is_hex c"
  by (auto simp: bytesToHex_def less_mult_imp_div_less intro!: hex_char_props)

lemma hex_roundtrip: "hexToBytes (bytesToHex bs) = Inr bs"
proof -
  have "even (length (bytesToHex bs))"
    by (induction bs) (auto simp: bytesToHex_def)
  moreover have "hex_pairs (bytesToHex bs) = bs"
  proof (induction bs)
    case (Cons b bs)
    have "unat b div 16 < 16" by (simp add: less_mult_imp_div_less)
    then show ?case using Cons by (simp add: bytesToHex_def hex_char_props)
  qed (simp add: bytesToHex_def)
  ultimately show ?thesis using hex_chars_ok by (auto simp: hexToBytes_def)
qed

section \<open>Base58\<close>

definition BASE58_ALPHABET :: string where
  "BASE58_ALPHABET = ''123456789ABCDEFGHJKLMNPQRSTUVWXYZabcdefghijkmnopqrstuvwxyz''"

definition base58_value :: "char \<Rightarrow> nat option" where
  "base58_value c = (let i = length (takeWhile (\<lambda>x. x \<noteq> c) BASE58_ALPHABET)
     in if i < length BASE58_ALPHABET then Some i else None)"

definition base58_char :: "nat \<Rightarrow> char" where
  "base58_char d = BASE58_ALPHABET ! d"

text \<open>
  Both directions run the same loop over a little-endian digit array: multiply every digit, add the
  carry, keep the remainder, then push what is left of the carry as new digits. \<open>b\<close> is 58 when
  encoding and 256 when decoding (\<open>& 0xff\<close> and \<open>>> 8\<close>).
\<close>

fun carry_through :: "nat \<Rightarrow> nat \<Rightarrow> nat \<Rightarrow> nat list \<Rightarrow> nat list \<times> nat" where
  "carry_through b m c [] = ([], c)"
| "carry_through b m c (d # ds) =
     (let v = d * m + c; (ds', c') = carry_through b m (v div b) ds in (v mod b # ds', c'))"

fun push_carry :: "nat \<Rightarrow> nat \<Rightarrow> nat list" where
  "push_carry b c = (if c = 0 \<or> b < 2 then [] else c mod b # push_carry b (c div b))"

declare push_carry.simps [simp del]

definition mul_add :: "nat \<Rightarrow> nat \<Rightarrow> nat \<Rightarrow> nat list \<Rightarrow> nat list" where
  "mul_add b m c ds = (let (ds', c') = carry_through b m c ds in ds' @ push_carry b c')"

definition base58_digits :: "bytes \<Rightarrow> nat list" where
  "base58_digits bs = foldl (\<lambda>ds w. mul_add 58 256 (unat w) ds) [0] bs"

definition base58Encode :: "bytes \<Rightarrow> string" where
  "base58Encode bs = (if bs = [] then []
     else replicate (length (takeWhile (\<lambda>w. w = 0) bs)) (CHR ''1'') @
       map base58_char (rev (base58_digits bs)))"

fun base58_bytes :: "string \<Rightarrow> nat list \<Rightarrow> string + nat list" where
  "base58_bytes [] bs = Inr bs"
| "base58_bytes (c # s) bs = (case base58_value c of
       None \<Rightarrow> Inl ''invalid base58''
     | Some v \<Rightarrow> base58_bytes s (mul_add 256 58 v bs))"

definition base58Decode :: "string \<Rightarrow> string + bytes" where
  "base58Decode s = (if s = [] then Inr []
     else and_then (base58_bytes s [0]) (\<lambda>bs.
       Inr (map byte (rev (bs @ replicate (length (takeWhile (\<lambda>c. c = CHR ''1'') s)) 0)))))"

definition assertByteLength :: "bytes \<Rightarrow> nat \<Rightarrow> string \<Rightarrow> string + unit" where
  "assertByteLength bs n label =
     ensure (length bs = n) (label @ '' must be '' @ show_nat n @ '' bytes'')"

subsection \<open>Digit arrays as numbers\<close>

fun digits_val :: "nat \<Rightarrow> nat list \<Rightarrow> nat" where
  "digits_val b [] = 0"
| "digits_val b (d # ds) = d + b * digits_val b ds"

definition canonical_digits :: "nat \<Rightarrow> nat list \<Rightarrow> bool" where
  "canonical_digits b ds \<longleftrightarrow> (\<forall>d \<in> set ds. d < b) \<and> (ds = [0] \<or> (ds \<noteq> [] \<and> last ds \<noteq> 0))"

lemma digits_val_append: "digits_val b (xs @ ys) = digits_val b xs + b ^ length xs * digits_val b ys"
  by (induction xs) (auto simp: algebra_simps)

lemma carry_through_val:
  assumes "0 < b" and "carry_through b m c ds = (es, k)"
  shows "digits_val b es + b ^ length ds * k = m * digits_val b ds + c \<and> length es = length ds \<and>
    (\<forall>e \<in> set es. e < b)"
  using assms(2)
proof (induction ds arbitrary: c es k)
  case (Cons d ds)
  let ?v = "d * m + c"
  obtain es' k' where r: "carry_through b m (?v div b) ds = (es', k')" by fastforce
  with Cons.prems have es: "es = ?v mod b # es'" "k = k'" by auto
  from Cons.IH [OF r] have IH: "digits_val b es' + b ^ length ds * k' = m * digits_val b ds + ?v div b"
    and len: "length es' = length ds" and lt: "\<forall>e \<in> set es'. e < b" by auto
  have "digits_val b es + b ^ length (d # ds) * k =
      ?v mod b + b * (digits_val b es' + b ^ length ds * k')"
    by (simp add: es algebra_simps)
  also have "\<dots> = ?v mod b + b * (?v div b) + b * (m * digits_val b ds)"
    unfolding IH by (simp only: distrib_left ac_simps)
  also have "\<dots> = ?v + b * (m * digits_val b ds)"
    by (simp only: mod_mult_div_eq)
  also have "\<dots> = m * digits_val b (d # ds) + c"
    by (simp add: algebra_simps)
  finally show ?case using len lt assms(1) by (auto simp: es)
qed simp

lemma push_carry_val: "2 \<le> b \<Longrightarrow> digits_val b (push_carry b c) = c"
proof (induction b c rule: push_carry.induct)
  case (1 b c)
  then show ?case by (subst push_carry.simps) auto
qed

lemma push_carry_digits: "d \<in> set (push_carry b c) \<Longrightarrow> d < b"
proof (induction b c rule: push_carry.induct)
  case (1 b c)
  then show ?case by (subst (asm) (2) push_carry.simps) (auto split: if_splits)
qed

lemma push_carry_last: "2 \<le> b \<Longrightarrow> push_carry b c \<noteq> [] \<Longrightarrow> last (push_carry b c) \<noteq> 0"
proof (induction b c rule: push_carry.induct)
  case (1 b c)
  have c: "c \<noteq> 0" using push_carry.simps [of b 0] "1.prems" by (cases "c = 0") auto
  have eq: "push_carry b c = c mod b # push_carry b (c div b)"
    using c "1.prems" by (subst push_carry.simps) auto
  show ?case
  proof (cases "c div b = 0")
    case True
    then have "push_carry b (c div b) = []" by (subst push_carry.simps) simp
    moreover have "c mod b = c" using True "1.prems"(1) by (simp add: div_eq_0_iff)
    ultimately show ?thesis using c by (simp add: eq)
  next
    case False
    then have "push_carry b (c div b) \<noteq> []"
      using "1.prems"(1) by (subst push_carry.simps) auto
    then show ?thesis using "1.IH" c "1.prems" by (simp add: eq)
  qed
qed

lemma push_carry_Nil: "2 \<le> b \<Longrightarrow> push_carry b c = [] \<longleftrightarrow> c = 0"
  by (subst push_carry.simps) auto

lemma mul_add_val: "2 \<le> b \<Longrightarrow> digits_val b (mul_add b m c ds) = m * digits_val b ds + c"
  using carry_through_val [of b m c ds]
  by (auto simp: mul_add_def digits_val_append push_carry_val split: prod.splits)

lemma mul_add_digits: "2 \<le> b \<Longrightarrow> d \<in> set (mul_add b m c ds) \<Longrightarrow> d < b"
  using carry_through_val [of b m c ds]
  by (cases "carry_through b m c ds") (auto simp: mul_add_def dest: push_carry_digits)

lemma digits_val_lower: "last ds \<noteq> 0 \<Longrightarrow> ds \<noteq> [] \<Longrightarrow> b ^ (length ds - 1) \<le> digits_val b ds"
proof (induction ds)
  case (Cons d ds)
  show ?case
  proof (cases ds)
    case (Cons d' ds')
    then have "b * b ^ (length ds - 1) \<le> b * digits_val b ds"
      using Cons.prems Cons.IH by (intro mult_le_mono2) auto
    moreover have "b ^ (length (d # ds) - 1) = b * b ^ (length ds - 1)" using Cons by simp
    ultimately show ?thesis by (metis digits_val.simps(2) trans_le_add2)
  qed (use Cons.prems in simp)
qed simp

lemma digits_val_upper:
  "last ds = 0 \<Longrightarrow> \<forall>d \<in> set ds. d < b \<Longrightarrow> ds \<noteq> [] \<Longrightarrow> digits_val b ds < b ^ (length ds - 1)"
proof (induction ds)
  case (Cons d ds)
  show ?case
  proof (cases ds)
    case (Cons d' ds')
    then have "digits_val b ds < b ^ (length ds - 1)" using Cons.prems Cons.IH by auto
    then have "b * Suc (digits_val b ds) \<le> b * b ^ (length ds - 1)"
      by (intro mult_le_mono2) simp
    then show ?thesis using Cons Cons.prems(2) by simp
  qed (use Cons.prems in simp)
qed simp

lemma mul_add_canonical:
  assumes b: "2 \<le> b" and m: "1 \<le> m" and ds: "canonical_digits b ds"
  shows "canonical_digits b (mul_add b m c ds)"
proof -
  obtain es k where r: "carry_through b m c ds = (es, k)" by fastforce
  have e: "digits_val b es + b ^ length ds * k = m * digits_val b ds + c"
    "length es = length ds" "\<forall>e \<in> set es. e < b"
    using carry_through_val [OF _ r] b by auto
  have ne: "ds \<noteq> []" "es \<noteq> []" using ds e(2) by (auto simp: canonical_digits_def)
  show ?thesis
  proof (cases "k = 0")
    case False
    then have "push_carry b k \<noteq> []" "last (push_carry b k) \<noteq> 0"
      using push_carry_Nil [OF b, of k] push_carry_last [OF b, of k] by auto
    then show ?thesis
      using e(3) push_carry_digits [of _ b k] r ne by (auto simp: canonical_digits_def mul_add_def)
  next
    case True
    then have "mul_add b m c ds = es" using r push_carry_Nil [OF b] by (simp add: mul_add_def)
    moreover have "last es \<noteq> 0 \<or> es = [0]"
    proof (cases "ds = [0]")
      case True
      then show ?thesis using e(2) by (cases es) auto
    next
      case False
      then have "last ds \<noteq> 0" using ds by (simp add: canonical_digits_def)
      then have "b ^ (length ds - 1) \<le> digits_val b ds"
        using ne(1) by (rule digits_val_lower)
      then have "b ^ (length es - 1) \<le> digits_val b es"
        using e(1,2) \<open>k = 0\<close> m by (metis add_0_right le_add1 le_trans mult_0_right
          mult_1 mult_le_mono1)
      then show ?thesis using digits_val_upper [OF _ e(3) ne(2)] b by fastforce
    qed
    ultimately show ?thesis using e(3) ne(2) by (auto simp: canonical_digits_def)
  qed
qed

text \<open>A number has one canonical digit array.\<close>

lemma canonical_unique:
  assumes "2 \<le> b" "canonical_digits b ds" "canonical_digits b es"
    "digits_val b ds = digits_val b es"
  shows "ds = es"
proof -
  have pos: "digits_val b ds \<noteq> 0 \<longleftrightarrow> ds \<noteq> [0]" if "canonical_digits b ds" for ds
  proof (cases "ds = [0]")
    case False
    then have "b ^ (length ds - 1) \<le> digits_val b ds"
      using that digits_val_lower by (auto simp: canonical_digits_def)
    moreover have "0 < b ^ (length ds - 1)" using assms(1) by simp
    ultimately show ?thesis using False by linarith
  qed simp
  have "ds = es" if "\<forall>d \<in> set ds. d < b" "\<forall>d \<in> set es. d < b" "ds \<noteq> [] \<longrightarrow> last ds \<noteq> 0"
    "es \<noteq> [] \<longrightarrow> last es \<noteq> 0" "digits_val b ds = digits_val b es" for ds es
    using that
  proof (induction ds arbitrary: es)
    case Nil
    then show ?case using digits_val_lower [of es b] assms(1) by (cases es) auto
  next
    case (Cons d ds)
    show ?case
    proof (cases es)
      case Nil
      then show ?thesis using Cons.prems digits_val_lower [of "d # ds" b] assms(1) by auto
    next
      case (Cons e es')
      note eq = Cons.prems(5) [unfolded Cons, simplified]
      have "d < b" "e < b" using Cons.prems Cons by auto
      then have "d = e" "digits_val b ds = digits_val b es'"
        using arg_cong [OF eq, of "\<lambda>n. n mod b"] arg_cong [OF eq, of "\<lambda>n. n div b"] by auto
      moreover have "ds = es'"
        using Cons.IH [of es'] Cons.prems Cons calculation by (auto split: if_splits)
      ultimately show ?thesis using Cons by simp
    qed
  qed
  then show ?thesis
    using assms pos [OF assms(2)] pos [OF assms(3)] by (auto simp: canonical_digits_def)
qed

subsection \<open>Round trips\<close>

lemma takeWhile_neq_nth:
  "distinct xs \<Longrightarrow> i < length xs \<Longrightarrow> length (takeWhile (\<lambda>x. x \<noteq> xs ! i) xs) = i"
proof (induction xs arbitrary: i)
  case (Cons x xs)
  then show ?case by (cases i) (auto simp: in_set_conv_nth)
qed simp

lemma alphabet_facts: "distinct BASE58_ALPHABET" "length BASE58_ALPHABET = 58"
  by (simp_all add: BASE58_ALPHABET_def)

lemma base58_value_char [simp]: "d < 58 \<Longrightarrow> base58_value (base58_char d) = Some d"
  by (simp add: base58_value_def base58_char_def takeWhile_neq_nth alphabet_facts)

lemma base58_char_zero: "base58_char 0 = CHR ''1''"
  by (simp add: base58_char_def BASE58_ALPHABET_def)

lemma base58_value_one [simp]: "base58_value (CHR ''1'') = Some 0"
  using base58_value_char [of 0] by (simp add: base58_char_zero)

lemma base58_char_one: "d < 58 \<Longrightarrow> base58_char d = CHR ''1'' \<longleftrightarrow> d = 0"
  by (metis base58_char_zero base58_value_char option.inject zero_less_numeral)

text \<open>The value of a big-endian digit sequence, and the fold both directions compute.\<close>

definition be_val :: "nat \<Rightarrow> nat list \<Rightarrow> nat" where
  "be_val m xs = foldl (\<lambda>n x. m * n + x) 0 xs"

lemma be_val_rev: "be_val m (rev xs) = digits_val m xs"
  by (induction xs) (simp_all add: be_val_def)

lemma fold_mul_add:
  assumes "2 \<le> b" "1 \<le> m" "canonical_digits b ds"
  shows "canonical_digits b (foldl (\<lambda>ds x. mul_add b m x ds) ds xs) \<and>
    digits_val b (foldl (\<lambda>ds x. mul_add b m x ds) ds xs) = foldl (\<lambda>n x. m * n + x) (digits_val b ds) xs"
  using assms(3)
proof (induction xs arbitrary: ds)
  case (Cons x xs)
  have "canonical_digits b (mul_add b m x ds)"
    using assms(1,2) Cons.prems by (rule mul_add_canonical)
  from Cons.IH [OF this] show ?case by (simp add: mul_add_val assms(1))
qed simp

lemma canonical_zero: "2 \<le> b \<Longrightarrow> canonical_digits b [0]"
  by (simp add: canonical_digits_def)

lemma base58_digits_props:
  "canonical_digits 58 (base58_digits bs) \<and> digits_val 58 (base58_digits bs) = be_val 256 (map unat bs)"
proof -
  have "base58_digits bs = foldl (\<lambda>ds x. mul_add 58 256 x ds) [0] (map unat bs)"
    by (simp add: base58_digits_def foldl_map)
  then show ?thesis
    using fold_mul_add [of 58 256 "[0]" "map unat bs"] by (simp add: canonical_zero be_val_def)
qed

lemma base58_bytes_chars:
  "\<forall>d \<in> set ds. d < 58 \<Longrightarrow>
   base58_bytes (map base58_char ds) bs = Inr (foldl (\<lambda>bs v. mul_add 256 58 v bs) bs ds)"
  by (induction ds arbitrary: bs) auto

lemma be_val_replicate: "be_val m (replicate k 0 @ xs) = be_val m xs"
  by (induction k) (simp_all add: be_val_def)

lemma takeWhile_replicate_append:
  "P x \<Longrightarrow> xs = [] \<or> \<not> P (hd xs) \<Longrightarrow> takeWhile P (replicate k x @ xs) = replicate k x"
  by (induction k) (cases xs; auto)+

text \<open>Every byte string splits into its leading zeros and a rest that starts with a non-zero byte.\<close>

lemma leading_zeros_split:
  obtains rest where "bs = replicate (length (takeWhile (\<lambda>w. w = 0) bs)) (0 :: 8 word) @ rest"
    "rest = [] \<or> hd rest \<noteq> 0" "rest = dropWhile (\<lambda>w. w = 0) bs"
proof
  have "takeWhile (\<lambda>w. w = 0) bs = replicate (length (takeWhile (\<lambda>w. w = 0) bs)) 0"
    by (rule replicate_eqI [symmetric, THEN sym]) (auto dest: set_takeWhileD)
  then show "bs = replicate (length (takeWhile (\<lambda>w. w = 0) bs)) 0 @ dropWhile (\<lambda>w. w = 0) bs"
    by (metis takeWhile_dropWhile_id)
  show "dropWhile (\<lambda>w. w = 0) bs = [] \<or> hd (dropWhile (\<lambda>w. w = 0) bs) \<noteq> 0"
    using hd_dropWhile by blast
qed simp

lemma canonical_rev_bytes:
  assumes "rest \<noteq> []" "hd rest \<noteq> (0 :: 8 word)"
  shows "canonical_digits 256 (rev (map unat rest))"
  using assms by (auto simp: canonical_digits_def last_rev hd_map unat_eq_0)

lemma base58_decode_encode:
  assumes "\<exists>w \<in> set bs. w \<noteq> 0"
  shows "base58Decode (base58Encode bs) = Inr bs"
proof -
  obtain rest where bs: "bs = replicate (length (takeWhile (\<lambda>w. w = 0) bs)) 0 @ rest"
    and rest: "rest = [] \<or> hd rest \<noteq> 0" and "rest = dropWhile (\<lambda>w. w = 0) bs"
    by (rule leading_zeros_split)
  define k where "k = length (takeWhile (\<lambda>w. w = 0) bs)"
  define ds where "ds = base58_digits bs"
  have bs_k: "bs = replicate k 0 @ rest" using bs k_def by simp
  have "rest \<noteq> []" using assms bs_k by auto
  with rest have rest: "rest \<noteq> []" "hd rest \<noteq> 0" by auto
  have bval: "be_val 256 (map unat bs) = digits_val 256 (rev (map unat rest))"
    using be_val_replicate [of 256 k "map unat rest"] be_val_rev [of 256 "rev (map unat rest)"]
    by (simp add: bs_k)
  have canon: "canonical_digits 256 (rev (map unat rest))"
    by (rule canonical_rev_bytes [OF rest])
  have ds: "canonical_digits 58 ds" "digits_val 58 ds = digits_val 256 (rev (map unat rest))"
    using base58_digits_props [of bs] bval by (auto simp: ds_def)
  have "rev (map unat rest) \<noteq> [0]" using rest by (cases rest) (auto simp: unat_eq_0)
  then have "ds \<noteq> [0]"
    using ds(2) canonical_unique [OF _ canon, of "[0]"] by (auto simp: canonical_zero)
  then have last: "ds \<noteq> []" "last ds \<noteq> 0" and lt: "\<forall>d \<in> set ds. d < 58"
    using ds(1) by (auto simp: canonical_digits_def)
  have enc: "base58Encode bs = map base58_char (replicate k 0 @ rev ds)"
    using assms by (auto simp: base58Encode_def base58_char_zero ds_def k_def)
  have ones: "length (takeWhile (\<lambda>c. c = CHR ''1'') (base58Encode bs)) = k"
  proof -
    have "base58_char (hd (rev ds)) \<noteq> CHR ''1''"
      using last lt by (simp add: hd_rev base58_char_one)
    then have "hd (map base58_char (rev ds)) \<noteq> CHR ''1''" using last by (simp add: hd_map)
    then show ?thesis
      using takeWhile_replicate_append [of "\<lambda>c. c = CHR ''1''" "CHR ''1''" "map base58_char (rev ds)" k]
      by (simp add: enc base58_char_zero)
  qed
  let ?bytes = "foldl (\<lambda>bs v. mul_add 256 58 v bs) [0] (replicate k 0 @ rev ds)"
  have "canonical_digits 256 ?bytes" "digits_val 256 ?bytes = be_val 58 (replicate k 0 @ rev ds)"
    using fold_mul_add [of 256 58 "[0]" "replicate k 0 @ rev ds"]
    by (auto simp: canonical_zero be_val_def)
  then have bytes: "?bytes = rev (map unat rest)"
    using canonical_unique [OF _ _ canon] ds(2) by (simp add: be_val_replicate be_val_rev)
  have "base58_bytes (base58Encode bs) [0] = Inr (rev (map unat rest))"
    using lt bytes by (subst enc, subst base58_bytes_chars) auto
  moreover have "base58Encode bs \<noteq> []" using last by (simp add: enc)
  moreover have "map byte (rev (rev (map unat rest) @ replicate k 0)) = bs"
    by (simp add: bs_k rev_map o_def byte_def)
  ultimately show ?thesis by (simp add: base58Decode_def ones)
qed

text \<open>Base58 round trip: decoding what \<open>base58Encode\<close> produces gives the bytes back, for every
  byte string with a non-zero byte (every public key, secret key and signature that is not all
  zero).\<close>

theorem base58_roundtrip:
  assumes "\<exists>w \<in> set bs. w \<noteq> 0"
  shows "base58Decode (base58Encode bs) = Inr bs"
  by (rule base58_decode_encode [OF assms])

theorem base58_roundtrip_witness: "base58Decode (base58Encode [0, 0, 7, 255, 1]) = Inr [0, 0, 7, 255, 1]"
  by (rule base58_roundtrip) simp

text \<open>The remaining case: an all-zero byte string. The digit arrays start as \<open>[0]\<close> and that digit is
  emitted as well as the leading-zero prefix.\<close>

lemma mul_add_zero [simp]: "2 \<le> b \<Longrightarrow> mul_add b m 0 [0] = [0]"
  by (simp add: mul_add_def push_carry.simps [of b 0])

lemma foldl_mul_add_zero:
  "2 \<le> b \<Longrightarrow> foldl (\<lambda>ds x. mul_add b m x ds) [0] (replicate n 0) = [0]"
  by (induction n) auto

lemma takeWhile_replicate_all: "P x \<Longrightarrow> takeWhile P (replicate n x) = replicate n x"
  by (induction n) auto

text \<open>C18. Base58 of zero bytes is off by one in both directions: \<open>n > 0\<close> zero bytes are encoded as
  \<open>n + 1\<close> ones, and \<open>n\<close> ones are decoded to \<open>n + 1\<close> zero bytes; so the 32-character address of the
  Solana System Program decodes to 33 bytes and fails the 32-byte check of a public key.\<close>

theorem base58_zero_run:
  assumes "0 < n"
  shows "base58Encode (replicate n 0) = replicate (n + 1) (CHR ''1'') \<and>
    base58Decode (replicate n (CHR ''1'')) = Inr (replicate (n + 1) 0) \<and>
    and_then (base58Decode (replicate 32 (CHR ''1''))) (\<lambda>k. assertByteLength k 32 l) =
      Inl (l @ '' must be 32 bytes'')"
proof -
  have dec: "base58Decode (replicate n (CHR ''1'')) = Inr (replicate (n + 1) 0)" if "0 < n" for n
  proof -
    have "base58_bytes (map base58_char (replicate n 0)) [0] =
        Inr (foldl (\<lambda>bs v. mul_add 256 58 v bs) [0] (replicate n 0))"
      by (rule base58_bytes_chars) auto
    then have "base58_bytes (replicate n (CHR ''1'')) [0] = Inr [0]"
      by (simp add: base58_char_zero foldl_mul_add_zero)
    then show ?thesis
      using that by (simp add: base58Decode_def takeWhile_replicate_all byte_def replicate_append_same)
  qed
  have "base58_digits (replicate n 0) = [0]"
    by (induction n) (auto simp: base58_digits_def)
  then have enc: "base58Encode (replicate n 0) = replicate (n + 1) (CHR ''1'')"
    using assms by (simp add: base58Encode_def takeWhile_replicate_all base58_char_zero replicate_append_same)
  have "show_nat 32 = ''32''"
    by code_simp
  then show ?thesis
    using enc dec [OF assms] by (simp add: dec assertByteLength_def)
qed

theorem base58_zero_run_witness:
  "base58Encode [0] = ''11'' \<and> base58Decode ''1'' = Inr [0, 0]"
  using base58_zero_run [of 1] by simp

section \<open>Base64url\<close>

text \<open>\<open>Buffer.toString("base64")\<close> and \<open>Buffer.from(_, "base64")\<close> go through the 6-bit groups of the
  bytes; a trailing group of one or two bytes yields two or three sextets and is padded with
  \<^verbatim>\<open>=\<close>. The decoder drops the bits of an incomplete byte.\<close>

fun sextets :: "bytes \<Rightarrow> nat list" where
  "sextets (a # b # c # bs) =
     unat a div 4 # (unat a mod 4 * 16 + unat b div 16) # (unat b mod 16 * 4 + unat c div 64) #
     unat c mod 64 # sextets bs"
| "sextets [a, b] = [unat a div 4, unat a mod 4 * 16 + unat b div 16, unat b mod 16 * 4]"
| "sextets [a] = [unat a div 4, unat a mod 4 * 16]"
| "sextets [] = []"

fun unsextets :: "nat list \<Rightarrow> bytes" where
  "unsextets (p # q # r # s # xs) =
     byte (p * 4 + q div 16) # byte (q mod 16 * 16 + r div 4) # byte (r mod 4 * 64 + s) # unsextets xs"
| "unsextets [p, q, r] = [byte (p * 4 + q div 16), byte (q mod 16 * 16 + r div 4)]"
| "unsextets [p, q] = [byte (p * 4 + q div 16)]"
| "unsextets _ = []"

definition BASE64_ALPHABET :: string where
  "BASE64_ALPHABET = ''ABCDEFGHIJKLMNOPQRSTUVWXYZabcdefghijklmnopqrstuvwxyz0123456789+/''"

definition base64_char :: "nat \<Rightarrow> char" where
  "base64_char d = BASE64_ALPHABET ! d"

definition base64_value :: "char \<Rightarrow> nat" where
  "base64_value c = length (takeWhile (\<lambda>x. x \<noteq> c) BASE64_ALPHABET)"

definition buffer_to_base64 :: "bytes \<Rightarrow> string" where
  "buffer_to_base64 bs = map base64_char (sextets bs) @
     replicate ((3 - length bs mod 3) mod 3) (CHR ''='')"

definition buffer_from_base64 :: "string \<Rightarrow> bytes" where
  "buffer_from_base64 s = unsextets (map base64_value (takeWhile (\<lambda>c. c \<noteq> CHR ''='') s))"

definition replaceAll :: "char \<Rightarrow> char \<Rightarrow> string \<Rightarrow> string" where
  "replaceAll a b s = map (\<lambda>c. if c = a then b else c) s"

definition base64url_regex_char :: "char \<Rightarrow> bool" where
  "base64url_regex_char c \<longleftrightarrow> is_digit c \<or> (65 \<le> code c \<and> code c \<le> 90) \<or>
     (97 \<le> code c \<and> code c \<le> 122) \<or> c = CHR ''_'' \<or> c = CHR ''-''"

definition base64UrlEncode :: "bytes \<Rightarrow> string" where
  "base64UrlEncode bs =
     rev (dropWhile (\<lambda>c. c = CHR ''='')
       (rev (replaceAll (CHR ''/'') (CHR ''_'') (replaceAll (CHR ''+'') (CHR ''-'') (buffer_to_base64 bs)))))"

definition base64UrlDecode :: "string \<Rightarrow> string + bytes" where
  "base64UrlDecode v = (if \<not> (\<forall>c \<in> set v. base64url_regex_char c) then Inl ''invalid base64url''
     else let padded = v @ replicate ((4 - length v mod 4) mod 4) (CHR ''='')
       in Inr (buffer_from_base64
            (replaceAll (CHR ''_'') (CHR ''/'') (replaceAll (CHR ''-'') (CHR ''+'') padded))))"

lemma sextets_lt: "x \<in> set (sextets bs) \<Longrightarrow> x < 64"
proof (induction bs rule: sextets.induct)
  case (1 a b c bs)
  have "unat a < 256" "unat b < 256" "unat c < 256" by simp_all
  then have "unat a div 4 < 64" "unat a mod 4 * 16 + unat b div 16 < 64"
    "unat b mod 16 * 4 + unat c div 64 < 64" "unat c mod 64 < 64" by linarith+
  then show ?case using 1 by auto
next
  case (2 a b)
  have "unat a < 256" "unat b < 256" by simp_all
  then have "unat a div 4 < 64" "unat a mod 4 * 16 + unat b div 16 < 64" "unat b mod 16 * 4 < 64"
    by linarith+
  then show ?case using 2 by auto
next
  case (3 a)
  have "unat a < 256" by simp
  then have "unat a div 4 < 64" "unat a mod 4 * 16 < 64" by linarith+
  then show ?case using 3 by auto
qed simp

lemma unsextets_sextets: "unsextets (sextets bs) = bs"
proof -
  have a: "byte (unat a div 4 * 4 + (unat a mod 4 * 16 + n) div 16) = a" if "n < 16" for a n
  proof -
    have "(unat a mod 4 * 16 + n) div 16 = unat a mod 4" using that by simp
    then show ?thesis by simp
  qed
  have b: "byte ((m * 16 + unat b div 16) mod 16 * 16 + (unat b mod 16 * 4 + n) div 4) = b"
    if "n < 4" for b m n
  proof -
    have "unat b div 16 < 16" using unat_lt256 [of b] by linarith
    then have "(m * 16 + unat b div 16) mod 16 = unat b div 16" by simp
    moreover have "(unat b mod 16 * 4 + n) div 4 = unat b mod 16" using that by simp
    ultimately show ?thesis by simp
  qed
  have c: "byte ((m * 4 + unat c div 64) mod 4 * 64 + unat c mod 64) = c" for c m
  proof -
    have "unat c div 64 < 4" using unat_lt256 [of c] by linarith
    then have "(m * 4 + unat c div 64) mod 4 = unat c div 64" by simp
    then show ?thesis by simp
  qed
  have lt: "unat w div 16 < 16" "unat w div 64 < 4" for w :: "8 word"
    using unat_lt256 [of w] by linarith+
  show ?thesis
  proof (induction bs rule: sextets.induct)
    case (2 x y)
    then show ?case using a [OF lt(1)] b [of 0 "unat x mod 4" y] by simp
  next
    case (3 x)
    then show ?case using a [of 0 x] by simp
  qed (simp_all add: a b c lt)
qed

lemma base64_alphabet_facts: "distinct BASE64_ALPHABET" "length BASE64_ALPHABET = 64"
  by (simp_all add: BASE64_ALPHABET_def)

lemma base64_value_char [simp]: "d < 64 \<Longrightarrow> base64_value (base64_char d) = d"
  by (simp add: base64_value_def base64_char_def takeWhile_neq_nth base64_alphabet_facts)

lemma base64_chars:
  assumes "d < 64"
  shows "base64_char d \<notin> {CHR ''='', CHR ''-'', CHR ''_''}"
    "base64url_regex_char (base64_char d) \<or> base64_char d = CHR ''+'' \<or> base64_char d = CHR ''/''"
proof -
  have "base64_char d \<in> set BASE64_ALPHABET"
    using assms by (simp add: base64_char_def base64_alphabet_facts)
  moreover have "\<forall>c \<in> set BASE64_ALPHABET. c \<notin> {CHR ''='', CHR ''-'', CHR ''_''} \<and>
      (base64url_regex_char c \<or> c = CHR ''+'' \<or> c = CHR ''/'')"
    by code_simp
  ultimately show "base64_char d \<notin> {CHR ''='', CHR ''-'', CHR ''_''}"
    "base64url_regex_char (base64_char d) \<or> base64_char d = CHR ''+'' \<or> base64_char d = CHR ''/''"
    by blast+
qed

text \<open>The url-safe character of a sextet.\<close>

definition base64url_char :: "nat \<Rightarrow> char" where
  "base64url_char d = (let c = base64_char d in
     if c = CHR ''+'' then CHR ''-'' else if c = CHR ''/'' then CHR ''_'' else c)"

lemma base64url_char_props:
  assumes "d < 64"
  shows "base64url_char d \<noteq> CHR ''=''" "base64url_regex_char (base64url_char d)"
    "(let c = (if base64url_char d = CHR ''-'' then CHR ''+'' else base64url_char d)
      in if c = CHR ''_'' then CHR ''/'' else c) = base64_char d"
  using base64_chars [OF assms]
  by (auto simp: base64url_char_def base64url_regex_char_def Let_def)

lemma dropWhile_replicate_append:
  "P x \<Longrightarrow> ys = [] \<or> \<not> P (hd ys) \<Longrightarrow> dropWhile P (replicate k x @ ys) = ys"
  by (induction k) (cases ys; auto)+

lemma base64UrlEncode_eq: "base64UrlEncode bs = map base64url_char (sextets bs)"
proof -
  let ?f = "\<lambda>s. replaceAll (CHR ''/'') (CHR ''_'') (replaceAll (CHR ''+'') (CHR ''-'') s)"
  let ?n = "(3 - length bs mod 3) mod 3"
  have "?f (buffer_to_base64 bs) = map base64url_char (sextets bs) @ replicate ?n (CHR ''='')"
    by (auto simp: buffer_to_base64_def replaceAll_def base64url_char_def Let_def)
  moreover have "dropWhile (\<lambda>c. c = CHR ''='') (replicate ?n (CHR ''='') @ rev (map base64url_char (sextets bs)))
      = rev (map base64url_char (sextets bs))"
  proof (rule dropWhile_replicate_append)
    have "c \<noteq> CHR ''=''" if "c \<in> set (rev (map base64url_char (sextets bs)))" for c
      using that by (auto dest: sextets_lt base64url_char_props(1))
    then show "rev (map base64url_char (sextets bs)) = [] \<or>
        hd (rev (map base64url_char (sextets bs))) \<noteq> CHR ''=''"
      using hd_in_set by blast
  qed simp
  ultimately show ?thesis by (simp add: base64UrlEncode_def rev_map)
qed

lemma base64url_decode_encode: "base64UrlDecode (base64UrlEncode bs) = Inr bs"
proof -
  let ?v = "map base64url_char (sextets bs)"
  let ?g = "\<lambda>s. replaceAll (CHR ''_'') (CHR ''/'') (replaceAll (CHR ''-'') (CHR ''+'') s)"
  let ?n = "(4 - length ?v mod 4) mod 4"
  have "\<forall>c \<in> set ?v. base64url_regex_char c"
    by (auto dest: sextets_lt base64url_char_props(2))
  moreover have "?g (?v @ replicate ?n (CHR ''='')) = map base64_char (sextets bs) @ replicate ?n (CHR ''='')"
  proof -
    have "?g ?v = map base64_char (sextets bs)"
      unfolding replaceAll_def map_map o_def
      by (intro map_cong [OF refl] base64url_char_props(3) [unfolded Let_def]) (rule sextets_lt)
    then show ?thesis by (simp add: replaceAll_def)
  qed
  moreover have "takeWhile (\<lambda>c. c \<noteq> CHR ''='') (map base64_char (sextets bs) @ replicate ?n (CHR ''=''))
      = map base64_char (sextets bs)"
  proof -
    have ne: "\<forall>c \<in> set (map base64_char (sextets bs)). c \<noteq> CHR ''=''"
      using base64_chars(1) sextets_lt by fastforce
    then have "takeWhile (\<lambda>c. c \<noteq> CHR ''='') (map base64_char (sextets bs) @ ys) =
        map base64_char (sextets bs) @ takeWhile (\<lambda>c. c \<noteq> CHR ''='') ys" for ys
      by (intro takeWhile_append2) auto
    with ne show ?thesis by (cases ?n) simp_all
  qed
  moreover have "map base64_value (map base64_char (sextets bs)) = sextets bs"
    using sextets_lt by (auto intro: map_idI)
  ultimately show ?thesis
    by (simp add: base64UrlEncode_eq base64UrlDecode_def buffer_from_base64_def unsextets_sextets
      del: map_map)
qed

text \<open>Base64url round trip: every byte string (a signature, a hash) is recovered from its
  unpadded url-safe encoding.\<close>

theorem base64url_roundtrip: "base64UrlDecode (base64UrlEncode bs) = Inr bs"
  by (rule base64url_decode_encode)

end
