(* ===== verification/Canonical.thy ===== *)
theory Canonical
  imports Encoding
begin

text \<open>
  \<^verbatim>\<open>packages/protocol/src/canonical.ts\<close>: the canonical JSON text that is hashed and signed, and the
  digest of \<^verbatim>\<open>operation.ts\<close>. A JavaScript value is a \<open>json\<close>: the JSON forms and, because the
  serialiser checks for them at run time, \<open>undefined\<close>, bigints, objects with another prototype and
  the remaining types (named by \<open>typeof\<close>). A finite number other than \<open>-0\<close> is represented by the text
  \<open>Number::toString\<close> gives for it, which determines the number.
\<close>

datatype jsnum = Fin string | NegZero | NonFinite

datatype json =
  JUndefined
  | JNull
  | JBool bool
  | JNum jsnum
  | JBigInt int
  | JStr string
  | JArr "json list"
  | JObj "(string \<times> json) list"
  | JExotic
  | JOther string

definition json_int :: "int \<Rightarrow> json" where
  "json_int i = JNum (Fin (show_int i))"

fun join :: "string \<Rightarrow> string list \<Rightarrow> string" where
  "join sep [] = []"
| "join sep [x] = x"
| "join sep (x # y # ys) = x @ sep @ join sep (y # ys)"

section \<open>The serialiser\<close>

text \<open>\<open>JSON.stringify\<close> of a string.\<close>

definition json_escape :: "char \<Rightarrow> string" where
  "json_escape c =
     (if c = CHR 0x22 then [CHR 0x5C, CHR 0x22]
      else if c = CHR 0x5C then [CHR 0x5C, CHR 0x5C]
      else if code c = 8 then [CHR 0x5C, CHR ''b'']
      else if code c = 9 then [CHR 0x5C, CHR ''t'']
      else if code c = 10 then [CHR 0x5C, CHR ''n'']
      else if code c = 12 then [CHR 0x5C, CHR ''f'']
      else if code c = 13 then [CHR 0x5C, CHR ''r'']
      else if code c < 32 then
        [CHR 0x5C, CHR ''u'', CHR ''0'', CHR ''0'', hex_char (code c div 16), hex_char (code c mod 16)]
      else [c])"

definition json_string :: "string \<Rightarrow> string" where
  "json_string s = CHR 0x22 # concat (map json_escape s) @ [CHR 0x22]"

fun serializeNumber :: "jsnum \<Rightarrow> string + string" where
  "serializeNumber (Fin s) = Inr s"
| "serializeNumber NegZero = Inr ''0''"
| "serializeNumber NonFinite = Inl ''non-finite number cannot be canonicalized''"

text \<open>The members \<open>serializeObject\<close> writes: those with a value, in code unit order of the keys.\<close>

definition sorted_members :: "(string \<times> json) list \<Rightarrow> (string \<times> json) list" where
  "sorted_members es = sort_key fst (filter (\<lambda>(k, v). v \<noteq> JUndefined) es)"

lemma set_sorted_members: "set (sorted_members es) = {(k, v) \<in> set es. v \<noteq> JUndefined}"
  by (auto simp: sorted_members_def)

lemma size_member [termination_simp]:
  "(k, v) \<in> set (sorted_members es) \<Longrightarrow> size v < Suc (size_list (\<lambda>x. Suc (size (snd x))) es)"
  by (induction es) (auto simp: set_sorted_members)

lemma map_err_cong [fundef_cong]:
  "xs = ys \<Longrightarrow> (\<And>x. x \<in> set ys \<Longrightarrow> f x = g x) \<Longrightarrow> map_err f xs = map_err g ys"
  by (induction ys arbitrary: xs) auto

fun serializeJson :: "json \<Rightarrow> string + string" where
  "serializeJson JNull = Inr ''null''"
| "serializeJson (JStr s) = Inr (json_string s)"
| "serializeJson (JBool b) = Inr (if b then ''true'' else ''false'')"
| "serializeJson (JNum n) = serializeNumber n"
| "serializeJson (JBigInt i) = Inl ''bigint cannot be canonicalized as JSON''"
| "serializeJson (JArr xs) = and_then (map_err (\<lambda>x. serializeJson x) xs)
     (\<lambda>ss. Inr (''['' @ join '','' ss @ '']''))"
| "serializeJson (JObj es) =
     and_then (map_err (\<lambda>(k, v). and_then (serializeJson v)
         (\<lambda>s. Inr (json_string k @ '':'' @ s))) (sorted_members es))
     (\<lambda>ss. Inr (''{'' @ join '','' ss @ ''}''))"
| "serializeJson JExotic = Inl ''only plain objects can be canonicalized''"
| "serializeJson JUndefined = Inl ''unsupported JSON value: undefined''"
| "serializeJson (JOther t) = Inl (''unsupported JSON value: '' @ t)"

definition canonicalizeProtocolObject :: "json \<Rightarrow> string + string" where
  "canonicalizeProtocolObject v = serializeJson v"

definition canonicalizeToBytes :: "json \<Rightarrow> string + bytes" where
  "canonicalizeToBytes v = and_then (canonicalizeProtocolObject v) (\<lambda>s. Inr (utf8Bytes s))"

text \<open>SHA-256 is \<open>node:crypto\<close>: a parameter.\<close>

definition sha256Bytes :: "(bytes \<Rightarrow> bytes) \<Rightarrow> bytes \<Rightarrow> string" where
  "sha256Bytes sha256 bs = ''sha256:'' @ bytesToHex (sha256 bs)"

definition hashProtocolObject :: "(bytes \<Rightarrow> bytes) \<Rightarrow> json \<Rightarrow> string + string" where
  "hashProtocolObject sha256 v =
     and_then (canonicalizeToBytes v) (\<lambda>bs. Inr (sha256Bytes sha256 bs))"

section \<open>Normal forms\<close>

text \<open>Two values are the same protocol object when they agree up to the order of members, members
  whose value is \<open>undefined\<close>, and the sign of zero.\<close>

fun norm_json :: "json \<Rightarrow> json" where
  "norm_json (JNum NegZero) = JNum (Fin ''0'')"
| "norm_json (JArr xs) = JArr (map norm_json xs)"
| "norm_json (JObj es) = JObj (map (\<lambda>(k, v). (k, norm_json v)) (sorted_members es))"
| "norm_json v = v"

definition numeric_char :: "char \<Rightarrow> bool" where
  "numeric_char c \<longleftrightarrow> is_digit c \<or> c \<in> {CHR ''-'', CHR ''+'', CHR ''.'', CHR ''e''}"

text \<open>Number texts as \<open>Number::toString\<close> writes them.\<close>

fun wf_json :: "json \<Rightarrow> bool" where
  "wf_json (JNum (Fin s)) \<longleftrightarrow>
     s \<noteq> [] \<and> (is_digit (hd s) \<or> hd s = CHR ''-'') \<and> (\<forall>c \<in> set s. numeric_char c)"
| "wf_json (JArr xs) \<longleftrightarrow> (\<forall>x \<in> set xs. wf_json x)"
| "wf_json (JObj es) \<longleftrightarrow> (\<forall>(k, v) \<in> set es. wf_json v)"
| "wf_json _ \<longleftrightarrow> True"

lemma wf_json_int [simp]: "wf_json (json_int i)"
  using show_nat_all_digits [of "nat i"] show_nat_all_digits [of "nat (- i)"]
  by (auto simp: json_int_def show_int_def numeric_char_def)

section \<open>Unique decoding\<close>

lemma json_escape_not_quote: "\<exists>d ds. json_escape c = d # ds \<and> d \<noteq> CHR 0x22"
  by (auto simp: json_escape_def)

lemma hex_char_inj: "m < 16 \<Longrightarrow> n < 16 \<Longrightarrow> hex_char m = hex_char n \<longleftrightarrow> m = n"
  by (metis hex_char_props(2))

definition short_escape :: "char \<Rightarrow> char option" where
  "short_escape c = (if c = CHR 0x22 then Some (CHR 0x22) else if c = CHR 0x5C then Some (CHR 0x5C)
     else if code c = 8 then Some (CHR ''b'') else if code c = 9 then Some (CHR ''t'')
     else if code c = 10 then Some (CHR ''n'') else if code c = 12 then Some (CHR ''f'')
     else if code c = 13 then Some (CHR ''r'') else None)"

lemma json_escape_cases:
  "json_escape c = (case short_escape c of Some d \<Rightarrow> [CHR 0x5C, d]
     | None \<Rightarrow> if code c < 32
       then [CHR 0x5C, CHR ''u'', CHR ''0'', CHR ''0'', hex_char (code c div 16), hex_char (code c mod 16)]
       else [c])"
  by (simp add: json_escape_def short_escape_def)

lemma short_escape_inj: "short_escape c = Some x \<Longrightarrow> short_escape d = Some x \<Longrightarrow> c = d"
  by (auto simp: short_escape_def split: if_splits intro: code_inj [THEN iffD1])

lemma short_escape_facts: "short_escape c = Some x \<Longrightarrow> x \<noteq> CHR ''u''" "short_escape (CHR 0x5C) \<noteq> None"
  by (auto simp: short_escape_def split: if_splits)

lemma json_escape_decode:
  assumes "json_escape c @ xs = json_escape d @ ys"
  shows "c = d \<and> xs = ys"
proof -
  have hex: "code c = code d"
    if "hex_char (code c div 16) = hex_char (code d div 16)"
      "hex_char (code c mod 16) = hex_char (code d mod 16)"
  proof -
    have "code c div 16 < 16" "code d div 16 < 16"
      using code_lt256 [of c] code_lt256 [of d] by linarith+
    then have "code c div 16 = code d div 16" "code c mod 16 = code d mod 16"
      using that by (simp_all add: hex_char_inj)
    then show ?thesis by (metis div_mult_mod_eq)
  qed
  show ?thesis
    using assms short_escape_inj [of c _ d] short_escape_facts hex
    by (auto simp: json_escape_cases split: option.splits if_splits)
qed

lemma json_string_decode:
  "concat (map json_escape s) @ CHR 0x22 # r = concat (map json_escape t) @ CHR 0x22 # r' \<Longrightarrow>
   s = t \<and> r = r'"
proof (induction s arbitrary: t)
  case Nil
  then show ?case using json_escape_not_quote by (cases t) (auto, metis append_Cons list.inject)
next
  case (Cons c s)
  show ?case
  proof (cases t)
    case Nil
    with Cons.prems show ?thesis using json_escape_not_quote [of c] by auto
  next
    case (Cons d t')
    with Cons.prems have "json_escape c @ (concat (map json_escape s) @ CHR 0x22 # r) =
        json_escape d @ (concat (map json_escape t') @ CHR 0x22 # r')" by simp
    from json_escape_decode [OF this] Cons.IH [of t'] show ?thesis by (simp add: Cons)
  qed
qed

text \<open>What may follow a value inside a canonical text.\<close>

definition ends :: "string \<Rightarrow> bool" where
  "ends r \<longleftrightarrow> r = [] \<or> hd r \<in> {CHR '','', CHR '']'', CHR ''}''}"

lemma ends_simps [simp]: "ends []" "ends (CHR '','' # r)" "ends (CHR '']'' # r)" "ends (CHR ''}'' # r)"
  by (simp_all add: ends_def)

lemma numeric_not_end: "\<not> numeric_char (CHR '','')" "\<not> numeric_char (CHR '']'')" "\<not> numeric_char (CHR ''}'')"
  by (simp_all add: numeric_char_def is_digit_def code_def)

lemma numeric_decode:
  assumes "\<forall>c \<in> set s. numeric_char c" "\<forall>c \<in> set t. numeric_char c" "s @ r = t @ r'" "ends r" "ends r'"
  shows "s = t \<and> r = r'"
proof -
  have "takeWhile numeric_char (u @ q) = u" if "\<forall>c \<in> set u. numeric_char c" "ends q" for u q
  proof -
    have "takeWhile numeric_char q = []"
      using that(2) numeric_not_end by (cases q) (auto simp: ends_def)
    then show ?thesis using that(1) by (simp add: takeWhile_append2)
  qed
  then have "s = t" using assms by metis
  then show ?thesis using assms(3) by simp
qed

text \<open>A separated sequence decodes when its elements do.\<close>

definition decodable :: "('a \<Rightarrow> string) \<Rightarrow> ('a \<Rightarrow> 'b) \<Rightarrow> 'a \<Rightarrow> 'a \<Rightarrow> bool" where
  "decodable f N x y \<longleftrightarrow>
     (\<forall>r r'. f x @ r = f y @ r' \<longrightarrow> ends r \<longrightarrow> ends r' \<longrightarrow> N x = N y \<and> r = r')"

lemma join_Cons: "join '','' (x # xs) = x @ concat (map (\<lambda>s. CHR '','' # s) xs)"
  by (induction xs arbitrary: x) auto

lemma decode_tail:
  assumes "\<And>x y. x \<in> set xs \<Longrightarrow> y \<in> set ys \<Longrightarrow> decodable f N x y"
    and "concat (map (\<lambda>x. CHR '','' # f x) xs) @ z # r = concat (map (\<lambda>x. CHR '','' # f x) ys) @ z # r'"
    and "z \<in> {CHR '']'', CHR ''}''}"
  shows "map N xs = map N ys \<and> r = r'"
  using assms(1,2)
proof (induction xs arbitrary: ys)
  case Nil
  then show ?case using assms(3) by (cases ys) auto
next
  case (Cons x xs)
  then obtain y ys' where ys: "ys = y # ys'" using assms(3) by (cases ys) auto
  let ?t = "\<lambda>xs r. concat (map (\<lambda>x. CHR '','' # f x) xs) @ z # r"
  have ends: "ends (?t xs r)" for xs r using assms(3) by (cases xs) auto
  have "f x @ ?t xs r = f y @ ?t ys' r'" using Cons.prems(2) by (simp add: ys)
  moreover have "decodable f N x y" using Cons.prems(1) ys by simp
  ultimately have "N x = N y" "?t xs r = ?t ys' r'"
    using ends unfolding decodable_def by blast+
  then show ?case using Cons.IH [of ys'] Cons.prems(1) ys by auto
qed

lemma decode_join:
  assumes "\<And>x y. x \<in> set xs \<Longrightarrow> y \<in> set ys \<Longrightarrow> decodable f N x y"
    and "\<And>x. x \<in> set xs \<union> set ys \<Longrightarrow> f x \<noteq> [] \<and> hd (f x) \<noteq> z"
    and "join '','' (map f xs) @ z # r = join '','' (map f ys) @ z # r'"
    and z: "z \<in> {CHR '']'', CHR ''}''}"
  shows "map N xs = map N ys \<and> r = r'"
proof (cases xs)
  case Nil
  then show ?thesis using assms(2,3) by (cases ys) (auto simp: join_Cons, metis hd_append list.sel(1))
next
  case (Cons x xs')
  then have x: "f x \<noteq> []" "hd (f x) \<noteq> z" using assms(2) by auto
  show ?thesis
  proof (cases ys)
    case Nil
    then show ?thesis using Cons assms(3) x by (simp add: join_Cons) (metis hd_append list.sel(1))
  next
    fix y ys' assume ys: "ys = y # ys'"
    let ?t = "\<lambda>xs r. concat (map (\<lambda>x. CHR '','' # f x) xs) @ z # r"
    have ends: "ends (?t xs r)" for xs r using z by (cases xs) auto
    have "f x @ ?t xs' r = f y @ ?t ys' r'"
      using assms(3) by (simp add: Cons ys join_Cons o_def)
    moreover have "decodable f N x y" using assms(1) Cons ys by simp
    ultimately have "N x = N y" "?t xs' r = ?t ys' r'"
      using ends unfolding decodable_def by blast+
    then show ?thesis using decode_tail [of xs' ys' f N z r r'] assms(1) z Cons ys by auto
  qed
qed

subsection \<open>Texts of arrays and objects\<close>

definition json_text :: "json \<Rightarrow> string" where
  "json_text v = (case serializeJson v of Inl _ \<Rightarrow> [] | Inr s \<Rightarrow> s)"

definition member_text :: "string \<times> json \<Rightarrow> string" where
  "member_text e = json_string (fst e) @ '':'' @ json_text (snd e)"

definition norm_member :: "string \<times> json \<Rightarrow> string \<times> json" where
  "norm_member e = (fst e, norm_json (snd e))"

lemma json_text_Inr [simp]: "serializeJson v = Inr s \<Longrightarrow> json_text v = s"
  by (simp add: json_text_def)

lemma serialize_arr:
  assumes "serializeJson (JArr xs) = Inr s"
  shows "(\<forall>x \<in> set xs. \<exists>t. serializeJson x = Inr t) \<and>
    s = CHR ''['' # join '','' (map json_text xs) @ [CHR '']'']"
proof -
  from assms obtain ss where ss: "map_err serializeJson xs = Inr ss"
    "s = CHR ''['' # join '','' ss @ [CHR '']'']" by (auto simp: err_simps)
  have all: "list_all2 (\<lambda>x y. serializeJson x = Inr y) xs ss"
    using ss(1) by (simp add: map_err_Inr)
  then have "ss = map json_text xs" by (induction rule: list_all2_induct) auto
  moreover have "\<forall>x \<in> set xs. \<exists>t. serializeJson x = Inr t"
    using all by (induction rule: list_all2_induct) auto
  ultimately show ?thesis using ss(2) by simp
qed

lemma serialize_obj:
  assumes "serializeJson (JObj es) = Inr s"
  shows "(\<forall>e \<in> set (sorted_members es). \<exists>t. serializeJson (snd e) = Inr t) \<and>
    s = CHR ''{'' # join '','' (map member_text (sorted_members es)) @ [CHR ''}'']"
proof -
  let ?f = "\<lambda>(k, v). and_then (serializeJson v) (\<lambda>s. Inr (json_string k @ '':'' @ s))"
  from assms obtain ss where ss: "map_err ?f (sorted_members es) = Inr ss"
    "s = CHR ''{'' # join '','' ss @ [CHR ''}'']" by (auto simp: err_simps)
  have all: "list_all2 (\<lambda>x y. ?f x = Inr y) (sorted_members es) ss"
    using ss(1) by (simp add: map_err_Inr)
  then have "ss = map member_text (sorted_members es)"
    by (induction rule: list_all2_induct) (auto simp: err_simps member_text_def)
  moreover have "\<forall>e \<in> set (sorted_members es). \<exists>t. serializeJson (snd e) = Inr t"
    using all by (induction rule: list_all2_induct) (auto simp: err_simps)
  ultimately show ?thesis using ss(2) by simp
qed

text \<open>The first character tells the kind of value.\<close>

fun json_kind :: "json \<Rightarrow> nat" where
  "json_kind JNull = 0" | "json_kind (JBool b) = 1" | "json_kind (JNum n) = 2"
| "json_kind (JStr s) = 3" | "json_kind (JArr xs) = 4" | "json_kind (JObj es) = 5"
| "json_kind _ = 6"

definition char_kind :: "char \<Rightarrow> nat" where
  "char_kind c = (if c = CHR ''n'' then 0 else if c \<in> {CHR ''t'', CHR ''f''} then 1
     else if is_digit c \<or> c = CHR ''-'' then 2 else if c = CHR 0x22 then 3
     else if c = CHR ''['' then 4 else if c = CHR ''{'' then 5 else 7)"

lemma serialize_kind:
  assumes "serializeJson v = Inr s" "wf_json v"
  shows "s \<noteq> [] \<and> char_kind (hd s) = json_kind v"
proof (cases v)
  case (JNum n)
  have num: "char_kind c = 2" if "is_digit c \<or> c = CHR ''-''" for c
    using that by (auto simp: char_kind_def is_digit_def code_def)
  show ?thesis using assms num [of "hd s"] by (cases n) (simp_all add: JNum, auto simp: num)
next
  case (JBool b)
  then show ?thesis using assms by (cases b) (auto simp: char_kind_def)
next
  case (JArr xs)
  from serialize_arr [OF assms(1) [unfolded JArr]] show ?thesis
    by (simp add: JArr char_kind_def is_digit_def code_def)
next
  case (JObj es)
  from serialize_obj [OF assms(1) [unfolded JObj]] show ?thesis
    by (simp add: JObj char_kind_def is_digit_def code_def)
qed (use assms in \<open>auto simp: char_kind_def json_string_def is_digit_def code_def\<close>)

lemma serialize_first:
  assumes "serializeJson v = Inr s" "wf_json v"
  shows "s \<noteq> [] \<and> hd s \<noteq> CHR '']'' \<and> hd s \<noteq> CHR ''}''"
proof -
  have "json_kind v \<noteq> 7" by (cases v) auto
  moreover have "char_kind (CHR '']'') = 7" "char_kind (CHR ''}'') = 7"
    by (simp_all add: char_kind_def is_digit_def code_def)
  ultimately show ?thesis using serialize_kind [OF assms] by metis
qed

lemma member_decodable:
  assumes "decodable json_text norm_json (snd d) (snd e)"
  shows "decodable member_text norm_member d e"
  unfolding decodable_def
proof (intro allI impI)
  fix r r' assume eq: "member_text d @ r = member_text e @ r'" and ends: "ends r" "ends r'"
  then have "fst d = fst e \<and> CHR '':'' # json_text (snd d) @ r = CHR '':'' # json_text (snd e) @ r'"
    by (intro json_string_decode) (simp add: member_text_def json_string_def)
  then show "norm_member d = norm_member e \<and> r = r'"
    using assms ends by (auto simp: decodable_def norm_member_def)
qed

lemma norm_obj: "norm_json (JObj es) = JObj (map norm_member (sorted_members es))"
  by (simp add: norm_member_def split_def)

text \<open>A canonical text determines the normal form of the value it was written from, and where it
  ends.\<close>

lemma serialize_decodable:
  assumes "serializeJson v = Inr s" "serializeJson w = Inr t" "wf_json v" "wf_json w"
    and "s @ r = t @ r'" "ends r" "ends r'"
  shows "norm_json v = norm_json w \<and> r = r'"
  using assms
proof (induction v arbitrary: w s t r r')
  case JNull
  then have "json_kind w = 0"
    using serialize_kind by (metis hd_append json_kind.simps(1))
  then show ?case using JNull by (cases w) auto
next
  case (JBool b)
  then have "json_kind w = 1"
    using serialize_kind by (metis hd_append json_kind.simps(2))
  then show ?case using JBool by (cases w) (auto split: if_splits)
next
  case (JNum n)
  then have "json_kind w = 2"
    using serialize_kind by (metis hd_append json_kind.simps(3))
  then obtain m where w: "w = JNum m" by (cases w) auto
  have zero: "\<forall>c \<in> set ''0''. numeric_char c" by (simp add: numeric_char_def)
  have "s = t \<and> r = r'"
    using JNum zero by (intro numeric_decode) (cases n; cases m; auto simp: w)+
  then show ?case using JNum.prems(1,2) by (cases n; cases m) (auto simp: w)
next
  case (JStr x)
  then have "json_kind w = 3"
    using serialize_kind by (metis hd_append json_kind.simps(4))
  then obtain y where w: "w = JStr y" by (cases w) auto
  show ?case using JStr json_string_decode [of x r y r'] by (auto simp: w json_string_def)
next
  case (JArr xs)
  then have "json_kind w = 4"
    using serialize_kind by (metis hd_append json_kind.simps(5))
  then obtain ys where w: "w = JArr ys" by (cases w) auto
  note xs = serialize_arr [OF JArr.prems(1)] and ys = serialize_arr [OF JArr.prems(2) [unfolded w]]
  have dec: "decodable json_text norm_json x y" if "x \<in> set xs" "y \<in> set ys" for x y
  proof -
    note xy = that
    obtain a where a: "serializeJson x = Inr a" using xy(1) xs by auto
    obtain b where b: "serializeJson y = Inr b" using xy(2) ys by auto
    have "wf_json x" "wf_json y" using that JArr.prems(3,4) by (auto simp: w)
    from JArr.IH [OF that(1) a b this] show ?thesis by (simp add: decodable_def a b)
  qed
  have first: "json_text x \<noteq> [] \<and> hd (json_text x) \<noteq> CHR '']''" if "x \<in> set xs \<union> set ys" for x
  proof -
    note x = that
    obtain a where a: "serializeJson x = Inr a" using x xs ys by auto
    have "wf_json x" using that JArr.prems(3,4) by (auto simp: w)
    from serialize_first [OF a this] show ?thesis by (simp add: a)
  qed
  have "join '','' (map json_text xs) @ CHR '']'' # r = join '','' (map json_text ys) @ CHR '']'' # r'"
    using JArr.prems(5) xs ys by simp
  from decode_join [OF dec first this] show ?case by (simp add: w)
next
  case (JObj es)
  then have "json_kind w = 5"
    using serialize_kind by (metis hd_append json_kind.simps(6))
  then obtain fs where w: "w = JObj fs" by (cases w) auto
  note es = serialize_obj [OF JObj.prems(1)] and fs = serialize_obj [OF JObj.prems(2) [unfolded w]]
  have dec: "decodable member_text norm_member d e"
    if "d \<in> set (sorted_members es)" "e \<in> set (sorted_members fs)" for d e
  proof (rule member_decodable)
    note de = that
    obtain k v where d: "d = (k, v)" by (cases d)
    then have v: "(k, v) \<in> set es" using that(1) by (auto simp: set_sorted_members)
    have "snd e \<in> snd ` set fs" using that(2) by (force simp: set_sorted_members)
    then have "wf_json (snd d)" "wf_json (snd e)"
      using JObj.prems(3,4) v by (auto simp: w d)
    moreover obtain a where a: "serializeJson (snd d) = Inr a" using de(1) es by auto
    moreover obtain b where b: "serializeJson (snd e) = Inr b" using de(2) fs by auto
    ultimately show "decodable json_text norm_json (snd d) (snd e)"
      using JObj.IH [OF v, of v a "snd e" b] d by (simp add: decodable_def)
  qed
  have first: "member_text x \<noteq> [] \<and> hd (member_text x) \<noteq> CHR ''}''" for x
    by (simp add: member_text_def json_string_def)
  have "join '','' (map member_text (sorted_members es)) @ CHR ''}'' # r =
      join '','' (map member_text (sorted_members fs)) @ CHR ''}'' # r'"
    using JObj.prems(5) es fs by simp
  from decode_join [OF dec first this] show ?case by (simp add: w norm_obj del: norm_json.simps)
qed auto

lemma canonical_inj:
  assumes "serializeJson v = Inr s" "serializeJson w = Inr s" "wf_json v" "wf_json w"
  shows "norm_json v = norm_json w"
  using serialize_decodable [OF assms, of "[]" "[]"] by simp

text \<open>The serialiser looks at the normal form only.\<close>

lemma sorted_members_norm:
  "sorted_members (map norm_member (sorted_members es)) = map norm_member (sorted_members es)"
proof -
  let ?xs = "map norm_member (sorted_members es)"
  have keys: "map fst ?xs = map fst (sorted_members es)"
    by (induction es) (auto simp: norm_member_def)
  have "norm_json v \<noteq> JUndefined" if "v \<noteq> JUndefined" for v
    using that by (cases v rule: norm_json.cases) auto
  then have "\<forall>e \<in> set ?xs. snd e \<noteq> JUndefined"
    by (auto simp: norm_member_def set_sorted_members)
  then have "filter (\<lambda>(k, v). v \<noteq> JUndefined) ?xs = ?xs"
    by (auto simp: filter_id_conv)
  moreover have "sorted (map fst ?xs)"
    unfolding keys by (simp add: sorted_members_def)
  ultimately show ?thesis by (simp add: sorted_members_def sort_key_id_if_sorted)
qed

lemma map_err_norm_members:
  "\<forall>e \<in> set xs. serializeJson (norm_json (snd e)) = serializeJson (snd e) \<Longrightarrow>
   map_err (\<lambda>(k, v). and_then (serializeJson v) (\<lambda>s. Inr (json_string k @ '':'' @ s))) (map norm_member xs) =
   map_err (\<lambda>(k, v). and_then (serializeJson v) (\<lambda>s. Inr (json_string k @ '':'' @ s))) xs"
  by (induction xs) (auto simp: norm_member_def split_def)

lemma serializeJson_norm: "serializeJson (norm_json v) = serializeJson v"
proof (induction v)
  case (JNum n)
  then show ?case by (cases n) auto
next
  case (JArr xs)
  have "map_err serializeJson (map norm_json xs) = map_err serializeJson xs"
    using JArr by (induction xs) auto
  then show ?case by simp
next
  case (JObj es)
  let ?f = "\<lambda>(k, v). and_then (serializeJson v) (\<lambda>s. Inr (json_string k @ '':'' @ s))"
  have "\<forall>e \<in> set (sorted_members es). serializeJson (norm_json (snd e)) = serializeJson (snd e)"
    using JObj by (auto simp: set_sorted_members)
  then have "map_err ?f (map norm_member (sorted_members es)) = map_err ?f (sorted_members es)"
    by (rule map_err_norm_members)
  then show ?case
    unfolding norm_obj by (simp only: serializeJson.simps sorted_members_norm)
qed auto

text \<open>C17. The canonical text identifies a protocol object: two well-formed values that serialise are
  written to the same text exactly when they are the same object up to member order, members that
  are undefined and the sign of zero.\<close>

theorem canonical_text_identifies:
  assumes "canonicalizeProtocolObject v = Inr s" "canonicalizeProtocolObject w = Inr t"
    and "wf_json v" "wf_json w"
  shows "s = t \<longleftrightarrow> norm_json v = norm_json w"
  using assms canonical_inj [of v s w] serializeJson_norm
  by (metis canonicalizeProtocolObject_def sum.inject(2))

definition sample_object :: json where
  "sample_object = JObj [(''b'', JArr [JNum NegZero, JBool True]), (''x'', JUndefined), (''a'', JStr [CHR 0x22])]"

theorem canonical_text_identifies_witness:
  "canonicalizeProtocolObject sample_object =
     Inr (''{'' @ json_string ''a'' @ '':'' @ json_string [CHR 0x22] @ '','' @ json_string ''b'' @ '':[0,true]}'') \<and>
   norm_json sample_object = norm_json (norm_json sample_object)"
proof -
  have s: "canonicalizeProtocolObject sample_object =
     Inr (''{'' @ json_string ''a'' @ '':'' @ json_string [CHR 0x22] @ '','' @ json_string ''b'' @ '':[0,true]}'')"
    by code_simp
  have t: "canonicalizeProtocolObject (norm_json sample_object) =
     Inr (''{'' @ json_string ''a'' @ '':'' @ json_string [CHR 0x22] @ '','' @ json_string ''b'' @ '':[0,true]}'')"
    by code_simp
  have "wf_json sample_object" "wf_json (norm_json sample_object)" by code_simp+
  with canonical_text_identifies [OF s t] s show ?thesis by blast
qed

section \<open>Signing bytes\<close>

text \<open>\<^verbatim>\<open>signing.ts\<close>: a message is signed under a domain tag, one line before the canonical text.\<close>

definition buildDomainSeparatedSigningBytes :: "string \<Rightarrow> json \<Rightarrow> string + bytes" where
  "buildDomainSeparatedSigningBytes domain v =
     and_then (canonicalizeProtocolObject v) (\<lambda>s. Inr (utf8Bytes (domain @ [CHR 0x0A] @ s)))"

lemma line_split:
  assumes "d @ c # s = d' @ c # s'" "c \<notin> set d" "c \<notin> set d'"
  shows "d = d' \<and> s = s'"
  using assms
proof (induction d arbitrary: d')
  case Nil
  then show ?case by (cases d') auto
next
  case (Cons x d)
  then show ?case by (cases d') auto
qed

lemma domain_bytes_decode:
  assumes "buildDomainSeparatedSigningBytes d v = Inr m" "buildDomainSeparatedSigningBytes d' w = Inr m"
    and "CHR 0x0A \<notin> set d" "CHR 0x0A \<notin> set d'" "wf_json v" "wf_json w"
  shows "d = d' \<and> norm_json v = norm_json w"
proof -
  obtain s t where s: "serializeJson v = Inr s" "utf8Bytes (d @ [CHR 0x0A] @ s) = m"
    and t: "serializeJson w = Inr t" "utf8Bytes (d' @ [CHR 0x0A] @ t) = m"
    using assms(1,2)
    by (auto simp: buildDomainSeparatedSigningBytes_def canonicalizeProtocolObject_def err_simps)
  then have "utf8Bytes (d @ [CHR 0x0A] @ s) = utf8Bytes (d' @ [CHR 0x0A] @ t)" by simp
  then have "d @ CHR 0x0A # s = d' @ CHR 0x0A # t" unfolding utf8Bytes_inj by simp
  from line_split [OF this assms(3,4)] have eq: "d = d'" "s = t" by auto
  then show ?thesis using canonical_inj [OF s(1) _ assms(5,6)] t(1) by simp
qed

text \<open>Domain separation: equal signing bytes come from the same domain tag (a tag has no line
  break) and the same protocol object, so a signature on one kind of message is never a signature on
  another kind, nor on another object of the same kind.\<close>

theorem signing_bytes_separate:
  assumes "buildDomainSeparatedSigningBytes d v = Inr m" "buildDomainSeparatedSigningBytes d' w = Inr m"
    and "CHR 0x0A \<notin> set d" "CHR 0x0A \<notin> set d'" "wf_json v" "wf_json w"
  shows "d = d' \<and> norm_json v = norm_json w"
  by (rule domain_bytes_decode [OF assms])

theorem signing_bytes_separate_witness:
  "buildDomainSeparatedSigningBytes ''split402:offer:v1'' (JObj []) =
     Inr (utf8Bytes (''split402:offer:v1'' @ [CHR 0x0A] @ ''{}'')) \<and>
   norm_json (JObj []) = norm_json (JObj [(''signature'', JUndefined)])"
proof -
  have a: "buildDomainSeparatedSigningBytes ''split402:offer:v1'' (JObj []) =
      Inr (utf8Bytes (''split402:offer:v1'' @ [CHR 0x0A] @ ''{}''))"
    and b: "buildDomainSeparatedSigningBytes ''split402:offer:v1'' (JObj [(''signature'', JUndefined)]) =
      Inr (utf8Bytes (''split402:offer:v1'' @ [CHR 0x0A] @ ''{}''))"
    by (simp_all add: buildDomainSeparatedSigningBytes_def canonicalizeProtocolObject_def sorted_members_def)
  show ?thesis using signing_bytes_separate [OF a b] a by simp
qed

section \<open>operation.ts\<close>

record operation_input =
  opi_merchantId :: string
  opi_operationId :: string
  opi_method :: string
  opi_pathTemplate :: string
  opi_pathParams :: "(string \<times> json) list option"
  opi_query :: "(string \<times> json) list option"
  opi_body :: "json option"
  opi_paymentId :: string
  opi_offerNonce :: string

text \<open>\<open>String.prototype.toUpperCase\<close> on ASCII (HTTP method names).\<close>

definition upper_char :: "char \<Rightarrow> char" where
  "upper_char c = (if 97 \<le> code c \<and> code c \<le> 122 then char_of (code c - 32) else c)"

definition buildOperationObject :: "operation_input \<Rightarrow> json" where
  "buildOperationObject i = JObj [
     (''version'', JStr ''split402-operation-v1''),
     (''merchantId'', JStr (opi_merchantId i)),
     (''operationId'', JStr (opi_operationId i)),
     (''method'', JStr (map upper_char (opi_method i))),
     (''pathTemplate'', JStr (opi_pathTemplate i)),
     (''pathParams'', JObj (case opi_pathParams i of None \<Rightarrow> [] | Some p \<Rightarrow> p)),
     (''query'', JObj (case opi_query i of None \<Rightarrow> [] | Some q \<Rightarrow> q)),
     (''body'', (case opi_body i of None \<Rightarrow> JNull | Some b \<Rightarrow> if b = JUndefined then JNull else b)),
     (''paymentId'', JStr (opi_paymentId i)),
     (''offerNonce'', JStr (opi_offerNonce i))]"

definition calculateOperationDigest :: "(bytes \<Rightarrow> bytes) \<Rightarrow> operation_input \<Rightarrow> string + string" where
  "calculateOperationDigest sha256 i = hashProtocolObject sha256 (buildOperationObject i)"

end
