(* ===== verification/Commission.thy ===== *)
theory Commission
  imports Amounts
begin

text \<open>
  \<^verbatim>\<open>packages/protocol/src/commission.ts\<close> and \<^verbatim>\<open>self-referral.ts\<close>: the split of a settled amount
  into commission, protocol fee and referrer credit, and the policy that refuses self-referrals. A
  \<open>bigint\<close> is an \<open>int\<close>; the divisions have non-negative operands, where truncation and \<open>div\<close> agree.
\<close>

section \<open>commission.ts\<close>

record commission_breakdown =
  commission :: int
  protocolFee :: int
  referrerCredit :: int

definition calculateCommission :: "int \<Rightarrow> int \<Rightarrow> int \<Rightarrow> string + commission_breakdown" where
  "calculateCommission requiredAmountAtomic commissionBps protocolFeeBpsOfCommission =
     (if requiredAmountAtomic < 0 then Inl ''negative amount''
      else if commissionBps < 0 \<or> commissionBps > 10000 then Inl ''invalid commission bps''
      else if protocolFeeBpsOfCommission < 0 \<or> protocolFeeBpsOfCommission > 10000
      then Inl ''invalid protocol fee bps''
      else let c = (requiredAmountAtomic * commissionBps) div 10000;
               f = (c * protocolFeeBpsOfCommission) div 10000
           in Inr \<lparr>commission = c, protocolFee = f, referrerCredit = c - f\<rparr>)"

text \<open>A share of at most 10000 basis points lies between 0 and the whole.\<close>

lemma bps_share:
  fixes a b :: int
  assumes "0 \<le> a" "0 \<le> b" "b \<le> 10000"
  shows "0 \<le> (a * b) div 10000" "(a * b) div 10000 \<le> a"
proof -
  show "0 \<le> (a * b) div 10000" using assms by (simp add: pos_imp_zdiv_nonneg_iff)
  have "a * b \<le> a * 10000" using assms by (intro mult_left_mono) auto
  then show "(a * b) div 10000 \<le> a" using zdiv_mono1 [of "a * b" "a * 10000" 10000] by simp
qed

lemma bps_share_floor:
  fixes a b :: int
  shows "10000 * ((a * b) div 10000) \<le> a * b" "a * b < 10000 * ((a * b) div 10000) + 10000"
  by (simp_all add: minus_mod_eq_mult_div [symmetric])

lemma calculateCommission_Inr:
  "calculateCommission a b p = Inr r \<longleftrightarrow>
   0 \<le> a \<and> 0 \<le> b \<and> b \<le> 10000 \<and> 0 \<le> p \<and> p \<le> 10000 \<and>
   commission r = (a * b) div 10000 \<and> protocolFee r = (commission r * p) div 10000 \<and>
   referrerCredit r = commission r - protocolFee r"
  by (cases r) (auto simp: calculateCommission_def Let_def)

text \<open>C16. Splitting an amount conserves money and never pays more than it: whenever the calculation
  returns, the protocol fee and the referrer credit are non-negative and add up to the commission,
  the commission is between 0 and the paid amount, and both roundings are down by less than one
  atomic unit.\<close>

theorem commission_split_conserves:
  assumes "calculateCommission a bps fee_bps = Inr r"
  shows "protocolFee r + referrerCredit r = commission r \<and>
    0 \<le> protocolFee r \<and> 0 \<le> referrerCredit r \<and> 0 \<le> commission r \<and> commission r \<le> a \<and>
    10000 * commission r \<le> a * bps \<and> a * bps < 10000 * commission r + 10000 \<and>
    10000 * protocolFee r \<le> commission r * fee_bps \<and>
    commission r * fee_bps < 10000 * protocolFee r + 10000"
proof -
  from assms have r: "0 \<le> a" "0 \<le> bps" "bps \<le> 10000" "0 \<le> fee_bps" "fee_bps \<le> 10000"
    "commission r = (a * bps) div 10000" "protocolFee r = (commission r * fee_bps) div 10000"
    "referrerCredit r = commission r - protocolFee r"
    by (auto simp: calculateCommission_Inr)
  have c: "0 \<le> commission r" "commission r \<le> a" using bps_share r by auto
  have f: "0 \<le> protocolFee r" "protocolFee r \<le> commission r"
    using bps_share [OF c(1)] r by auto
  note floors = bps_share_floor [of a bps, folded r(6)]
    bps_share_floor [of "commission r" fee_bps, folded r(7)]
  show ?thesis
    by (intro conjI) (use c f r(8) floors in linarith)+
qed

theorem commission_split_conserves_witness:
  "calculateCommission 1000003 2000 1000 =
     Inr \<lparr>commission = 200000, protocolFee = 20000, referrerCredit = 180000\<rparr> \<and>
   (20000::int) + 180000 = 200000"
proof -
  have h: "calculateCommission 1000003 2000 1000 =
      Inr \<lparr>commission = 200000, protocolFee = 20000, referrerCredit = 180000\<rparr>"
    by (simp add: calculateCommission_def)
  then show ?thesis using commission_split_conserves [OF h] by simp
qed

text \<open>The calculation returns exactly on the inputs in range.\<close>

lemma calculateCommission_total:
  "0 \<le> a \<Longrightarrow> 0 \<le> b \<Longrightarrow> b \<le> 10000 \<Longrightarrow> 0 \<le> p \<Longrightarrow> p \<le> 10000 \<Longrightarrow>
   \<exists>r. calculateCommission a b p = Inr r"
  by (simp add: calculateCommission_def Let_def)

section \<open>self-referral.ts\<close>

record self_referral_input =
  sr_allowSelfReferral :: bool
  sr_payerWallet :: string
  sr_referrerWallet :: "string option"
  sr_payoutWallet :: "string option"
  sr_merchantOwnerWallet :: "string option"

datatype self_referral_reason =
  Payer_is_referrer | Payer_is_payout_wallet | Merchant_owner_is_referrer
  | Merchant_owner_is_payout_wallet

fun show_reason :: "self_referral_reason \<Rightarrow> string" where
  "show_reason Payer_is_referrer = ''payer_is_referrer''"
| "show_reason Payer_is_payout_wallet = ''payer_is_payout_wallet''"
| "show_reason Merchant_owner_is_referrer = ''merchant_owner_is_referrer''"
| "show_reason Merchant_owner_is_payout_wallet = ''merchant_owner_is_payout_wallet''"

text \<open>The result: \<open>None\<close> is \<open>{ allowed: true }\<close>, \<open>Some\<close> the reason of the refusal.\<close>

definition evaluateSelfReferralPolicy :: "self_referral_input \<Rightarrow> self_referral_reason option" where
  "evaluateSelfReferralPolicy i =
     (if sr_allowSelfReferral i then None
      else if sr_referrerWallet i = None \<and> sr_payoutWallet i = None then None
      else if sr_referrerWallet i \<noteq> None \<and> Some (sr_payerWallet i) = sr_referrerWallet i
      then Some Payer_is_referrer
      else if sr_payoutWallet i \<noteq> None \<and> Some (sr_payerWallet i) = sr_payoutWallet i
      then Some Payer_is_payout_wallet
      else if sr_merchantOwnerWallet i \<noteq> None \<and> sr_referrerWallet i \<noteq> None \<and>
        sr_merchantOwnerWallet i = sr_referrerWallet i
      then Some Merchant_owner_is_referrer
      else if sr_merchantOwnerWallet i \<noteq> None \<and> sr_payoutWallet i \<noteq> None \<and>
        sr_merchantOwnerWallet i = sr_payoutWallet i
      then Some Merchant_owner_is_payout_wallet
      else None)"

lemma evaluateSelfReferralPolicy_allowed:
  "evaluateSelfReferralPolicy i = None \<longleftrightarrow>
   sr_allowSelfReferral i \<or>
   (\<forall>w \<in> {sr_referrerWallet i, sr_payoutWallet i} - {None}.
      w \<noteq> Some (sr_payerWallet i) \<and> w \<noteq> sr_merchantOwnerWallet i)"
  by (auto simp: evaluateSelfReferralPolicy_def)

end
