(* ===== verification/Protocol.thy ===== *)
theory Protocol
  imports Canonical Commission
begin

text \<open>
  \<^verbatim>\<open>packages/protocol/src/schemas.ts\<close> and \<^verbatim>\<open>ids.ts\<close>: the signed artifacts (offer, referral claim,
  attribution, receipt), what their schemas accept, and the protocol objects they are. Zod's own
  string formats (\<open>.url()\<close>, \<open>.datetime()\<close>) are parameters. A JavaScript integer is an \<open>int\<close> (Zod's
  \<open>.int()\<close> accepts safe integers, whose text is the decimal one).
\<close>

section \<open>Regular expressions\<close>

definition is_lower :: "char \<Rightarrow> bool" where
  "is_lower c \<longleftrightarrow> 97 \<le> code c \<and> code c \<le> 122"

definition id_regex :: "string \<Rightarrow> bool" where
  "id_regex s \<longleftrightarrow> 36 \<le> length s \<and> (\<forall>c \<in> set (take 3 s). is_lower c) \<and> s ! 3 = CHR ''_'' \<and>
     (\<forall>c \<in> set (drop 4 s). is_hex c)"

definition sha256_regex :: "string \<Rightarrow> bool" where
  "sha256_regex s \<longleftrightarrow> take 7 s = ''sha256:'' \<and> length s = 71 \<and> (\<forall>c \<in> set (drop 7 s). is_hex c)"

definition base58_regex :: "string \<Rightarrow> bool" where
  "base58_regex s \<longleftrightarrow> 32 \<le> length s \<and> length s \<le> 88 \<and> (\<forall>c \<in> set s. c \<in> set BASE58_ALPHABET)"

definition evm_address_regex :: "string \<Rightarrow> bool" where
  "evm_address_regex s \<longleftrightarrow> take 2 s = ''0x'' \<and> length s = 42 \<and>
     (\<forall>c \<in> set (drop 2 s). is_hex c \<or> (65 \<le> code c \<and> code c \<le> 70))"

definition base64url_regex :: "string \<Rightarrow> bool" where
  "base64url_regex s \<longleftrightarrow> s \<noteq> [] \<and> (\<forall>c \<in> set s. base64url_regex_char c)"

definition payment_identifier :: "string \<Rightarrow> bool" where
  "payment_identifier s \<longleftrightarrow> base58_regex s \<or> evm_address_regex s"

text \<open>\<open>isPrefixedId\<close>: with a prefix, the same expression with the prefix fixed.\<close>

definition isPrefixedId :: "string \<Rightarrow> string option \<Rightarrow> bool" where
  "isPrefixedId v prefix \<longleftrightarrow> id_regex v \<and> (case prefix of None \<Rightarrow> True | Some p \<Rightarrow> take 3 v = p)"

definition assertPrefixedId :: "string \<Rightarrow> string option \<Rightarrow> string + unit" where
  "assertPrefixedId v prefix = ensure (isPrefixedId v prefix)
     (case prefix of None \<Rightarrow> ''invalid Split402 ID'' | Some p \<Rightarrow> ''invalid '' @ p @ ''_ ID'')"

text \<open>\<open>createPrefixedId\<close> on the bytes the random generator returned.\<close>

definition createPrefixedId :: "string \<Rightarrow> nat \<Rightarrow> (nat \<Rightarrow> bytes) \<Rightarrow> string + string" where
  "createPrefixedId prefix entropyBytes randomBytes =
     (if entropyBytes < 16 then Inl ''Split402 IDs require at least 128 bits of entropy''
      else Inr (prefix @ ''_'' @ bytesToHex (randomBytes entropyBytes)))"

lemma bytesToHex_length: "length (bytesToHex bs) = 2 * length bs"
  by (induction bs) (auto simp: bytesToHex_def)

lemma createPrefixedId_valid:
  assumes "createPrefixedId p n rnd = Inr i" "length (rnd n) = n"
    and "length p = 3" "\<forall>c \<in> set p. is_lower c"
  shows "isPrefixedId i (Some p)"
proof -
  from assms have n: "16 \<le> n" and i: "i = p @ ''_'' @ bytesToHex (rnd n)"
    by (auto simp: createPrefixedId_def split: if_splits)
  have "i ! 3 = CHR ''_''" using assms(3) by (simp add: i nth_append)
  then show ?thesis
    using assms n hex_chars_ok by (auto simp: i isPrefixedId_def id_regex_def bytesToHex_length)
qed

lemma hash_regex:
  assumes "hashProtocolObject sha v = Inr h" "\<And>bs. length (sha bs) = 32"
  shows "sha256_regex h"
proof -
  obtain bs where "h = ''sha256:'' @ bytesToHex (sha bs)"
    using assms(1) by (auto simp: hashProtocolObject_def sha256Bytes_def and_then_Inr)
  then show ?thesis using assms(2) hex_chars_ok by (auto simp: sha256_regex_def bytesToHex_length)
qed

section \<open>The artifacts\<close>

record solana_signature =
  sg_type :: string
  sg_publicKey :: string
  sg_value :: string

record referral_claim =
  cl_version :: string
  cl_routeId :: string
  cl_campaignId :: string
  cl_campaignVersionMin :: int
  cl_referrerWallet :: string
  cl_payoutWallet :: string
  cl_resourceOrigin :: string
  cl_operationIds :: "string list"
  cl_issuedAt :: string
  cl_expiresAt :: string
  cl_nonce :: string
  cl_metadataHash :: "string option"
  cl_signature :: solana_signature

record offer =
  of_protocolVersion :: string
  of_campaignId :: string
  of_campaignVersion :: int
  of_campaignTermsHash :: string
  of_merchantId :: string
  of_resourceOrigin :: string
  of_operationId :: string
  of_network :: string
  of_asset :: string
  of_requiredAmountAtomic :: string
  of_payToWallet :: string
  of_commissionBps :: int
  of_protocolFeeBpsOfCommission :: int
  of_commissionBase :: string
  of_settlementMode :: string
  of_attributionRequired :: bool
  of_allowSelfReferral :: bool
  of_offerNonce :: string
  of_issuedAt :: string
  of_validUntil :: string
  of_kid :: string
  of_signature :: string

record buyer_proof =
  bp_type :: string
  bp_publicKey :: string
  bp_signature :: string

record attribution =
  at_protocolVersion :: string
  at_offer :: offer
  at_paymentId :: string
  at_requestDigest :: string
  at_referralClaim :: "referral_claim option"
  at_buyerProof :: "buyer_proof option"

record receipt =
  rc_protocolVersion :: string
  rc_receiptId :: string
  rc_merchantId :: string
  rc_merchantOrigin :: string
  rc_operationId :: string
  rc_requestDigest :: string
  rc_campaignId :: string
  rc_campaignVersion :: int
  rc_campaignTermsHash :: string
  rc_routeId :: "string option"
  rc_referralClaimHash :: "string option"
  rc_referrerWallet :: "string option"
  rc_payoutWallet :: "string option"
  rc_paymentId :: string
  rc_network :: string
  rc_asset :: string
  rc_payerWallet :: string
  rc_payToWallet :: string
  rc_requiredAmountAtomic :: string
  rc_settledAmountAtomic :: "string option"
  rc_settlementTxSignature :: string
  rc_commissionBps :: int
  rc_protocolFeeBpsOfCommission :: int
  rc_commissionBaseAtomic :: string
  rc_commissionAmountAtomic :: string
  rc_protocolFeeAtomic :: string
  rc_referrerCreditAtomic :: string
  rc_settlementMode :: string
  rc_offerNonce :: string
  rc_settledAt :: string
  rc_issuedAt :: string
  rc_recordingStatus :: string
  rc_eventId :: "string option"
  rc_kid :: string
  rc_signature :: string

section \<open>What the schemas accept\<close>

record zod =
  z_url :: "string \<Rightarrow> bool"
  z_datetime :: "string \<Rightarrow> bool"

definition utc_timestamp :: "zod \<Rightarrow> string \<Rightarrow> bool" where
  "utc_timestamp z s \<longleftrightarrow> z_datetime z s \<and> s \<noteq> [] \<and> last s = CHR ''Z''"

definition opt_all :: "('a \<Rightarrow> bool) \<Rightarrow> 'a option \<Rightarrow> bool" where
  "opt_all P o' \<longleftrightarrow> (case o' of None \<Rightarrow> True | Some x \<Rightarrow> P x)"

lemma opt_all_simps [simp]: "opt_all P None" "opt_all P (Some x) \<longleftrightarrow> P x"
  by (simp_all add: opt_all_def)

definition bps_range :: "int \<Rightarrow> bool" where
  "bps_range n \<longleftrightarrow> 0 \<le> n \<and> n \<le> 10000"

definition signature_schema :: "solana_signature \<Rightarrow> bool" where
  "signature_schema g \<longleftrightarrow> sg_type g = ''solana-ed25519'' \<and> base58_regex (sg_publicKey g) \<and>
     base64url_regex (sg_value g)"

definition claim_schema :: "zod \<Rightarrow> referral_claim \<Rightarrow> bool" where
  "claim_schema z c \<longleftrightarrow>
     cl_version c = ''1'' \<and> id_regex (cl_routeId c) \<and> id_regex (cl_campaignId c) \<and>
     0 < cl_campaignVersionMin c \<and> base58_regex (cl_referrerWallet c) \<and>
     base58_regex (cl_payoutWallet c) \<and> z_url z (cl_resourceOrigin c) \<and>
     (cl_operationIds c = [''*''] \<or> (cl_operationIds c \<noteq> [] \<and> (\<forall>o' \<in> set (cl_operationIds c). o' \<noteq> []))) \<and>
     utc_timestamp z (cl_issuedAt c) \<and> utc_timestamp z (cl_expiresAt c) \<and>
     16 \<le> length (cl_nonce c) \<and> length (cl_nonce c) \<le> 128 \<and>
     opt_all sha256_regex (cl_metadataHash c) \<and> signature_schema (cl_signature c)"

definition offer_schema :: "zod \<Rightarrow> offer \<Rightarrow> bool" where
  "offer_schema z f \<longleftrightarrow>
     of_protocolVersion f = ''0.1'' \<and> id_regex (of_campaignId f) \<and> 0 < of_campaignVersion f \<and>
     sha256_regex (of_campaignTermsHash f) \<and> id_regex (of_merchantId f) \<and>
     z_url z (of_resourceOrigin f) \<and> of_operationId f \<noteq> [] \<and> of_network f \<noteq> [] \<and>
     payment_identifier (of_asset f) \<and> atomic_regex (of_requiredAmountAtomic f) \<and>
     payment_identifier (of_payToWallet f) \<and> bps_range (of_commissionBps f) \<and>
     bps_range (of_protocolFeeBpsOfCommission f) \<and> of_commissionBase f = ''required_amount'' \<and>
     of_settlementMode f = ''accrual'' \<and> id_regex (of_offerNonce f) \<and>
     utc_timestamp z (of_issuedAt f) \<and> utc_timestamp z (of_validUntil f) \<and> of_kid f \<noteq> [] \<and>
     base64url_regex (of_signature f)"

definition buyer_proof_schema :: "buyer_proof \<Rightarrow> bool" where
  "buyer_proof_schema b \<longleftrightarrow> bp_type b = ''solana-ed25519'' \<and> base58_regex (bp_publicKey b) \<and>
     base64url_regex (bp_signature b)"

definition attribution_schema :: "zod \<Rightarrow> attribution \<Rightarrow> bool" where
  "attribution_schema z a \<longleftrightarrow>
     at_protocolVersion a = ''0.1'' \<and> offer_schema z (at_offer a) \<and> id_regex (at_paymentId a) \<and>
     sha256_regex (at_requestDigest a) \<and> opt_all (claim_schema z) (at_referralClaim a) \<and>
     opt_all buyer_proof_schema (at_buyerProof a)"

text \<open>The \<open>superRefine\<close> of the receipt: the four route fields appear together or not at all.\<close>

definition route_fields_together :: "receipt \<Rightarrow> bool" where
  "route_fields_together r \<longleftrightarrow>
     (let fields = [rc_routeId r, rc_referralClaimHash r, rc_referrerWallet r, rc_payoutWallet r]
      in \<not> (list_ex (\<lambda>f. f \<noteq> None) fields \<and> \<not> list_all (\<lambda>f. f \<noteq> None) fields))"

definition receipt_schema :: "zod \<Rightarrow> receipt \<Rightarrow> bool" where
  "receipt_schema z r \<longleftrightarrow>
     rc_protocolVersion r = ''0.1'' \<and> id_regex (rc_receiptId r) \<and> id_regex (rc_merchantId r) \<and>
     z_url z (rc_merchantOrigin r) \<and> rc_operationId r \<noteq> [] \<and> sha256_regex (rc_requestDigest r) \<and>
     id_regex (rc_campaignId r) \<and> 0 < rc_campaignVersion r \<and> sha256_regex (rc_campaignTermsHash r) \<and>
     opt_all id_regex (rc_routeId r) \<and> opt_all sha256_regex (rc_referralClaimHash r) \<and>
     opt_all base58_regex (rc_referrerWallet r) \<and> opt_all base58_regex (rc_payoutWallet r) \<and>
     id_regex (rc_paymentId r) \<and> rc_network r \<noteq> [] \<and> payment_identifier (rc_asset r) \<and>
     payment_identifier (rc_payerWallet r) \<and> payment_identifier (rc_payToWallet r) \<and>
     atomic_regex (rc_requiredAmountAtomic r) \<and> opt_all atomic_regex (rc_settledAmountAtomic r) \<and>
     rc_settlementTxSignature r \<noteq> [] \<and> bps_range (rc_commissionBps r) \<and>
     bps_range (rc_protocolFeeBpsOfCommission r) \<and> atomic_regex (rc_commissionBaseAtomic r) \<and>
     atomic_regex (rc_commissionAmountAtomic r) \<and> atomic_regex (rc_protocolFeeAtomic r) \<and>
     atomic_regex (rc_referrerCreditAtomic r) \<and> rc_settlementMode r = ''accrual'' \<and>
     id_regex (rc_offerNonce r) \<and> utc_timestamp z (rc_settledAt r) \<and> utc_timestamp z (rc_issuedAt r) \<and>
     rc_recordingStatus r \<in> {''accepted'', ''deferred''} \<and> opt_all id_regex (rc_eventId r) \<and>
     rc_kid r \<noteq> [] \<and> base64url_regex (rc_signature r) \<and> route_fields_together r"

lemma receipt_schema_amounts:
  "receipt_schema z r \<Longrightarrow> atomic_regex (rc_requiredAmountAtomic r) \<and>
   atomic_regex (rc_commissionBaseAtomic r) \<and> atomic_regex (rc_commissionAmountAtomic r) \<and>
   atomic_regex (rc_protocolFeeAtomic r) \<and> atomic_regex (rc_referrerCreditAtomic r) \<and>
   bps_range (rc_commissionBps r) \<and> bps_range (rc_protocolFeeBpsOfCommission r)"
  by (simp add: receipt_schema_def)

lemma receipt_schema_route:
  "receipt_schema z r \<Longrightarrow> rc_routeId r = None \<longleftrightarrow> rc_referrerWallet r = None \<and> rc_payoutWallet r = None"
  by (auto simp: receipt_schema_def route_fields_together_def)

section \<open>The artifacts as protocol objects\<close>

definition jopt :: "string option \<Rightarrow> json" where
  "jopt v = (case v of None \<Rightarrow> JUndefined | Some s \<Rightarrow> JStr s)"

definition claim_members :: "referral_claim \<Rightarrow> (string \<times> json) list" where
  "claim_members c =
    [(''version'', JStr (cl_version c)), (''routeId'', JStr (cl_routeId c)),
     (''campaignId'', JStr (cl_campaignId c)),
     (''campaignVersionMin'', json_int (cl_campaignVersionMin c)),
     (''referrerWallet'', JStr (cl_referrerWallet c)), (''payoutWallet'', JStr (cl_payoutWallet c)),
     (''resourceOrigin'', JStr (cl_resourceOrigin c)),
     (''operationIds'', JArr (map JStr (cl_operationIds c))),
     (''issuedAt'', JStr (cl_issuedAt c)), (''expiresAt'', JStr (cl_expiresAt c)),
     (''nonce'', JStr (cl_nonce c)), (''metadataHash'', jopt (cl_metadataHash c)),
     (''signature'', JObj [(''type'', JStr (sg_type (cl_signature c))),
        (''publicKey'', JStr (sg_publicKey (cl_signature c))),
        (''value'', JStr (sg_value (cl_signature c)))])]"

definition offer_members :: "offer \<Rightarrow> (string \<times> json) list" where
  "offer_members f =
    [(''protocolVersion'', JStr (of_protocolVersion f)), (''campaignId'', JStr (of_campaignId f)),
     (''campaignVersion'', json_int (of_campaignVersion f)),
     (''campaignTermsHash'', JStr (of_campaignTermsHash f)), (''merchantId'', JStr (of_merchantId f)),
     (''resourceOrigin'', JStr (of_resourceOrigin f)), (''operationId'', JStr (of_operationId f)),
     (''network'', JStr (of_network f)), (''asset'', JStr (of_asset f)),
     (''requiredAmountAtomic'', JStr (of_requiredAmountAtomic f)),
     (''payToWallet'', JStr (of_payToWallet f)), (''commissionBps'', json_int (of_commissionBps f)),
     (''protocolFeeBpsOfCommission'', json_int (of_protocolFeeBpsOfCommission f)),
     (''commissionBase'', JStr (of_commissionBase f)), (''settlementMode'', JStr (of_settlementMode f)),
     (''attributionRequired'', JBool (of_attributionRequired f)),
     (''allowSelfReferral'', JBool (of_allowSelfReferral f)),
     (''offerNonce'', JStr (of_offerNonce f)), (''issuedAt'', JStr (of_issuedAt f)),
     (''validUntil'', JStr (of_validUntil f)), (''kid'', JStr (of_kid f)),
     (''signature'', JStr (of_signature f))]"

definition receipt_members :: "receipt \<Rightarrow> (string \<times> json) list" where
  "receipt_members r =
    [(''protocolVersion'', JStr (rc_protocolVersion r)), (''receiptId'', JStr (rc_receiptId r)),
     (''merchantId'', JStr (rc_merchantId r)), (''merchantOrigin'', JStr (rc_merchantOrigin r)),
     (''operationId'', JStr (rc_operationId r)), (''requestDigest'', JStr (rc_requestDigest r)),
     (''campaignId'', JStr (rc_campaignId r)), (''campaignVersion'', json_int (rc_campaignVersion r)),
     (''campaignTermsHash'', JStr (rc_campaignTermsHash r)), (''routeId'', jopt (rc_routeId r)),
     (''referralClaimHash'', jopt (rc_referralClaimHash r)),
     (''referrerWallet'', jopt (rc_referrerWallet r)), (''payoutWallet'', jopt (rc_payoutWallet r)),
     (''paymentId'', JStr (rc_paymentId r)), (''network'', JStr (rc_network r)),
     (''asset'', JStr (rc_asset r)), (''payerWallet'', JStr (rc_payerWallet r)),
     (''payToWallet'', JStr (rc_payToWallet r)),
     (''requiredAmountAtomic'', JStr (rc_requiredAmountAtomic r)),
     (''settledAmountAtomic'', jopt (rc_settledAmountAtomic r)),
     (''settlementTxSignature'', JStr (rc_settlementTxSignature r)),
     (''commissionBps'', json_int (rc_commissionBps r)),
     (''protocolFeeBpsOfCommission'', json_int (rc_protocolFeeBpsOfCommission r)),
     (''commissionBaseAtomic'', JStr (rc_commissionBaseAtomic r)),
     (''commissionAmountAtomic'', JStr (rc_commissionAmountAtomic r)),
     (''protocolFeeAtomic'', JStr (rc_protocolFeeAtomic r)),
     (''referrerCreditAtomic'', JStr (rc_referrerCreditAtomic r)),
     (''settlementMode'', JStr (rc_settlementMode r)), (''offerNonce'', JStr (rc_offerNonce r)),
     (''settledAt'', JStr (rc_settledAt r)), (''issuedAt'', JStr (rc_issuedAt r)),
     (''recordingStatus'', JStr (rc_recordingStatus r)), (''eventId'', jopt (rc_eventId r)),
     (''kid'', JStr (rc_kid r)), (''signature'', JStr (rc_signature r))]"

definition omitKeys :: "string list \<Rightarrow> (string \<times> json) list \<Rightarrow> (string \<times> json) list" where
  "omitKeys ks es = filter (\<lambda>e. fst e \<notin> set ks) es"

lemma show_int_inj: "show_int i = show_int j \<longleftrightarrow> i = j"
  by (metis bigint_show_int option.inject)

lemma json_int_inj: "json_int i = json_int j \<longleftrightarrow> i = j"
  by (simp add: json_int_def show_int_inj)

lemma jopt_inj: "jopt a = jopt b \<longleftrightarrow> a = b"
  by (auto simp: jopt_def split: option.splits)

lemma norm_jopt [simp]: "norm_json (jopt a) = jopt a"
  by (simp add: jopt_def split: option.splits)

lemma norm_json_int [simp]: "norm_json (json_int i) = json_int i"
  by (simp add: json_int_def)

lemma wf_jopt [simp]: "wf_json (jopt a)"
  by (simp add: jopt_def split: option.splits)

lemma norm_undefined: "norm_json v = JUndefined \<longleftrightarrow> v = JUndefined"
  by (cases v rule: norm_json.cases) auto

text \<open>Two objects with the same keys and the same normal form have the same member values.\<close>

lemma norm_obj_values:
  assumes keys: "map fst es = map fst fs" and dist: "distinct (map fst es)"
    and norm: "norm_json (JObj es) = norm_json (JObj fs)"
  shows "map (\<lambda>e. norm_json (snd e)) es = map (\<lambda>e. norm_json (snd e)) fs"
proof -
  have mem: "(k, v) \<in> norm_member ` set (sorted_members xs) \<longleftrightarrow>
      (\<exists>w. (k, w) \<in> set xs \<and> w \<noteq> JUndefined \<and> v = norm_json w)" for k v xs
    by (auto simp: set_sorted_members norm_member_def image_iff)
  have same: "norm_member ` set (sorted_members es) = norm_member ` set (sorted_members fs)"
    using norm unfolding norm_obj by (metis json.inject(6) list.set_map)
  have step: "norm_json v = norm_json w \<or> v = JUndefined"
    if "(k, v) \<in> set xs" "(k, w) \<in> set ys" "distinct (map fst ys)"
      "norm_member ` set (sorted_members xs) = norm_member ` set (sorted_members ys)" for k v w xs ys
  proof (cases "v = JUndefined")
    case False
    then have "(k, norm_json v) \<in> norm_member ` set (sorted_members xs)"
      using that(1) by (intro mem [THEN iffD2]) auto
    then have "(k, norm_json v) \<in> norm_member ` set (sorted_members ys)"
      unfolding that(4) .
    from mem [THEN iffD1, OF this]
    obtain w' where w': "(k, w') \<in> set ys" "norm_json v = norm_json w'" by auto
    have "w' = w" by (rule eq_key_imp_eq_value [OF that(3) w'(1) that(2)])
    then show ?thesis using w'(2) by simp
  qed simp
  have len: "length es = length fs" using keys by (metis length_map)
  have dist': "distinct (map fst fs)" using dist keys by simp
  show ?thesis
  proof (rule nth_equalityI)
    fix i assume "i < length (map (\<lambda>e. norm_json (snd e)) es)"
    then have i: "i < length es" "i < length fs" using len by auto
    obtain k v where e: "es ! i = (k, v)" by fastforce
    obtain k' w where f: "fs ! i = (k', w)" by fastforce
    have "k = k'" using arg_cong [OF keys, of "\<lambda>xs. xs ! i"] i e f by simp
    then have kv: "(k, v) \<in> set es" and kw: "(k, w) \<in> set fs"
      using i e f nth_mem [of i es] nth_mem [of i fs] by simp_all
    have "norm_json v = norm_json w \<or> v = JUndefined" by (rule step [OF kv kw dist' same])
    moreover have "norm_json w = norm_json v \<or> w = JUndefined"
      by (rule step [OF kw kv dist same [symmetric]])
    ultimately have "norm_json v = norm_json w" by fastforce
    then show "map (\<lambda>e. norm_json (snd e)) es ! i = map (\<lambda>e. norm_json (snd e)) fs ! i"
      using i e f by simp
  qed (simp add: len)
qed

end
