(* ===== verification/Payout_Types.thy ===== *)
theory Payout_Types
  imports Protocol
begin

text \<open>
  The records and the error values of \<^verbatim>\<open>packages/control-plane/src/index.ts\<close> and \<^verbatim>\<open>payouts.ts\<close> that
  the payout and receipt components share, and the small validators and comparators at the end of
  \<^verbatim>\<open>payouts.ts\<close>. An optional member is an \<open>option\<close>; a \<open>number\<close> that can be \<open>NaN\<close> is an
  \<open>int option\<close> with \<open>None\<close> for \<open>NaN\<close>. An id factory is a function from the number of ids it has
  handed out to the next id.
\<close>

section \<open>Statuses and records\<close>

datatype accrual_status =
  Pending_chain_verification | Available | Held | Allocated | Paid | Rejected | Reversed

datatype verification_state =
  Signature_verified | Pending_verification | Chain_rejected

datatype ledger_account =
  Merchant_commission_liability | Referrer_payable | Protocol_fee_payable

datatype ledger_source = Commission_accrual | Payout_batch

datatype ingest_source = From_buyer | From_merchant | From_relay | From_unknown

datatype funding_status = Unknown | Covered | Deficit

datatype batch_status =
  B_draft | B_planned | B_signing | B_submitted | B_confirmed | B_finalized | B_failed
  | B_cancelled | B_outcome_unknown

datatype item_status =
  I_allocated | I_submitted | I_confirmed | I_finalized | I_failed | I_released

datatype tx_status =
  T_planned | T_signed | T_submitted | T_confirmed | T_finalized | T_expired | T_failed
  | T_outcome_unknown

datatype chain_status =
  C_confirmed | C_finalized | C_failed | C_expired | C_outcome_unknown | C_retry

datatype skip_reason =
  Merchant_mismatch | Not_available | Available_in_future | Zero_amount
  | Below_minimum_threshold | Recipient_limit

record accrual =
  ac_id :: string
  ac_receiptId :: string
  ac_merchantId :: string
  ac_campaignId :: string
  ac_routeId :: string
  ac_referrerWallet :: string
  ac_payoutWallet :: string
  ac_asset :: string
  ac_amountAtomic :: string
  ac_status :: accrual_status
  ac_availableAt :: "string option"
  ac_createdAt :: string

record ledger_entry =
  le_id :: string
  le_transactionId :: string
  le_accountType :: ledger_account
  le_accountReference :: string
  le_asset :: string
  le_amountAtomic :: string

record ledger_transaction =
  lt_id :: string
  lt_sourceType :: ledger_source
  lt_sourceId :: string
  lt_asset :: string
  lt_entries :: "ledger_entry list"
  lt_createdAt :: string

record allocation =
  al_payoutItemId :: string
  al_accrualId :: string
  al_amountAtomic :: string

record payout_item =
  it_id :: string
  it_payoutBatchId :: string
  it_destinationWallet :: string
  it_destinationTokenAccount :: "string option"
  it_amountAtomic :: string
  it_status :: item_status
  it_createdAt :: string
  it_allocations :: "allocation list"

record payout_batch =
  pb_id :: string
  pb_merchantId :: string
  pb_payoutWalletId :: string
  pb_network :: string
  pb_asset :: string
  pb_status :: batch_status
  pb_totalAmountAtomic :: string
  pb_itemCount :: nat
  pb_accrualCount :: nat
  pb_failureCode :: "string option"
  pb_failureMessage :: "string option"
  pb_createdAt :: string
  pb_updatedAt :: string
  pb_items :: "payout_item list"

record transaction_item =
  ti_payoutTransactionId :: string
  ti_payoutItemId :: string
  ti_amountAtomic :: string
  ti_destinationWallet :: string
  ti_destinationTokenAccount :: "string option"

text \<open>The \<open>error\<close> of a transaction is a JSON object; the code reads its member \<open>message\<close> only.\<close>

record payout_transaction =
  tx_id :: string
  tx_payoutBatchId :: string
  tx_sequence :: int
  tx_attempt :: int
  tx_recentBlockhash :: "string option"
  tx_lastValidBlockHeight :: "int option"
  tx_signedTransactionBase64 :: "string option"
  tx_expectedSignature :: "string option"
  tx_status :: tx_status
  tx_submittedAt :: "string option"
  tx_confirmedAt :: "string option"
  tx_finalizedAt :: "string option"
  tx_error :: "(string \<times> json) list option"
  tx_createdAt :: string
  tx_items :: "transaction_item list"

record chain_check =
  ck_transactionId :: string
  ck_status :: chain_status

record release_hazard =
  hz_transactionId :: string
  hz_status :: tx_status
  hz_expectedSignature :: "string option"
  hz_chainStatus :: "chain_status option"

text \<open>The error classes that a caller can tell apart. \<open>Host_Error\<close> is any other exception
  (a \<open>SyntaxError\<close> of \<open>BigInt\<close>, a \<open>RangeError\<close> of \<open>toISOString\<close>, a plain \<open>Error\<close>).\<close>

datatype cp_error =
  Preview_Invalid string
  | Batch_Invalid string
  | Batch_Conflict string
  | Release_Blocked "release_hazard list"
  | Persistence_Conflict
  | Host_Error string

fun show_batch_status :: "batch_status \<Rightarrow> string" where
  "show_batch_status B_draft = ''draft''"
| "show_batch_status B_planned = ''planned''"
| "show_batch_status B_signing = ''signing''"
| "show_batch_status B_submitted = ''submitted''"
| "show_batch_status B_confirmed = ''confirmed''"
| "show_batch_status B_finalized = ''finalized''"
| "show_batch_status B_failed = ''failed''"
| "show_batch_status B_cancelled = ''cancelled''"
| "show_batch_status B_outcome_unknown = ''outcome_unknown''"

section \<open>Validators\<close>

definition assertNonEmptyString :: "string \<Rightarrow> string \<Rightarrow> cp_error + string" where
  "assertNonEmptyString v label =
     (if js_trim v = [] then Inl (Preview_Invalid (label @ '' must be a non-empty string'')) else Inr v)"

definition assertSplit402Id :: "string \<Rightarrow> string \<Rightarrow> cp_error + string" where
  "assertSplit402Id v label =
     (if id_regex v then Inr v else Inl (Batch_Invalid (label @ '' must be a Split402 id'')))"

definition normalizeTimestamp :: "host \<Rightarrow> string \<Rightarrow> string \<Rightarrow> cp_error + string" where
  "normalizeTimestamp h v label =
     (if js_trim v = [] then Inl (Preview_Invalid (label @ '' must be an ISO timestamp''))
      else case dateParse h v of
        None \<Rightarrow> Inl (Preview_Invalid (label @ '' must be an ISO timestamp''))
      | Some t \<Rightarrow> Inr (toISOString h t))"

definition readAtomicAmount :: "string \<Rightarrow> string \<Rightarrow> cp_error + int" where
  "readAtomicAmount v label = (case parseAtomicAmount v of
       Inl _ \<Rightarrow> Inl (Preview_Invalid (label @ '' must be a non-negative decimal atomic amount''))
     | Inr n \<Rightarrow> Inr n)"

definition readPositiveAtomicAmount :: "string \<Rightarrow> string \<Rightarrow> cp_error + int" where
  "readPositiveAtomicAmount v label = and_then (readAtomicAmount v label) (\<lambda>amount.
     if amount \<le> 0 then Inl (Batch_Invalid (label @ '' must be a positive atomic amount''))
     else Inr amount)"

definition negatePositiveAtomic :: "string \<Rightarrow> cp_error + string" where
  "negatePositiveAtomic v = and_then (readPositiveAtomicAmount v ''amountAtomic'') (\<lambda>amount.
     Inr (CHR ''-'' # show_int amount))"

text \<open>\<open>serializeAtomicAmount\<close> of the protocol package, inside the control plane.\<close>

definition serialize_amount :: "int \<Rightarrow> cp_error + string" where
  "serialize_amount n = map_sum Host_Error id (serializeAtomicAmount n)"

text \<open>The arguments are integers; \<open>Number.isInteger\<close> is the type.\<close>

definition readOptionalPositiveInteger :: "int option \<Rightarrow> string \<Rightarrow> cp_error + int option" where
  "readOptionalPositiveInteger v label = (case v of None \<Rightarrow> Inr None
     | Some n \<Rightarrow> if n \<le> 0 then Inl (Preview_Invalid (label @ '' must be a positive integer''))
         else Inr (Some n))"

definition assertNonNegativeInteger :: "int \<Rightarrow> string \<Rightarrow> cp_error + int" where
  "assertNonNegativeInteger n label =
     (if n < 0 then Inl (Batch_Invalid (label @ '' must be a non-negative integer'')) else Inr n)"

definition assertPositiveInteger :: "int \<Rightarrow> string \<Rightarrow> cp_error + int" where
  "assertPositiveInteger n label =
     (if n \<le> 0 then Inl (Batch_Invalid (label @ '' must be a positive integer'')) else Inr n)"

definition is_base64_char :: "char \<Rightarrow> bool" where
  "is_base64_char c \<longleftrightarrow> c \<in> set BASE64_ALPHABET"

definition assertBase64String :: "string \<Rightarrow> string \<Rightarrow> cp_error + string" where
  "assertBase64String v label =
     (let body = takeWhile is_base64_char v; pad = dropWhile is_base64_char v
      in if v = [] \<or> length v mod 4 \<noteq> 0 \<or> body = [] \<or> pad \<notin> {[], ''='', ''==''}
         then Inl (Batch_Invalid (label @ '' must be base64'')) else Inr v)"

text \<open>\<open>value ?? (await clock)\<close>: the caller's timestamp, or the text of the current time.\<close>

definition now_or :: "string option \<Rightarrow> string \<Rightarrow> string" where
  "now_or v clock = (case v of None \<Rightarrow> clock | Some s \<Rightarrow> s)"

lemma assertNonEmptyString_Inr [err_simps]:
  "assertNonEmptyString v l = Inr w \<longleftrightarrow> js_trim v \<noteq> [] \<and> w = v"
  by (auto simp: assertNonEmptyString_def)

lemma assertSplit402Id_Inr [err_simps]: "assertSplit402Id v l = Inr w \<longleftrightarrow> id_regex v \<and> w = v"
  by (auto simp: assertSplit402Id_def)

lemma readAtomicAmount_Inr [err_simps]:
  "readAtomicAmount v l = Inr n \<longleftrightarrow> atomic_regex v \<and> n = amount_of v"
  by (auto simp: readAtomicAmount_def parseAtomicAmount_Inr parseAtomicAmount_Inl split: sum.splits)

lemma readPositiveAtomicAmount_Inr [err_simps]:
  "readPositiveAtomicAmount v l = Inr n \<longleftrightarrow> atomic_regex v \<and> n = amount_of v \<and> 0 < n"
  by (auto simp: readPositiveAtomicAmount_def err_simps)

lemma negatePositiveAtomic_Inr [err_simps]:
  "negatePositiveAtomic v = Inr w \<longleftrightarrow> atomic_regex v \<and> 0 < amount_of v \<and> w = CHR ''-'' # v"
  by (auto simp: negatePositiveAtomic_def err_simps show_int_amount_of)

lemma serialize_amount_nonneg [simp]: "0 \<le> n \<Longrightarrow> serialize_amount n = Inr (show_int n)"
  by (simp add: serialize_amount_def)

lemma serialize_amount_Inr [err_simps]: "serialize_amount n = Inr s \<longleftrightarrow> 0 \<le> n \<and> s = show_int n"
  by (auto simp: serialize_amount_def serializeAtomicAmount_def)

lemma readOptionalPositiveInteger_Inr [err_simps]:
  "readOptionalPositiveInteger v l = Inr w \<longleftrightarrow> w = v \<and> opt_all (\<lambda>n. 0 < n) v"
  by (auto simp: readOptionalPositiveInteger_def opt_all_def split: option.splits)

section \<open>Comparators\<close>

text \<open>\<open>a - b\<close> and \<open>a > b\<close> on numbers that may be \<open>NaN\<close>, and \<open>a || b\<close> on comparison results
  (\<open>NaN\<close> and zero are falsy).\<close>

definition num_minus :: "int option \<Rightarrow> int option \<Rightarrow> int option" where
  "num_minus a b = (case (a, b) of (Some x, Some y) \<Rightarrow> Some (x - y) | _ \<Rightarrow> None)"

definition num_gt :: "int option \<Rightarrow> int option \<Rightarrow> bool" where
  "num_gt a b = (case (a, b) of (Some x, Some y) \<Rightarrow> x > y | _ \<Rightarrow> False)"

definition falsy :: "int option \<Rightarrow> bool" where
  "falsy a \<longleftrightarrow> a = None \<or> a = Some 0"

text \<open>\<open>Array.prototype.sort\<close> reads \<open>NaN\<close> as zero.\<close>

definition sort_number :: "int option \<Rightarrow> int" where
  "sort_number a = (case a of None \<Rightarrow> 0 | Some n \<Rightarrow> n)"

text \<open>\<open>Array.prototype.sort()\<close> of strings without a comparator: by code units.\<close>

definition string_compare :: "string \<Rightarrow> string \<Rightarrow> int" where
  "string_compare a b = (if a < b then - 1 else if b < a then 1 else 0)"

definition sort_strings :: "string list \<Rightarrow> string list" where
  "sort_strings xs = sort_by string_compare xs"

interpretation sc: consistent_comparator string_compare
  by unfold_locales (auto simp: string_compare_def split: if_splits)

lemma sort_strings_sorted: "sorted (sort_strings xs)"
proof -
  have le: "string_compare x y \<le> 0 \<longleftrightarrow> x \<le> y" for x y
    by (auto simp: string_compare_def)
  show ?thesis using sc.sorted_sort_by [of xs] by (simp add: sort_strings_def le)
qed

lemma sort_strings_mset [simp]: "mset (sort_strings xs) = mset xs"
  by (simp add: sort_strings_def)

lemma sort_strings_length [simp]: "length (sort_strings xs) = length xs"
  by (simp add: sort_strings_def)

lemma sort_strings_set [simp]: "set (sort_strings xs) = set xs"
  by (simp add: sort_strings_def)

text \<open>\<open>Date.parse(normalizeTimestamp(value, label))\<close>\<close>

definition parse_normalized :: "host \<Rightarrow> string \<Rightarrow> string \<Rightarrow> cp_error + int option" where
  "parse_normalized h v label = and_then (normalizeTimestamp h v label) (\<lambda>s. Inr (dateParse h s))"

definition compareOptionalTimestamp ::
  "host \<Rightarrow> string option \<Rightarrow> string option \<Rightarrow> cp_error + int option" where
  "compareOptionalTimestamp h left right = (case (left, right) of
       (None, None) \<Rightarrow> Inr (Some 0)
     | (None, Some _) \<Rightarrow> Inr (Some (- 1))
     | (Some _, None) \<Rightarrow> Inr (Some 1)
     | (Some a, Some b) \<Rightarrow>
         and_then (parse_normalized h a ''timestamp'') (\<lambda>x.
         and_then (parse_normalized h b ''timestamp'') (\<lambda>y. Inr (num_minus x y))))"

definition compareAccrualsForPayout :: "host \<Rightarrow> accrual \<Rightarrow> accrual \<Rightarrow> cp_error + int" where
  "compareAccrualsForPayout h l r =
     (let a = localeCompare h (ac_asset l) (ac_asset r) in if a \<noteq> 0 then Inr a else
      let p = localeCompare h (ac_payoutWallet l) (ac_payoutWallet r) in if p \<noteq> 0 then Inr p else
      and_then (compareOptionalTimestamp h (ac_availableAt l) (ac_availableAt r)) (\<lambda>v.
      if \<not> falsy v then Inr (sort_number v) else
      and_then (compareOptionalTimestamp h (Some (ac_createdAt l)) (Some (ac_createdAt r))) (\<lambda>c.
      if \<not> falsy c then Inr (sort_number c) else
      Inr (localeCompare h (ac_id l) (ac_id r)))))"

lemma compareOptionalTimestamp_total:
  assumes "opt_all (\<lambda>s. \<exists>n. normalizeTimestamp h s ''timestamp'' = Inr n) l"
    and "opt_all (\<lambda>s. \<exists>n. normalizeTimestamp h s ''timestamp'' = Inr n) r"
  shows "\<exists>n. compareOptionalTimestamp h l r = Inr n"
  using assms
  by (auto simp: compareOptionalTimestamp_def parse_normalized_def opt_all_def split: option.splits)

end
