(* ===== verification/Payout_Preview.thy ===== *)
theory Payout_Preview
  imports Payout_Types
begin

text \<open>
  \<^verbatim>\<open>packages/control-plane/src/payouts.ts\<close>, \<open>createPayoutPreview\<close> and \<open>filterPayoutEligibleAccruals\<close>:
  which accruals a payout would pay, grouped by asset and destination wallet, and which it skips
  and why. The loop over the accruals is a fold that may throw; the two nested \<open>Map\<close>s are
  insertion-ordered maps. The lemmas give the state of the loop in closed form.
\<close>

section \<open>Data\<close>

record mutable_item =
  mi_destinationWallet :: string
  mi_referrerWallets :: "string list"
  mi_amount :: int
  mi_accrualIds :: "string list"
  mi_availableTimes :: "string list"

record skipped_accrual =
  sk_accrualId :: string
  sk_reason :: skip_reason

record funding_balance =
  fb_asset :: string
  fb_amountAtomic :: string

record preview_item =
  pi_destinationWallet :: string
  pi_referrerWallets :: "string list"
  pi_amountAtomic :: string
  pi_accrualIds :: "string list"
  pi_oldestAvailableAt :: "string option"
  pi_newestAvailableAt :: "string option"

record preview_batch =
  pv_merchantId :: string
  pv_asset :: string
  pv_totalAmountAtomic :: string
  pv_itemCount :: nat
  pv_accrualCount :: nat
  pv_fundingStatus :: funding_status
  pv_fundingAmountAtomic :: "string option"
  pv_fundingDeficitAtomic :: "string option"
  pv_items :: "preview_item list"

record preview =
  pr_merchantId :: string
  pr_generatedAt :: string
  pr_batches :: "preview_batch list"
  pr_eligibleAccrualCount :: nat
  pr_skippedAccrualCount :: nat
  pr_skippedAccruals :: "skipped_accrual list"
  pr_totalAmountAtomicByAsset :: "(string, string) js_map"

record preview_input =
  pin_merchantId :: string
  pin_accruals :: "accrual list"
  pin_now :: "string option"
  pin_minimumPayoutAmountAtomic :: "string option"
  pin_maxRecipients :: "int option"
  pin_fundingBalances :: "funding_balance list option"

section \<open>Operations\<close>

definition funding_step :: "funding_balance \<Rightarrow> (string, int) js_map \<Rightarrow> cp_error + (string, int) js_map" where
  "funding_step b m =
     and_then (assertNonEmptyString (fb_asset b) ''fundingBalances.asset'') (\<lambda>asset.
     and_then (readAtomicAmount (fb_amountAtomic b) ''fundingBalances.amountAtomic'') (\<lambda>amount.
     Inr (map_set asset ((case map_get m asset of None \<Rightarrow> 0 | Some n \<Rightarrow> n) + amount) m)))"

definition buildFundingBalanceMap ::
  "funding_balance list option \<Rightarrow> cp_error + (string, int) js_map option" where
  "buildFundingBalanceMap balances = map_opt_err (\<lambda>bs. fold_err funding_step bs []) balances"

text \<open>The guards of the loop: a reason to skip the accrual, or its amount.\<close>

definition accrual_verdict ::
  "host \<Rightarrow> string \<Rightarrow> int option \<Rightarrow> accrual \<Rightarrow> cp_error + (skip_reason + int)" where
  "accrual_verdict h merchantId nowMs a =
     (if ac_merchantId a \<noteq> merchantId then Inr (Inl Merchant_mismatch)
      else if ac_status a \<noteq> Available then Inr (Inl Not_available)
      else and_then (case ac_availableAt a of None \<Rightarrow> Inr False
          | Some t \<Rightarrow> and_then (parse_normalized h t ''availableAt'') (\<lambda>ms. Inr (num_gt ms nowMs)))
        (\<lambda>future. if future then Inr (Inl Available_in_future)
          else and_then (readAtomicAmount (ac_amountAtomic a) ''amountAtomic'') (\<lambda>amount.
            if amount = 0 then Inr (Inl Zero_amount) else Inr (Inr amount))))"

definition set_add :: "'a \<Rightarrow> 'a list \<Rightarrow> 'a list" where
  "set_add x xs = (if x \<in> set xs then xs else xs @ [x])"

definition empty_item :: "string \<Rightarrow> mutable_item" where
  "empty_item w = \<lparr>mi_destinationWallet = w, mi_referrerWallets = [], mi_amount = 0,
     mi_accrualIds = [], mi_availableTimes = []\<rparr>"

definition add_accrual :: "host \<Rightarrow> accrual \<Rightarrow> int \<Rightarrow> mutable_item \<Rightarrow> cp_error + mutable_item" where
  "add_accrual h a amount i =
     (let i' = i\<lparr>mi_amount := mi_amount i + amount,
          mi_referrerWallets := set_add (ac_referrerWallet a) (mi_referrerWallets i),
          mi_accrualIds := mi_accrualIds i @ [ac_id a]\<rparr>
      in case ac_availableAt a of None \<Rightarrow> Inr i'
         | Some t \<Rightarrow> and_then (normalizeTimestamp h t ''availableAt'')
             (\<lambda>n. Inr (i'\<lparr>mi_availableTimes := mi_availableTimes i @ [n]\<rparr>)))"

type_synonym item_groups = "(string, (string, mutable_item) js_map) js_map"

definition preview_step ::
  "host \<Rightarrow> string \<Rightarrow> int option \<Rightarrow> accrual \<Rightarrow> skipped_accrual list \<times> item_groups \<Rightarrow>
   cp_error + skipped_accrual list \<times> item_groups" where
  "preview_step h merchantId nowMs a s = (case s of (skipped, itemsByAsset) \<Rightarrow>
     and_then (accrual_verdict h merchantId nowMs a) (\<lambda>v. case v of
       Inl reason \<Rightarrow> Inr (skipped @ [\<lparr>sk_accrualId = ac_id a, sk_reason = reason\<rparr>], itemsByAsset)
     | Inr amount \<Rightarrow>
        (let assetItems = (case map_get itemsByAsset (ac_asset a) of None \<Rightarrow> [] | Some m \<Rightarrow> m);
             item = (case map_get assetItems (ac_payoutWallet a) of
                None \<Rightarrow> empty_item (ac_payoutWallet a) | Some i \<Rightarrow> i)
         in and_then (add_accrual h a amount item) (\<lambda>item'.
            Inr (skipped, map_set (ac_asset a) (map_set (ac_payoutWallet a) item' assetItems) itemsByAsset)))))"

definition oldest_time :: "mutable_item \<Rightarrow> string option" where
  "oldest_time i = (case sort_strings (mi_availableTimes i) of [] \<Rightarrow> None | t # _ \<Rightarrow> Some t)"

definition newest_time :: "mutable_item \<Rightarrow> string option" where
  "newest_time i = (let ts = sort_strings (mi_availableTimes i) in if ts = [] then None else Some (last ts))"

definition comparePayoutItems :: "host \<Rightarrow> mutable_item \<Rightarrow> mutable_item \<Rightarrow> cp_error + int" where
  "comparePayoutItems h l r =
     and_then (compareOptionalTimestamp h (oldest_time l) (oldest_time r)) (\<lambda>oldest.
       if oldest \<noteq> Some 0 then Inr (sort_number oldest)
       else if mi_amount r \<noteq> mi_amount l then Inr (if mi_amount r > mi_amount l then 1 else - 1)
       else Inr (localeCompare h (mi_destinationWallet l) (mi_destinationWallet r)))"

definition toPreviewItem :: "mutable_item \<Rightarrow> cp_error + preview_item" where
  "toPreviewItem i = and_then (serialize_amount (mi_amount i)) (\<lambda>amount.
     Inr \<lparr>pi_destinationWallet = mi_destinationWallet i,
          pi_referrerWallets = sort_strings (mi_referrerWallets i),
          pi_amountAtomic = amount,
          pi_accrualIds = sort_strings (mi_accrualIds i),
          pi_oldestAvailableAt = oldest_time i,
          pi_newestAvailableAt = newest_time i\<rparr>)"

definition skip_all :: "skip_reason \<Rightarrow> mutable_item list \<Rightarrow> skipped_accrual list" where
  "skip_all reason items =
     concat (map (\<lambda>i. map (\<lambda>k. \<lparr>sk_accrualId = k, sk_reason = reason\<rparr>) (mi_accrualIds i)) items)"

text \<open>\<open>createPreviewBatch\<close>: the recipients it keeps and the ones beyond the limit; the record it
  builds; the accruals it skips and the batch, unless nothing is selected.\<close>

definition selected_items :: "int option \<Rightarrow> mutable_item list \<Rightarrow> mutable_item list" where
  "selected_items maxRecipients items = (case maxRecipients of None \<Rightarrow> items | Some n \<Rightarrow> take (nat n) items)"

definition limited_items :: "int option \<Rightarrow> mutable_item list \<Rightarrow> mutable_item list" where
  "limited_items maxRecipients items = (case maxRecipients of None \<Rightarrow> [] | Some n \<Rightarrow> drop (nat n) items)"

definition batch_from_selected ::
  "string \<Rightarrow> string \<Rightarrow> mutable_item list \<Rightarrow> (string, int) js_map option \<Rightarrow> cp_error + preview_batch" where
  "batch_from_selected merchantId asset selected fundingByAsset =
     (let totalAmount = (\<Sum>i\<leftarrow>selected. mi_amount i);
          fundingAmount = map_option (\<lambda>m. case map_get m asset of None \<Rightarrow> 0 | Some n \<Rightarrow> n) fundingByAsset;
          fundingDeficit = map_option (\<lambda>f. max 0 (totalAmount - f)) fundingAmount
      in and_then (serialize_amount totalAmount) (\<lambda>total.
         and_then (map_opt_err serialize_amount fundingAmount) (\<lambda>amountText.
         and_then (map_opt_err serialize_amount fundingDeficit) (\<lambda>deficitText.
         and_then (map_err toPreviewItem selected) (\<lambda>items.
         Inr \<lparr>pv_merchantId = merchantId, pv_asset = asset,
           pv_totalAmountAtomic = total, pv_itemCount = length selected,
           pv_accrualCount = (\<Sum>i\<leftarrow>selected. length (mi_accrualIds i)),
           pv_fundingStatus = (case fundingDeficit of None \<Rightarrow> Unknown
              | Some d \<Rightarrow> if d = 0 then Covered else Deficit),
           pv_fundingAmountAtomic = amountText, pv_fundingDeficitAtomic = deficitText,
           pv_items = items\<rparr>)))))"

definition createPreviewBatch ::
  "host \<Rightarrow> string \<Rightarrow> string \<Rightarrow> (string, mutable_item) js_map \<Rightarrow> int \<Rightarrow> int option \<Rightarrow>
   (string, int) js_map option \<Rightarrow> cp_error + skipped_accrual list \<times> preview_batch option" where
  "createPreviewBatch h merchantId asset itemMap minimumPayoutAmount maxRecipients fundingByAsset =
     and_then (sort_err (comparePayoutItems h) (map_values itemMap)) (\<lambda>sorted.
      let thresholded = filter (\<lambda>i. mi_amount i \<ge> minimumPayoutAmount) sorted;
          below = filter (\<lambda>i. \<not> mi_amount i \<ge> minimumPayoutAmount) sorted;
          selected = selected_items maxRecipients thresholded;
          skipped = skip_all Below_minimum_threshold below @
            skip_all Recipient_limit (limited_items maxRecipients thresholded)
      in if selected = [] then Inr (skipped, None)
         else and_then (batch_from_selected merchantId asset selected fundingByAsset)
           (\<lambda>b. Inr (skipped, Some b)))"

definition batch_step ::
  "host \<Rightarrow> string \<Rightarrow> int \<Rightarrow> int option \<Rightarrow> (string, int) js_map option \<Rightarrow>
   string \<times> (string, mutable_item) js_map \<Rightarrow> skipped_accrual list \<times> preview_batch list \<Rightarrow>
   cp_error + skipped_accrual list \<times> preview_batch list" where
  "batch_step h merchantId minimumPayoutAmount maxRecipients fundingByAsset e s =
     and_then (createPreviewBatch h merchantId (fst e) (snd e) minimumPayoutAmount maxRecipients fundingByAsset)
       (\<lambda>(sk, b). Inr (fst s @ sk, snd s @ (case b of None \<Rightarrow> [] | Some b \<Rightarrow> [b])))"

definition createPayoutPreview :: "host \<Rightarrow> string \<Rightarrow> preview_input \<Rightarrow> cp_error + preview" where
  "createPayoutPreview h clock i =
     and_then (assertNonEmptyString (pin_merchantId i) ''merchantId'') (\<lambda>merchantId.
     and_then (normalizeTimestamp h (now_or (pin_now i) clock) ''now'') (\<lambda>generatedAt.
     and_then (readAtomicAmount (now_or (pin_minimumPayoutAmountAtomic i) ''0'')
       ''minimumPayoutAmountAtomic'') (\<lambda>minimumPayoutAmount.
     and_then (readOptionalPositiveInteger (pin_maxRecipients i) ''maxRecipients'') (\<lambda>maxRecipients.
     and_then (buildFundingBalanceMap (pin_fundingBalances i)) (\<lambda>fundingByAsset.
     and_then (sort_err (compareAccrualsForPayout h) (pin_accruals i)) (\<lambda>sorted.
     and_then (fold_err (preview_step h merchantId (dateParse h generatedAt)) sorted ([], [])) (\<lambda>(skipped, itemsByAsset).
     and_then (fold_err (batch_step h merchantId minimumPayoutAmount maxRecipients fundingByAsset)
       (sort_by (\<lambda>l r. localeCompare h (fst l) (fst r)) itemsByAsset) (skipped, [])) (\<lambda>(skipped', batches).
     Inr \<lparr>pr_merchantId = merchantId, pr_generatedAt = generatedAt, pr_batches = batches,
          pr_eligibleAccrualCount = (\<Sum>b\<leftarrow>batches. pv_accrualCount b),
          pr_skippedAccrualCount = length skipped', pr_skippedAccruals = skipped',
          pr_totalAmountAtomicByAsset =
            map_from (map (\<lambda>b. (pv_asset b, pv_totalAmountAtomic b)) batches)\<rparr>))))))))"

record eligible_input =
  ei_merchantId :: string
  ei_asset :: "string option"
  ei_campaignId :: "string option"
  ei_routeId :: "string option"
  ei_now :: "string option"
  ei_limit :: "int option"

text \<open>The \<open>filter\<close> callback, which may throw; \<open>nowMs\<close> is \<open>None\<close> when no time was given.\<close>

definition eligible_verdict :: "host \<Rightarrow> eligible_input \<Rightarrow> int option option \<Rightarrow> accrual \<Rightarrow> cp_error + bool" where
  "eligible_verdict h i nowMs a =
     (if ac_merchantId a \<noteq> ei_merchantId i \<or> ac_status a \<noteq> Available then Inr False
      else if ei_asset i \<noteq> None \<and> Some (ac_asset a) \<noteq> ei_asset i then Inr False
      else if ei_campaignId i \<noteq> None \<and> Some (ac_campaignId a) \<noteq> ei_campaignId i then Inr False
      else if ei_routeId i \<noteq> None \<and> Some (ac_routeId a) \<noteq> ei_routeId i then Inr False
      else case (nowMs, ac_availableAt a) of
        (Some now, Some t) \<Rightarrow>
          and_then (parse_normalized h t ''availableAt'') (\<lambda>ms. Inr (\<not> num_gt ms now))
      | _ \<Rightarrow> Inr True)"

definition filterPayoutEligibleAccruals ::
  "host \<Rightarrow> accrual list \<Rightarrow> eligible_input \<Rightarrow> cp_error + accrual list" where
  "filterPayoutEligibleAccruals h accruals i =
     and_then (assertNonEmptyString (ei_merchantId i) ''merchantId'') (\<lambda>merchantId.
     and_then (readOptionalPositiveInteger (ei_limit i) ''limit'') (\<lambda>limit.
     and_then (map_opt_err (\<lambda>t. parse_normalized h t ''now'') (ei_now i)) (\<lambda>nowMs.
     and_then (filter_err (eligible_verdict h i nowMs) accruals) (\<lambda>kept.
     and_then (sort_err (compareAccrualsForPayout h) kept) (\<lambda>filtered.
     Inr (case limit of None \<Rightarrow> filtered | Some n \<Rightarrow> take (nat n) filtered))))))"

section \<open>The loop in closed form\<close>

definition chosen :: "host \<Rightarrow> string \<Rightarrow> int option \<Rightarrow> accrual \<Rightarrow> bool" where
  "chosen h merchantId nowMs a \<longleftrightarrow> (case accrual_verdict h merchantId nowMs a of
     Inr (Inr n) \<Rightarrow> True | _ \<Rightarrow> False)"

definition group_of :: "(accrual \<Rightarrow> bool) \<Rightarrow> string \<Rightarrow> string \<Rightarrow> accrual list \<Rightarrow> accrual list" where
  "group_of c asset w xs = filter (\<lambda>a. c a \<and> ac_asset a = asset \<and> ac_payoutWallet a = w) xs"

definition accrual_amount :: "accrual \<Rightarrow> int" where
  "accrual_amount a = amount_of (ac_amountAtomic a)"

definition item_rep :: "string \<Rightarrow> accrual list \<Rightarrow> mutable_item \<Rightarrow> bool" where
  "item_rep w xs i \<longleftrightarrow> mi_destinationWallet i = w \<and> mi_amount i = (\<Sum>a\<leftarrow>xs. accrual_amount a) \<and>
     mi_accrualIds i = map ac_id xs \<and> set (mi_referrerWallets i) = ac_referrerWallet ` set xs \<and>
     distinct (mi_referrerWallets i)"

definition ids_in :: "item_groups \<Rightarrow> string multiset" where
  "ids_in g = (\<Sum>m\<leftarrow>map_values g. \<Sum>i\<leftarrow>map_values m. mset (mi_accrualIds i))"

definition groups_rep :: "(accrual \<Rightarrow> bool) \<Rightarrow> accrual list \<Rightarrow> item_groups \<Rightarrow> bool" where
  "groups_rep c xs g \<longleftrightarrow> map_ok g \<and>
     (\<forall>asset m. map_get g asset = Some m \<longrightarrow> map_ok m \<and>
       (\<forall>w i. map_get m w = Some i \<longrightarrow> item_rep w (group_of c asset w xs) i \<and> group_of c asset w xs \<noteq> [])) \<and>
     (\<forall>a \<in> set xs. c a \<longrightarrow> (\<exists>m i. map_get g (ac_asset a) = Some m \<and> map_get m (ac_payoutWallet a) = Some i))"

lemma chosen_cases:
  assumes "accrual_verdict h merchantId nowMs a = Inr v"
  shows "chosen h merchantId nowMs a \<longleftrightarrow> v = Inr (accrual_amount a)"
    and "v = Inr n \<Longrightarrow> n = accrual_amount a \<and> 0 < n \<and> atomic_regex (ac_amountAtomic a)"
proof -
  show amount: "n = accrual_amount a \<and> 0 < n \<and> atomic_regex (ac_amountAtomic a)" if "v = Inr n" for n
    using assms that amount_of_nonneg [of "ac_amountAtomic a"]
    by (auto simp: accrual_verdict_def err_simps accrual_amount_def less_le split: if_splits)
  show "chosen h merchantId nowMs a \<longleftrightarrow> v = Inr (accrual_amount a)"
    using amount by (cases v) (auto simp: chosen_def assms)
qed

lemma set_add_facts: "set (set_add x xs) = insert x (set xs)" "distinct (set_add x xs) = distinct xs"
  by (auto simp: set_add_def)

lemma add_accrual_rep:
  assumes "add_accrual h a (accrual_amount a) i = Inr j" "item_rep w xs i" "ac_payoutWallet a = w"
  shows "item_rep w (xs @ [a]) j"
  using assms
  by (auto simp: add_accrual_def Let_def item_rep_def set_add_facts err_simps split: option.splits)

lemma add_accrual_ids:
  "add_accrual h a n i = Inr j \<Longrightarrow> mi_accrualIds j = mi_accrualIds i @ [ac_id a]"
  by (auto simp: add_accrual_def Let_def err_simps split: option.splits)

lemma group_of_snoc:
  "group_of c asset w (xs @ [a]) = group_of c asset w xs @
     (if c a \<and> ac_asset a = asset \<and> ac_payoutWallet a = w then [a] else [])"
  by (simp add: group_of_def)

text \<open>One iteration, on the groups and on the ids they hold.\<close>

lemma preview_step_groups:
  assumes step: "preview_step h mid now a (sk, g) = Inr (sk', g')"
    and rep: "groups_rep (chosen h mid now) xs g"
  shows "groups_rep (chosen h mid now) (xs @ [a]) g'"
proof -
  let ?c = "chosen h mid now"
  from step obtain v where v: "accrual_verdict h mid now a = Inr v"
    by (auto simp: preview_step_def err_simps)
  show ?thesis
  proof (cases v)
    case (Inl r)
    then have "\<not> ?c a" using chosen_cases(1) [OF v] by simp
    moreover have "g' = g" using step v Inl by (simp add: preview_step_def)
    ultimately show ?thesis using rep by (auto simp: groups_rep_def group_of_snoc)
  next
    case (Inr n)
    then have n: "n = accrual_amount a" using chosen_cases(2) [OF v] by simp
    then have c: "?c a" using chosen_cases(1) [OF v] Inr by simp
    define m where "m = (case map_get g (ac_asset a) of None \<Rightarrow> [] | Some m \<Rightarrow> m)"
    define i where "i = (case map_get m (ac_payoutWallet a) of None \<Rightarrow> empty_item (ac_payoutWallet a) | Some i \<Rightarrow> i)"
    obtain j where j: "add_accrual h a n i = Inr j"
      and g': "g' = map_set (ac_asset a) (map_set (ac_payoutWallet a) j m) g"
      using step v Inr by (auto simp: preview_step_def Let_def m_def i_def err_simps)
    have m_ok: "map_ok m" using rep by (auto simp: groups_rep_def m_def split: option.splits)
    have m_get: "item_rep w (group_of ?c (ac_asset a) w xs) i' \<and> group_of ?c (ac_asset a) w xs \<noteq> []"
      if "map_get m w = Some i'" for w i'
      using rep that by (auto simp: groups_rep_def m_def split: option.splits)
    have none: "group_of ?c (ac_asset a) w xs = []" if "map_get m w = None" for w
    proof (rule ccontr)
      assume "group_of ?c (ac_asset a) w xs \<noteq> []"
      then obtain b where "b \<in> set xs" "?c b" "ac_asset b = ac_asset a" "ac_payoutWallet b = w"
        by (auto simp: group_of_def filter_empty_conv)
      then show False using rep that by (fastforce simp: groups_rep_def m_def)
    qed
    have "item_rep (ac_payoutWallet a) (group_of ?c (ac_asset a) (ac_payoutWallet a) xs) i"
      using m_get none by (auto simp: i_def item_rep_def empty_item_def split: option.splits)
    then have j_rep: "item_rep (ac_payoutWallet a) (group_of ?c (ac_asset a) (ac_payoutWallet a) (xs @ [a])) j"
      using add_accrual_rep [OF j [unfolded n]] c by (simp add: group_of_snoc)
    have old: "group_of ?c asset w (xs @ [a]) = group_of ?c asset w xs"
      if "asset \<noteq> ac_asset a \<or> w \<noteq> ac_payoutWallet a" for asset w
      using that by (auto simp: group_of_snoc)
    show ?thesis unfolding groups_rep_def
    proof (intro conjI allI ballI impI)
      show "map_ok g'" using rep by (simp add: groups_rep_def g' jm.ok_put)
      fix asset m' assume m': "map_get g' asset = Some m'"
      show "map_ok m'"
        using m' m_ok rep by (auto simp: g' groups_rep_def jm.ok_put split: if_splits)
      fix w i' assume i': "map_get m' w = Some i'"
      have both: "item_rep w (group_of ?c asset w (xs @ [a])) i' \<and> group_of ?c asset w (xs @ [a]) \<noteq> []"
      proof (cases "asset = ac_asset a \<and> w = ac_payoutWallet a")
        case True
        then show ?thesis using m' i' j_rep c by (auto simp: g' group_of_snoc)
      next
        case False
        then show ?thesis
          using m' i' m_get [of w i'] rep old [of asset w]
          by (auto simp: g' groups_rep_def split: if_splits)
      qed
      then show "item_rep w (group_of ?c asset w (xs @ [a])) i'"
        and "group_of ?c asset w (xs @ [a]) \<noteq> []" by auto
    next
      fix b assume b: "b \<in> set (xs @ [a])" "?c b"
      show "\<exists>m' i'. map_get g' (ac_asset b) = Some m' \<and> map_get m' (ac_payoutWallet b) = Some i'"
      proof (cases "b = a")
        case True
        then show ?thesis by (simp add: g')
      next
        case False
        then obtain m1 i1 where "map_get g (ac_asset b) = Some m1" "map_get m1 (ac_payoutWallet b) = Some i1"
          using b rep by (fastforce simp: groups_rep_def)
        then show ?thesis by (cases "ac_asset b = ac_asset a") (auto simp: g' m_def)
      qed
    qed
  qed
qed

definition skip_facts :: "host \<Rightarrow> string \<Rightarrow> int option \<Rightarrow> accrual list \<Rightarrow> skipped_accrual list \<Rightarrow> bool" where
  "skip_facts h mid now xs sk \<longleftrightarrow> (\<forall>s \<in> set sk. \<exists>a \<in> set xs. sk_accrualId s = ac_id a \<and>
     accrual_verdict h mid now a = Inr (Inl (sk_reason s)))"

lemma preview_step_ids:
  assumes step: "preview_step h mid now a (sk, g) = Inr (sk', g')" and rep: "groups_rep c xs g"
  shows "mset (map sk_accrualId sk') + ids_in g' = add_mset (ac_id a) (mset (map sk_accrualId sk) + ids_in g)"
proof -
  from step obtain v where v: "accrual_verdict h mid now a = Inr v"
    by (auto simp: preview_step_def err_simps)
  show ?thesis
  proof (cases v)
    case (Inl r)
    then show ?thesis using step v by (auto simp: preview_step_def)
  next
    case (Inr n)
    let ?f = "\<lambda>i. mset (mi_accrualIds i)" and ?F = "\<lambda>m. \<Sum>i\<leftarrow>map_values m. mset (mi_accrualIds i)"
    define m where "m = (case map_get g (ac_asset a) of None \<Rightarrow> [] | Some m \<Rightarrow> m)"
    define i where "i = (case map_get m (ac_payoutWallet a) of None \<Rightarrow> empty_item (ac_payoutWallet a) | Some i \<Rightarrow> i)"
    obtain j where j: "add_accrual h a n i = Inr j" and sk: "sk' = sk"
      and g': "g' = map_set (ac_asset a) (map_set (ac_payoutWallet a) j m) g"
      using step v Inr by (auto simp: preview_step_def Let_def m_def i_def err_simps)
    have ok: "map_ok g" "map_ok m" using rep by (auto simp: groups_rep_def m_def split: option.splits)
    have old_i: "(case map_get m (ac_payoutWallet a) of None \<Rightarrow> 0 | Some w \<Rightarrow> ?f w) = ?f i"
      by (simp add: i_def empty_item_def split: option.splits)
    have old_m: "(case map_get g (ac_asset a) of None \<Rightarrow> 0 | Some w \<Rightarrow> ?F w) = ?F m"
      by (simp add: m_def split: option.splits)
    have "?F (map_set (ac_payoutWallet a) j m) + ?f i = ?F m + ?f j"
      using sum_map_set [OF ok(2), of ?f "ac_payoutWallet a" j] old_i by simp
    then have inner: "?F (map_set (ac_payoutWallet a) j m) = add_mset (ac_id a) (?F m)"
      using add_accrual_ids [OF j] by simp
    have "ids_in g' + ?F m = ids_in g + ?F (map_set (ac_payoutWallet a) j m)"
      using sum_map_set [OF ok(1), of ?F "ac_asset a" "map_set (ac_payoutWallet a) j m"] old_m
      by (simp add: ids_in_def g')
    then show ?thesis using inner by (simp add: sk)
  qed
qed

lemma preview_step_skips:
  assumes "preview_step h mid now a (sk, g) = Inr (sk', g')" "skip_facts h mid now xs sk"
  shows "skip_facts h mid now (xs @ [a]) sk'"
proof -
  from assms(1) obtain v where v: "accrual_verdict h mid now a = Inr v"
    by (auto simp: preview_step_def err_simps)
  have more: "skip_facts h mid now (xs @ [a]) sk" using assms(2) by (auto simp: skip_facts_def)
  show ?thesis
  proof (cases v)
    case (Inl r)
    then have "sk' = sk @ [\<lparr>sk_accrualId = ac_id a, sk_reason = r\<rparr>]"
      using assms(1) v by (auto simp: preview_step_def)
    then show ?thesis using more v Inl by (simp add: skip_facts_def)
  next
    case (Inr n)
    then have "sk' = sk" using assms(1) v by (auto simp: preview_step_def err_simps Let_def)
    then show ?thesis using more by simp
  qed
qed

lemma preview_loop:
  assumes "fold_err (preview_step h mid now) ys (sk, g) = Inr (sk', g')"
    and "groups_rep (chosen h mid now) xs g" "skip_facts h mid now xs sk"
  shows "groups_rep (chosen h mid now) (xs @ ys) g' \<and> skip_facts h mid now (xs @ ys) sk' \<and>
    mset (map sk_accrualId sk') + ids_in g' = mset (map ac_id ys) + mset (map sk_accrualId sk) + ids_in g \<and>
    (\<forall>a \<in> set ys. \<exists>v. accrual_verdict h mid now a = Inr v)"
  using assms
proof (induction ys arbitrary: xs sk g)
  case (Cons a ys)
  from Cons.prems(1) obtain sk1 g1 where step: "preview_step h mid now a (sk, g) = Inr (sk1, g1)"
    and rest: "fold_err (preview_step h mid now) ys (sk1, g1) = Inr (sk', g')"
    by (auto simp: err_simps)
  have "\<exists>v. accrual_verdict h mid now a = Inr v"
    using step by (auto simp: preview_step_def err_simps)
  then show ?case
    using Cons.IH [OF rest preview_step_groups [OF step Cons.prems(2)] preview_step_skips [OF step Cons.prems(3)]]
      preview_step_ids [OF step Cons.prems(2)] by auto
qed simp

lemma preview_loop_start:
  assumes "fold_err (preview_step h mid now) ys ([], []) = Inr (sk, g)"
  shows "groups_rep (chosen h mid now) ys g" "skip_facts h mid now ys sk"
    "mset (map sk_accrualId sk) + ids_in g = mset (map ac_id ys)"
    "\<forall>a \<in> set ys. \<exists>v. accrual_verdict h mid now a = Inr v"
proof -
  have "groups_rep (chosen h mid now) [] []" "skip_facts h mid now [] []"
    by (simp_all add: groups_rep_def skip_facts_def)
  from preview_loop [OF assms this]
  show "groups_rep (chosen h mid now) ys g" "skip_facts h mid now ys sk"
    "mset (map sk_accrualId sk) + ids_in g = mset (map ac_id ys)"
    "\<forall>a \<in> set ys. \<exists>v. accrual_verdict h mid now a = Inr v"
    by (auto simp: ids_in_def)
qed

text \<open>What may be paid, stated on the accrual alone.\<close>

definition payable :: "host \<Rightarrow> string \<Rightarrow> int option \<Rightarrow> accrual \<Rightarrow> bool" where
  "payable h merchantId nowMs a \<longleftrightarrow> ac_merchantId a = merchantId \<and> ac_status a = Available \<and>
     (case ac_availableAt a of None \<Rightarrow> True
      | Some t \<Rightarrow> (case parse_normalized h t ''availableAt'' of Inr ms \<Rightarrow> \<not> num_gt ms nowMs | _ \<Rightarrow> False)) \<and>
     atomic_regex (ac_amountAtomic a) \<and> 0 < accrual_amount a"

lemma chosen_payable:
  assumes "accrual_verdict h mid now a = Inr v"
  shows "chosen h mid now a \<longleftrightarrow> payable h mid now a"
proof
  assume c: "chosen h mid now a"
  then have v: "v = Inr (accrual_amount a)" using chosen_cases(1) [OF assms] by simp
  show "payable h mid now a"
    using assms v chosen_cases(2) [OF assms v]
    by (auto simp: payable_def accrual_verdict_def err_simps split: if_splits option.splits)
next
  assume p: "payable h mid now a"
  have "readAtomicAmount (ac_amountAtomic a) ''amountAtomic'' = Inr (accrual_amount a)"
    using p by (simp add: payable_def readAtomicAmount_Inr accrual_amount_def)
  then have "accrual_verdict h mid now a = Inr (Inr (accrual_amount a))"
    using p by (auto simp: payable_def accrual_verdict_def split: option.splits sum.splits)
  then show "chosen h mid now a" by (simp add: chosen_def)
qed

section \<open>The batches\<close>

definition batch_ids :: "preview_batch \<Rightarrow> string multiset" where
  "batch_ids b = (\<Sum>p\<leftarrow>pv_items b. mset (pi_accrualIds p))"

definition map_total :: "string \<Rightarrow> (string, int) js_map \<Rightarrow> int" where
  "map_total asset m = (case map_get m asset of None \<Rightarrow> 0 | Some n \<Rightarrow> n)"

definition batch_of ::
  "string \<Rightarrow> int \<Rightarrow> int option \<Rightarrow> (string, int) js_map option \<Rightarrow>
   string \<times> (string, mutable_item) js_map \<Rightarrow> preview_batch \<Rightarrow> bool" where
  "batch_of mid minimum maxR funding e b \<longleftrightarrow> (\<exists>sel. mset sel \<subseteq># mset (map_values (snd e)) \<and> sel \<noteq> [] \<and>
     (\<forall>i \<in> set sel. minimum \<le> mi_amount i) \<and> opt_all (\<lambda>n. int (length sel) \<le> n) maxR \<and>
     list_all2 (\<lambda>i p. toPreviewItem i = Inr p) sel (pv_items b) \<and>
     pv_merchantId b = mid \<and> pv_asset b = fst e \<and> 0 \<le> (\<Sum>i\<leftarrow>sel. mi_amount i) \<and>
     pv_totalAmountAtomic b = show_int (\<Sum>i\<leftarrow>sel. mi_amount i) \<and> pv_itemCount b = length sel \<and>
     pv_accrualCount b = (\<Sum>i\<leftarrow>sel. length (mi_accrualIds i)) \<and>
     (case funding of None \<Rightarrow> pv_fundingStatus b = Unknown \<and> pv_fundingDeficitAtomic b = None
      | Some m \<Rightarrow> let d = max 0 ((\<Sum>i\<leftarrow>sel. mi_amount i) - map_total (fst e) m)
          in pv_fundingDeficitAtomic b = Some (show_int d) \<and>
             pv_fundingStatus b = (if d = 0 then Covered else Deficit)))"

lemma toPreviewItem_facts:
  "toPreviewItem i = Inr p \<Longrightarrow> pi_destinationWallet p = mi_destinationWallet i \<and>
   0 \<le> mi_amount i \<and> pi_amountAtomic p = show_int (mi_amount i) \<and> mset (pi_accrualIds p) = mset (mi_accrualIds i) \<and>
   set (pi_referrerWallets p) = set (mi_referrerWallets i)"
  by (auto simp: toPreviewItem_def err_simps)

lemma items_ids:
  "list_all2 (\<lambda>i p. toPreviewItem i = Inr p) is ps \<Longrightarrow>
   (\<Sum>p\<leftarrow>ps. mset (pi_accrualIds p)) = (\<Sum>i\<leftarrow>is. mset (mi_accrualIds i))"
  by (induction rule: list_all2_induct) (auto dest: toPreviewItem_facts)

lemma skip_all_ids: "mset (map sk_accrualId (skip_all r is)) = (\<Sum>i\<leftarrow>is. mset (mi_accrualIds i))"
  by (induction "is") (auto simp: skip_all_def o_def)

lemma sum_list_mset_eq:
  fixes f :: "'a \<Rightarrow> 'b :: comm_monoid_add"
  assumes "mset xs = mset ys"
  shows "(\<Sum>x\<leftarrow>xs. f x) = (\<Sum>x\<leftarrow>ys. f x)"
proof -
  have "mset (map f xs) = mset (map f ys)" using assms by simp
  then show ?thesis by (metis sum_mset_sum_list)
qed

lemma batch_from_selected_facts:
  assumes "batch_from_selected mid asset sel funding = Inr b"
    and "mset sel \<subseteq># mset (map_values im)" "sel \<noteq> []" "\<forall>i \<in> set sel. minimum \<le> mi_amount i"
    and "opt_all (\<lambda>n. int (length sel) \<le> n) maxR"
  shows "batch_of mid minimum maxR funding (asset, im) b \<and> batch_ids b = (\<Sum>i\<leftarrow>sel. mset (mi_accrualIds i))"
proof
  have items: "list_all2 (\<lambda>i p. toPreviewItem i = Inr p) sel (pv_items b)"
    using assms(1) by (auto simp: batch_from_selected_def Let_def err_simps map_err_Inr)
  then show "batch_ids b = (\<Sum>i\<leftarrow>sel. mset (mi_accrualIds i))"
    by (simp add: batch_ids_def items_ids)
  have "pv_merchantId b = mid \<and> pv_asset b = asset \<and> 0 \<le> (\<Sum>i\<leftarrow>sel. mi_amount i) \<and>
     pv_totalAmountAtomic b = show_int (\<Sum>i\<leftarrow>sel. mi_amount i) \<and> pv_itemCount b = length sel \<and>
     pv_accrualCount b = (\<Sum>i\<leftarrow>sel. length (mi_accrualIds i)) \<and>
     (case funding of None \<Rightarrow> pv_fundingStatus b = Unknown \<and> pv_fundingDeficitAtomic b = None
      | Some m \<Rightarrow> let d = max 0 ((\<Sum>i\<leftarrow>sel. mi_amount i) - map_total asset m)
          in pv_fundingDeficitAtomic b = Some (show_int d) \<and>
             pv_fundingStatus b = (if d = 0 then Covered else Deficit))"
    using assms(1) by (cases funding) (auto simp: batch_from_selected_def Let_def err_simps map_total_def)
  then show "batch_of mid minimum maxR funding (asset, im) b"
    unfolding batch_of_def fst_conv snd_conv using assms(2-5) items by (intro exI [of _ sel]) simp
qed

lemma createPreviewBatch_facts:
  assumes cb: "createPreviewBatch h mid asset im minimum maxR funding = Inr (sk, b)"
    and pos: "opt_all (\<lambda>n. 0 < n) maxR"
  shows "mset (map sk_accrualId sk) + (case b of None \<Rightarrow> {#} | Some b \<Rightarrow> batch_ids b) =
      (\<Sum>i\<leftarrow>map_values im. mset (mi_accrualIds i)) \<and>
    (\<forall>s \<in> set sk. sk_reason s \<in> {Below_minimum_threshold, Recipient_limit}) \<and>
    (case b of None \<Rightarrow> True | Some b \<Rightarrow> batch_of mid minimum maxR funding (asset, im) b)"
proof -
  from cb obtain sorted where sorted: "sort_err (comparePayoutItems h) (map_values im) = Inr sorted"
    by (auto simp: createPreviewBatch_def err_simps)
  define th where "th = filter (\<lambda>i. mi_amount i \<ge> minimum) sorted"
  define below where "below = filter (\<lambda>i. \<not> mi_amount i \<ge> minimum) sorted"
  define sel where "sel = selected_items maxR th"
  define lim where "lim = limited_items maxR th"
  have split_th: "th = sel @ lim"
    by (simp add: sel_def lim_def selected_items_def limited_items_def split: option.splits)
  have "mset sorted = mset th + mset below"
    using multiset_partition [of "mset sorted" "\<lambda>i. mi_amount i \<ge> minimum"]
    by (simp add: th_def below_def)
  then have all: "mset (map_values im) = mset sel + mset lim + mset below"
    using sort_err_mset [OF sorted] by (simp add: split_th)
  have sum_all: "(\<Sum>i\<leftarrow>map_values im. mset (mi_accrualIds i)) =
      (\<Sum>i\<leftarrow>sel. mset (mi_accrualIds i)) + (\<Sum>i\<leftarrow>lim. mset (mi_accrualIds i)) + (\<Sum>i\<leftarrow>below. mset (mi_accrualIds i))"
    using sum_list_mset_eq [of "map_values im" "sel @ lim @ below" "\<lambda>i. mset (mi_accrualIds i)"] all by (simp add: ac_simps)
  let ?sk = "skip_all Below_minimum_threshold below @ skip_all Recipient_limit lim"
  have result: "(if sel = [] then Inr (?sk, None)
      else and_then (batch_from_selected mid asset sel funding) (\<lambda>b. Inr (?sk, Some b))) = Inr (sk, b)"
    using cb by (simp only: createPreviewBatch_def sorted and_then.simps Let_def th_def sel_def lim_def below_def)
  then have sk: "sk = ?sk" by (auto simp: err_simps split: if_splits)
  have skid: "mset (map sk_accrualId sk) = (\<Sum>i\<leftarrow>lim. mset (mi_accrualIds i)) + (\<Sum>i\<leftarrow>below. mset (mi_accrualIds i))"
    using skip_all_ids by (simp add: sk)
  have reasons: "\<forall>s \<in> set sk. sk_reason s \<in> {Below_minimum_threshold, Recipient_limit}"
    by (auto simp: sk skip_all_def)
  have lens: "opt_all (\<lambda>n. int (length sel) \<le> n) maxR"
    using pos by (auto simp: opt_all_def sel_def selected_items_def split: option.splits)
  show ?thesis
  proof (cases "sel = []")
    case True
    then show ?thesis using result skid sum_all reasons by simp
  next
    case False
    then obtain b' where b: "b = Some b'" and b': "batch_from_selected mid asset sel funding = Inr b'"
      using result by (auto simp: err_simps)
    have "mset sel \<subseteq># mset (map_values im)" using all by simp
    moreover have "\<forall>i \<in> set sel. minimum \<le> mi_amount i"
    proof
      fix i assume "i \<in> set sel"
      then have "i \<in> set th" using split_th by simp
      then show "minimum \<le> mi_amount i" by (simp add: th_def)
    qed
    ultimately show ?thesis
      using batch_from_selected_facts [OF b' _ False _ lens] b skid sum_all reasons by simp
  qed
qed

lemma batch_of_count: "batch_of mid minimum maxR f e b \<Longrightarrow> pv_accrualCount b = size (batch_ids b)"
proof -
  assume "batch_of mid minimum maxR f e b"
  then obtain sel where "list_all2 (\<lambda>i p. toPreviewItem i = Inr p) sel (pv_items b)"
    "pv_accrualCount b = (\<Sum>i\<leftarrow>sel. length (mi_accrualIds i))" by (auto simp: batch_of_def)
  moreover have "size (\<Sum>i\<leftarrow>sel. mset (mi_accrualIds i)) = (\<Sum>i\<leftarrow>sel. length (mi_accrualIds i))"
    by (induction sel) auto
  ultimately show ?thesis by (simp add: batch_ids_def items_ids)
qed

lemma batch_loop:
  assumes "fold_err (batch_step h mid minimum maxR f) es (sk, bs) = Inr (sk', bs')"
    and "opt_all (\<lambda>n. 0 < n) maxR"
  shows "mset (map sk_accrualId sk') + (\<Sum>b\<leftarrow>bs'. batch_ids b) =
      mset (map sk_accrualId sk) + (\<Sum>b\<leftarrow>bs. batch_ids b) +
      (\<Sum>e\<leftarrow>es. \<Sum>i\<leftarrow>map_values (snd e). mset (mi_accrualIds i)) \<and>
    (\<exists>new. bs' = bs @ new \<and> (\<forall>b \<in> set new. \<exists>e \<in> set es. batch_of mid minimum maxR f e b) \<and>
      (distinct (map fst es) \<longrightarrow> distinct (map pv_asset new))) \<and>
    (\<exists>news. sk' = sk @ news \<and> (\<forall>s \<in> set news. sk_reason s \<in> {Below_minimum_threshold, Recipient_limit}))"
  using assms(1)
proof (induction es arbitrary: sk bs)
  case (Cons e es)
  from Cons.prems obtain st where st: "batch_step h mid minimum maxR f e (sk, bs) = Inr st"
    and rest': "fold_err (batch_step h mid minimum maxR f) es st = Inr (sk', bs')"
    by (auto simp: err_simps)
  from st obtain s1 b where step: "createPreviewBatch h mid (fst e) (snd e) minimum maxR f = Inr (s1, b)"
    and st_eq: "st = (sk @ s1, bs @ (case b of None \<Rightarrow> [] | Some b \<Rightarrow> [b]))"
    by (auto simp: batch_step_def err_simps)
  note rest = rest' [unfolded st_eq]
  note facts = createPreviewBatch_facts [OF step assms(2)]
  from Cons.IH [OF rest] obtain new news where ih:
    "mset (map sk_accrualId sk') + (\<Sum>b\<leftarrow>bs'. batch_ids b) =
      mset (map sk_accrualId (sk @ s1)) + (\<Sum>b\<leftarrow>bs @ (case b of None \<Rightarrow> [] | Some b \<Rightarrow> [b]). batch_ids b) +
      (\<Sum>e\<leftarrow>es. \<Sum>i\<leftarrow>map_values (snd e). mset (mi_accrualIds i))"
    "bs' = (bs @ (case b of None \<Rightarrow> [] | Some b \<Rightarrow> [b])) @ new"
    "\<forall>b \<in> set new. \<exists>e \<in> set es. batch_of mid minimum maxR f e b"
    "distinct (map fst es) \<longrightarrow> distinct (map pv_asset new)"
    "sk' = (sk @ s1) @ news" "\<forall>s \<in> set news. sk_reason s \<in> {Below_minimum_threshold, Recipient_limit}"
    by blast
  have sums: "mset (map sk_accrualId sk') + (\<Sum>b\<leftarrow>bs'. batch_ids b) =
      mset (map sk_accrualId sk) + (\<Sum>b\<leftarrow>bs. batch_ids b) +
      (\<Sum>e\<leftarrow>e # es. \<Sum>i\<leftarrow>map_values (snd e). mset (mi_accrualIds i))"
    using ih(1) facts by (cases b) (auto simp: ac_simps)
  let ?new = "(case b of None \<Rightarrow> [] | Some b \<Rightarrow> [b]) @ new"
  have all: "\<forall>b \<in> set ?new. \<exists>e' \<in> set (e # es). batch_of mid minimum maxR f e' b"
    using facts ih(3) by (cases b) auto
  have asset: "pv_asset c = fst e'" if "batch_of mid minimum maxR f e' c" for c e'
    using that by (auto simp: batch_of_def)
  have dist: "distinct (map pv_asset ?new)" if d: "distinct (map fst (e # es))"
  proof (cases b)
    case None
    then show ?thesis using d ih(4) by simp
  next
    case (Some c)
    have "batch_of mid minimum maxR f (fst e, snd e) c" using facts Some by simp
    then have c: "pv_asset c = fst e" using asset by fastforce
    have sub: "pv_asset ` set new \<subseteq> fst ` set es"
    proof
      fix v assume "v \<in> pv_asset ` set new"
      then obtain x where x: "x \<in> set new" "v = pv_asset x" by blast
      then obtain e' where "e' \<in> set es" "batch_of mid minimum maxR f e' x" using ih(3) by blast
      then show "v \<in> fst ` set es" using asset x(2) by blast
    qed
    have "fst e \<notin> pv_asset ` set new" using sub d by auto
    then show ?thesis using d ih(4) Some c by simp
  qed
  have "sk' = sk @ (s1 @ news)" "\<forall>s \<in> set (s1 @ news). sk_reason s \<in> {Below_minimum_threshold, Recipient_limit}"
    using ih(5,6) facts by auto
  moreover have "bs' = bs @ ?new" using ih(2) by simp
  ultimately show ?case using sums all dist by blast
qed auto

text \<open>Everything a preview rests on.\<close>

lemma createPayoutPreview_facts:
  assumes "createPayoutPreview h clock i = Inr p"
  obtains minimum funding sorted sk g where
    "pr_merchantId p = pin_merchantId i"
    "mset sorted = mset (pin_accruals i)" "minimum = amount_of (now_or (pin_minimumPayoutAmountAtomic i) ''0'')"
    "opt_all (\<lambda>n. 0 < n) (pin_maxRecipients i)"
    "buildFundingBalanceMap (pin_fundingBalances i) = Inr funding"
    "fold_err (preview_step h (pr_merchantId p) (dateParse h (pr_generatedAt p))) sorted ([], []) = Inr (sk, g)"
    "fold_err (batch_step h (pr_merchantId p) minimum (pin_maxRecipients i) funding)
       (sort_by (\<lambda>l r. localeCompare h (fst l) (fst r)) g) (sk, []) = Inr (pr_skippedAccruals p, pr_batches p)"
    "pr_eligibleAccrualCount p = (\<Sum>b\<leftarrow>pr_batches p. pv_accrualCount b)"
    "pr_skippedAccrualCount p = length (pr_skippedAccruals p)"
    "normalizeTimestamp h (now_or (pin_now i) clock) ''now'' = Inr (pr_generatedAt p)"
    "pr_totalAmountAtomicByAsset p = map_from (map (\<lambda>b. (pv_asset b, pv_totalAmountAtomic b)) (pr_batches p))"
proof -
  obtain mid ga minimum maxR funding sorted st st' where r:
    "assertNonEmptyString (pin_merchantId i) ''merchantId'' = Inr mid"
    "normalizeTimestamp h (now_or (pin_now i) clock) ''now'' = Inr ga"
    "readAtomicAmount (now_or (pin_minimumPayoutAmountAtomic i) ''0'') ''minimumPayoutAmountAtomic'' = Inr minimum"
    "readOptionalPositiveInteger (pin_maxRecipients i) ''maxRecipients'' = Inr maxR"
    "buildFundingBalanceMap (pin_fundingBalances i) = Inr funding"
    "sort_err (compareAccrualsForPayout h) (pin_accruals i) = Inr sorted"
    "fold_err (preview_step h mid (dateParse h ga)) sorted ([], []) = Inr st"
    "fold_err (batch_step h mid minimum maxR funding)
       (sort_by (\<lambda>l r. localeCompare h (fst l) (fst r)) (snd st)) (fst st, []) = Inr st'"
    "p = \<lparr>pr_merchantId = mid, pr_generatedAt = ga, pr_batches = snd st',
          pr_eligibleAccrualCount = (\<Sum>b\<leftarrow>snd st'. pv_accrualCount b),
          pr_skippedAccrualCount = length (fst st'), pr_skippedAccruals = fst st',
          pr_totalAmountAtomicByAsset = map_from (map (\<lambda>b. (pv_asset b, pv_totalAmountAtomic b)) (snd st'))\<rparr>"
    using assms unfolding createPayoutPreview_def and_then_Inr
    by (auto simp: and_then_Inr split_def)
  show thesis
    by (rule that [of sorted minimum funding "fst st" "snd st"])
      (use r sort_err_mset [OF r(6)] in \<open>auto simp: err_simps\<close>)
qed

lemma size_sum_list: "(\<Sum>b\<leftarrow>bs. size (f b :: 'a multiset)) = size (\<Sum>b\<leftarrow>bs. f b)"
  by (induction bs) auto

lemma map_get_entry: "map_ok m \<Longrightarrow> e \<in> set m \<Longrightarrow> map_get m (fst e) = Some (snd e)"
  by (cases e) (simp add: map_ok_def map_get_def)

lemma preview_batch_origin:
  assumes "createPayoutPreview h clock i = Inr p" "b \<in> set (pr_batches p)"
  obtains m sorted funding where
    "batch_of (pin_merchantId i) (amount_of (now_or (pin_minimumPayoutAmountAtomic i) ''0''))
       (pin_maxRecipients i) funding (pv_asset b, m) b"
    "map_ok m" "buildFundingBalanceMap (pin_fundingBalances i) = Inr funding"
    "\<forall>w j. map_get m w = Some j \<longrightarrow>
       item_rep w (group_of (payable h (pin_merchantId i) (dateParse h (pr_generatedAt p))) (pv_asset b) w sorted) j \<and>
       group_of (payable h (pin_merchantId i) (dateParse h (pr_generatedAt p))) (pv_asset b) w sorted \<noteq> []"
    "mset sorted = mset (pin_accruals i)"
proof -
  from assms(1) obtain minimum funding sorted sk g where r:
    "pr_merchantId p = pin_merchantId i"
    "mset sorted = mset (pin_accruals i)" "minimum = amount_of (now_or (pin_minimumPayoutAmountAtomic i) ''0'')"
    "opt_all (\<lambda>n. 0 < n) (pin_maxRecipients i)" "buildFundingBalanceMap (pin_fundingBalances i) = Inr funding"
    "fold_err (preview_step h (pr_merchantId p) (dateParse h (pr_generatedAt p))) sorted ([], []) = Inr (sk, g)"
    "fold_err (batch_step h (pr_merchantId p) minimum (pin_maxRecipients i) funding)
       (sort_by (\<lambda>l r. localeCompare h (fst l) (fst r)) g) (sk, []) = Inr (pr_skippedAccruals p, pr_batches p)"
    by (rule createPayoutPreview_facts)
  let ?mid = "pin_merchantId i" and ?now = "dateParse h (pr_generatedAt p)"
  note loop = preview_loop_start [OF r(6) [unfolded r(1)]]
  obtain e where e: "e \<in> set g" "batch_of ?mid minimum (pin_maxRecipients i) funding e b"
    using batch_loop [OF r(7) r(4)] assms(2) by (auto simp: r(1))
  have ok: "map_ok g" using loop(1) by (simp add: groups_rep_def)
  have asset: "pv_asset b = fst e" using e(2) by (auto simp: batch_of_def)
  note get = map_get_entry [OF ok e(1)]
  have grp: "group_of (chosen h ?mid ?now) a w sorted = group_of (payable h ?mid ?now) a w sorted" for a w
    unfolding group_of_def using loop(4) chosen_payable by (intro filter_cong) auto
  show thesis
  proof (rule that [of funding "snd e" sorted])
    show "batch_of ?mid (amount_of (now_or (pin_minimumPayoutAmountAtomic i) ''0'')) (pin_maxRecipients i) funding (pv_asset b, snd e) b"
      using e(2) asset r(3) by simp
    show "map_ok (snd e)" using loop(1) get by (auto simp: groups_rep_def)
    show "\<forall>w j. map_get (snd e) w = Some j \<longrightarrow>
        item_rep w (group_of (payable h ?mid ?now) (pv_asset b) w sorted) j \<and>
        group_of (payable h ?mid ?now) (pv_asset b) w sorted \<noteq> []"
      using loop(1) get unfolding groups_rep_def grp asset by blast
  qed (rule r)+
qed

lemma preview_partition:
  assumes "createPayoutPreview h clock i = Inr p"
  shows "mset (map sk_accrualId (pr_skippedAccruals p)) + (\<Sum>b\<leftarrow>pr_batches p. batch_ids b) =
      mset (map ac_id (pin_accruals i)) \<and>
    pr_skippedAccrualCount p + pr_eligibleAccrualCount p = length (pin_accruals i)"
proof -
  from assms obtain minimum funding sorted sk g where r:
    "mset sorted = mset (pin_accruals i)" "opt_all (\<lambda>n. 0 < n) (pin_maxRecipients i)"
    "fold_err (preview_step h (pr_merchantId p) (dateParse h (pr_generatedAt p))) sorted ([], []) = Inr (sk, g)"
    "fold_err (batch_step h (pr_merchantId p) minimum (pin_maxRecipients i) funding)
       (sort_by (\<lambda>l r. localeCompare h (fst l) (fst r)) g) (sk, []) = Inr (pr_skippedAccruals p, pr_batches p)"
    "pr_eligibleAccrualCount p = (\<Sum>b\<leftarrow>pr_batches p. pv_accrualCount b)"
    "pr_skippedAccrualCount p = length (pr_skippedAccruals p)"
    by (rule createPayoutPreview_facts)
  note bl = batch_loop [OF r(4) r(2)]
  have "(\<Sum>e\<leftarrow>sort_by (\<lambda>l r. localeCompare h (fst l) (fst r)) g. \<Sum>j\<leftarrow>map_values (snd e). mset (mi_accrualIds j)) = ids_in g"
    by (subst sum_list_mset_eq [OF sort_by_mset]) (simp add: ids_in_def map_values_def o_def)
  then have all: "mset (map sk_accrualId (pr_skippedAccruals p)) + (\<Sum>b\<leftarrow>pr_batches p. batch_ids b) =
      mset (map ac_id (pin_accruals i))"
    using bl preview_loop_start(3) [OF r(3)] r(1) by simp
  have "pv_accrualCount b = size (batch_ids b)" if "b \<in> set (pr_batches p)" for b
    using bl that batch_of_count by fastforce
  then have "(\<Sum>b\<leftarrow>pr_batches p. pv_accrualCount b) = (\<Sum>b\<leftarrow>pr_batches p. size (batch_ids b))"
    by (metis (no_types, lifting) map_cong)
  also have "\<dots> = size (\<Sum>b\<leftarrow>pr_batches p. batch_ids b)" by (rule size_sum_list)
  finally have "pr_skippedAccrualCount p + pr_eligibleAccrualCount p =
      size (mset (map sk_accrualId (pr_skippedAccruals p)) + (\<Sum>b\<leftarrow>pr_batches p. batch_ids b))"
    using r(5,6) by simp
  also have "\<dots> = length (pin_accruals i)" unfolding all by simp
  finally show ?thesis using all by simp
qed

text \<open>C6. A preview accounts for every accrual exactly once: the ids of the skipped accruals and the
  ids listed under the items of the batches are together the ids of the input, with their
  multiplicities, and the two counters add up to the number of accruals.\<close>

theorem preview_partitions_accruals:
  assumes "createPayoutPreview h clock i = Inr p"
  shows "mset (map sk_accrualId (pr_skippedAccruals p)) + (\<Sum>b\<leftarrow>pr_batches p. batch_ids b) =
      mset (map ac_id (pin_accruals i)) \<and>
    pr_skippedAccrualCount p + pr_eligibleAccrualCount p = length (pin_accruals i)"
  by (rule preview_partition [OF assms])

text \<open>A host for closed examples: a time is the length of its text.\<close>

definition toy_host :: host where
  "toy_host = \<lparr>dateParse = (\<lambda>s. if s = [] then None else Some (int (length s))),
     toISOString = (\<lambda>n. replicate (nat n) (CHR ''Z'')), localeCompare = string_compare\<rparr>"

definition toy_accrual :: "string \<Rightarrow> string \<Rightarrow> string \<Rightarrow> string \<Rightarrow> accrual" where
  "toy_accrual k w asset amount = \<lparr>ac_id = k, ac_receiptId = ''r'' @ k, ac_merchantId = ''m'', ac_campaignId = ''c'',
     ac_routeId = ''rt'', ac_referrerWallet = ''ref'', ac_payoutWallet = w, ac_asset = asset,
     ac_amountAtomic = amount, ac_status = Available, ac_availableAt = Some ''ZZ'', ac_createdAt = ''Z''\<rparr>"

definition toy_preview_input :: preview_input where
  "toy_preview_input = \<lparr>pin_merchantId = ''m'',
     pin_accruals = [toy_accrual ''a3'' ''w1'' ''usd'' ''30'', toy_accrual ''a1'' ''w1'' ''usd'' ''12'',
       toy_accrual ''a2'' ''w2'' ''usd'' ''1'', (toy_accrual ''a4'' ''w1'' ''usd'' ''9'')\<lparr>ac_status := Held\<rparr>],
     pin_now = Some ''ZZZ'', pin_minimumPayoutAmountAtomic = Some ''5'', pin_maxRecipients = Some 1,
     pin_fundingBalances = Some [\<lparr>fb_asset = ''usd'', fb_amountAtomic = ''40''\<rparr>]\<rparr>"

definition toy_preview :: preview where
  "toy_preview = \<lparr>pr_merchantId = ''m'', pr_generatedAt = ''ZZZ'',
     pr_batches = [\<lparr>pv_merchantId = ''m'', pv_asset = ''usd'', pv_totalAmountAtomic = ''42'', pv_itemCount = 1,
       pv_accrualCount = 2, pv_fundingStatus = Deficit, pv_fundingAmountAtomic = Some ''40'',
       pv_fundingDeficitAtomic = Some ''2'',
       pv_items = [\<lparr>pi_destinationWallet = ''w1'', pi_referrerWallets = [''ref''], pi_amountAtomic = ''42'',
         pi_accrualIds = [''a1'', ''a3''], pi_oldestAvailableAt = Some ''ZZ'', pi_newestAvailableAt = Some ''ZZ''\<rparr>]\<rparr>],
     pr_eligibleAccrualCount = 2, pr_skippedAccrualCount = 2,
     pr_skippedAccruals = [\<lparr>sk_accrualId = ''a4'', sk_reason = Not_available\<rparr>,
       \<lparr>sk_accrualId = ''a2'', sk_reason = Below_minimum_threshold\<rparr>],
     pr_totalAmountAtomicByAsset = [(''usd'', ''42'')]\<rparr>"

lemma toy_preview_run: "createPayoutPreview toy_host ''Z'' toy_preview_input = Inr toy_preview"
  by code_simp

theorem preview_partitions_accruals_witness:
  "mset (map sk_accrualId (pr_skippedAccruals toy_preview)) + (\<Sum>b\<leftarrow>pr_batches toy_preview. batch_ids b) =
     mset (map ac_id (pin_accruals toy_preview_input)) \<and> length (pin_accruals toy_preview_input) = 4"
  using preview_partitions_accruals [OF toy_preview_run] by (simp add: toy_preview_input_def)

lemma preview_item_sound:
  assumes "createPayoutPreview h clock i = Inr p" "b \<in> set (pr_batches p)" "it \<in> set (pv_items b)"
  shows "let g = group_of (payable h (pin_merchantId i) (dateParse h (pr_generatedAt p))) (pv_asset b)
       (pi_destinationWallet it) (pin_accruals i)
     in g \<noteq> [] \<and> mset (pi_accrualIds it) = mset (map ac_id g) \<and>
        pi_amountAtomic it = show_int (\<Sum>a\<leftarrow>g. accrual_amount a) \<and>
        amount_of (now_or (pin_minimumPayoutAmountAtomic i) ''0'') \<le> (\<Sum>a\<leftarrow>g. accrual_amount a) \<and>
        set (pi_referrerWallets it) = ac_referrerWallet ` set g"
proof -
  let ?G = "\<lambda>w xs. group_of (payable h (pin_merchantId i) (dateParse h (pr_generatedAt p))) (pv_asset b) w xs"
  from assms(1,2) obtain m sorted funding where
    b: "batch_of (pin_merchantId i) (amount_of (now_or (pin_minimumPayoutAmountAtomic i) ''0''))
       (pin_maxRecipients i) funding (pv_asset b, m) b" and ok: "map_ok m"
    and "buildFundingBalanceMap (pin_fundingBalances i) = Inr funding"
    and rep: "\<forall>w j. map_get m w = Some j \<longrightarrow> item_rep w (?G w sorted) j \<and> ?G w sorted \<noteq> []"
    and sorted: "mset sorted = mset (pin_accruals i)"
    by (rule preview_batch_origin)
  from b obtain sel where sel: "mset sel \<subseteq># mset (map_values m)"
    "\<forall>j \<in> set sel. amount_of (now_or (pin_minimumPayoutAmountAtomic i) ''0'') \<le> mi_amount j"
    "list_all2 (\<lambda>j p. toPreviewItem j = Inr p) sel (pv_items b)" by (auto simp: batch_of_def)
  obtain j where j: "j \<in> set sel" "toPreviewItem j = Inr it"
    using list_all2_right [OF sel(3) assms(3)] by blast
  have "j \<in> set (map_values m)" using sel(1) j(1) by (meson mset_subset_eqD set_mset_mset in_multiset_in_set)
  then obtain w where "map_get m w = Some j" using ok by (auto simp: jm.vals_get)
  then have jr: "item_rep w (?G w sorted) j" "?G w sorted \<noteq> []" using rep by auto
  have ms: "mset (?G w sorted) = mset (?G w (pin_accruals i))"
    using sorted by (simp add: group_of_def)
  have sum: "(\<Sum>a\<leftarrow>?G w sorted. accrual_amount a) = (\<Sum>a\<leftarrow>?G w (pin_accruals i). accrual_amount a)"
    by (rule sum_list_mset_eq [OF ms])
  have st: "set (?G w sorted) = set (?G w (pin_accruals i))" using ms by (rule mset_eq_setD)
  have ids: "mset (map ac_id (?G w sorted)) = mset (map ac_id (?G w (pin_accruals i)))"
    using ms by simp
  have ne: "?G w (pin_accruals i) \<noteq> []" using jr(2) st by auto
  have dest: "pi_destinationWallet it = w" using toPreviewItem_facts [OF j(2)] jr(1) by (simp add: item_rep_def)
  show ?thesis
    unfolding Let_def dest
    using toPreviewItem_facts [OF j(2)] jr(1) sel(2) j(1) ids sum st ne
    by (auto simp: item_rep_def)
qed

text \<open>C7. What a preview pays a wallet: an item of a batch lists exactly the payable accruals of the
  merchant, the asset and the destination wallet (available, due, positive), its amount is
  their exact sum and reaches the minimum, and its referrer wallets are theirs.\<close>

theorem preview_item_exact:
  assumes "createPayoutPreview h clock i = Inr p" "b \<in> set (pr_batches p)" "it \<in> set (pv_items b)"
  shows "let g = group_of (payable h (pin_merchantId i) (dateParse h (pr_generatedAt p))) (pv_asset b)
       (pi_destinationWallet it) (pin_accruals i)
     in g \<noteq> [] \<and> mset (pi_accrualIds it) = mset (map ac_id g) \<and>
        pi_amountAtomic it = show_int (\<Sum>a\<leftarrow>g. accrual_amount a) \<and>
        amount_of (now_or (pin_minimumPayoutAmountAtomic i) ''0'') \<le> (\<Sum>a\<leftarrow>g. accrual_amount a) \<and>
        set (pi_referrerWallets it) = ac_referrerWallet ` set g"
  by (rule preview_item_sound [OF assms])

theorem preview_item_exact_witness:
  "(\<Sum>a\<leftarrow>group_of (payable toy_host ''m'' (Some 3)) ''usd'' ''w1'' (pin_accruals toy_preview_input). accrual_amount a) = 42"
proof -
  let ?b = "hd (pr_batches toy_preview)"
  have b: "?b \<in> set (pr_batches toy_preview)" "hd (pv_items ?b) \<in> set (pv_items ?b)"
    by (simp_all add: toy_preview_def)
  have eq: "pin_merchantId toy_preview_input = ''m''" "dateParse toy_host (pr_generatedAt toy_preview) = Some 3"
    "pv_asset ?b = ''usd''" "pi_destinationWallet (hd (pv_items ?b)) = ''w1''" "pi_amountAtomic (hd (pv_items ?b)) = show_int 42"
    by code_simp+
  show ?thesis
    using preview_item_exact [OF toy_preview_run b] by (simp add: eq Let_def show_int_inj)
qed

definition funding_total :: "string \<Rightarrow> funding_balance list \<Rightarrow> int" where
  "funding_total asset bs = (\<Sum>b\<leftarrow>filter (\<lambda>b. fb_asset b = asset) bs. amount_of (fb_amountAtomic b))"

lemma funding_loop:
  "fold_err funding_step bs m = Inr m' \<Longrightarrow> map_total asset m' = map_total asset m + funding_total asset bs"
proof (induction bs arbitrary: m)
  case (Cons b bs)
  from Cons.prems obtain m1 where m1: "funding_step b m = Inr m1" "fold_err funding_step bs m1 = Inr m'"
    by (auto simp: err_simps)
  have "map_total asset m1 = map_total asset m + (if fb_asset b = asset then amount_of (fb_amountAtomic b) else 0)"
    using m1(1) by (auto simp: funding_step_def err_simps map_total_def)
  then show ?case using Cons.IH [OF m1(2)] by (simp add: funding_total_def)
qed (simp add: funding_total_def)

lemma buildFundingBalanceMap_total:
  assumes "buildFundingBalanceMap balances = Inr f"
  shows "case balances of None \<Rightarrow> f = None
    | Some bs \<Rightarrow> \<exists>m. f = Some m \<and> (\<forall>a. map_total a m = funding_total a bs)"
proof (cases balances)
  case (Some bs)
  then obtain m where m: "fold_err funding_step bs [] = Inr m" "f = Some m"
    using assms by (auto simp: buildFundingBalanceMap_def err_simps)
  have "map_total a [] = 0" for a by (simp add: map_total_def)
  then show ?thesis using funding_loop [OF m(1)] m(2) Some by simp
qed (use assms in \<open>simp add: buildFundingBalanceMap_def\<close>)

lemma amount_of_items:
  "list_all2 (\<lambda>i p. toPreviewItem i = Inr p) sel ps \<Longrightarrow>
   (\<Sum>i\<leftarrow>sel. mi_amount i) = (\<Sum>p\<leftarrow>ps. amount_of (pi_amountAtomic p)) \<and>
   map mi_destinationWallet sel = map pi_destinationWallet ps"
  by (induction rule: list_all2_induct) (auto dest: toPreviewItem_facts)

lemma distinct_subset_mset:
  assumes "mset xs \<subseteq># mset ys" "distinct (map f ys)"
  shows "distinct (map f xs)"
proof -
  obtain M where "mset ys = mset xs + M" using assms(1) by (auto simp: mset_subset_eq_exists_conv)
  moreover obtain zs where "M = mset zs" using ex_mset by metis
  ultimately have "mset (map f ys) = mset (map f xs @ map f zs)" by simp
  then have "distinct (map f xs @ map f zs)" using assms(2) mset_eq_imp_distinct_iff by blast
  then show ?thesis by simp
qed

lemma preview_batches:
  assumes "createPayoutPreview h clock i = Inr p"
  shows "distinct (map pv_asset (pr_batches p)) \<and>
    (\<forall>b \<in> set (pr_batches p). pv_merchantId b = pin_merchantId i \<and> pv_items b \<noteq> [] \<and>
      amount_of (pv_totalAmountAtomic b) = (\<Sum>it\<leftarrow>pv_items b. amount_of (pi_amountAtomic it)) \<and>
      pv_itemCount b = length (pv_items b) \<and> distinct (map pi_destinationWallet (pv_items b)) \<and>
      opt_all (\<lambda>n. int (length (pv_items b)) \<le> n) (pin_maxRecipients i) \<and>
      (case pin_fundingBalances i of None \<Rightarrow> pv_fundingStatus b = Unknown \<and> pv_fundingDeficitAtomic b = None
       | Some bs \<Rightarrow> let d = max 0 (amount_of (pv_totalAmountAtomic b) - funding_total (pv_asset b) bs)
           in pv_fundingDeficitAtomic b = Some (show_int d) \<and>
              pv_fundingStatus b = (if d = 0 then Covered else Deficit)))"
proof (intro conjI ballI)
  from assms obtain minimum funding sorted sk g where r:
    "opt_all (\<lambda>n. 0 < n) (pin_maxRecipients i)"
    "fold_err (preview_step h (pr_merchantId p) (dateParse h (pr_generatedAt p))) sorted ([], []) = Inr (sk, g)"
    "fold_err (batch_step h (pr_merchantId p) minimum (pin_maxRecipients i) funding)
       (sort_by (\<lambda>l r. localeCompare h (fst l) (fst r)) g) (sk, []) = Inr (pr_skippedAccruals p, pr_batches p)"
    by (rule createPayoutPreview_facts)
  have g: "distinct (map fst g)" using preview_loop_start(1) [OF r(2)] by (simp add: groups_rep_def map_ok_def)
  have "distinct (map fst (sort_by (\<lambda>l r. localeCompare h (fst l) (fst r)) g))"
    by (rule distinct_subset_mset [OF _ g]) simp
  then show "distinct (map pv_asset (pr_batches p))" using batch_loop [OF r(3,1)] by auto
next
  fix b assume "b \<in> set (pr_batches p)"
  with assms obtain m sorted funding where
    b: "batch_of (pin_merchantId i) (amount_of (now_or (pin_minimumPayoutAmountAtomic i) ''0''))
       (pin_maxRecipients i) funding (pv_asset b, m) b" and ok: "map_ok m"
    and fund: "buildFundingBalanceMap (pin_fundingBalances i) = Inr funding"
    and rep: "\<forall>w j. map_get m w = Some j \<longrightarrow> item_rep w (group_of (payable h (pin_merchantId i) (dateParse h (pr_generatedAt p))) (pv_asset b) w sorted) j \<and>
       group_of (payable h (pin_merchantId i) (dateParse h (pr_generatedAt p))) (pv_asset b) w sorted \<noteq> []"
    by (rule preview_batch_origin)
  from b [unfolded batch_of_def fst_conv snd_conv] obtain sel where sel: "mset sel \<subseteq># mset (map_values m)" "sel \<noteq> []"
    "opt_all (\<lambda>n. int (length sel) \<le> n) (pin_maxRecipients i)"
    "list_all2 (\<lambda>j p. toPreviewItem j = Inr p) sel (pv_items b)" "pv_merchantId b = pin_merchantId i"
    "0 \<le> (\<Sum>j\<leftarrow>sel. mi_amount j)" "pv_totalAmountAtomic b = show_int (\<Sum>j\<leftarrow>sel. mi_amount j)" "pv_itemCount b = length sel"
    and f: "case funding of None \<Rightarrow> pv_fundingStatus b = Unknown \<and> pv_fundingDeficitAtomic b = None
      | Some m \<Rightarrow> let d = max 0 ((\<Sum>i\<leftarrow>sel. mi_amount i) - map_total (pv_asset b) m)
          in pv_fundingDeficitAtomic b = Some (show_int d) \<and>
             pv_fundingStatus b = (if d = 0 then Covered else Deficit)"
    by blast
  note sums = amount_of_items [OF sel(4)] and len = list_all2_lengthD [OF sel(4)]
  have total: "amount_of (pv_totalAmountAtomic b) = (\<Sum>j\<leftarrow>sel. mi_amount j)" using sel(6,7) by simp
  have "map mi_destinationWallet (map_values m) = map fst m"
    unfolding map_values_def map_map
  proof (rule map_cong [OF refl])
    fix e assume "e \<in> set m"
    then show "(mi_destinationWallet \<circ> snd) e = fst e"
      using rep map_get_entry [OF ok, of e] by (simp add: item_rep_def)
  qed
  then have "distinct (map mi_destinationWallet (map_values m))" using ok by (simp add: map_ok_def)
  from distinct_subset_mset [OF sel(1) this]
  show "distinct (map pi_destinationWallet (pv_items b))" using sums by simp
  show "pv_merchantId b = pin_merchantId i" "pv_items b \<noteq> []" "pv_itemCount b = length (pv_items b)"
    "opt_all (\<lambda>n. int (length (pv_items b)) \<le> n) (pin_maxRecipients i)"
    using sel len by auto
  show "amount_of (pv_totalAmountAtomic b) = (\<Sum>it\<leftarrow>pv_items b. amount_of (pi_amountAtomic it))"
    using total sums by simp
  show "case pin_fundingBalances i of None \<Rightarrow> pv_fundingStatus b = Unknown \<and> pv_fundingDeficitAtomic b = None
       | Some bs \<Rightarrow> let d = max 0 (amount_of (pv_totalAmountAtomic b) - funding_total (pv_asset b) bs)
           in pv_fundingDeficitAtomic b = Some (show_int d) \<and>
              pv_fundingStatus b = (if d = 0 then Covered else Deficit)"
    using buildFundingBalanceMap_total [OF fund] f total by (auto simp: Let_def split: option.splits)
qed

text \<open>C8. The batches of a preview: one per asset, its total the sum of its items, one item per
  wallet, no more items than the recipient limit, the counters exact, and the funding status
  compares the total with the funds given for the asset, the deficit never negative.\<close>

theorem preview_batches_sound:
  assumes "createPayoutPreview h clock i = Inr p"
  shows "distinct (map pv_asset (pr_batches p)) \<and>
    (\<forall>b \<in> set (pr_batches p). pv_merchantId b = pin_merchantId i \<and> pv_items b \<noteq> [] \<and>
      amount_of (pv_totalAmountAtomic b) = (\<Sum>it\<leftarrow>pv_items b. amount_of (pi_amountAtomic it)) \<and>
      pv_itemCount b = length (pv_items b) \<and> distinct (map pi_destinationWallet (pv_items b)) \<and>
      opt_all (\<lambda>n. int (length (pv_items b)) \<le> n) (pin_maxRecipients i) \<and>
      (case pin_fundingBalances i of None \<Rightarrow> pv_fundingStatus b = Unknown \<and> pv_fundingDeficitAtomic b = None
       | Some bs \<Rightarrow> let d = max 0 (amount_of (pv_totalAmountAtomic b) - funding_total (pv_asset b) bs)
           in pv_fundingDeficitAtomic b = Some (show_int d) \<and>
              pv_fundingStatus b = (if d = 0 then Covered else Deficit)))"
  by (rule preview_batches [OF assms])

theorem preview_batches_sound_witness:
  "distinct (map pv_asset (pr_batches toy_preview)) \<and> length (pr_batches toy_preview) = 1"
  using preview_batches_sound [OF toy_preview_run] by (simp add: toy_preview_def)

text \<open>The filter for eligible accruals returns a selection of what it was given.\<close>

lemma filterPayoutEligible_subset:
  assumes "filterPayoutEligibleAccruals h as i = Inr xs"
  shows "set xs \<subseteq> set as \<and> (\<forall>a \<in> set xs. ac_merchantId a = ei_merchantId i \<and> ac_status a = Available \<and>
    (ei_asset i = None \<or> Some (ac_asset a) = ei_asset i))"
proof -
  from assms obtain nowMs kept sorted where
    k: "filter_err (eligible_verdict h i nowMs) as = Inr kept" "sort_err (compareAccrualsForPayout h) kept = Inr sorted"
    and "xs = (case ei_limit i of None \<Rightarrow> sorted | Some n \<Rightarrow> take (nat n) sorted)"
    by (auto simp: filterPayoutEligibleAccruals_def and_then_Inr readOptionalPositiveInteger_Inr)
  then have "set xs \<subseteq> set kept"
    using sort_err_set [OF k(2)] by (auto split: option.splits dest: in_set_takeD)
  moreover have "\<forall>a \<in> set kept. a \<in> set as \<and> eligible_verdict h i nowMs a = Inr True"
    using filter_err_Inr [OF k(1)] by auto
  ultimately show ?thesis by (fastforce simp: eligible_verdict_def split: if_splits)
qed

end
