(* ===== verification/Signing.thy ===== *)
theory Signing
  imports Protocol
begin

text \<open>
  \<^verbatim>\<open>packages/protocol/src/signing.ts\<close> and \<^verbatim>\<open>verification.ts\<close>: the bytes that are signed, detached
  Ed25519 signatures, and the offline verification of offers, claims, attributions and receipts.
  The Ed25519 primitive of \<open>node:crypto\<close> is a record of functions the definitions take as an
  argument: keys are their DER encodings, and \<open>ed_verify\<close> is \<open>None\<close> where the host call throws.
\<close>

record ed25519 =
  ed_sign :: "bytes \<Rightarrow> bytes \<Rightarrow> bytes"
  ed_spki :: "bytes \<Rightarrow> bytes"
  ed_verify :: "bytes \<Rightarrow> bytes \<Rightarrow> bytes \<Rightarrow> bool option"

definition ED25519_PKCS8_PREFIX :: bytes where
  "ED25519_PKCS8_PREFIX =
     [0x30, 0x2e, 0x02, 0x01, 0x00, 0x30, 0x05, 0x06, 0x03, 0x2b, 0x65, 0x70, 0x04, 0x22, 0x04, 0x20]"

definition ED25519_SPKI_PREFIX :: bytes where
  "ED25519_SPKI_PREFIX = [0x30, 0x2a, 0x30, 0x05, 0x06, 0x03, 0x2b, 0x65, 0x70, 0x03, 0x21, 0x00]"

record detached_signature =
  ds_publicKey :: string
  ds_signature :: string

section \<open>Signing\<close>

definition createEd25519PrivateKey :: "bytes \<Rightarrow> string + bytes" where
  "createEd25519PrivateKey k =
     (let seed = (if length k = 64 then take 32 k else k)
      in and_then (assertByteLength seed 32 ''Ed25519 private seed'')
           (\<lambda>_. Inr (ED25519_PKCS8_PREFIX @ seed)))"

text \<open>\<open>subarray(-32)\<close> keeps the last 32 bytes.\<close>

definition exportRawEd25519PublicKey :: "bytes \<Rightarrow> string + bytes" where
  "exportRawEd25519PublicKey spki =
     (let rawKey = drop (length spki - 32) spki
      in and_then (assertByteLength rawKey 32 ''Ed25519 public key'') (\<lambda>_. Inr rawKey))"

definition signEd25519Message :: "ed25519 \<Rightarrow> bytes \<Rightarrow> bytes \<Rightarrow> string + detached_signature" where
  "signEd25519Message ed message k =
     and_then (createEd25519PrivateKey k) (\<lambda>privateKey.
     and_then (exportRawEd25519PublicKey (ed_spki ed privateKey)) (\<lambda>publicKey.
     Inr \<lparr>ds_publicKey = base58Encode publicKey,
          ds_signature = base64UrlEncode (ed_sign ed privateKey message)\<rparr>))"

definition deriveEd25519PublicKey :: "ed25519 \<Rightarrow> bytes \<Rightarrow> string + string" where
  "deriveEd25519PublicKey ed k =
     and_then (createEd25519PrivateKey k) (\<lambda>privateKey.
     and_then (exportRawEd25519PublicKey (ed_spki ed privateKey)) (\<lambda>publicKey.
     Inr (base58Encode publicKey)))"

definition verifyEd25519Signature :: "ed25519 \<Rightarrow> bytes \<Rightarrow> string \<Rightarrow> string \<Rightarrow> string + bool" where
  "verifyEd25519Signature ed message publicKeyBase58 signatureBase64Url =
     and_then (base58Decode publicKeyBase58) (\<lambda>publicKeyBytes.
     and_then (base64UrlDecode signatureBase64Url) (\<lambda>signatureBytes.
     and_then (assertByteLength publicKeyBytes 32 ''Ed25519 public key'') (\<lambda>_.
     and_then (assertByteLength signatureBytes 64 ''Ed25519 signature'') (\<lambda>_.
     case ed_verify ed message (ED25519_SPKI_PREFIX @ publicKeyBytes) signatureBytes of
       None \<Rightarrow> Inl ''host error'' | Some b \<Rightarrow> Inr b))))"

definition safeVerify :: "ed25519 \<Rightarrow> bytes \<Rightarrow> string \<Rightarrow> string \<Rightarrow> bool" where
  "safeVerify ed message publicKey signature =
     (case verifyEd25519Signature ed message publicKey signature of Inl _ \<Rightarrow> False | Inr b \<Rightarrow> b)"

lemma safeVerify_iff:
  "safeVerify ed m pk sig \<longleftrightarrow> (\<exists>kb sb. base58Decode pk = Inr kb \<and> base64UrlDecode sig = Inr sb \<and>
     length kb = 32 \<and> length sb = 64 \<and> ed_verify ed m (ED25519_SPKI_PREFIX @ kb) sb = Some True)"
proof
  assume "safeVerify ed m pk sig"
  then show "\<exists>kb sb. base58Decode pk = Inr kb \<and> base64UrlDecode sig = Inr sb \<and>
     length kb = 32 \<and> length sb = 64 \<and> ed_verify ed m (ED25519_SPKI_PREFIX @ kb) sb = Some True"
    by (auto simp: safeVerify_def verifyEd25519Signature_def assertByteLength_def err_simps
        split: sum.splits option.splits)
qed (auto simp: safeVerify_def verifyEd25519Signature_def assertByteLength_def)

text \<open>A signature made with \<open>signEd25519Message\<close> verifies: when the primitive signs correctly (the
  public key is the 32 byte SPKI form, a signature has 64 bytes and is accepted), the encoded public
  key and signature that the function returns are accepted for the same message, unless the raw
  public key is all zero.\<close>

theorem signed_message_verifies:
  assumes "\<And>k. \<exists>raw. length raw = 32 \<and> (\<exists>b \<in> set raw. b \<noteq> 0) \<and> ed_spki ed k = ED25519_SPKI_PREFIX @ raw"
    and "\<And>k m. length (ed_sign ed k m) = 64"
    and "\<And>k m. ed_verify ed m (ed_spki ed k) (ed_sign ed k m) = Some True"
    and "signEd25519Message ed m seed = Inr d"
  shows "verifyEd25519Signature ed m (ds_publicKey d) (ds_signature d) = Inr True \<and>
    deriveEd25519PublicKey ed seed = Inr (ds_publicKey d)"
proof -
  from assms(4) obtain k raw where k: "createEd25519PrivateKey seed = Inr k"
    and raw: "exportRawEd25519PublicKey (ed_spki ed k) = Inr raw"
    and d: "d = \<lparr>ds_publicKey = base58Encode raw, ds_signature = base64UrlEncode (ed_sign ed k m)\<rparr>"
    by (auto simp: signEd25519Message_def err_simps)
  obtain r where r: "length r = 32" "\<exists>b \<in> set r. b \<noteq> 0" "ed_spki ed k = ED25519_SPKI_PREFIX @ r"
    using assms(1) by blast
  then have raw_r: "raw = r" using raw
    by (auto simp: exportRawEd25519PublicKey_def err_simps Let_def)
  have "base58Decode (base58Encode raw) = Inr raw" unfolding raw_r by (rule base58_decode_encode [OF r(2)])
  moreover have "ed_verify ed m (ED25519_SPKI_PREFIX @ raw) (ed_sign ed k m) = Some True"
    using assms(3) [of m k] r(3) raw_r by simp
  ultimately show ?thesis
    using assms(2) r(1) k raw
    by (simp add: d verifyEd25519Signature_def base64url_decode_encode assertByteLength_def raw_r
        deriveEd25519PublicKey_def)
qed

definition toy_ed :: ed25519 where
  "toy_ed = \<lparr>ed_sign = (\<lambda>k m. replicate 64 (byte (length m mod 256))),
     ed_spki = (\<lambda>k. ED25519_SPKI_PREFIX @ replicate 32 7),
     ed_verify = (\<lambda>m k s. Some (s = replicate 64 (byte (length m mod 256))))\<rparr>"

theorem signed_message_verifies_witness:
  "signEd25519Message toy_ed [1, 2] (replicate 64 9) =
     Inr \<lparr>ds_publicKey = base58Encode (replicate 32 7), ds_signature = base64UrlEncode (replicate 64 2)\<rparr> \<and>
   verifyEd25519Signature toy_ed [1, 2] (base58Encode (replicate 32 7))
     (base64UrlEncode (replicate 64 2)) = Inr True"
proof -
  have s: "signEd25519Message toy_ed [1, 2] (replicate 64 9) =
     Inr \<lparr>ds_publicKey = base58Encode (replicate 32 7), ds_signature = base64UrlEncode (replicate 64 2)\<rparr>"
    by (simp add: signEd25519Message_def toy_ed_def createEd25519PrivateKey_def assertByteLength_def
        exportRawEd25519PublicKey_def byte_def)
  have "verifyEd25519Signature toy_ed [1, 2] (ds_publicKey d) (ds_signature d) = Inr True \<and>
      deriveEd25519PublicKey toy_ed (replicate 64 9) = Inr (ds_publicKey d)"
    if "signEd25519Message toy_ed [1, 2] (replicate 64 9) = Inr d" for d
    by (rule signed_message_verifies [OF _ _ _ that]) (auto simp: toy_ed_def)
  from this [OF s] s show ?thesis by simp
qed

section \<open>The signed messages\<close>

definition buildReferralClaimSigningBytes :: "referral_claim \<Rightarrow> string + bytes" where
  "buildReferralClaimSigningBytes c = buildDomainSeparatedSigningBytes ''split402:referral-claim:v1''
     (JObj (omitKeys [''signature''] (claim_members c)))"

definition buildOfferSigningBytes :: "offer \<Rightarrow> string + bytes" where
  "buildOfferSigningBytes f = buildDomainSeparatedSigningBytes ''split402:offer:v1''
     (JObj (omitKeys [''signature''] (offer_members f)))"

definition buildReceiptSigningBytes :: "receipt \<Rightarrow> string + bytes" where
  "buildReceiptSigningBytes r = buildDomainSeparatedSigningBytes ''split402:receipt:v1''
     (JObj (omitKeys [''signature''] (receipt_members r)))"

definition buildBuyerProofSigningBytes :: "attribution \<Rightarrow> string + bytes" where
  "buildBuyerProofSigningBytes a = buildDomainSeparatedSigningBytes ''split402:buyer-proof:v1''
     (JObj [(''paymentId'', JStr (at_paymentId a)), (''requestDigest'', JStr (at_requestDigest a)),
        (''offerNonce'', JStr (of_offerNonce (at_offer a))),
        (''routeId'', (case at_referralClaim a of None \<Rightarrow> JNull | Some c \<Rightarrow> JStr (cl_routeId c)))])"

text \<open>Objects whose members are strings, integers, flags, null or absent always serialise.\<close>

fun flat :: "json \<Rightarrow> bool" where
  "flat (JStr s) \<longleftrightarrow> True"
| "flat JNull \<longleftrightarrow> True"
| "flat (JBool b) \<longleftrightarrow> True"
| "flat (JNum n) \<longleftrightarrow> n \<noteq> NonFinite"
| "flat JUndefined \<longleftrightarrow> True"
| "flat _ \<longleftrightarrow> False"

lemma flat_simps [simp]: "flat (jopt v)" "flat (json_int i)"
  by (simp_all add: jopt_def json_int_def split: option.splits)

lemma serializeNumber_total: "n \<noteq> NonFinite \<Longrightarrow> \<exists>s. serializeNumber n = Inr s"
  by (cases n) auto

lemma flat_serialises:
  assumes "\<forall>e \<in> set es. flat (snd e) \<or> (\<exists>s. serializeJson (snd e) = Inr s)"
  shows "\<exists>s. serializeJson (JObj es) = Inr s"
proof -
  have val: "\<exists>s. serializeJson v = Inr s" if "flat v" "v \<noteq> JUndefined" for v
    using that serializeNumber_total by (cases v rule: flat.cases) auto
  have "\<exists>ss. map_err (\<lambda>(k, v). and_then (serializeJson v) (\<lambda>s. Inr (json_string k @ '':'' @ s))) xs = Inr ss"
    if "\<forall>e \<in> set xs. \<exists>s. serializeJson (snd e) = Inr s" for xs
    using that by (induction xs) auto
  moreover have "\<forall>e \<in> set (sorted_members es). \<exists>s. serializeJson (snd e) = Inr s"
    using assms val by (fastforce simp: set_sorted_members)
  ultimately show ?thesis by fastforce
qed

lemma receipt_bytes_total: "\<exists>m. buildReceiptSigningBytes r = Inr m"
proof -
  have "\<exists>s. serializeJson (JObj (omitKeys [''signature''] (receipt_members r))) = Inr s"
    by (rule flat_serialises) (simp add: omitKeys_def receipt_members_def)
  then show ?thesis
    by (auto simp: buildReceiptSigningBytes_def buildDomainSeparatedSigningBytes_def canonicalizeProtocolObject_def)
qed

lemma offer_bytes_total: "\<exists>m. buildOfferSigningBytes f = Inr m"
proof -
  have "\<exists>s. serializeJson (JObj (omitKeys [''signature''] (offer_members f))) = Inr s"
    by (rule flat_serialises) (simp add: omitKeys_def offer_members_def)
  then show ?thesis
    by (auto simp: buildOfferSigningBytes_def buildDomainSeparatedSigningBytes_def canonicalizeProtocolObject_def)
qed

lemma strings_serialise: "\<exists>s. serializeJson (JArr (map JStr ss)) = Inr s"
proof -
  have "\<exists>ts. map_err serializeJson (map JStr ss) = Inr ts" by (induction ss) auto
  then show ?thesis by auto
qed

lemma claim_bytes_total: "\<exists>m. buildReferralClaimSigningBytes c = Inr m"
proof -
  have "\<exists>s. serializeJson (JObj (omitKeys [''signature''] (claim_members c))) = Inr s"
    by (rule flat_serialises) (simp add: omitKeys_def claim_members_def strings_serialise del: serializeJson.simps)
  then show ?thesis
    by (auto simp: buildReferralClaimSigningBytes_def buildDomainSeparatedSigningBytes_def canonicalizeProtocolObject_def)
qed

lemma proof_bytes_total: "\<exists>m. buildBuyerProofSigningBytes a = Inr m"
proof -
  have "\<exists>s. serializeJson (JObj [(''paymentId'', JStr (at_paymentId a)), (''requestDigest'', JStr (at_requestDigest a)),
        (''offerNonce'', JStr (of_offerNonce (at_offer a))),
        (''routeId'', (case at_referralClaim a of None \<Rightarrow> JNull | Some c \<Rightarrow> JStr (cl_routeId c)))]) = Inr s"
    by (rule flat_serialises) (simp split: option.splits)
  then show ?thesis
    by (auto simp: buildBuyerProofSigningBytes_def buildDomainSeparatedSigningBytes_def canonicalizeProtocolObject_def)
qed

lemmas bytes_total = receipt_bytes_total offer_bytes_total claim_bytes_total proof_bytes_total

text \<open>The signing bytes determine the artifact up to its signature.\<close>

lemma fst_omitKeys: "map fst (omitKeys ks es) = filter (\<lambda>k. k \<notin> set ks) (map fst es)"
  by (simp add: omitKeys_def filter_map o_def)

lemma receipt_bytes_inj:
  assumes "buildReceiptSigningBytes r = Inr m" "buildReceiptSigningBytes r' = Inr m"
  shows "r = r'\<lparr>rc_signature := rc_signature r\<rparr>"
proof -
  let ?es = "\<lambda>r. omitKeys [''signature''] (receipt_members r)"
  have wf: "wf_json (JObj (?es r))" for r
    by (simp add: omitKeys_def receipt_members_def)
  have keys: "map fst (?es r) = map fst (?es r')" "distinct (map fst (?es r))"
    by (simp_all add: omitKeys_def receipt_members_def)
  have norm: "norm_json (JObj (?es r)) = norm_json (JObj (?es r'))"
    by (rule domain_bytes_decode [OF assms [unfolded buildReceiptSigningBytes_def] _ _ wf wf, THEN conjunct2]) simp_all
  from norm_obj_values [OF keys norm] show ?thesis
    by (cases r, cases r') (simp add: omitKeys_def receipt_members_def jopt_inj json_int_inj)
qed

lemma offer_bytes_inj:
  assumes "buildOfferSigningBytes f = Inr m" "buildOfferSigningBytes f' = Inr m"
  shows "f = f'\<lparr>of_signature := of_signature f\<rparr>"
proof -
  let ?es = "\<lambda>f. omitKeys [''signature''] (offer_members f)"
  have wf: "wf_json (JObj (?es f))" for f
    by (simp add: omitKeys_def offer_members_def)
  have keys: "map fst (?es f) = map fst (?es f')" "distinct (map fst (?es f))"
    by (simp_all add: omitKeys_def offer_members_def)
  have norm: "norm_json (JObj (?es f)) = norm_json (JObj (?es f'))"
    by (rule domain_bytes_decode [OF assms [unfolded buildOfferSigningBytes_def] _ _ wf wf, THEN conjunct2]) simp_all
  from norm_obj_values [OF keys norm] show ?thesis
    by (cases f, cases f') (simp add: omitKeys_def offer_members_def json_int_inj)
qed

lemma receipt_offer_bytes_differ:
  assumes "buildReceiptSigningBytes r = Inr m"
  shows "buildOfferSigningBytes f \<noteq> Inr m"
proof
  assume "buildOfferSigningBytes f = Inr m"
  from domain_bytes_decode [OF assms [unfolded buildReceiptSigningBytes_def] this [unfolded buildOfferSigningBytes_def]]
  show False by (simp add: omitKeys_def receipt_members_def offer_members_def del: norm_json.simps)
qed

section \<open>Verification\<close>

record verification_result =
  vr_ok :: bool
  vr_errors :: "string list"

text \<open>Every verification function ends with \<open>{ ok: errors.length === 0, errors }\<close>.\<close>

definition result_of :: "string list \<Rightarrow> verification_result" where
  "result_of errors = \<lparr>vr_ok = (length errors = 0), vr_errors = errors\<rparr>"

definition error_if :: "bool \<Rightarrow> string \<Rightarrow> string list" where
  "error_if b e = (if b then [e] else [])"

definition verifyReferralClaimSignature :: "ed25519 \<Rightarrow> referral_claim \<Rightarrow> string + verification_result" where
  "verifyReferralClaimSignature ed c =
     and_then (buildReferralClaimSigningBytes c) (\<lambda>m. Inr (result_of (
       error_if (sg_publicKey (cl_signature c) \<noteq> cl_referrerWallet c)
         ''signature.publicKey must equal referrerWallet'' @
       error_if (\<not> safeVerify ed m (sg_publicKey (cl_signature c)) (sg_value (cl_signature c)))
         ''invalid referral claim signature'')))"

definition verifySplit402OfferSignature :: "ed25519 \<Rightarrow> offer \<Rightarrow> string \<Rightarrow> string + verification_result" where
  "verifySplit402OfferSignature ed f merchantPublicKey =
     and_then (buildOfferSigningBytes f) (\<lambda>m. Inr (result_of (
       error_if (\<not> safeVerify ed m merchantPublicKey (of_signature f)) ''invalid offer signature'')))"

definition verifySplit402ReceiptSignature :: "ed25519 \<Rightarrow> receipt \<Rightarrow> string \<Rightarrow> string + verification_result" where
  "verifySplit402ReceiptSignature ed r merchantPublicKey =
     and_then (buildReceiptSigningBytes r) (\<lambda>m. Inr (result_of (
       error_if (\<not> safeVerify ed m merchantPublicKey (rc_signature r)) ''invalid receipt signature'')))"

definition verifyBuyerProof :: "ed25519 \<Rightarrow> attribution \<Rightarrow> string + verification_result" where
  "verifyBuyerProof ed a =
     (case at_buyerProof a of None \<Rightarrow> Inr (result_of [])
      | Some b \<Rightarrow> and_then (buildBuyerProofSigningBytes a) (\<lambda>m. Inr (result_of (
          error_if (\<not> safeVerify ed m (bp_publicKey b) (bp_signature b)) ''invalid buyer proof''))))"

definition verifySplit402AttributionObject ::
  "ed25519 \<Rightarrow> attribution \<Rightarrow> string \<Rightarrow> string + verification_result" where
  "verifySplit402AttributionObject ed a merchantPublicKey =
     and_then (verifySplit402OfferSignature ed (at_offer a) merchantPublicKey) (\<lambda>o1.
     and_then (case at_referralClaim a of None \<Rightarrow> Inr [] | Some c \<Rightarrow>
       and_then (verifyReferralClaimSignature ed c) (\<lambda>r. Inr (vr_errors r))) (\<lambda>e2.
     and_then (verifyBuyerProof ed a) (\<lambda>o3.
     Inr (result_of (vr_errors o1 @ e2 @ vr_errors o3)))))"

definition verifyReceiptArithmetic :: "receipt \<Rightarrow> string + verification_result" where
  "verifyReceiptArithmetic r =
     and_then (parseAtomicAmount (rc_requiredAmountAtomic r)) (\<lambda>requiredAmount.
     and_then (parseAtomicAmount (rc_commissionBaseAtomic r)) (\<lambda>commissionBase.
     and_then (parseAtomicAmount (rc_commissionAmountAtomic r)) (\<lambda>commissionAmount.
     and_then (parseAtomicAmount (rc_protocolFeeAtomic r)) (\<lambda>fee.
     and_then (parseAtomicAmount (rc_referrerCreditAtomic r)) (\<lambda>credit.
     and_then (calculateCommission requiredAmount (rc_commissionBps r) (rc_protocolFeeBpsOfCommission r))
       (\<lambda>expected. Inr (result_of (
         error_if (commissionBase \<noteq> requiredAmount)
           ''commissionBaseAtomic must equal requiredAmountAtomic in v0.1'' @
         error_if (commissionAmount \<noteq> commission expected)
           ''commissionAmountAtomic does not match commissionBps'' @
         error_if (fee \<noteq> protocolFee expected)
           ''protocolFeeAtomic does not match protocol fee policy'' @
         error_if (credit \<noteq> referrerCredit expected)
           ''referrerCreditAtomic does not match commission minus protocol fee''))))))))"

definition verifySplit402ReceiptObject :: "ed25519 \<Rightarrow> receipt \<Rightarrow> string \<Rightarrow> string + verification_result" where
  "verifySplit402ReceiptObject ed r merchantPublicKey =
     and_then (verifySplit402ReceiptSignature ed r merchantPublicKey) (\<lambda>s.
     and_then (verifyReceiptArithmetic r) (\<lambda>a. Inr (result_of (vr_errors s @ vr_errors a))))"

text \<open>What each result says.\<close>

lemma result_of_simps [simp]:
  "vr_ok (result_of es) \<longleftrightarrow> es = []" "vr_errors (result_of es) = es"
  by (simp_all add: result_of_def)

lemma error_if_Nil [simp]: "error_if b e = [] \<longleftrightarrow> \<not> b"
  by (simp add: error_if_def)

definition receipt_signed_by :: "ed25519 \<Rightarrow> string \<Rightarrow> receipt \<Rightarrow> bool" where
  "receipt_signed_by ed pk r \<longleftrightarrow>
     (case buildReceiptSigningBytes r of Inl _ \<Rightarrow> False | Inr m \<Rightarrow> safeVerify ed m pk (rc_signature r))"

definition offer_signed_by :: "ed25519 \<Rightarrow> string \<Rightarrow> offer \<Rightarrow> bool" where
  "offer_signed_by ed pk f \<longleftrightarrow>
     (case buildOfferSigningBytes f of Inl _ \<Rightarrow> False | Inr m \<Rightarrow> safeVerify ed m pk (of_signature f))"

definition claim_signed_by :: "ed25519 \<Rightarrow> string \<Rightarrow> referral_claim \<Rightarrow> bool" where
  "claim_signed_by ed pk c \<longleftrightarrow>
     (case buildReferralClaimSigningBytes c of Inl _ \<Rightarrow> False
      | Inr m \<Rightarrow> safeVerify ed m pk (sg_value (cl_signature c)))"

definition proof_signed :: "ed25519 \<Rightarrow> attribution \<Rightarrow> buyer_proof \<Rightarrow> bool" where
  "proof_signed ed a b \<longleftrightarrow>
     (case buildBuyerProofSigningBytes a of Inl _ \<Rightarrow> False
      | Inr m \<Rightarrow> safeVerify ed m (bp_publicKey b) (bp_signature b))"

definition receipt_sums_ok :: "receipt \<Rightarrow> bool" where
  "receipt_sums_ok r \<longleftrightarrow>
     (let req = amount_of (rc_requiredAmountAtomic r);
          com = (req * rc_commissionBps r) div 10000;
          fee = (com * rc_protocolFeeBpsOfCommission r) div 10000
      in amount_of (rc_commissionBaseAtomic r) = req \<and> amount_of (rc_commissionAmountAtomic r) = com \<and>
         amount_of (rc_protocolFeeAtomic r) = fee \<and> amount_of (rc_referrerCreditAtomic r) = com - fee)"

definition receipt_well_typed :: "receipt \<Rightarrow> bool" where
  "receipt_well_typed r \<longleftrightarrow> atomic_regex (rc_requiredAmountAtomic r) \<and>
     atomic_regex (rc_commissionBaseAtomic r) \<and> atomic_regex (rc_commissionAmountAtomic r) \<and>
     atomic_regex (rc_protocolFeeAtomic r) \<and> atomic_regex (rc_referrerCreditAtomic r) \<and>
     bps_range (rc_commissionBps r) \<and> bps_range (rc_protocolFeeBpsOfCommission r)"

lemma receipt_schema_well_typed: "receipt_schema z r \<Longrightarrow> receipt_well_typed r"
  using receipt_schema_amounts by (simp add: receipt_well_typed_def)

lemma receipt_signature_result:
  "\<exists>v. verifySplit402ReceiptSignature ed r pk = Inr v \<and> (vr_errors v = [] \<longleftrightarrow> receipt_signed_by ed pk r)"
  using receipt_bytes_total [of r] by (auto simp: verifySplit402ReceiptSignature_def receipt_signed_by_def)

lemma offer_signature_result:
  "\<exists>v. verifySplit402OfferSignature ed f pk = Inr v \<and> (vr_errors v = [] \<longleftrightarrow> offer_signed_by ed pk f)"
  using offer_bytes_total [of f] by (auto simp: verifySplit402OfferSignature_def offer_signed_by_def)

lemma claim_signature_result:
  "\<exists>v. verifyReferralClaimSignature ed c = Inr v \<and> (vr_errors v = [] \<longleftrightarrow>
     sg_publicKey (cl_signature c) = cl_referrerWallet c \<and> claim_signed_by ed (cl_referrerWallet c) c)"
  using claim_bytes_total [of c] by (auto simp: verifyReferralClaimSignature_def claim_signed_by_def)

lemma buyer_proof_result:
  "\<exists>v. verifyBuyerProof ed a = Inr v \<and> (vr_errors v = [] \<longleftrightarrow> opt_all (proof_signed ed a) (at_buyerProof a))"
  using proof_bytes_total [of a]
  by (auto simp: verifyBuyerProof_def proof_signed_def opt_all_def split: option.splits)

lemma arithmetic_result:
  assumes "receipt_well_typed r"
  shows "\<exists>v. verifyReceiptArithmetic r = Inr v \<and> (vr_errors v = [] \<longleftrightarrow> receipt_sums_ok r)"
proof -
  let ?req = "amount_of (rc_requiredAmountAtomic r)"
  obtain c where c: "calculateCommission ?req (rc_commissionBps r) (rc_protocolFeeBpsOfCommission r) = Inr c"
    using calculateCommission_total assms by (fastforce simp: receipt_well_typed_def bps_range_def)
  have parse: "parseAtomicAmount v = Inr (amount_of v)" if "atomic_regex v" for v
    using that by (simp add: parseAtomicAmount_Inr)
  show ?thesis
    using assms c c [unfolded calculateCommission_Inr]
    by (auto simp: verifyReceiptArithmetic_def receipt_well_typed_def parse receipt_sums_ok_def Let_def)
qed

lemma arithmetic_accepts:
  assumes "verifyReceiptArithmetic r = Inr v" "vr_errors v = []"
  shows "receipt_sums_ok r"
  using assms
  by (auto simp: verifyReceiptArithmetic_def err_simps parseAtomicAmount_Inr calculateCommission_Inr
      receipt_sums_ok_def)

lemma verifyReceiptObject_ok:
  assumes "verifySplit402ReceiptObject ed r pk = Inr v" "vr_ok v"
  shows "receipt_signed_by ed pk r \<and> receipt_sums_ok r"
proof -
  obtain s a where s: "verifySplit402ReceiptSignature ed r pk = Inr s"
    and a: "verifyReceiptArithmetic r = Inr a" and "vr_errors s = []" "vr_errors a = []"
    using assms by (auto simp: verifySplit402ReceiptObject_def err_simps)
  then show ?thesis using receipt_signature_result [of ed r pk] arithmetic_accepts by auto
qed

text \<open>C9. Receipt verification is exact: on a receipt the schema accepts, the verifier never throws,
  and it answers \<open>ok\<close> exactly when the signature is the merchant's on the receipt's signing bytes and
  every amount field is the one the commission formula gives for the required amount.\<close>

theorem receipt_verification_exact:
  assumes "receipt_schema z r"
  shows "\<exists>v. verifySplit402ReceiptObject ed r pk = Inr v \<and>
    (vr_ok v \<longleftrightarrow> receipt_signed_by ed pk r \<and> receipt_sums_ok r)"
proof -
  obtain s where s: "verifySplit402ReceiptSignature ed r pk = Inr s"
    "vr_errors s = [] \<longleftrightarrow> receipt_signed_by ed pk r" using receipt_signature_result by blast
  obtain a where a: "verifyReceiptArithmetic r = Inr a" "vr_errors a = [] \<longleftrightarrow> receipt_sums_ok r"
    using arithmetic_result [OF receipt_schema_well_typed [OF assms]] by blast
  show ?thesis using s a by (simp add: verifySplit402ReceiptObject_def)
qed

definition sample_receipt :: receipt where
  "sample_receipt = \<lparr>
     rc_protocolVersion = ''0.1'', rc_receiptId = ''rcp_'' @ replicate 32 (CHR ''1''),
     rc_merchantId = ''mer_'' @ replicate 32 (CHR ''2''), rc_merchantOrigin = ''https://m.example'',
     rc_operationId = ''op'', rc_requestDigest = ''sha256:'' @ replicate 64 (CHR ''a''),
     rc_campaignId = ''cmp_'' @ replicate 32 (CHR ''3''), rc_campaignVersion = 1,
     rc_campaignTermsHash = ''sha256:'' @ replicate 64 (CHR ''b''),
     rc_routeId = Some (''rte_'' @ replicate 32 (CHR ''4'')),
     rc_referralClaimHash = Some (''sha256:'' @ replicate 64 (CHR ''c'')),
     rc_referrerWallet = Some (replicate 32 (CHR ''A'')), rc_payoutWallet = Some (replicate 32 (CHR ''B'')),
     rc_paymentId = ''pay_'' @ replicate 32 (CHR ''5''), rc_network = ''solana'',
     rc_asset = replicate 32 (CHR ''C''), rc_payerWallet = replicate 32 (CHR ''D''),
     rc_payToWallet = replicate 32 (CHR ''E''), rc_requiredAmountAtomic = ''1000'',
     rc_settledAmountAtomic = None, rc_settlementTxSignature = ''sig'', rc_commissionBps = 1000,
     rc_protocolFeeBpsOfCommission = 500, rc_commissionBaseAtomic = ''1000'',
     rc_commissionAmountAtomic = ''100'', rc_protocolFeeAtomic = ''5'', rc_referrerCreditAtomic = ''95'',
     rc_settlementMode = ''accrual'', rc_offerNonce = ''ofr_'' @ replicate 32 (CHR ''6''),
     rc_settledAt = ''2026-01-01T00:00:00.000Z'', rc_issuedAt = ''2026-01-01T00:00:01.000Z'',
     rc_recordingStatus = ''accepted'', rc_eventId = None, rc_kid = ''k1'',
     rc_signature = base64UrlEncode (replicate 64 7)\<rparr>"

definition any_zod :: zod where
  "any_zod = \<lparr>z_url = (\<lambda>_. True), z_datetime = (\<lambda>_. True)\<rparr>"

lemma sample_receipt_schema: "receipt_schema any_zod sample_receipt"
  by code_simp

lemma sample_receipt_sums: "receipt_sums_ok sample_receipt"
  by code_simp

theorem receipt_verification_exact_witness:
  "\<exists>v. verifySplit402ReceiptObject toy_ed sample_receipt ''x'' = Inr v \<and>
    (vr_ok v \<longleftrightarrow> receipt_signed_by toy_ed ''x'' sample_receipt \<and> receipt_sums_ok sample_receipt)"
  by (rule receipt_verification_exact [OF sample_receipt_schema])

text \<open>C2. No forged receipts: if the primitive accepts, under the merchant's key, only messages the
  merchant signed, and the merchant signs with that key nothing but the receipts in \<open>R\<close> and the offers
  in \<open>F\<close>, then every receipt the verifier accepts agrees in all its fields with a receipt in \<open>R\<close>
  (the signature field apart), and it credits a referrer no more than the commission on the
  amount paid. An offer signature is never accepted as a receipt signature.\<close>

theorem accepted_receipt_was_issued:
  assumes "base58Decode pk = Inr key"
    and "\<And>m s. ed_verify ed m (ED25519_SPKI_PREFIX @ key) s = Some True \<Longrightarrow> m \<in> messages"
    and "\<And>m. m \<in> messages \<Longrightarrow> (\<exists>r' \<in> R. buildReceiptSigningBytes r' = Inr m) \<or>
      (\<exists>f \<in> F. buildOfferSigningBytes f = Inr m)"
    and "verifySplit402ReceiptObject ed r pk = Inr v" and "vr_ok v"
  shows "(\<exists>r' \<in> R. r = r'\<lparr>rc_signature := rc_signature r\<rparr>) \<and>
    amount_of (rc_referrerCreditAtomic r) + amount_of (rc_protocolFeeAtomic r) =
      (amount_of (rc_requiredAmountAtomic r) * rc_commissionBps r) div 10000"
proof -
  note ok = verifyReceiptObject_ok [OF assms(4,5)]
  then obtain m where m: "buildReceiptSigningBytes r = Inr m" "safeVerify ed m pk (rc_signature r)"
    by (auto simp: receipt_signed_by_def split: sum.splits)
  then have "m \<in> messages" using assms(1,2) by (auto simp: safeVerify_iff)
  then obtain r' where r': "r' \<in> R" "buildReceiptSigningBytes r' = Inr m"
    using assms(3) receipt_offer_bytes_differ [OF m(1)] by blast
  have "r = r'\<lparr>rc_signature := rc_signature r\<rparr>" by (rule receipt_bytes_inj [OF m(1) r'(2)])
  then show ?thesis using r'(1) ok by (auto simp: receipt_sums_ok_def Let_def)
qed

text \<open>A primitive that accepts the sample receipt's signing bytes and nothing else.\<close>

definition one_receipt_ed :: ed25519 where
  "one_receipt_ed = \<lparr>ed_sign = (\<lambda>k m. replicate 64 7), ed_spki = (\<lambda>k. ED25519_SPKI_PREFIX @ replicate 32 7),
     ed_verify = (\<lambda>m k s. Some (buildReceiptSigningBytes sample_receipt = Inr m))\<rparr>"

theorem accepted_receipt_was_issued_witness:
  "\<exists>v. verifySplit402ReceiptObject one_receipt_ed sample_receipt (base58Encode (replicate 32 7)) = Inr v \<and>
    vr_ok v \<and>
    amount_of (rc_referrerCreditAtomic sample_receipt) + amount_of (rc_protocolFeeAtomic sample_receipt) =
      (amount_of (rc_requiredAmountAtomic sample_receipt) * rc_commissionBps sample_receipt) div 10000"
proof -
  let ?pk = "base58Encode (replicate 32 7)"
  have key: "base58Decode ?pk = Inr (replicate 32 7)"
    by (rule base58_decode_encode) simp
  obtain m where m: "buildReceiptSigningBytes sample_receipt = Inr m" using receipt_bytes_total by blast
  have "rc_signature sample_receipt = base64UrlEncode (replicate 64 7)"
    by (simp add: sample_receipt_def)
  then have sig: "base64UrlDecode (rc_signature sample_receipt) = Inr (replicate 64 7)"
    by (simp only: base64url_decode_encode)
  have "receipt_signed_by one_receipt_ed ?pk sample_receipt"
    by (simp add: receipt_signed_by_def m safeVerify_iff key sig one_receipt_ed_def)
  then obtain s where s: "verifySplit402ReceiptSignature one_receipt_ed sample_receipt ?pk = Inr s" "vr_errors s = []"
    using receipt_signature_result [of one_receipt_ed sample_receipt ?pk] by blast
  obtain a where a: "verifyReceiptArithmetic sample_receipt = Inr a" "vr_errors a = []"
    using arithmetic_result [OF receipt_schema_well_typed [OF sample_receipt_schema]] sample_receipt_sums by blast
  have v: "verifySplit402ReceiptObject one_receipt_ed sample_receipt ?pk = Inr (result_of [])"
    using s a by (simp add: verifySplit402ReceiptObject_def)
  have "(\<exists>r' \<in> {sample_receipt}. sample_receipt = r'\<lparr>rc_signature := rc_signature sample_receipt\<rparr>) \<and>
    amount_of (rc_referrerCreditAtomic sample_receipt) + amount_of (rc_protocolFeeAtomic sample_receipt) =
      (amount_of (rc_requiredAmountAtomic sample_receipt) * rc_commissionBps sample_receipt) div 10000"
    by (rule accepted_receipt_was_issued [OF key, where ed = one_receipt_ed and messages = "{m}" and F = "{}" and v = "result_of []"])
      (use m v in \<open>auto simp: one_receipt_ed_def\<close>)
  then show ?thesis using v by auto
qed

text \<open>C10. Attribution verification is exact: it never throws, and it answers \<open>ok\<close> exactly when the
  offer carries the merchant's signature, the referral claim, if there is one, is signed by its
  own referrer wallet, and the buyer proof, if there is one, is signed for this payment, request,
  offer nonce and route.\<close>

theorem attribution_verification_exact:
  "\<exists>v. verifySplit402AttributionObject ed a pk = Inr v \<and>
    (vr_ok v \<longleftrightarrow> offer_signed_by ed pk (at_offer a) \<and>
      opt_all (\<lambda>c. sg_publicKey (cl_signature c) = cl_referrerWallet c \<and>
        claim_signed_by ed (cl_referrerWallet c) c) (at_referralClaim a) \<and>
      opt_all (proof_signed ed a) (at_buyerProof a))"
proof -
  obtain o1 where o1: "verifySplit402OfferSignature ed (at_offer a) pk = Inr o1"
    "vr_errors o1 = [] \<longleftrightarrow> offer_signed_by ed pk (at_offer a)" using offer_signature_result by blast
  obtain b where b: "verifyBuyerProof ed a = Inr b"
    "vr_errors b = [] \<longleftrightarrow> opt_all (proof_signed ed a) (at_buyerProof a)" using buyer_proof_result by blast
  show ?thesis
  proof (cases "at_referralClaim a")
    case None
    then show ?thesis using o1 b by (simp add: verifySplit402AttributionObject_def)
  next
    case (Some c)
    obtain r where "verifyReferralClaimSignature ed c = Inr r" "vr_errors r = [] \<longleftrightarrow>
        sg_publicKey (cl_signature c) = cl_referrerWallet c \<and> claim_signed_by ed (cl_referrerWallet c) c"
      using claim_signature_result by blast
    then show ?thesis using o1 b Some by (simp add: verifySplit402AttributionObject_def)
  qed
qed

end
