(* ===== verification/Registry_Base.thy ===== *)
theory Registry_Base
  imports Payout_Preview Signing
begin

text \<open>
  What the merchant, campaign and route registries of \<^verbatim>\<open>packages/control-plane/src\<close> share: the two error
  classes each of them declares, the functions of the host they call (dates, \<open>new URL\<close>, the checks of
  Zod, SHA-256, Ed25519), and the validators each module repeats at its end.
\<close>

datatype registry_error = Invalid string | Conflicting string | Thrown string

text \<open>\<open>rg_url v\<close> is the origin and the protocol of \<open>new URL(v)\<close>, \<open>None\<close> when the constructor throws.\<close>

record registry_env =
  rg_host :: host
  rg_zod :: zod
  rg_url :: "string \<Rightarrow> (string \<times> string) option"
  rg_ed :: ed25519
  rg_sha256 :: "bytes \<Rightarrow> bytes"

definition registryId :: "string \<Rightarrow> string \<Rightarrow> registry_error + string" where
  "registryId v label = (if id_regex v then Inr v else Inl (Invalid (label @ '' must be a Split402 id'')))"

definition assertBase58PublicKey :: "string \<Rightarrow> string \<Rightarrow> registry_error + string" where
  "assertBase58PublicKey v label =
     (if base58_regex v then Inr v else Inl (Invalid (label @ '' must be a base58 public key'')))"

definition registryNonEmpty :: "string \<Rightarrow> string \<Rightarrow> registry_error + string" where
  "registryNonEmpty v label =
     (if js_trim v = [] then Inl (Invalid (label @ '' must be a non-empty string'')) else Inr v)"

definition assertUrlOrigin :: "registry_env \<Rightarrow> string \<Rightarrow> string \<Rightarrow> registry_error + string" where
  "assertUrlOrigin env v label = (case rg_url env v of
       None \<Rightarrow> Inl (Invalid (label @ '' must be an http(s) URL origin''))
     | Some (origin, protocol) \<Rightarrow>
         if origin \<noteq> v \<or> protocol \<notin> {''http:'', ''https:''}
         then Inl (Invalid (label @ '' must be an http(s) URL origin'')) else Inr v)"

text \<open>\<open>Date.parse(a) <= Date.parse(b)\<close>: false when either is \<open>NaN\<close>.\<close>

definition date_le :: "host \<Rightarrow> string \<Rightarrow> string \<Rightarrow> bool" where
  "date_le h a b = (case (dateParse h a, dateParse h b) of (Some x, Some y) \<Rightarrow> x \<le> y | _ \<Rightarrow> False)"

definition date_less :: "host \<Rightarrow> string \<Rightarrow> string \<Rightarrow> bool" where
  "date_less h a b = (case (dateParse h a, dateParse h b) of (Some x, Some y) \<Rightarrow> x < y | _ \<Rightarrow> False)"

definition opt_ex :: "('a \<Rightarrow> bool) \<Rightarrow> 'a option \<Rightarrow> bool" where
  "opt_ex P v = (case v of None \<Rightarrow> False | Some x \<Rightarrow> P x)"

lemma opt_ex_simps [simp]: "\<not> opt_ex P None" "opt_ex P (Some x) \<longleftrightarrow> P x"
  by (simp_all add: opt_ex_def)

named_theorems registry_simps

lemma registryId_Inr [registry_simps]: "registryId v l = Inr w \<longleftrightarrow> id_regex v \<and> w = v"
  by (auto simp: registryId_def)

lemma assertBase58PublicKey_Inr [registry_simps]: "assertBase58PublicKey v l = Inr w \<longleftrightarrow> base58_regex v \<and> w = v"
  by (auto simp: assertBase58PublicKey_def)

lemma registryNonEmpty_Inr [registry_simps]: "registryNonEmpty v l = Inr w \<longleftrightarrow> js_trim v \<noteq> [] \<and> w = v"
  by (auto simp: registryNonEmpty_def)

definition http_origin :: "registry_env \<Rightarrow> string \<Rightarrow> bool" where
  "http_origin env v \<longleftrightarrow> rg_url env v \<in> {Some (v, ''http:''), Some (v, ''https:'')}"

lemma assertUrlOrigin_Inr [registry_simps]: "assertUrlOrigin env v l = Inr w \<longleftrightarrow> http_origin env v \<and> w = v"
  by (auto simp: assertUrlOrigin_def http_origin_def split: option.splits if_splits)

text \<open>An environment for closed examples: every URL is its own origin, a time is the length of its text.\<close>

definition toy_env :: registry_env where
  "toy_env = \<lparr>rg_host = toy_host, rg_zod = any_zod, rg_url = (\<lambda>v. Some (v, ''https:'')), rg_ed = toy_ed,
     rg_sha256 = (\<lambda>bs. take 32 (bs @ replicate 32 0))\<rparr>"

lemma toy_env_host [simp]: "rg_host toy_env = toy_host"
  by (simp add: toy_env_def)

end
