(* ===== verification/Merchants.thy ===== *)
theory Merchants
  imports Registry_Base
begin

text \<open>
  The in-memory merchant registry of \<^verbatim>\<open>packages/control-plane/src/merchants.ts\<close>: merchants, their origins,
  service keys and payout wallets, with every operation. The clock and the id factories are arguments.
  The checks that a status, an algorithm or a purpose is one of its union's values are the types here.
\<close>

section \<open>Records\<close>

datatype merchant_status = M_pending | M_active | M_suspended | M_closed

datatype origin_method = Well_known | Dns

datatype origin_status = O_pending | O_verified | O_failed | O_revoked

datatype key_algorithm = Ed25519 | ES256

datatype key_purpose = Offer_receipt | Webhook_key

datatype wallet_status = W_active | W_paused | W_retired

record merchant =
  mr_id :: string
  mr_slug :: string
  mr_displayName :: string
  mr_ownerWallet :: string
  mr_status :: merchant_status
  mr_createdAt :: string
  mr_updatedAt :: string

record merchant_origin =
  mo_merchantId :: string
  mo_origin :: string
  mo_verificationMethod :: origin_method
  mo_status :: origin_status
  mo_verifiedAt :: "string option"
  mo_createdAt :: string

record merchant_key =
  mk_merchantId :: string
  mk_kid :: string
  mk_algorithm :: key_algorithm
  mk_publicKey :: string
  mk_purpose :: key_purpose
  mk_validFrom :: string
  mk_validUntil :: "string option"
  mk_revokedAt :: "string option"
  mk_revocationReason :: "string option"
  mk_createdAt :: string

record merchant_wallet =
  mw_id :: string
  mw_merchantId :: string
  mw_network :: string
  mw_wallet :: string
  mw_asset :: string
  mw_signerReference :: string
  mw_status :: wallet_status
  mw_createdAt :: string

record merchant_profile =
  mp_merchant :: merchant
  mp_origins :: "merchant_origin list"
  mp_keys :: "merchant_key list"
  mp_payoutWallets :: "merchant_wallet list"

record merchant_registry =
  merchants :: "(string, merchant) js_map"
  merchantIdBySlug :: "(string, string) js_map"
  originsByMerchantId :: "(string, (string, merchant_origin) js_map) js_map"
  keysByKid :: "(string, merchant_key) js_map"
  payoutWalletsById :: "(string, merchant_wallet) js_map"

definition empty_merchants :: merchant_registry where
  "empty_merchants = \<lparr>merchants = [], merchantIdBySlug = [], originsByMerchantId = [], keysByKid = [],
     payoutWalletsById = []\<rparr>"

section \<open>Validators\<close>

definition is_slug_char :: "char \<Rightarrow> bool" where
  "is_slug_char c \<longleftrightarrow> is_lower c \<or> is_digit c"

definition assertMerchantSlug :: "string \<Rightarrow> registry_error + string" where
  "assertMerchantSlug v =
     (if v \<noteq> [] \<and> is_slug_char (hd v) \<and> list_all (\<lambda>c. is_slug_char c \<or> c = CHR ''-'') (tl v) \<and>
         3 \<le> length v \<and> length v \<le> 63
      then Inr v else Inl (Invalid ''slug must be 3-63 lowercase URL-safe characters''))"

definition assertUtcTimestamp :: "host \<Rightarrow> string \<Rightarrow> registry_error + string" where
  "assertUtcTimestamp h v =
     (if dateParse h v = None \<or> v = [] \<or> last v \<noteq> CHR ''Z''
      then Inl (Invalid ''timestamp must be UTC RFC3339'') else Inr v)"

definition assertChronologicalRange :: "host \<Rightarrow> string \<Rightarrow> string option \<Rightarrow> registry_error + unit" where
  "assertChronologicalRange h validFrom validUntil =
     ensure (opt_all (\<lambda>u. \<not> date_le h u validFrom) validUntil) (Invalid ''validUntil must be after validFrom'')"

definition assertMerchantStatusTransition :: "merchant_status \<Rightarrow> registry_error + merchant_status" where
  "assertMerchantStatusTransition st = (if st = M_pending
     then Inl (Invalid ''merchant status transition must be active, suspended, or closed'') else Inr st)"

definition assertMerchantOriginStatusTransition :: "origin_status \<Rightarrow> registry_error + origin_status" where
  "assertMerchantOriginStatusTransition st = (if st = O_pending
     then Inl (Invalid ''origin status transition must be verified, failed, or revoked'') else Inr st)"

definition assertPayoutWalletStatusTransition :: "wallet_status \<Rightarrow> wallet_status \<Rightarrow> registry_error + unit" where
  "assertPayoutWalletStatusTransition current next =
     ensure (\<not> (current = W_retired \<and> next \<noteq> W_retired))
       (Conflicting ''retired merchant payout wallets cannot be reactivated'')"

definition readOriginVerifiedAt ::
  "host \<Rightarrow> string \<Rightarrow> origin_status \<Rightarrow> string option \<Rightarrow> registry_error + string option" where
  "readOriginVerifiedAt h clock st verifiedAt =
     (if st \<noteq> O_verified then Inr None
      else and_then (assertUtcTimestamp h (now_or verifiedAt clock)) (\<lambda>t. Inr (Some t)))"

definition isKeyValidAt :: "host \<Rightarrow> merchant_key \<Rightarrow> string \<Rightarrow> registry_error + bool" where
  "isKeyValidAt h k at' = and_then (assertUtcTimestamp h at') (\<lambda>t.
     Inr (if date_less h t (mk_validFrom k) then False
          else if opt_ex (\<lambda>u. date_le h u t) (mk_validUntil k) then False
          else if opt_ex (\<lambda>u. date_le h u t) (mk_revokedAt k) then False
          else True))"

section \<open>Operations\<close>

record create_merchant_input =
  cm_id :: "string option"
  cm_slug :: string
  cm_displayName :: string
  cm_ownerWallet :: string
  cm_status :: "merchant_status option"

definition createMerchant ::
  "string \<Rightarrow> string \<Rightarrow> create_merchant_input \<Rightarrow> merchant_registry \<Rightarrow> registry_error + merchant \<times> merchant_registry" where
  "createMerchant clock newId i s =
     and_then (assertMerchantSlug (cm_slug i)) (\<lambda>slug.
     and_then (registryNonEmpty (cm_displayName i) ''displayName'') (\<lambda>displayName.
     and_then (assertBase58PublicKey (cm_ownerWallet i) ''ownerWallet'') (\<lambda>ownerWallet.
     let m = \<lparr>mr_id = now_or (cm_id i) newId, mr_slug = slug, mr_displayName = displayName,
           mr_ownerWallet = ownerWallet, mr_status = (case cm_status i of None \<Rightarrow> M_pending | Some st \<Rightarrow> st),
           mr_createdAt = clock, mr_updatedAt = clock\<rparr>
     in and_then (registryId (mr_id m) ''merchant id'') (\<lambda>_.
        and_then (ensure (map_get (merchants s) (mr_id m) = None)
          (Conflicting (''merchant already exists: '' @ mr_id m))) (\<lambda>_.
        and_then (ensure (map_get (merchantIdBySlug s) (mr_slug m) = None)
          (Conflicting (''merchant slug already exists: '' @ mr_slug m))) (\<lambda>_.
        Inr (m, s\<lparr>merchants := map_set (mr_id m) m (merchants s),
                 merchantIdBySlug := map_set (mr_slug m) (mr_id m) (merchantIdBySlug s)\<rparr>)))))))"

definition comparePayoutWallets :: "host \<Rightarrow> merchant_wallet \<Rightarrow> merchant_wallet \<Rightarrow> int" where
  "comparePayoutWallets h l r =
     or_else (localeCompare h (mw_createdAt l) (mw_createdAt r)) (localeCompare h (mw_id l) (mw_id r))"

definition origins_of :: "merchant_registry \<Rightarrow> string \<Rightarrow> (string, merchant_origin) js_map" where
  "origins_of s merchantId = (case map_get (originsByMerchantId s) merchantId of None \<Rightarrow> [] | Some m \<Rightarrow> m)"

definition getMerchantProfile :: "host \<Rightarrow> merchant_registry \<Rightarrow> string \<Rightarrow> merchant_profile option" where
  "getMerchantProfile h s merchantId = (case map_get (merchants s) merchantId of
       None \<Rightarrow> None
     | Some m \<Rightarrow> Some \<lparr>mp_merchant = m, mp_origins = map_values (origins_of s merchantId),
         mp_keys = filter (\<lambda>k. mk_merchantId k = merchantId) (map_values (keysByKid s)),
         mp_payoutWallets = sort_by (comparePayoutWallets h)
           (filter (\<lambda>w. mw_merchantId w = merchantId) (map_values (payoutWalletsById s)))\<rparr>)"

definition assertMerchantExists :: "merchant_registry \<Rightarrow> string \<Rightarrow> registry_error + unit" where
  "assertMerchantExists s merchantId =
     ensure (map_get (merchants s) merchantId \<noteq> None) (Invalid (''unknown merchant: '' @ merchantId))"

record add_origin_input =
  ao_merchantId :: string
  ao_origin :: string
  ao_verificationMethod :: "origin_method option"
  ao_status :: "origin_status option"
  ao_verifiedAt :: "string option"

definition addOrigin ::
  "registry_env \<Rightarrow> string \<Rightarrow> add_origin_input \<Rightarrow> merchant_registry \<Rightarrow> registry_error + merchant_origin \<times> merchant_registry" where
  "addOrigin env clock i s =
     and_then (assertMerchantExists s (ao_merchantId i)) (\<lambda>_.
     and_then (assertUrlOrigin env (ao_origin i) ''origin'') (\<lambda>origin.
     and_then (map_opt_err (assertUtcTimestamp (rg_host env)) (ao_verifiedAt i)) (\<lambda>verifiedAt.
     let r = \<lparr>mo_merchantId = ao_merchantId i, mo_origin = origin,
           mo_verificationMethod = (case ao_verificationMethod i of None \<Rightarrow> Well_known | Some v \<Rightarrow> v),
           mo_status = (case ao_status i of None \<Rightarrow> O_pending | Some v \<Rightarrow> v),
           mo_verifiedAt = verifiedAt, mo_createdAt = clock\<rparr>;
         origins = origins_of s (ao_merchantId i)
     in and_then (ensure (map_get origins origin = None)
          (Conflicting (''merchant origin already exists: '' @ origin))) (\<lambda>_.
        Inr (r, s\<lparr>originsByMerchantId := map_set (ao_merchantId i) (map_set origin r origins) (originsByMerchantId s)\<rparr>)))))"

record add_key_input =
  ak_merchantId :: string
  ak_kid :: string
  ak_publicKey :: string
  ak_algorithm :: "key_algorithm option"
  ak_purpose :: "key_purpose option"
  ak_validFrom :: "string option"
  ak_validUntil :: "string option"

definition addKey ::
  "host \<Rightarrow> string \<Rightarrow> add_key_input \<Rightarrow> merchant_registry \<Rightarrow> registry_error + merchant_key \<times> merchant_registry" where
  "addKey h clock i s =
     and_then (assertMerchantExists s (ak_merchantId i)) (\<lambda>_.
     and_then (registryNonEmpty (ak_kid i) ''kid'') (\<lambda>kid.
     and_then (assertBase58PublicKey (ak_publicKey i) ''publicKey'') (\<lambda>publicKey.
     and_then (map_opt_err (assertUtcTimestamp h) (ak_validUntil i)) (\<lambda>validUntil.
     let k = \<lparr>mk_merchantId = ak_merchantId i, mk_kid = kid,
           mk_algorithm = (case ak_algorithm i of None \<Rightarrow> Ed25519 | Some a \<Rightarrow> a), mk_publicKey = publicKey,
           mk_purpose = (case ak_purpose i of None \<Rightarrow> Offer_receipt | Some p \<Rightarrow> p),
           mk_validFrom = now_or (ak_validFrom i) clock, mk_validUntil = validUntil,
           mk_revokedAt = None, mk_revocationReason = None, mk_createdAt = clock\<rparr>
     in and_then (assertUtcTimestamp h (mk_validFrom k)) (\<lambda>_.
        and_then (assertChronologicalRange h (mk_validFrom k) (mk_validUntil k)) (\<lambda>_.
        and_then (ensure (map_get (keysByKid s) kid = None)
          (Conflicting (''merchant key already exists: '' @ kid))) (\<lambda>_.
        Inr (k, s\<lparr>keysByKid := map_set kid k (keysByKid s)\<rparr>))))))))"

record add_wallet_input =
  aw_id :: "string option"
  aw_merchantId :: string
  aw_network :: string
  aw_wallet :: string
  aw_asset :: string
  aw_signerReference :: string
  aw_status :: "wallet_status option"

definition same_wallet :: "merchant_wallet \<Rightarrow> merchant_wallet \<Rightarrow> bool" where
  "same_wallet a b \<longleftrightarrow> mw_merchantId a = mw_merchantId b \<and> mw_network a = mw_network b \<and>
     mw_wallet a = mw_wallet b \<and> mw_asset a = mw_asset b"

definition addPayoutWallet ::
  "string \<Rightarrow> string \<Rightarrow> add_wallet_input \<Rightarrow> merchant_registry \<Rightarrow> registry_error + merchant_wallet \<times> merchant_registry" where
  "addPayoutWallet clock newId i s =
     and_then (assertMerchantExists s (aw_merchantId i)) (\<lambda>_.
     and_then (registryId (now_or (aw_id i) newId) ''merchant payout wallet id'') (\<lambda>wid.
     and_then (registryNonEmpty (aw_network i) ''network'') (\<lambda>network.
     and_then (assertBase58PublicKey (aw_wallet i) ''wallet'') (\<lambda>wallet.
     and_then (assertBase58PublicKey (aw_asset i) ''asset'') (\<lambda>asset.
     and_then (registryNonEmpty (aw_signerReference i) ''signerReference'') (\<lambda>signerReference.
     let w = \<lparr>mw_id = wid, mw_merchantId = aw_merchantId i, mw_network = network, mw_wallet = wallet,
           mw_asset = asset, mw_signerReference = signerReference,
           mw_status = (case aw_status i of None \<Rightarrow> W_active | Some st \<Rightarrow> st), mw_createdAt = clock\<rparr>
     in and_then (ensure (map_get (payoutWalletsById s) wid = None)
          (Conflicting (''merchant payout wallet already exists: '' @ wid))) (\<lambda>_.
        and_then (ensure (\<not> list_ex (\<lambda>e. same_wallet e w) (map_values (payoutWalletsById s)))
          (Conflicting ''merchant payout wallet already exists for network, wallet, and asset'')) (\<lambda>_.
        Inr (w, s\<lparr>payoutWalletsById := map_set wid w (payoutWalletsById s)\<rparr>)))))))))"

definition revokeKey ::
  "host \<Rightarrow> string \<Rightarrow> string \<Rightarrow> string \<Rightarrow> string option \<Rightarrow> string option \<Rightarrow> merchant_registry \<Rightarrow>
     registry_error + merchant_key option \<times> merchant_registry" where
  "revokeKey h clock merchantId kid revokedAt reason s = (case map_get (keysByKid s) kid of
       None \<Rightarrow> Inr (None, s)
     | Some e \<Rightarrow>
        if mk_merchantId e \<noteq> merchantId then Inr (None, s)
        else and_then (map_opt_err (\<lambda>r. registryNonEmpty r ''reason'') reason) (\<lambda>reason'.
          let at' = now_or revokedAt clock;
              k = e\<lparr>mk_revokedAt := Some at',
                mk_revocationReason := (if reason' = None then mk_revocationReason e else reason')\<rparr>
          in and_then (assertUtcTimestamp h at') (\<lambda>_.
             Inr (Some k, s\<lparr>keysByKid := map_set kid k (keysByKid s)\<rparr>))))"

record resolve_key_input =
  rk_merchantId :: string
  rk_kid :: string
  rk_purpose :: "key_purpose option"
  rk_at :: "string option"

definition resolveKey ::
  "host \<Rightarrow> string \<Rightarrow> merchant_registry \<Rightarrow> resolve_key_input \<Rightarrow> registry_error + merchant_key option" where
  "resolveKey h clock s i = (case map_get (keysByKid s) (rk_kid i) of
       None \<Rightarrow> Inr None
     | Some k \<Rightarrow>
        if mk_merchantId k \<noteq> rk_merchantId i then Inr None
        else if mk_purpose k \<noteq> (case rk_purpose i of None \<Rightarrow> Offer_receipt | Some p \<Rightarrow> p) then Inr None
        else and_then (isKeyValidAt h k (now_or (rk_at i) clock)) (\<lambda>valid.
          Inr (if valid then Some k else None)))"

definition updateMerchantStatus ::
  "string \<Rightarrow> string \<Rightarrow> merchant_status \<Rightarrow> merchant_registry \<Rightarrow> registry_error + merchant option \<times> merchant_registry" where
  "updateMerchantStatus clock merchantId st s =
     and_then (assertMerchantStatusTransition st) (\<lambda>_.
     case map_get (merchants s) merchantId of
       None \<Rightarrow> Inr (None, s)
     | Some e \<Rightarrow> let u = e\<lparr>mr_status := st, mr_updatedAt := clock\<rparr>
         in Inr (Some u, s\<lparr>merchants := map_set (mr_id u) u (merchants s)\<rparr>))"

definition updateOriginStatus ::
  "host \<Rightarrow> string \<Rightarrow> string \<Rightarrow> string \<Rightarrow> origin_status \<Rightarrow> string option \<Rightarrow> merchant_registry \<Rightarrow>
     registry_error + merchant_origin option \<times> merchant_registry" where
  "updateOriginStatus h clock merchantId origin st verifiedAt s =
     and_then (assertMerchantOriginStatusTransition st) (\<lambda>_.
     case map_get (originsByMerchantId s) merchantId of
       None \<Rightarrow> Inr (None, s)
     | Some origins \<Rightarrow> (case map_get origins origin of
         None \<Rightarrow> Inr (None, s)
       | Some e \<Rightarrow> and_then (readOriginVerifiedAt h clock st verifiedAt) (\<lambda>t.
           let u = e\<lparr>mo_status := st, mo_verifiedAt := t\<rparr>
           in Inr (Some u, s\<lparr>originsByMerchantId :=
                map_set merchantId (map_set origin u origins) (originsByMerchantId s)\<rparr>))))"

definition updatePayoutWalletStatus ::
  "string \<Rightarrow> string \<Rightarrow> wallet_status \<Rightarrow> merchant_registry \<Rightarrow> registry_error + merchant_wallet option \<times> merchant_registry" where
  "updatePayoutWalletStatus merchantId walletId st s = (case map_get (payoutWalletsById s) walletId of
       None \<Rightarrow> Inr (None, s)
     | Some e \<Rightarrow>
        if mw_merchantId e \<noteq> merchantId then Inr (None, s)
        else and_then (assertPayoutWalletStatusTransition (mw_status e) st) (\<lambda>_.
          let u = e\<lparr>mw_status := st\<rparr>
          in Inr (Some u, s\<lparr>payoutWalletsById := map_set (mw_id u) u (payoutWalletsById s)\<rparr>)))"

text \<open>The key resolver ingestion is wired with. An exception of the registry is one of the resolver.\<close>

definition createMerchantReceiptKeyResolver ::
  "(resolve_key_input \<Rightarrow> registry_error + merchant_key option) \<Rightarrow> receipt \<Rightarrow> registry_error + string option" where
  "createMerchantReceiptKeyResolver resolve r =
     and_then (resolve \<lparr>rk_merchantId = rc_merchantId r, rk_kid = rc_kid r, rk_purpose = Some Offer_receipt,
       rk_at = Some (rc_issuedAt r)\<rparr>) (\<lambda>k. Inr (map_option mk_publicKey k))"

section \<open>Steps and what they keep\<close>

inductive merchant_step :: "registry_env \<Rightarrow> merchant_registry \<Rightarrow> merchant_registry \<Rightarrow> bool" for env where
  merchant_created: "createMerchant clock newId i s = Inr (m, s') \<Longrightarrow> merchant_step env s s'"
| origin_added: "addOrigin env clock i s = Inr (r, s') \<Longrightarrow> merchant_step env s s'"
| key_added: "addKey (rg_host env) clock i s = Inr (k, s') \<Longrightarrow> merchant_step env s s'"
| wallet_added: "addPayoutWallet clock newId i s = Inr (w, s') \<Longrightarrow> merchant_step env s s'"
| key_revoked: "revokeKey (rg_host env) clock mid kid at' reason s = Inr (v, s') \<Longrightarrow> merchant_step env s s'"
| merchant_updated: "updateMerchantStatus clock mid st s = Inr (v, s') \<Longrightarrow> merchant_step env s s'"
| origin_updated: "updateOriginStatus (rg_host env) clock mid origin ost at' s = Inr (v, s') \<Longrightarrow> merchant_step env s s'"
| wallet_updated: "updatePayoutWalletStatus mid wid wst s = Inr (v, s') \<Longrightarrow> merchant_step env s s'"

text \<open>How each map changes: a new entry, or an old one with some members replaced.\<close>

definition put_one :: "('v \<Rightarrow> 'k) \<Rightarrow> ('v \<Rightarrow> 'v \<Rightarrow> bool) \<Rightarrow> ('k, 'v) js_map \<Rightarrow> ('k, 'v) js_map \<Rightarrow> bool" where
  "put_one f R m m' \<longleftrightarrow> m' = m \<or> (\<exists>v. m' = map_set (f v) v m \<and>
     (case map_get m (f v) of None \<Rightarrow> True | Some e \<Rightarrow> R e v))"

lemma put_one_refl [simp]: "put_one f R m m"
  by (simp add: put_one_def)

lemma put_one_new: "map_get m (f v) = None \<Longrightarrow> put_one f R m (map_set (f v) v m)"
  unfolding put_one_def by (intro disjI2 exI [of _ v]) simp

lemma put_one_old: "map_get m (f v) = Some e \<Longrightarrow> R e v \<Longrightarrow> put_one f R m (map_set (f v) v m)"
  unfolding put_one_def by (intro disjI2 exI [of _ v]) simp

lemma put_one_keyed: "put_one f R m m' \<Longrightarrow> keyed f m \<Longrightarrow> keyed f m'"
  by (auto simp: put_one_def keyed_put)

lemma put_one_get:
  "put_one f R m m' \<Longrightarrow> map_get m k = Some e \<Longrightarrow> \<exists>v. map_get m' k = Some v \<and> (v = e \<or> R e v)"
  by (auto simp: put_one_def split: option.splits if_splits)

definition same_merchant :: "merchant \<Rightarrow> merchant \<Rightarrow> bool" where
  "same_merchant a b \<longleftrightarrow> mr_id b = mr_id a \<and> mr_slug b = mr_slug a \<and> mr_displayName b = mr_displayName a \<and>
     mr_ownerWallet b = mr_ownerWallet a \<and> mr_createdAt b = mr_createdAt a \<and> mr_status b \<noteq> M_pending"

definition same_key :: "merchant_key \<Rightarrow> merchant_key \<Rightarrow> bool" where
  "same_key a b \<longleftrightarrow> mk_merchantId b = mk_merchantId a \<and> mk_kid b = mk_kid a \<and> mk_algorithm b = mk_algorithm a \<and>
     mk_publicKey b = mk_publicKey a \<and> mk_purpose b = mk_purpose a \<and> mk_validFrom b = mk_validFrom a \<and>
     mk_validUntil b = mk_validUntil a \<and> mk_createdAt b = mk_createdAt a \<and> mk_revokedAt b \<noteq> None"

definition later_wallet :: "merchant_wallet \<Rightarrow> merchant_wallet \<Rightarrow> bool" where
  "later_wallet a b \<longleftrightarrow> mw_id b = mw_id a \<and> same_wallet a b \<and> mw_signerReference b = mw_signerReference a \<and>
     mw_createdAt b = mw_createdAt a \<and> (mw_status a = W_retired \<longrightarrow> mw_status b = W_retired)"

definition registry_moves :: "merchant_registry \<Rightarrow> merchant_registry \<Rightarrow> bool" where
  "registry_moves s s' \<longleftrightarrow> put_one mr_id same_merchant (merchants s) (merchants s') \<and>
     put_one mk_kid same_key (keysByKid s) (keysByKid s') \<and>
     put_one mw_id later_wallet (payoutWalletsById s) (payoutWalletsById s')"

definition registry_keyed :: "merchant_registry \<Rightarrow> bool" where
  "registry_keyed s \<longleftrightarrow> keyed mr_id (merchants s) \<and> keyed mk_kid (keysByKid s) \<and> keyed mw_id (payoutWalletsById s)"

lemma merchant_step_moves: "merchant_step env s s' \<Longrightarrow> registry_keyed s \<Longrightarrow> registry_moves s s'"
proof (induction rule: merchant_step.induct)
  case (merchant_created clock newId i s m s')
  then have "merchants s' = map_set (mr_id m) m (merchants s)" "map_get (merchants s) (mr_id m) = None"
    "keysByKid s' = keysByKid s" "payoutWalletsById s' = payoutWalletsById s"
    by (auto simp: createMerchant_def Let_def err_simps registry_simps)
  then show ?case by (simp add: registry_moves_def put_one_new)
next
  case (origin_added clock i s r s')
  then show ?case by (auto simp: registry_moves_def addOrigin_def Let_def err_simps)
next
  case (key_added clock i s k s')
  then have "s' = s\<lparr>keysByKid := map_set (mk_kid k) k (keysByKid s)\<rparr>" "map_get (keysByKid s) (mk_kid k) = None"
    by (auto simp: addKey_def Let_def err_simps registry_simps)
  then show ?case by (simp add: registry_moves_def put_one_new)
next
  case (wallet_added clock newId i s w s')
  then have "s' = s\<lparr>payoutWalletsById := map_set (mw_id w) w (payoutWalletsById s)\<rparr>"
    "map_get (payoutWalletsById s) (mw_id w) = None"
    by (auto simp: addPayoutWallet_def Let_def err_simps registry_simps)
  then show ?case by (simp add: registry_moves_def put_one_new)
next
  case (key_revoked clock mid kid at' reason s v s')
  have kid: "mk_kid e = kid" if "map_get (keysByKid s) kid = Some e" for e
    using key_revoked(2) that unfolding registry_keyed_def by (blast dest: keyedD)
  show ?case
  proof (cases "s' = s")
    case False
    with key_revoked(1) obtain e k where e: "map_get (keysByKid s) kid = Some e"
      and s': "s' = s\<lparr>keysByKid := map_set kid k (keysByKid s)\<rparr>" and k: "same_key e k"
      by (auto simp: revokeKey_def same_key_def Let_def err_simps split: option.splits if_splits)
    then show ?thesis using put_one_old [of "keysByKid s" mk_kid k e same_key] kid [OF e]
      by (simp add: registry_moves_def same_key_def)
  qed (simp add: registry_moves_def)
next
  case (merchant_updated clock mid st s v s')
  show ?case
  proof (cases "s' = s")
    case False
    with merchant_updated(1) obtain e u where e: "map_get (merchants s) mid = Some e"
      and s': "s' = s\<lparr>merchants := map_set (mr_id u) u (merchants s)\<rparr>" and u: "same_merchant e u"
      by (auto simp: updateMerchantStatus_def assertMerchantStatusTransition_def same_merchant_def Let_def err_simps
          split: option.splits if_splits)
    have "mr_id e = mid" using merchant_updated(2) e unfolding registry_keyed_def by (blast dest: keyedD)
    then show ?thesis using put_one_old [of "merchants s" mr_id u e same_merchant] e u
      by (simp add: registry_moves_def s' same_merchant_def)
  qed (simp add: registry_moves_def)
next
  case (origin_updated clock mid origin ost at' s v s')
  then show ?case
    by (auto simp: registry_moves_def updateOriginStatus_def Let_def err_simps split: option.splits)
next
  case (wallet_updated mid wid wst s v s')
  show ?case
  proof (cases "s' = s")
    case False
    with wallet_updated(1) obtain e where e: "map_get (payoutWalletsById s) wid = Some e"
      "mw_status e = W_retired \<longrightarrow> wst = W_retired"
      and s': "s' = s\<lparr>payoutWalletsById := map_set (mw_id e) (e\<lparr>mw_status := wst\<rparr>) (payoutWalletsById s)\<rparr>"
      by (auto simp: updatePayoutWalletStatus_def assertPayoutWalletStatusTransition_def Let_def err_simps
          split: option.splits if_splits)
    have "mw_id e = wid" using wallet_updated(2) e(1) unfolding registry_keyed_def by (blast dest: keyedD)
    moreover have "later_wallet e (e\<lparr>mw_status := wst\<rparr>)" using e(2) by (simp add: later_wallet_def same_wallet_def)
    ultimately show ?thesis
      using put_one_old [of "payoutWalletsById s" mw_id "e\<lparr>mw_status := wst\<rparr>" e later_wallet] e(1)
      by (simp add: registry_moves_def s')
  qed (simp add: registry_moves_def)
qed

lemma moves_keyed: "registry_moves s s' \<Longrightarrow> registry_keyed s \<Longrightarrow> registry_keyed s'"
  unfolding registry_moves_def registry_keyed_def by (blast intro: put_one_keyed)

lemma merchant_run_keyed: "(merchant_step env)\<^sup>*\<^sup>* s s' \<Longrightarrow> registry_keyed s \<Longrightarrow> registry_keyed s'"
  by (induction rule: rtranclp_induct) (auto dest: merchant_step_moves moves_keyed)

text \<open>A key, a wallet or a merchant, any number of steps later.\<close>

definition entries_last :: "('v \<Rightarrow> 'v \<Rightarrow> bool) \<Rightarrow> ('k, 'v) js_map \<Rightarrow> ('k, 'v) js_map \<Rightarrow> bool" where
  "entries_last R m m' \<longleftrightarrow> (\<forall>k e. map_get m k = Some e \<longrightarrow> (\<exists>v. map_get m' k = Some v \<and> (v = e \<or> R e v)))"

lemma entries_last_step:
  assumes "entries_last R m m'" "put_one f R m' m''" "\<And>a b c. R a b \<Longrightarrow> R b c \<Longrightarrow> R a c"
  shows "entries_last R m m''"
  unfolding entries_last_def
proof (intro allI impI)
  fix k e assume "map_get m k = Some e"
  then obtain v where v: "map_get m' k = Some v" "v = e \<or> R e v" using assms(1) unfolding entries_last_def by blast
  then show "\<exists>v. map_get m'' k = Some v \<and> (v = e \<or> R e v)"
    using put_one_get [OF assms(2) v(1)] assms(3) by blast
qed

lemma same_key_trans: "same_key a b \<Longrightarrow> same_key b c \<Longrightarrow> same_key a c"
  by (simp add: same_key_def)

lemma later_wallet_trans: "later_wallet a b \<Longrightarrow> later_wallet b c \<Longrightarrow> later_wallet a c"
  by (simp add: later_wallet_def same_wallet_def)

lemma same_merchant_trans: "same_merchant a b \<Longrightarrow> same_merchant b c \<Longrightarrow> same_merchant a c"
  by (simp add: same_merchant_def)

lemma merchant_run_lasts:
  assumes "(merchant_step env)\<^sup>*\<^sup>* s s'" "registry_keyed s"
  shows "entries_last same_key (keysByKid s) (keysByKid s') \<and>
    entries_last later_wallet (payoutWalletsById s) (payoutWalletsById s') \<and>
    entries_last same_merchant (merchants s) (merchants s')"
  using assms(1)
proof (induction rule: rtranclp_induct)
  case base
  then show ?case by (simp add: entries_last_def)
next
  case (step t u)
  have "registry_moves t u" using merchant_step_moves [OF step.hyps(2)] merchant_run_keyed [OF step.hyps(1) assms(2)] by blast
  then have p: "put_one mr_id same_merchant (merchants t) (merchants u)" "put_one mk_kid same_key (keysByKid t) (keysByKid u)"
    "put_one mw_id later_wallet (payoutWalletsById t) (payoutWalletsById u)" unfolding registry_moves_def by blast+
  have "entries_last same_key (keysByKid s) (keysByKid u)"
    by (rule entries_last_step [OF _ p(2)]) (use step.IH same_key_trans in blast)+
  moreover have "entries_last later_wallet (payoutWalletsById s) (payoutWalletsById u)"
    by (rule entries_last_step [OF _ p(3)]) (use step.IH later_wallet_trans in blast)+
  moreover have "entries_last same_merchant (merchants s) (merchants u)"
    by (rule entries_last_step [OF _ p(1)]) (use step.IH same_merchant_trans in blast)+
  ultimately show ?case by blast
qed

section \<open>Uniqueness\<close>

definition slugs_ok :: "merchant_registry \<Rightarrow> bool" where
  "slugs_ok s \<longleftrightarrow> (\<forall>slug k. map_get (merchantIdBySlug s) slug = Some k \<longleftrightarrow>
     (\<exists>m. map_get (merchants s) k = Some m \<and> mr_slug m = slug))"

definition wallets_ok :: "merchant_registry \<Rightarrow> bool" where
  "wallets_ok s \<longleftrightarrow> (\<forall>i j a b. map_get (payoutWalletsById s) i = Some a \<longrightarrow> map_get (payoutWalletsById s) j = Some b \<longrightarrow>
     same_wallet a b \<longrightarrow> i = j)"

definition registry_ok :: "merchant_registry \<Rightarrow> bool" where
  "registry_ok s \<longleftrightarrow> registry_keyed s \<and> slugs_ok s \<and> wallets_ok s"

lemma empty_registry_ok: "registry_ok empty_merchants"
  by (simp add: registry_ok_def registry_keyed_def slugs_ok_def wallets_ok_def empty_merchants_def)

lemma slugsD: "slugs_ok s \<Longrightarrow> map_get (merchants s) j = Some a \<Longrightarrow> map_get (merchantIdBySlug s) (mr_slug a) = Some j"
  by (simp add: slugs_ok_def)

lemma slugs_put_new:
  assumes "slugs_ok s" "map_get (merchants s) (mr_id m) = None" "map_get (merchantIdBySlug s) (mr_slug m) = None"
  shows "slugs_ok (s\<lparr>merchants := map_set (mr_id m) m (merchants s),
     merchantIdBySlug := map_set (mr_slug m) (mr_id m) (merchantIdBySlug s)\<rparr>)"
proof -
  have "mr_slug e \<noteq> mr_slug m" if "map_get (merchants s) k = Some e" for k e
    using assms(1,3) that unfolding slugs_ok_def by (metis option.distinct(1))
  then show ?thesis using assms unfolding slugs_ok_def by (auto split: if_splits)
qed

lemma slugs_put_same:
  assumes "slugs_ok s" "map_get (merchants s) k = Some e" "mr_slug m = mr_slug e"
  shows "slugs_ok (s\<lparr>merchants := map_set k m (merchants s)\<rparr>)"
  using assms unfolding slugs_ok_def by (auto split: if_splits)

lemma wallets_put_new:
  assumes "wallets_ok s" "registry_keyed s" "\<not> list_ex (\<lambda>e. same_wallet e w) (map_values (payoutWalletsById s))"
  shows "wallets_ok (s\<lparr>payoutWalletsById := map_set k w (payoutWalletsById s)\<rparr>)"
proof -
  have "\<not> same_wallet e w \<and> \<not> same_wallet w e" if "map_get (payoutWalletsById s) j = Some e" for j e
  proof -
    have "map_ok (payoutWalletsById s)" using assms(2) by (simp add: registry_keyed_def keyed_def)
    then have "e \<in> set (map_values (payoutWalletsById s))" using that by (rule jm.get_vals)
    then show ?thesis using assms(3) by (auto simp: list_ex_iff same_wallet_def)
  qed
  then show ?thesis using assms(1) unfolding wallets_ok_def by (auto split: if_splits)
qed

lemma wallet_before:
  assumes "map_get (map_set k w m) i = Some a" "map_get m k = Some e" "same_wallet e w"
  shows "\<exists>c. map_get m i = Some c \<and> same_wallet c a"
proof (cases "i = k")
  case True
  then have "a = w" using assms(1) by simp
  then show ?thesis using assms(2,3) True by blast
next
  case False
  then have "map_get m i = Some a" using assms(1) by simp
  moreover have "same_wallet a a" by (simp add: same_wallet_def)
  ultimately show ?thesis by blast
qed

lemma wallets_put_same:
  assumes "wallets_ok s" "map_get (payoutWalletsById s) k = Some e" "same_wallet e w"
  shows "wallets_ok (s\<lparr>payoutWalletsById := map_set k w (payoutWalletsById s)\<rparr>)"
proof -
  have "i = j" if h: "map_get (map_set k w (payoutWalletsById s)) i = Some a" "map_get (map_set k w (payoutWalletsById s)) j = Some b"
    "same_wallet a b" for i j a b
  proof -
    obtain c where c: "map_get (payoutWalletsById s) i = Some c" "same_wallet c a"
      using wallet_before [OF h(1) assms(2,3)] by blast
    obtain d where d: "map_get (payoutWalletsById s) j = Some d" "same_wallet d b"
      using wallet_before [OF h(2) assms(2,3)] by blast
    have "same_wallet c d" using c(2) d(2) h(3) by (simp add: same_wallet_def)
    then show ?thesis using assms(1) c(1) d(1) unfolding wallets_ok_def by blast
  qed
  moreover have "payoutWalletsById (s\<lparr>payoutWalletsById := map_set k w (payoutWalletsById s)\<rparr>) = map_set k w (payoutWalletsById s)"
    by simp
  ultimately show ?thesis unfolding wallets_ok_def by metis
qed

lemma slugs_ok_cong: "slugs_ok s \<Longrightarrow> merchants s' = merchants s \<Longrightarrow> merchantIdBySlug s' = merchantIdBySlug s \<Longrightarrow> slugs_ok s'"
  by (simp add: slugs_ok_def)

lemma wallets_ok_cong: "wallets_ok s \<Longrightarrow> payoutWalletsById s' = payoutWalletsById s \<Longrightarrow> wallets_ok s'"
  by (simp add: wallets_ok_def)

lemma merchant_step_unique:
  "merchant_step env s s' \<Longrightarrow> registry_ok s \<Longrightarrow> slugs_ok s' \<and> wallets_ok s'"
proof (induction rule: merchant_step.induct)
  case (merchant_created clock newId i s m s')
  then have s': "s' = s\<lparr>merchants := map_set (mr_id m) m (merchants s),
      merchantIdBySlug := map_set (mr_slug m) (mr_id m) (merchantIdBySlug s)\<rparr>"
    and "map_get (merchants s) (mr_id m) = None" "map_get (merchantIdBySlug s) (mr_slug m) = None"
    by (auto simp: createMerchant_def Let_def err_simps registry_simps)
  then show ?case using slugs_put_new [of s m] merchant_created(2) wallets_ok_cong [of s s'] by (simp add: registry_ok_def)
next
  case (wallet_added clock newId i s w s')
  then have "s' = s\<lparr>payoutWalletsById := map_set (mw_id w) w (payoutWalletsById s)\<rparr>"
    "\<not> list_ex (\<lambda>e. same_wallet e w) (map_values (payoutWalletsById s))"
    by (auto simp: addPayoutWallet_def Let_def err_simps registry_simps)
  then show ?case using wallets_put_new [of s w] wallet_added(2) slugs_ok_cong [of s s'] by (simp add: registry_ok_def)
next
  case (merchant_updated clock mid st s v s')
  show ?case
  proof (cases "s' = s")
    case False
    with merchant_updated(1) obtain e where e: "map_get (merchants s) mid = Some e"
      and s': "s' = s\<lparr>merchants := map_set (mr_id e) (e\<lparr>mr_status := st, mr_updatedAt := clock\<rparr>) (merchants s)\<rparr>"
      by (auto simp: updateMerchantStatus_def Let_def err_simps split: option.splits)
    have "mr_id e = mid" using merchant_updated(2) e unfolding registry_ok_def registry_keyed_def by (blast dest: keyedD)
    then show ?thesis using slugs_put_same [of s mid e "e\<lparr>mr_status := st, mr_updatedAt := clock\<rparr>"] merchant_updated(2) e
      wallets_ok_cong [of s s'] by (simp add: registry_ok_def s')
  qed (use merchant_updated in \<open>simp add: registry_ok_def\<close>)
next
  case (wallet_updated mid wid wst s v s')
  show ?case
  proof (cases "s' = s")
    case False
    with wallet_updated(1) obtain e where e: "map_get (payoutWalletsById s) wid = Some e"
      and s': "s' = s\<lparr>payoutWalletsById := map_set (mw_id e) (e\<lparr>mw_status := wst\<rparr>) (payoutWalletsById s)\<rparr>"
      by (auto simp: updatePayoutWalletStatus_def Let_def err_simps split: option.splits if_splits)
    have "mw_id e = wid" using wallet_updated(2) e(1) unfolding registry_ok_def registry_keyed_def by (blast dest: keyedD)
    then show ?thesis using wallets_put_same [of s wid e "e\<lparr>mw_status := wst\<rparr>"] wallet_updated(2) e
      slugs_ok_cong [of s s'] by (simp add: registry_ok_def s' same_wallet_def)
  qed (use wallet_updated in \<open>simp add: registry_ok_def\<close>)
next
  case (origin_added clock i s r s')
  then have "merchants s' = merchants s" "merchantIdBySlug s' = merchantIdBySlug s" "payoutWalletsById s' = payoutWalletsById s"
    by (auto simp: addOrigin_def Let_def err_simps)
  then show ?case using origin_added(2) slugs_ok_cong [of s s'] wallets_ok_cong [of s s'] by (simp add: registry_ok_def)
next
  case (key_added clock i s k s')
  then have "merchants s' = merchants s" "merchantIdBySlug s' = merchantIdBySlug s" "payoutWalletsById s' = payoutWalletsById s"
    by (auto simp: addKey_def Let_def err_simps)
  then show ?case using key_added(2) slugs_ok_cong [of s s'] wallets_ok_cong [of s s'] by (simp add: registry_ok_def)
next
  case (key_revoked clock mid kid at' reason s v s')
  then have "merchants s' = merchants s" "merchantIdBySlug s' = merchantIdBySlug s" "payoutWalletsById s' = payoutWalletsById s"
    by (auto simp: revokeKey_def Let_def err_simps split: option.splits if_splits)
  then show ?case using key_revoked(2) slugs_ok_cong [of s s'] wallets_ok_cong [of s s'] by (simp add: registry_ok_def)
next
  case (origin_updated clock mid origin ost at' s v s')
  then have "merchants s' = merchants s" "merchantIdBySlug s' = merchantIdBySlug s" "payoutWalletsById s' = payoutWalletsById s"
    by (auto simp: updateOriginStatus_def Let_def err_simps split: option.splits)
  then show ?case using origin_updated(2) slugs_ok_cong [of s s'] wallets_ok_cong [of s s'] by (simp add: registry_ok_def)
qed

lemma merchant_step_ok: "merchant_step env s s' \<Longrightarrow> registry_ok s \<Longrightarrow> registry_ok s'"
  using merchant_step_unique merchant_step_moves moves_keyed unfolding registry_ok_def by blast

lemma merchant_run_ok: "(merchant_step env)\<^sup>*\<^sup>* s s' \<Longrightarrow> registry_ok s \<Longrightarrow> registry_ok s'"
  by (induction rule: rtranclp_induct) (auto dest: merchant_step_ok)

lemma resolveKey_Some:
  "resolveKey h clock s i = Inr (Some k) \<longleftrightarrow> map_get (keysByKid s) (rk_kid i) = Some k \<and> mk_merchantId k = rk_merchantId i \<and>
     mk_purpose k = (case rk_purpose i of None \<Rightarrow> Offer_receipt | Some p \<Rightarrow> p) \<and>
     isKeyValidAt h k (now_or (rk_at i) clock) = Inr True"
  by (auto simp: resolveKey_def err_simps split: option.splits)

lemma isKeyValidAt_Inr:
  "isKeyValidAt h k t = Inr True \<longleftrightarrow> dateParse h t \<noteq> None \<and> t \<noteq> [] \<and> last t = CHR ''Z'' \<and>
     \<not> date_less h t (mk_validFrom k) \<and> \<not> opt_ex (\<lambda>u. date_le h u t) (mk_validUntil k) \<and>
     \<not> opt_ex (\<lambda>u. date_le h u t) (mk_revokedAt k)"
  by (auto simp: isKeyValidAt_def assertUtcTimestamp_def err_simps)

section \<open>Properties\<close>

text \<open>A merchant and a service key, added to the empty registry.\<close>

definition toy_merchant_input :: create_merchant_input where
  "toy_merchant_input = \<lparr>cm_id = None, cm_slug = ''shop-1'', cm_displayName = ''Shop'',
     cm_ownerWallet = replicate 32 (CHR ''A''), cm_status = Some M_active\<rparr>"

definition toy_merchant :: merchant where
  "toy_merchant = \<lparr>mr_id = ''mrc_'' @ replicate 32 (CHR ''1''), mr_slug = ''shop-1'', mr_displayName = ''Shop'',
     mr_ownerWallet = replicate 32 (CHR ''A''), mr_status = M_active, mr_createdAt = ''Z'', mr_updatedAt = ''Z''\<rparr>"

definition toy_key :: merchant_key where
  "toy_key = \<lparr>mk_merchantId = ''mrc_'' @ replicate 32 (CHR ''1''), mk_kid = ''k1'', mk_algorithm = Ed25519,
     mk_publicKey = replicate 32 (CHR ''B''), mk_purpose = Offer_receipt, mk_validFrom = ''Z'', mk_validUntil = None,
     mk_revokedAt = None, mk_revocationReason = None, mk_createdAt = ''Z''\<rparr>"

definition toy_key_input :: add_key_input where
  "toy_key_input = \<lparr>ak_merchantId = ''mrc_'' @ replicate 32 (CHR ''1''), ak_kid = ''k1'',
     ak_publicKey = replicate 32 (CHR ''B''), ak_algorithm = None, ak_purpose = None, ak_validFrom = None, ak_validUntil = None\<rparr>"

definition toy_registry :: merchant_registry where
  "toy_registry = \<lparr>merchants = [(''mrc_'' @ replicate 32 (CHR ''1''), toy_merchant)],
     merchantIdBySlug = [(''shop-1'', ''mrc_'' @ replicate 32 (CHR ''1''))], originsByMerchantId = [],
     keysByKid = [(''k1'', toy_key)], payoutWalletsById = []\<rparr>"

definition toy_resolve :: "string \<Rightarrow> resolve_key_input" where
  "toy_resolve at' = \<lparr>rk_merchantId = ''mrc_'' @ replicate 32 (CHR ''1''), rk_kid = ''k1'', rk_purpose = None, rk_at = Some at'\<rparr>"

lemma toy_created:
  "createMerchant ''Z'' (''mrc_'' @ replicate 32 (CHR ''1'')) toy_merchant_input empty_merchants =
     Inr (toy_merchant, toy_registry\<lparr>keysByKid := []\<rparr>)"
  "addKey toy_host ''Z'' toy_key_input (toy_registry\<lparr>keysByKid := []\<rparr>) = Inr (toy_key, toy_registry)"
  by code_simp+

lemma toy_reached: "(merchant_step toy_env)\<^sup>*\<^sup>* empty_merchants toy_registry"
proof (rule rtranclp.rtrancl_into_rtrancl [OF r_into_rtranclp])
  show "merchant_step toy_env empty_merchants (toy_registry\<lparr>keysByKid := []\<rparr>)" by (rule merchant_created [OF toy_created(1)])
  show "merchant_step toy_env (toy_registry\<lparr>keysByKid := []\<rparr>) toy_registry"
    by (rule merchant_step.key_added [where env = toy_env, unfolded toy_env_host, OF toy_created(2)])
qed

text \<open>C27. The identities of the merchant registry hold: in every registry that can be reached, a slug
  belongs to one merchant, a payout wallet is registered once per merchant, network and asset, and
  later in any run a merchant keeps its slug and owner, a payout wallet keeps its address and stays
  retired once it is, and a service key keeps its merchant, its public key, its purpose and its window.\<close>

theorem merchant_identities:
  assumes "(merchant_step env)\<^sup>*\<^sup>* empty_merchants s" "(merchant_step env)\<^sup>*\<^sup>* s s'"
  shows "(\<forall>j k a b. map_get (merchants s) j = Some a \<and> map_get (merchants s) k = Some b \<and> mr_slug a = mr_slug b \<longrightarrow> j = k) \<and>
    (\<forall>j k a b. map_get (payoutWalletsById s) j = Some a \<and> map_get (payoutWalletsById s) k = Some b \<and> same_wallet a b \<longrightarrow> j = k) \<and>
    (\<forall>k m. map_get (merchants s) k = Some m \<longrightarrow> (\<exists>m'. map_get (merchants s') k = Some m' \<and>
       mr_slug m' = mr_slug m \<and> mr_ownerWallet m' = mr_ownerWallet m)) \<and>
    (\<forall>k w. map_get (payoutWalletsById s) k = Some w \<longrightarrow> (\<exists>w'. map_get (payoutWalletsById s') k = Some w' \<and>
       same_wallet w w' \<and> (mw_status w = W_retired \<longrightarrow> mw_status w' = W_retired))) \<and>
    (\<forall>k e. map_get (keysByKid s) k = Some e \<longrightarrow> (\<exists>e'. map_get (keysByKid s') k = Some e' \<and> (e' = e \<or> same_key e e')))"
proof -
  have ok: "registry_ok s" by (rule merchant_run_ok [OF assms(1) empty_registry_ok])
  then have "registry_keyed s" by (simp add: registry_ok_def)
  note L = merchant_run_lasts [OF assms(2) this, unfolded entries_last_def]
  note keys = L [THEN conjunct1] and wallets = L [THEN conjunct2, THEN conjunct1] and owners = L [THEN conjunct2, THEN conjunct2]
  have sl: "slugs_ok s" using ok by (simp add: registry_ok_def)
  have slug: "j = k" if h: "map_get (merchants s) j = Some a" "map_get (merchants s) k = Some b" "mr_slug a = mr_slug b" for j k a b
    using slugsD [OF sl h(1)] slugsD [OF sl h(2)] h(3) by simp
  have wal: "\<exists>w'. map_get (payoutWalletsById s') k = Some w' \<and> same_wallet w w' \<and> (mw_status w = W_retired \<longrightarrow> mw_status w' = W_retired)"
    if w: "map_get (payoutWalletsById s) k = Some w" for k w
  proof -
    obtain w' where "map_get (payoutWalletsById s') k = Some w'" "w' = w \<or> later_wallet w w'" using wallets w by blast
    then show ?thesis by (auto simp: later_wallet_def same_wallet_def)
  qed
  have own: "\<exists>m'. map_get (merchants s') k = Some m' \<and> mr_slug m' = mr_slug m \<and> mr_ownerWallet m' = mr_ownerWallet m"
    if m: "map_get (merchants s) k = Some m" for k m
  proof -
    obtain m' where "map_get (merchants s') k = Some m'" "m' = m \<or> same_merchant m m'" using owners m by blast
    then show ?thesis by (auto simp: same_merchant_def)
  qed
  have "wallets_ok s" using ok by (simp add: registry_ok_def)
  then have w1: "\<forall>j k a b. map_get (payoutWalletsById s) j = Some a \<and> map_get (payoutWalletsById s) k = Some b \<and> same_wallet a b \<longrightarrow> j = k"
    unfolding wallets_ok_def by blast
  show ?thesis
    by (intro conjI w1 keys) (use slug wal own in blast)+
qed

theorem merchant_identities_witness:
  "\<exists>e'. map_get (keysByKid toy_registry) ''k1'' = Some e' \<and> (e' = toy_key \<or> same_key toy_key e')"
proof -
  have "map_get (keysByKid toy_registry) ''k1'' = Some toy_key" by (simp add: toy_registry_def map_get_def)
  then show ?thesis using merchant_identities [OF toy_reached rtranclp.rtrancl_refl] by blast
qed

text \<open>C28. A service key resolves to one public key for ever: if the same key id resolves at two points of
  a run, for whatever purpose and time, both answers are the key of the same merchant and the same
  public key; the time asked for lies in the window the key was added with; and nothing resolves at or
  after the revocation that is on record.\<close>

theorem resolved_keys_never_change:
  assumes "(merchant_step env)\<^sup>*\<^sup>* empty_merchants s" "(merchant_step env)\<^sup>*\<^sup>* s s'"
    and "resolveKey h clock s i = Inr (Some k)" "resolveKey h clock' s' j = Inr (Some k')" "rk_kid j = rk_kid i"
  shows "mk_publicKey k' = mk_publicKey k \<and> rk_merchantId j = rk_merchantId i \<and> mk_purpose k' = mk_purpose k \<and>
    \<not> date_less h (now_or (rk_at j) clock') (mk_validFrom k) \<and>
    \<not> opt_ex (\<lambda>u. date_le h u (now_or (rk_at j) clock')) (mk_validUntil k) \<and>
    \<not> opt_ex (\<lambda>u. date_le h u (now_or (rk_at j) clock')) (mk_revokedAt k')"
proof -
  have "registry_keyed s" using merchant_run_ok [OF assms(1) empty_registry_ok] by (simp add: registry_ok_def)
  note L = merchant_run_lasts [OF assms(2) this]
  note k = assms(3) [unfolded resolveKey_Some] and k' = assms(4) [unfolded resolveKey_Some isKeyValidAt_Inr]
  obtain v where v: "map_get (keysByKid s') (rk_kid i) = Some v" "v = k \<or> same_key k v"
    using L k unfolding entries_last_def by blast
  have "v = k'" using v(1) k' assms(5) by simp
  then show ?thesis using v(2) k k' by (auto simp: same_key_def)
qed

lemma toy_resolves: "resolveKey toy_host ''Z'' toy_registry (toy_resolve ''ZZZ'') = Inr (Some toy_key)"
  by code_simp

theorem resolved_keys_never_change_witness:
  "\<not> date_less toy_host ''ZZZ'' (mk_validFrom toy_key)"
  using resolved_keys_never_change [OF toy_reached rtranclp.rtrancl_refl toy_resolves toy_resolves refl]
  by (simp add: toy_resolve_def now_or_def)

text \<open>A revocation is not final: \<open>revokeKey\<close> overwrites the time on record, so revoking a revoked key
  again with a later time lets it resolve again for the time in between.\<close>

theorem second_revocation_revives_key:
  "\<exists>s s1 s2 v1 v2. (merchant_step toy_env)\<^sup>*\<^sup>* empty_merchants s \<and>
     revokeKey toy_host ''Z'' (mk_merchantId toy_key) ''k1'' (Some ''ZZ'') None s = Inr (Some v1, s1) \<and>
     resolveKey toy_host ''Z'' s1 (toy_resolve ''ZZZ'') = Inr None \<and>
     revokeKey toy_host ''Z'' (mk_merchantId toy_key) ''k1'' (Some ''ZZZZ'') None s1 = Inr (Some v2, s2) \<and>
     resolveKey toy_host ''Z'' s2 (toy_resolve ''ZZZ'') = Inr (Some v2)"
proof -
  let ?v1 = "toy_key\<lparr>mk_revokedAt := Some ''ZZ''\<rparr>" and ?v2 = "toy_key\<lparr>mk_revokedAt := Some ''ZZZZ''\<rparr>"
  let ?s1 = "toy_registry\<lparr>keysByKid := [(''k1'', ?v1)]\<rparr>" and ?s2 = "toy_registry\<lparr>keysByKid := [(''k1'', ?v2)]\<rparr>"
  have "revokeKey toy_host ''Z'' (mk_merchantId toy_key) ''k1'' (Some ''ZZ'') None toy_registry = Inr (Some ?v1, ?s1)" by code_simp
  moreover have "resolveKey toy_host ''Z'' ?s1 (toy_resolve ''ZZZ'') = Inr None" by code_simp
  moreover have "revokeKey toy_host ''Z'' (mk_merchantId toy_key) ''k1'' (Some ''ZZZZ'') None ?s1 = Inr (Some ?v2, ?s2)" by code_simp
  moreover have "resolveKey toy_host ''Z'' ?s2 (toy_resolve ''ZZZ'') = Inr (Some ?v2)" by code_simp
  ultimately show ?thesis using toy_reached by blast
qed

end
