(* ===== verification/Campaigns.thy ===== *)
theory Campaigns
  imports Merchants
begin

text \<open>
  The in-memory campaign registry of \<^verbatim>\<open>packages/control-plane/src/campaigns.ts\<close>: campaigns and their
  numbered versions. The terms of a version are hashed and signed as a protocol object; a version
  becomes active with a signature of the merchant over its terms.
\<close>

section \<open>Records\<close>

datatype campaign_status = C_draft | C_active | C_paused | C_closed

record campaign_operation =
  op_operationId :: string
  op_method :: string
  op_pathTemplate :: string
  op_inputSchema :: "json option"

record campaign_terms =
  ct_protocolVersion :: string
  ct_campaignId :: string
  ct_campaignVersion :: int
  ct_merchantId :: string
  ct_resourceOrigin :: string
  ct_operations :: "campaign_operation list"
  ct_network :: string
  ct_asset :: string
  ct_requiredAmountAtomic :: string
  ct_payToWallet :: string
  ct_commissionBps :: int
  ct_protocolFeeBpsOfCommission :: int
  ct_commissionBase :: string
  ct_settlementMode :: string
  ct_attributionRequired :: bool
  ct_allowSelfReferral :: bool
  ct_payoutThresholdAtomic :: string
  ct_startsAt :: string
  ct_endsAt :: "string option"

record campaign_version =
  cv_campaignId :: string
  cv_version :: int
  cv_terms :: campaign_terms
  cv_termsHash :: string
  cv_signingBytesHex :: string
  cv_merchantKid :: "string option"
  cv_merchantSignature :: "string option"
  cv_activatedAt :: "string option"
  cv_createdAt :: string

record campaign =
  cg_id :: string
  cg_merchantId :: string
  cg_resourceOrigin :: string
  cg_status :: campaign_status
  cg_currentVersion :: int
  cg_createdAt :: string
  cg_updatedAt :: string

record campaign_profile =
  cp_campaign :: campaign
  cp_current :: campaign_version

record campaign_registry =
  campaigns :: "(string, campaign) js_map"
  versionsByCampaignId :: "(string, (int, campaign_version) js_map) js_map"

definition empty_campaigns :: campaign_registry where
  "empty_campaigns = \<lparr>campaigns = [], versionsByCampaignId = []\<rparr>"

text \<open>\<open>endsAt\<close> left out and \<open>endsAt: null\<close> are both \<open>None\<close>: the code maps either to \<open>null\<close>.\<close>

record terms_input =
  ci_resourceOrigin :: string
  ci_operations :: "campaign_operation list"
  ci_network :: string
  ci_asset :: string
  ci_requiredAmountAtomic :: string
  ci_payToWallet :: string
  ci_commissionBps :: int
  ci_protocolFeeBpsOfCommission :: "int option"
  ci_protocolFeeBps :: "int option"
  ci_commissionBase :: "string option"
  ci_attributionRequired :: "bool option"
  ci_allowSelfReferral :: "bool option"
  ci_payoutThresholdAtomic :: string
  ci_startsAt :: string
  ci_endsAt :: "string option"

section \<open>Validators\<close>

text \<open>\<open>toUpperCase\<close> below code unit 256: the sharp s becomes two letters; the letters above 127 never
  become one of A to Z, so the check that follows rejects them in either case.\<close>

definition upper_text :: "char \<Rightarrow> string" where
  "upper_text c = (if is_lower c then [char_of (code c - 32)] else if code c = 223 then ''SS'' else [c])"

definition is_upper :: "char \<Rightarrow> bool" where
  "is_upper c \<longleftrightarrow> 65 \<le> code c \<and> code c \<le> 90"

definition assertHttpMethod :: "string \<Rightarrow> registry_error + string" where
  "assertHttpMethod v = and_then (registryNonEmpty v ''method'') (\<lambda>m.
     let u = concat (map upper_text m)
     in if u \<noteq> [] \<and> list_all is_upper u then Inr u else Inl (Invalid ''method must be an HTTP method''))"

definition assertPathTemplate :: "string \<Rightarrow> registry_error + string" where
  "assertPathTemplate v = (if v = [] \<or> hd v \<noteq> CHR ''/'' then Inl (Invalid ''pathTemplate must start with /'')
     else registryNonEmpty v ''pathTemplate'')"

definition operation_step ::
  "campaign_operation \<Rightarrow> campaign_operation list \<Rightarrow> registry_error + campaign_operation list" where
  "operation_step op seen =
     and_then (registryNonEmpty (op_operationId op) ''operationId'') (\<lambda>oid.
     and_then (ensure (oid \<notin> set (map op_operationId seen)) (Invalid ''operationId values must be unique'')) (\<lambda>_.
     and_then (assertHttpMethod (op_method op)) (\<lambda>m.
     and_then (assertPathTemplate (op_pathTemplate op)) (\<lambda>p.
     Inr (seen @ [\<lparr>op_operationId = oid, op_method = m, op_pathTemplate = p,
       op_inputSchema = op_inputSchema op\<rparr>])))))"

definition assertCampaignOperations ::
  "campaign_operation list \<Rightarrow> registry_error + campaign_operation list" where
  "assertCampaignOperations ops =
     and_then (ensure (ops \<noteq> []) (Invalid ''operations must be a non-empty array'')) (\<lambda>_.
     fold_err operation_step ops [])"

definition assertAtomicAmount :: "string \<Rightarrow> string \<Rightarrow> registry_error + string" where
  "assertAtomicAmount v label =
     (if atomic_regex v then Inr v else Inl (Invalid (label @ '' must be an atomic amount'')))"

definition registryTimestamp :: "registry_env \<Rightarrow> string \<Rightarrow> string \<Rightarrow> registry_error + string" where
  "registryTimestamp env v label =
     (if utc_timestamp (rg_zod env) v then Inr v else Inl (Invalid (label @ '' must be UTC RFC3339'')))"

definition assertBasisPoints :: "int \<Rightarrow> string \<Rightarrow> registry_error + int" where
  "assertBasisPoints v label =
     (if v < 0 \<or> v > 10000 then Inl (Invalid (label @ '' must be 0-10000'')) else Inr v)"

definition readProtocolFeeBpsOfCommission :: "terms_input \<Rightarrow> registry_error + int" where
  "readProtocolFeeBpsOfCommission i =
     and_then (map_opt_err (\<lambda>v. assertBasisPoints v ''protocolFeeBpsOfCommission'') (ci_protocolFeeBpsOfCommission i)) (\<lambda>canonical.
     and_then (map_opt_err (\<lambda>v. assertBasisPoints v ''protocolFeeBps'') (ci_protocolFeeBps i)) (\<lambda>deprecated.
     if canonical \<noteq> None \<and> deprecated \<noteq> None \<and> canonical \<noteq> deprecated
     then Inl (Invalid ''protocolFeeBps and protocolFeeBpsOfCommission must match when both are provided'')
     else Inr (case canonical of Some n \<Rightarrow> n | None \<Rightarrow> (case deprecated of Some n \<Rightarrow> n | None \<Rightarrow> 0))))"

definition assertPositiveVersion :: "int \<Rightarrow> registry_error + int" where
  "assertPositiveVersion n = (if n \<le> 0 then Inl (Invalid ''version must be a positive integer'') else Inr n)"

definition assertListLimit :: "int \<Rightarrow> registry_error + int" where
  "assertListLimit n = (if n \<le> 0 \<or> n > 100 then Inl (Invalid ''limit must be an integer from 1 to 100'') else Inr n)"

definition assertCampaignRange :: "host \<Rightarrow> string \<Rightarrow> string option \<Rightarrow> registry_error + unit" where
  "assertCampaignRange h startsAt endsAt =
     ensure (opt_all (\<lambda>e. \<not> date_le h e startsAt) endsAt) (Invalid ''endsAt must be after startsAt'')"

definition assertCommissionBase :: "string \<Rightarrow> registry_error + unit" where
  "assertCommissionBase v = ensure (v = ''required_amount'') (Invalid ''commissionBase must be required_amount'')"

text \<open>The type of \<open>next\<close> leaves out the draft status; the code refuses it at run time.\<close>

definition assertCampaignStatusTransition :: "campaign_status \<Rightarrow> campaign_status \<Rightarrow> registry_error + unit" where
  "assertCampaignStatusTransition current next =
     (if next = C_closed then Inr ()
      else if next = C_paused then ensure (current = C_active) (Invalid ''only active campaigns can be paused'')
      else if next = C_active then ensure (current = C_paused)
        (Invalid ''only paused campaigns can be resumed; activate a signed campaign version instead'')
      else Inl (Invalid ''campaign status transition must be active, paused, or closed''))"

section \<open>Terms as a protocol object\<close>

definition operation_members :: "campaign_operation \<Rightarrow> (string \<times> json) list" where
  "operation_members op = [(''operationId'', JStr (op_operationId op)), (''method'', JStr (op_method op)),
     (''pathTemplate'', JStr (op_pathTemplate op)),
     (''inputSchema'', (case op_inputSchema op of None \<Rightarrow> JUndefined | Some v \<Rightarrow> v))]"

definition terms_members :: "campaign_terms \<Rightarrow> (string \<times> json) list" where
  "terms_members t = [(''protocolVersion'', JStr (ct_protocolVersion t)), (''campaignId'', JStr (ct_campaignId t)),
     (''campaignVersion'', json_int (ct_campaignVersion t)), (''merchantId'', JStr (ct_merchantId t)),
     (''resourceOrigin'', JStr (ct_resourceOrigin t)),
     (''operations'', JArr (map (\<lambda>op. JObj (operation_members op)) (ct_operations t))),
     (''network'', JStr (ct_network t)), (''asset'', JStr (ct_asset t)),
     (''requiredAmountAtomic'', JStr (ct_requiredAmountAtomic t)), (''payToWallet'', JStr (ct_payToWallet t)),
     (''commissionBps'', json_int (ct_commissionBps t)),
     (''protocolFeeBpsOfCommission'', json_int (ct_protocolFeeBpsOfCommission t)),
     (''commissionBase'', JStr (ct_commissionBase t)), (''settlementMode'', JStr (ct_settlementMode t)),
     (''attributionRequired'', JBool (ct_attributionRequired t)), (''allowSelfReferral'', JBool (ct_allowSelfReferral t)),
     (''payoutThresholdAtomic'', JStr (ct_payoutThresholdAtomic t)), (''startsAt'', JStr (ct_startsAt t)),
     (''endsAt'', (case ct_endsAt t of None \<Rightarrow> JNull | Some e \<Rightarrow> JStr e))]"

definition buildCampaignTermsSigningBytes :: "campaign_terms \<Rightarrow> string + bytes" where
  "buildCampaignTermsSigningBytes t =
     buildDomainSeparatedSigningBytes ''split402:campaign-terms:v1'' (JObj (terms_members t))"

definition verifyCampaignTermsSignature :: "ed25519 \<Rightarrow> campaign_terms \<Rightarrow> string \<Rightarrow> string \<Rightarrow> bool" where
  "verifyCampaignTermsSignature ed t merchantPublicKey merchantSignature =
     (case buildCampaignTermsSigningBytes t of Inl _ \<Rightarrow> False
      | Inr m \<Rightarrow> (case verifyEd25519Signature ed m merchantPublicKey merchantSignature of Inl _ \<Rightarrow> False | Inr b \<Rightarrow> b))"

definition thrown :: "string + 'a \<Rightarrow> registry_error + 'a" where
  "thrown r = map_sum Thrown id r"

text \<open>The terms the code builds. The validators of the other members return their argument.\<close>

definition terms_of_input ::
  "string \<Rightarrow> string \<Rightarrow> int \<Rightarrow> terms_input \<Rightarrow> campaign_operation list \<Rightarrow> int \<Rightarrow> campaign_terms" where
  "terms_of_input campaignId merchantId version i operations fee =
     \<lparr>ct_protocolVersion = ''0.1'', ct_campaignId = campaignId, ct_campaignVersion = version,
      ct_merchantId = merchantId, ct_resourceOrigin = ci_resourceOrigin i, ct_operations = operations,
      ct_network = ci_network i, ct_asset = ci_asset i, ct_requiredAmountAtomic = ci_requiredAmountAtomic i,
      ct_payToWallet = ci_payToWallet i, ct_commissionBps = ci_commissionBps i, ct_protocolFeeBpsOfCommission = fee,
      ct_commissionBase = now_or (ci_commissionBase i) ''required_amount'', ct_settlementMode = ''accrual'',
      ct_attributionRequired = (ci_attributionRequired i = Some True),
      ct_allowSelfReferral = (ci_allowSelfReferral i = Some True),
      ct_payoutThresholdAtomic = ci_payoutThresholdAtomic i, ct_startsAt = ci_startsAt i, ct_endsAt = ci_endsAt i\<rparr>"

definition createCampaignVersionRecord ::
  "registry_env \<Rightarrow> string \<Rightarrow> string \<Rightarrow> int \<Rightarrow> terms_input \<Rightarrow> string \<Rightarrow> registry_error + campaign_version" where
  "createCampaignVersionRecord env campaignId merchantId version i createdAt =
     and_then (assertPositiveVersion version) (\<lambda>_.
     and_then (assertUrlOrigin env (ci_resourceOrigin i) ''resourceOrigin'') (\<lambda>_.
     and_then (assertCampaignOperations (ci_operations i)) (\<lambda>operations.
     and_then (registryNonEmpty (ci_network i) ''network'') (\<lambda>_.
     and_then (assertBase58PublicKey (ci_asset i) ''asset'') (\<lambda>_.
     and_then (assertAtomicAmount (ci_requiredAmountAtomic i) ''requiredAmountAtomic'') (\<lambda>_.
     and_then (assertBase58PublicKey (ci_payToWallet i) ''payToWallet'') (\<lambda>_.
     and_then (assertBasisPoints (ci_commissionBps i) ''commissionBps'') (\<lambda>_.
     and_then (readProtocolFeeBpsOfCommission i) (\<lambda>fee.
     and_then (assertAtomicAmount (ci_payoutThresholdAtomic i) ''payoutThresholdAtomic'') (\<lambda>_.
     and_then (registryTimestamp env (ci_startsAt i) ''startsAt'') (\<lambda>_.
     and_then (map_opt_err (\<lambda>e. registryTimestamp env e ''endsAt'') (ci_endsAt i)) (\<lambda>_.
     let t = terms_of_input campaignId merchantId version i operations fee
     in and_then (assertCommissionBase (ct_commissionBase t)) (\<lambda>_.
        and_then (assertCampaignRange (rg_host env) (ct_startsAt t) (ct_endsAt t)) (\<lambda>_.
        and_then (thrown (hashProtocolObject (rg_sha256 env) (JObj (terms_members t)))) (\<lambda>hash.
        and_then (thrown (buildCampaignTermsSigningBytes t)) (\<lambda>bytes.
        Inr \<lparr>cv_campaignId = campaignId, cv_version = version, cv_terms = t, cv_termsHash = hash,
          cv_signingBytesHex = bytesToHex bytes, cv_merchantKid = None, cv_merchantSignature = None,
          cv_activatedAt = None, cv_createdAt = createdAt\<rparr>))))))))))))))))"

section \<open>Operations\<close>

record create_campaign_input =
  cc_id :: "string option"
  cc_merchantId :: string
  cc_terms :: terms_input

definition versions_of :: "campaign_registry \<Rightarrow> string \<Rightarrow> (int, campaign_version) js_map" where
  "versions_of s k = (case map_get (versionsByCampaignId s) k of None \<Rightarrow> [] | Some m \<Rightarrow> m)"

definition createCampaign ::
  "registry_env \<Rightarrow> string \<Rightarrow> string \<Rightarrow> create_campaign_input \<Rightarrow> campaign_registry \<Rightarrow>
     registry_error + campaign_profile \<times> campaign_registry" where
  "createCampaign env clock newId i s =
     and_then (registryId (now_or (cc_id i) newId) ''campaign id'') (\<lambda>campaignId.
     and_then (ensure (map_get (campaigns s) campaignId = None)
       (Conflicting (''campaign already exists: '' @ campaignId))) (\<lambda>_.
     and_then (registryId (cc_merchantId i) ''merchant id'') (\<lambda>merchantId.
     and_then (assertUrlOrigin env (ci_resourceOrigin (cc_terms i)) ''resourceOrigin'') (\<lambda>resourceOrigin.
     let c = \<lparr>cg_id = campaignId, cg_merchantId = merchantId, cg_resourceOrigin = resourceOrigin,
           cg_status = C_draft, cg_currentVersion = 1, cg_createdAt = clock, cg_updatedAt = clock\<rparr>
     in and_then (createCampaignVersionRecord env (cg_id c) (cg_merchantId c) 1 (cc_terms i) clock) (\<lambda>v.
        Inr (\<lparr>cp_campaign = c, cp_current = v\<rparr>,
          s\<lparr>campaigns := map_set (cg_id c) c (campaigns s),
            versionsByCampaignId := map_set (cg_id c) (map_set 1 v []) (versionsByCampaignId s)\<rparr>))))))"

definition profile_of :: "campaign_registry \<Rightarrow> campaign \<Rightarrow> registry_error + campaign_profile" where
  "profile_of s c = (case map_get (versions_of s (cg_id c)) (cg_currentVersion c) of
       None \<Rightarrow> Inl (Thrown (''missing current campaign version: '' @ cg_id c))
     | Some v \<Rightarrow> Inr \<lparr>cp_campaign = c, cp_current = v\<rparr>)"

definition getCampaign :: "campaign_registry \<Rightarrow> string \<Rightarrow> registry_error + campaign_profile option" where
  "getCampaign s k = (case map_get (campaigns s) k of
       None \<Rightarrow> Inr None
     | Some c \<Rightarrow> and_then (profile_of s c) (\<lambda>p. Inr (Some p)))"

definition compareCampaignsNewestFirst :: "host \<Rightarrow> campaign \<Rightarrow> campaign \<Rightarrow> int" where
  "compareCampaignsNewestFirst h l r =
     or_else (localeCompare h (cg_createdAt r) (cg_createdAt l)) (localeCompare h (cg_id r) (cg_id l))"

definition listMerchantCampaigns ::
  "host \<Rightarrow> string \<Rightarrow> campaign_status option \<Rightarrow> int option \<Rightarrow> campaign_registry \<Rightarrow> registry_error + campaign_profile list" where
  "listMerchantCampaigns h merchantId status limit s =
     and_then (registryId merchantId ''merchant id'') (\<lambda>mid.
     and_then (assertListLimit (case limit of None \<Rightarrow> 100 | Some n \<Rightarrow> n)) (\<lambda>n.
     map_err (profile_of s) (take (nat n) (sort_by (compareCampaignsNewestFirst h)
       (filter (\<lambda>c. opt_all (\<lambda>st. cg_status c = st) status)
         (filter (\<lambda>c. cg_merchantId c = mid) (map_values (campaigns s))))))))"

definition getCampaignVersion ::
  "campaign_registry \<Rightarrow> string \<Rightarrow> int \<Rightarrow> registry_error + campaign_version option" where
  "getCampaignVersion s k n = and_then (assertPositiveVersion n) (\<lambda>_. Inr (map_get (versions_of s k) n))"

definition createCampaignVersion ::
  "registry_env \<Rightarrow> string \<Rightarrow> string \<Rightarrow> terms_input \<Rightarrow> campaign_registry \<Rightarrow>
     registry_error + campaign_version \<times> campaign_registry" where
  "createCampaignVersion env clock campaignId i s = (case map_get (campaigns s) campaignId of
       None \<Rightarrow> Inl (Invalid (''unknown campaign: '' @ campaignId))
     | Some c \<Rightarrow>
        if cg_status c = C_closed then Inl (Invalid ''closed campaigns cannot be versioned'')
        else let nextVersion = cg_currentVersion c + 1 in
        and_then (createCampaignVersionRecord env (cg_id c) (cg_merchantId c) nextVersion i clock) (\<lambda>v.
        let versions = versions_of s (cg_id c) in
        and_then (ensure (\<not> list_ex (\<lambda>e. cv_termsHash e = cv_termsHash v) (map_values versions))
          (Conflicting ''campaign terms already exist'')) (\<lambda>_.
        Inr (v, s\<lparr>versionsByCampaignId := map_set (cg_id c) (map_set nextVersion v versions) (versionsByCampaignId s),
          campaigns := map_set (cg_id c) (c\<lparr>cg_resourceOrigin := ct_resourceOrigin (cv_terms v),
            cg_status := C_draft, cg_currentVersion := nextVersion, cg_updatedAt := clock\<rparr>) (campaigns s)\<rparr>))))"

record activate_input =
  ai_campaignId :: string
  ai_version :: "int option"
  ai_merchantKid :: string
  ai_merchantPublicKey :: string
  ai_merchantSignature :: string

definition activateCampaignVersion ::
  "registry_env \<Rightarrow> string \<Rightarrow> activate_input \<Rightarrow> campaign_registry \<Rightarrow>
     registry_error + campaign_profile \<times> campaign_registry" where
  "activateCampaignVersion env clock i s = (case map_get (campaigns s) (ai_campaignId i) of
       None \<Rightarrow> Inl (Invalid (''unknown campaign: '' @ ai_campaignId i))
     | Some c \<Rightarrow>
        if cg_status c = C_closed then Inl (Invalid ''closed campaigns cannot be activated'')
        else and_then (assertPositiveVersion (case ai_version i of None \<Rightarrow> cg_currentVersion c | Some n \<Rightarrow> n)) (\<lambda>n.
        if n \<noteq> cg_currentVersion c then Inl (Invalid ''only the current campaign version can be activated'')
        else case map_get (versions_of s (cg_id c)) n of
          None \<Rightarrow> Inl (Invalid (''unknown campaign version: '' @ ai_campaignId i @ '':'' @ show_int n))
        | Some v \<Rightarrow>
        and_then (registryNonEmpty (ai_merchantKid i) ''merchantKid'') (\<lambda>kid.
        and_then (assertBase58PublicKey (ai_merchantPublicKey i) ''merchantPublicKey'') (\<lambda>key.
        and_then (registryNonEmpty (ai_merchantSignature i) ''merchantSignature'') (\<lambda>signature.
        if cv_merchantKid v \<noteq> None \<or> cv_merchantSignature v \<noteq> None
        then if cv_merchantKid v = Some kid \<and> cv_merchantSignature v = Some signature
          then Inr (\<lparr>cp_campaign = c, cp_current = v\<rparr>, s)
          else Inl (Conflicting ''campaign version is already activated with a different signature'')
        else if \<not> verifyCampaignTermsSignature (rg_ed env) (cv_terms v) key signature
        then Inl (Invalid ''invalid campaign terms signature'')
        else let av = v\<lparr>cv_merchantKid := Some kid, cv_merchantSignature := Some signature, cv_activatedAt := Some clock\<rparr>;
                 ac = c\<lparr>cg_status := C_active, cg_updatedAt := clock\<rparr>
             in Inr (\<lparr>cp_campaign = ac, cp_current = av\<rparr>,
               s\<lparr>versionsByCampaignId := map_set (cg_id c) (map_set n av (versions_of s (cg_id c))) (versionsByCampaignId s),
                 campaigns := map_set (cg_id c) ac (campaigns s)\<rparr>))))))"

definition updateCampaignStatus ::
  "string \<Rightarrow> string \<Rightarrow> campaign_status \<Rightarrow> campaign_registry \<Rightarrow>
     registry_error + campaign_profile option \<times> campaign_registry" where
  "updateCampaignStatus clock campaignId status s = (case map_get (campaigns s) campaignId of
       None \<Rightarrow> Inr (None, s)
     | Some c \<Rightarrow> and_then (assertCampaignStatusTransition (cg_status c) status) (\<lambda>_.
         let s' = s\<lparr>campaigns := map_set (cg_id c) (c\<lparr>cg_status := status, cg_updatedAt := clock\<rparr>) (campaigns s)\<rparr>
         in and_then (getCampaign s' (cg_id c)) (\<lambda>p. Inr (p, s'))))"

section \<open>What a version record holds\<close>

definition operations_valid :: "campaign_operation list \<Rightarrow> bool" where
  "operations_valid ops \<longleftrightarrow> ops \<noteq> [] \<and> distinct (map op_operationId ops) \<and>
     (\<forall>op \<in> set ops. js_trim (op_operationId op) \<noteq> [] \<and> op_method op \<noteq> [] \<and> (\<forall>c \<in> set (op_method op). is_upper c) \<and>
        op_pathTemplate op \<noteq> [] \<and> hd (op_pathTemplate op) = CHR ''/'')"

definition terms_valid :: "registry_env \<Rightarrow> campaign_terms \<Rightarrow> bool" where
  "terms_valid env t \<longleftrightarrow> http_origin env (ct_resourceOrigin t) \<and> operations_valid (ct_operations t) \<and>
     js_trim (ct_network t) \<noteq> [] \<and> base58_regex (ct_asset t) \<and> base58_regex (ct_payToWallet t) \<and>
     atomic_regex (ct_requiredAmountAtomic t) \<and> atomic_regex (ct_payoutThresholdAtomic t) \<and>
     bps_range (ct_commissionBps t) \<and> bps_range (ct_protocolFeeBpsOfCommission t) \<and>
     ct_commissionBase t = ''required_amount'' \<and> ct_settlementMode t = ''accrual'' \<and> ct_protocolVersion t = ''0.1'' \<and>
     utc_timestamp (rg_zod env) (ct_startsAt t) \<and> opt_all (utc_timestamp (rg_zod env)) (ct_endsAt t) \<and>
     opt_all (\<lambda>e. \<not> date_le (rg_host env) e (ct_startsAt t)) (ct_endsAt t)"

lemma assertHttpMethod_Inr: "assertHttpMethod m = Inr u \<Longrightarrow> u \<noteq> [] \<and> (\<forall>c \<in> set u. is_upper c)"
  by (auto simp: assertHttpMethod_def Let_def err_simps registry_simps list_all_iff split: if_splits)

lemma assertPathTemplate_Inr: "assertPathTemplate p = Inr q \<Longrightarrow> q = p \<and> p \<noteq> [] \<and> hd p = CHR ''/''"
  by (auto simp: assertPathTemplate_def registry_simps split: if_splits)

lemma operations_loop:
  assumes "fold_err operation_step ops acc = Inr out" "acc \<noteq> [] \<longrightarrow> operations_valid acc" "ops \<noteq> [] \<or> acc \<noteq> []"
  shows "operations_valid out"
  using assms
proof (induction ops arbitrary: acc)
  case (Cons op ops)
  then obtain acc' where acc': "operation_step op acc = Inr acc'" "fold_err operation_step ops acc' = Inr out"
    by (auto simp: err_simps)
  from acc'(1) obtain m p where m: "assertHttpMethod (op_method op) = Inr m" "assertPathTemplate (op_pathTemplate op) = Inr p"
    and new: "js_trim (op_operationId op) \<noteq> []" "op_operationId op \<notin> set (map op_operationId acc)"
    and out: "acc' = acc @ [\<lparr>op_operationId = op_operationId op, op_method = m, op_pathTemplate = p, op_inputSchema = op_inputSchema op\<rparr>]"
    by (auto simp: operation_step_def err_simps registry_simps)
  have "operations_valid acc'"
    using Cons.prems(2) new assertHttpMethod_Inr [OF m(1)] assertPathTemplate_Inr [OF m(2)]
    by (cases "acc = []") (auto simp: operations_valid_def out)
  then show ?case using Cons.IH [OF acc'(2)] by (simp add: out)
qed simp

lemma assertCampaignOperations_Inr: "assertCampaignOperations ops = Inr out \<Longrightarrow> operations_valid out"
  using operations_loop [of ops "[]" out] by (auto simp: assertCampaignOperations_def err_simps)

lemma assertAtomicAmount_Inr [registry_simps]: "assertAtomicAmount v l = Inr w \<longleftrightarrow> atomic_regex v \<and> w = v"
  by (auto simp: assertAtomicAmount_def)

lemma registryTimestamp_Inr [registry_simps]: "registryTimestamp env v l = Inr w \<longleftrightarrow> utc_timestamp (rg_zod env) v \<and> w = v"
  by (auto simp: registryTimestamp_def)

lemma assertBasisPoints_Inr [registry_simps]: "assertBasisPoints v l = Inr w \<longleftrightarrow> bps_range v \<and> w = v"
  by (auto simp: assertBasisPoints_def bps_range_def)

lemma assertPositiveVersion_Inr [registry_simps]: "assertPositiveVersion n = Inr m \<longleftrightarrow> 0 < n \<and> m = n"
  by (auto simp: assertPositiveVersion_def)

lemma thrown_Inr [registry_simps]: "thrown r = Inr x \<longleftrightarrow> r = Inr x"
  by (cases r) (auto simp: thrown_def)

lemma readProtocolFee_Inr: "readProtocolFeeBpsOfCommission i = Inr n \<Longrightarrow> bps_range n"
  by (auto simp: readProtocolFeeBpsOfCommission_def err_simps registry_simps bps_range_def split: option.splits if_splits)

definition version_signed :: "ed25519 \<Rightarrow> campaign_version \<Rightarrow> bool" where
  "version_signed ed v \<longleftrightarrow> (\<exists>signature key. cv_merchantSignature v = Some signature \<and> base58_regex key \<and>
     verifyCampaignTermsSignature ed (cv_terms v) key signature)"

definition version_ok :: "registry_env \<Rightarrow> string \<Rightarrow> string \<Rightarrow> int \<Rightarrow> campaign_version \<Rightarrow> bool" where
  "version_ok env k mid n v \<longleftrightarrow> cv_campaignId v = k \<and> cv_version v = n \<and> ct_campaignId (cv_terms v) = k \<and>
     ct_campaignVersion (cv_terms v) = n \<and> ct_merchantId (cv_terms v) = mid \<and> terms_valid env (cv_terms v) \<and>
     hashProtocolObject (rg_sha256 env) (JObj (terms_members (cv_terms v))) = Inr (cv_termsHash v) \<and>
     (cv_merchantKid v = None \<longleftrightarrow> cv_merchantSignature v = None) \<and>
     (cv_merchantSignature v \<noteq> None \<longrightarrow> version_signed (rg_ed env) v)"

lemma createCampaignVersionRecord_facts:
  assumes "createCampaignVersionRecord env k mid n i clock = Inr v"
  shows "version_ok env k mid n v \<and> cv_merchantSignature v = None \<and> ct_resourceOrigin (cv_terms v) = ci_resourceOrigin i \<and> 0 < n"
proof -
  from assms obtain operations fee hash bytes where
    f: "0 < n" "http_origin env (ci_resourceOrigin i)" "assertCampaignOperations (ci_operations i) = Inr operations"
      "js_trim (ci_network i) \<noteq> []" "base58_regex (ci_asset i)" "atomic_regex (ci_requiredAmountAtomic i)"
      "base58_regex (ci_payToWallet i)" "bps_range (ci_commissionBps i)" "readProtocolFeeBpsOfCommission i = Inr fee"
      "atomic_regex (ci_payoutThresholdAtomic i)" "utc_timestamp (rg_zod env) (ci_startsAt i)"
      "\<exists>e. map_opt_err (\<lambda>e. registryTimestamp env e ''endsAt'') (ci_endsAt i) = Inr e"
    and g: "assertCommissionBase (ct_commissionBase (terms_of_input k mid n i operations fee)) = Inr ()"
      "assertCampaignRange (rg_host env) (ct_startsAt (terms_of_input k mid n i operations fee))
         (ct_endsAt (terms_of_input k mid n i operations fee)) = Inr ()"
      "hashProtocolObject (rg_sha256 env) (JObj (terms_members (terms_of_input k mid n i operations fee))) = Inr hash"
    and v: "v = \<lparr>cv_campaignId = k, cv_version = n, cv_terms = terms_of_input k mid n i operations fee, cv_termsHash = hash,
          cv_signingBytesHex = bytesToHex bytes, cv_merchantKid = None, cv_merchantSignature = None,
          cv_activatedAt = None, cv_createdAt = clock\<rparr>"
    by (auto simp: createCampaignVersionRecord_def Let_def and_then_Inr registry_simps)
  have "opt_all (utc_timestamp (rg_zod env)) (ci_endsAt i)"
    using f(12) by (cases "ci_endsAt i") (auto simp: and_then_Inr registry_simps)
  then have "terms_valid env (terms_of_input k mid n i operations fee)"
    using f(2-11) g(1,2) assertCampaignOperations_Inr [OF f(3)] readProtocolFee_Inr [OF f(9)]
    by (simp add: terms_valid_def terms_of_input_def assertCommissionBase_def assertCampaignRange_def ensure_Inr)
  then show ?thesis using f(1) g(3) by (simp add: version_ok_def v) (simp add: terms_of_input_def)
qed

section \<open>Steps\<close>

inductive campaign_step :: "registry_env \<Rightarrow> campaign_registry \<Rightarrow> campaign_registry \<Rightarrow> bool" for env where
  campaign_created: "createCampaign env clock newId i s = Inr (p, s') \<Longrightarrow> campaign_step env s s'"
| version_created: "createCampaignVersion env clock k ti s = Inr (v, s') \<Longrightarrow> campaign_step env s s'"
| version_activated: "activateCampaignVersion env clock a s = Inr (p, s') \<Longrightarrow> campaign_step env s s'"
| status_updated: "updateCampaignStatus clock k st s = Inr (q, s') \<Longrightarrow> campaign_step env s s'"

definition entry_ok :: "registry_env \<Rightarrow> string \<Rightarrow> campaign \<Rightarrow> (int, campaign_version) js_map \<Rightarrow> bool" where
  "entry_ok env k c vs \<longleftrightarrow> cg_id c = k \<and> 1 \<le> cg_currentVersion c \<and>
     (\<forall>n. map_get vs n \<noteq> None \<longleftrightarrow> 1 \<le> n \<and> n \<le> cg_currentVersion c) \<and>
     (\<forall>n v. map_get vs n = Some v \<longrightarrow> version_ok env k (cg_merchantId c) n v) \<and>
     (\<forall>v. map_get vs (cg_currentVersion c) = Some v \<longrightarrow> ct_resourceOrigin (cv_terms v) = cg_resourceOrigin c \<and>
        (cg_status c \<in> {C_active, C_paused} \<longrightarrow> cv_merchantSignature v \<noteq> None))"

definition campaigns_ok :: "registry_env \<Rightarrow> campaign_registry \<Rightarrow> bool" where
  "campaigns_ok env s \<longleftrightarrow> (\<forall>k c. map_get (campaigns s) k = Some c \<longrightarrow> entry_ok env k c (versions_of s k))"

definition same_version :: "campaign_version \<Rightarrow> campaign_version \<Rightarrow> bool" where
  "same_version a b \<longleftrightarrow> cv_terms b = cv_terms a \<and> cv_termsHash b = cv_termsHash a \<and> cv_version b = cv_version a \<and>
     (cv_merchantSignature a \<noteq> None \<longrightarrow> b = a)"

definition entry_later ::
  "campaign \<Rightarrow> (int, campaign_version) js_map \<Rightarrow> campaign \<Rightarrow> (int, campaign_version) js_map \<Rightarrow> bool" where
  "entry_later c vs c' vs' \<longleftrightarrow> cg_merchantId c' = cg_merchantId c \<and> cg_currentVersion c \<le> cg_currentVersion c' \<and>
     (cg_status c = C_closed \<longrightarrow> cg_status c' = C_closed \<and> vs' = vs \<and> cg_currentVersion c' = cg_currentVersion c) \<and>
     (\<forall>n v. map_get vs n = Some v \<longrightarrow> (\<exists>v'. map_get vs' n = Some v' \<and> same_version v v'))"

definition changes_one ::
  "registry_env \<Rightarrow> campaign_registry \<Rightarrow> campaign_registry \<Rightarrow> string \<Rightarrow> campaign \<Rightarrow> (int, campaign_version) js_map \<Rightarrow> bool" where
  "changes_one env s s' k c vs \<longleftrightarrow> campaigns s' = map_set k c (campaigns s) \<and>
     (\<forall>j. versions_of s' j = (if j = k then vs else versions_of s j)) \<and> entry_ok env k c vs \<and>
     (\<forall>c0. map_get (campaigns s) k = Some c0 \<longrightarrow> entry_later c0 (versions_of s k) c vs)"

lemma same_version_refl [simp]: "same_version v v"
  by (simp add: same_version_def)

lemma versions_put [simp]:
  "versions_of (s\<lparr>campaigns := cs\<rparr>) j = versions_of s j"
  "versions_of (s\<lparr>versionsByCampaignId := map_set k vs (versionsByCampaignId s)\<rparr>) j = (if j = k then vs else versions_of s j)"
  "versions_of (s\<lparr>campaigns := cs, versionsByCampaignId := map_set k vs (versionsByCampaignId s)\<rparr>) j = (if j = k then vs else versions_of s j)"
  "versions_of (s\<lparr>versionsByCampaignId := map_set k vs (versionsByCampaignId s), campaigns := cs\<rparr>) j = (if j = k then vs else versions_of s j)"
  by (simp_all add: versions_of_def)

lemma createCampaign_effect:
  assumes "createCampaign env clock newId i s = Inr (p, s')"
  shows "\<exists>k c vs. changes_one env s s' k c vs"
proof -
  from assms obtain k mid c v where k: "map_get (campaigns s) k = None"
    and c: "c = \<lparr>cg_id = k, cg_merchantId = mid, cg_resourceOrigin = ci_resourceOrigin (cc_terms i),
           cg_status = C_draft, cg_currentVersion = 1, cg_createdAt = clock, cg_updatedAt = clock\<rparr>"
    and v: "createCampaignVersionRecord env k mid 1 (cc_terms i) clock = Inr v"
    and s': "s' = s\<lparr>campaigns := map_set k c (campaigns s), versionsByCampaignId := map_set k (map_set 1 v []) (versionsByCampaignId s)\<rparr>"
    by (auto simp: createCampaign_def Let_def err_simps registry_simps)
  have "entry_ok env k c (map_set 1 v [])"
    using createCampaignVersionRecord_facts [OF v] by (auto simp: entry_ok_def c split: if_splits)
  then have "changes_one env s s' k c (map_set 1 v [])" using k by (simp add: changes_one_def s')
  then show ?thesis by blast
qed

lemma createVersion_effect:
  assumes "createCampaignVersion env clock k i s = Inr (v, s')" "campaigns_ok env s"
  shows "\<exists>c vs. changes_one env s s' k c vs"
proof -
  from assms(1) obtain c where c: "map_get (campaigns s) k = Some c" "cg_status c \<noteq> C_closed"
    and v: "createCampaignVersionRecord env (cg_id c) (cg_merchantId c) (cg_currentVersion c + 1) i clock = Inr v"
    and s': "s' = s\<lparr>versionsByCampaignId := map_set (cg_id c) (map_set (cg_currentVersion c + 1) v (versions_of s (cg_id c)))
          (versionsByCampaignId s),
          campaigns := map_set (cg_id c) (c\<lparr>cg_resourceOrigin := ct_resourceOrigin (cv_terms v),
            cg_status := C_draft, cg_currentVersion := cg_currentVersion c + 1, cg_updatedAt := clock\<rparr>) (campaigns s)\<rparr>"
    by (auto simp: createCampaignVersion_def Let_def err_simps split: option.splits if_splits)
  have e: "entry_ok env k c (versions_of s k)" using assms(2) c(1) by (simp add: campaigns_ok_def)
  then have k: "cg_id c = k" by (simp add: entry_ok_def)
  note f = createCampaignVersionRecord_facts [OF v]
  let ?vs = "map_set (cg_currentVersion c + 1) v (versions_of s k)"
  let ?c = "c\<lparr>cg_resourceOrigin := ct_resourceOrigin (cv_terms v), cg_status := C_draft,
     cg_currentVersion := cg_currentVersion c + 1, cg_updatedAt := clock\<rparr>"
  have dom: "map_get (versions_of s k) n \<noteq> None \<longleftrightarrow> 1 \<le> n \<and> n \<le> cg_currentVersion c" for n
    using e unfolding entry_ok_def by blast
  have "map_get ?vs n \<noteq> None \<longleftrightarrow> 1 \<le> n \<and> n \<le> cg_currentVersion c + 1" for n
    using dom [of n] f by (cases "n = cg_currentVersion c + 1") auto
  moreover have "version_ok env k (cg_merchantId c) n w" if "map_get ?vs n = Some w" for n w
    using that f e unfolding entry_ok_def k by (auto split: if_splits)
  ultimately have ok: "entry_ok env k ?c ?vs" using e k by (simp add: entry_ok_def)
  have "\<exists>w'. map_get ?vs n = Some w' \<and> same_version w w'" if "map_get (versions_of s k) n = Some w" for n w
    using that dom [of n] by auto
  then have "entry_later c (versions_of s k) ?c ?vs" using c(2) by (simp add: entry_later_def)
  then have "changes_one env s s' k ?c ?vs" using ok c(1) k by (simp add: changes_one_def s')
  then show ?thesis by blast
qed

lemma activate_effect:
  assumes "activateCampaignVersion env clock i s = Inr (p, s')" "campaigns_ok env s"
  shows "s' = s \<or> (\<exists>k c vs. changes_one env s s' k c vs)"
proof (cases "s' = s")
  case False
  with assms(1) obtain c n v where c: "map_get (campaigns s) (ai_campaignId i) = Some c" "cg_status c \<noteq> C_closed"
    and n: "n = cg_currentVersion c" and v: "map_get (versions_of s (cg_id c)) n = Some v"
      "cv_merchantKid v = None" "cv_merchantSignature v = None"
    and sig: "base58_regex (ai_merchantPublicKey i)"
      "verifyCampaignTermsSignature (rg_ed env) (cv_terms v) (ai_merchantPublicKey i) (ai_merchantSignature i)"
    and s': "s' = s\<lparr>versionsByCampaignId := map_set (cg_id c) (map_set n (v\<lparr>cv_merchantKid := Some (ai_merchantKid i),
          cv_merchantSignature := Some (ai_merchantSignature i), cv_activatedAt := Some clock\<rparr>) (versions_of s (cg_id c)))
          (versionsByCampaignId s),
        campaigns := map_set (cg_id c) (c\<lparr>cg_status := C_active, cg_updatedAt := clock\<rparr>) (campaigns s)\<rparr>"
    by (auto simp: activateCampaignVersion_def Let_def err_simps registry_simps split: option.splits if_splits)
  let ?k = "ai_campaignId i"
  let ?v = "v\<lparr>cv_merchantKid := Some (ai_merchantKid i), cv_merchantSignature := Some (ai_merchantSignature i), cv_activatedAt := Some clock\<rparr>"
  let ?vs = "map_set n ?v (versions_of s ?k)" and ?c = "c\<lparr>cg_status := C_active, cg_updatedAt := clock\<rparr>"
  have e: "entry_ok env ?k c (versions_of s ?k)" using assms(2) c(1) by (simp add: campaigns_ok_def)
  then have k: "cg_id c = ?k" by (simp add: entry_ok_def)
  have vk: "map_get (versions_of s ?k) n = Some v" using v(1) k by simp
  have "version_ok env ?k (cg_merchantId c) n v" using e vk unfolding entry_ok_def by blast
  then have "version_ok env ?k (cg_merchantId c) n ?v"
    using sig by (auto simp: version_ok_def version_signed_def)
  then have each: "version_ok env ?k (cg_merchantId c) m w" if "map_get ?vs m = Some w" for m w
    using that e unfolding entry_ok_def by (auto split: if_splits)
  have dom: "map_get ?vs m \<noteq> None \<longleftrightarrow> map_get (versions_of s ?k) m \<noteq> None" for m using vk by auto
  have org: "ct_resourceOrigin (cv_terms v) = cg_resourceOrigin c" using e vk n unfolding entry_ok_def by blast
  have ok: "entry_ok env ?k ?c ?vs" unfolding entry_ok_def
  proof (intro conjI allI impI)
    fix m show "map_get ?vs m \<noteq> None \<longleftrightarrow> 1 \<le> m \<and> m \<le> cg_currentVersion ?c"
      using dom [of m] e unfolding entry_ok_def by simp
  qed (use e k each org n in \<open>auto simp: entry_ok_def\<close>)
  have "same_version v ?v" using v(3) by (simp add: same_version_def)
  then have "\<exists>w'. map_get ?vs m = Some w' \<and> same_version w w'" if "map_get (versions_of s ?k) m = Some w" for m w
    using that vk by auto
  then have "entry_later c (versions_of s ?k) ?c ?vs" using c(2) by (simp add: entry_later_def)
  then have "changes_one env s s' ?k ?c ?vs" using ok c(1) k by (simp add: changes_one_def s')
  then show ?thesis by blast
qed simp

lemma status_effect:
  assumes "updateCampaignStatus clock k st s = Inr (q, s')" "campaigns_ok env s"
  shows "s' = s \<or> (\<exists>c vs. changes_one env s s' k c vs)"
proof (cases "s' = s")
  case False
  with assms(1) obtain c where c: "map_get (campaigns s) k = Some c"
    and tr: "assertCampaignStatusTransition (cg_status c) st = Inr ()"
    and s': "s' = s\<lparr>campaigns := map_set (cg_id c) (c\<lparr>cg_status := st, cg_updatedAt := clock\<rparr>) (campaigns s)\<rparr>"
    by (auto simp: updateCampaignStatus_def Let_def err_simps split: option.splits)
  let ?c = "c\<lparr>cg_status := st, cg_updatedAt := clock\<rparr>"
  have e: "entry_ok env k c (versions_of s k)" using assms(2) c by (simp add: campaigns_ok_def)
  have cases': "st = C_closed \<or> (st = C_paused \<and> cg_status c = C_active) \<or> (st = C_active \<and> cg_status c = C_paused)"
    using tr by (auto simp: assertCampaignStatusTransition_def err_simps split: if_splits)
  have ok: "entry_ok env k ?c (versions_of s k)" using e cases' by (auto simp: entry_ok_def)
  have "entry_later c (versions_of s k) ?c (versions_of s k)" using cases' by (auto simp: entry_later_def)
  then have "changes_one env s s' k ?c (versions_of s k)" using ok c e by (simp add: changes_one_def s' entry_ok_def)
  then show ?thesis by blast
qed simp

lemma campaign_step_effect:
  "campaign_step env s s' \<Longrightarrow> campaigns_ok env s \<Longrightarrow> s' = s \<or> (\<exists>k c vs. changes_one env s s' k c vs)"
  by (induction rule: campaign_step.induct) (blast dest: createCampaign_effect createVersion_effect activate_effect status_effect)+

lemma changes_ok: "changes_one env s s' k c vs \<Longrightarrow> campaigns_ok env s \<Longrightarrow> campaigns_ok env s'"
  by (auto simp: changes_one_def campaigns_ok_def)

lemma campaign_run_ok: "(campaign_step env)\<^sup>*\<^sup>* s s' \<Longrightarrow> campaigns_ok env s \<Longrightarrow> campaigns_ok env s'"
proof (induction rule: rtranclp_induct)
  case (step t u)
  then show ?case using campaign_step_effect [OF step.hyps(2)] changes_ok by blast
qed

lemma empty_campaigns_ok: "campaigns_ok env empty_campaigns"
  by (simp add: campaigns_ok_def empty_campaigns_def)

lemma same_version_trans: "same_version a b \<Longrightarrow> same_version b c \<Longrightarrow> same_version a c"
  by (auto simp: same_version_def)

lemma entry_later_refl: "entry_later c vs c vs"
  by (simp add: entry_later_def)

lemma entry_later_trans:
  assumes "entry_later a vs b ws" "entry_later b ws c xs"
  shows "entry_later a vs c xs"
proof -
  have "\<exists>z. map_get xs n = Some z \<and> same_version x z" if x: "map_get vs n = Some x" for n x
  proof -
    obtain y where y: "map_get ws n = Some y" "same_version x y" using assms(1) x unfolding entry_later_def by blast
    obtain z where "map_get xs n = Some z" "same_version y z" using assms(2) y(1) unfolding entry_later_def by blast
    then show ?thesis using same_version_trans y(2) by blast
  qed
  then show ?thesis using assms unfolding entry_later_def by auto
qed

lemma campaign_run_later:
  assumes "(campaign_step env)\<^sup>*\<^sup>* s s'" "campaigns_ok env s" "map_get (campaigns s) k = Some c"
  shows "\<exists>c'. map_get (campaigns s') k = Some c' \<and> entry_later c (versions_of s k) c' (versions_of s' k)"
  using assms(1)
proof (induction rule: rtranclp_induct)
  case base
  then show ?case using assms(3) entry_later_refl by blast
next
  case (step t u)
  then obtain c1 where c1: "map_get (campaigns t) k = Some c1" "entry_later c (versions_of s k) c1 (versions_of t k)" by blast
  have "u = t \<or> (\<exists>j d vs. changes_one env t u j d vs)"
    using campaign_step_effect [OF step.hyps(2) campaign_run_ok [OF step.hyps(1) assms(2)]] .
  then show ?case
  proof
    assume "u = t"
    then show ?thesis using c1 by blast
  next
    assume "\<exists>j d vs. changes_one env t u j d vs"
    then obtain j d vs where ch: "changes_one env t u j d vs" by blast
    show ?thesis
    proof (cases "k = j")
      case True
      then have "map_get (campaigns u) k = Some d" "versions_of u k = vs" "entry_later c1 (versions_of t k) d vs"
        using ch c1(1) by (auto simp: changes_one_def)
      then show ?thesis using entry_later_trans [OF c1(2)] by simp
    next
      case False
      then have "map_get (campaigns u) k = Some c1" "versions_of u k = versions_of t k"
        using ch c1(1) by (auto simp: changes_one_def)
      then show ?thesis using c1(2) by simp
    qed
  qed
qed

section \<open>Properties\<close>

text \<open>A campaign, created and then activated.\<close>

definition toy_terms_input :: terms_input where
  "toy_terms_input = \<lparr>ci_resourceOrigin = ''o'', ci_operations = [\<lparr>op_operationId = ''q'', op_method = ''get'',
       op_pathTemplate = ''/'', op_inputSchema = None\<rparr>],
     ci_network = ''n'', ci_asset = replicate 32 (CHR ''A''), ci_requiredAmountAtomic = ''1000'',
     ci_payToWallet = replicate 32 (CHR ''B''), ci_commissionBps = 100, ci_protocolFeeBpsOfCommission = None,
     ci_protocolFeeBps = None, ci_commissionBase = None, ci_attributionRequired = None, ci_allowSelfReferral = None,
     ci_payoutThresholdAtomic = ''1'', ci_startsAt = ''Z'', ci_endsAt = Some ''ZZ''\<rparr>"

definition toy_campaign_input :: create_campaign_input where
  "toy_campaign_input = \<lparr>cc_id = Some (''cmp_'' @ replicate 32 (CHR ''1'')), cc_merchantId = ''mrc_'' @ replicate 32 (CHR ''1''),
     cc_terms = toy_terms_input\<rparr>"

definition toy_terms :: campaign_terms where
  "toy_terms = terms_of_input (''cmp_'' @ replicate 32 (CHR ''1'')) (''mrc_'' @ replicate 32 (CHR ''1'')) 1 toy_terms_input
     [\<lparr>op_operationId = ''q'', op_method = ''GET'', op_pathTemplate = ''/'', op_inputSchema = None\<rparr>] 0"

definition toy_activation :: activate_input where
  "toy_activation = \<lparr>ai_campaignId = ''cmp_'' @ replicate 32 (CHR ''1''), ai_version = None, ai_merchantKid = ''k1'',
     ai_merchantPublicKey = replicate 31 (CHR ''1'') @ ''2'', ai_merchantSignature = base64UrlEncode (replicate 64 7)\<rparr>"

text \<open>The primitive accepts the terms of this campaign and nothing else.\<close>

definition campaign_env :: registry_env where
  "campaign_env = toy_env\<lparr>rg_ed := \<lparr>ed_sign = (\<lambda>k m. replicate 64 7), ed_spki = (\<lambda>k. []),
     ed_verify = (\<lambda>m k s. Some (buildCampaignTermsSigningBytes toy_terms = Inr m))\<rparr>\<rparr>"

lemma terms_serialise:
  assumes "\<forall>op \<in> set (ct_operations t). opt_all flat (op_inputSchema op)"
  shows "\<exists>x. serializeJson (JObj (terms_members t)) = Inr x"
proof -
  have op: "\<exists>x. serializeJson (JObj (operation_members op)) = Inr x" if "opt_all flat (op_inputSchema op)" for op
    using that by (intro flat_serialises) (auto simp: operation_members_def split: option.splits)
  have "\<exists>ss. map_err serializeJson (map (\<lambda>op. JObj (operation_members op)) ops) = Inr ss"
    if "\<forall>op \<in> set ops. opt_all flat (op_inputSchema op)" for ops
    using that by (induction ops) (use op in fastforce)+
  then have "\<exists>x. serializeJson (JArr (map (\<lambda>op. JObj (operation_members op)) (ct_operations t))) = Inr x"
    using assms by fastforce
  then show ?thesis by (intro flat_serialises) (simp add: terms_members_def split: option.splits)
qed

lemma terms_bytes_total:
  assumes "\<forall>op \<in> set (ct_operations t). opt_all flat (op_inputSchema op)"
  shows "\<exists>m. buildCampaignTermsSigningBytes t = Inr m"
    "\<exists>hash. hashProtocolObject sha (JObj (terms_members t)) = Inr hash"
  using terms_serialise [OF assms] by (auto simp: buildCampaignTermsSigningBytes_def buildDomainSeparatedSigningBytes_def
      hashProtocolObject_def canonicalizeToBytes_def canonicalizeProtocolObject_def)

definition toy_like :: "registry_env \<Rightarrow> bool" where
  "toy_like env \<longleftrightarrow> rg_url env = rg_url toy_env \<and> rg_zod env = any_zod \<and> rg_host env = toy_host"

lemma toy_like_checks:
  assumes "toy_like env"
  shows "assertUrlOrigin env v l = assertUrlOrigin toy_env v l" "registryTimestamp env v l = registryTimestamp toy_env v l"
    "rg_host env = toy_host"
  using assms by (simp_all add: toy_like_def assertUrlOrigin_def registryTimestamp_def toy_env_def)

lemma campaign_env_like: "toy_like campaign_env"
  by (simp add: toy_like_def campaign_env_def toy_env_def)

lemma toy_record:
  assumes "toy_like env"
  shows "\<exists>v. createCampaignVersionRecord env (''cmp_'' @ replicate 32 (CHR ''1'')) (''mrc_'' @ replicate 32 (CHR ''1'')) 1
    toy_terms_input ''Z'' = Inr v \<and> cv_terms v = toy_terms"
proof -
  note like = toy_like_checks [OF assms]
  have ops: "assertCampaignOperations (ci_operations toy_terms_input) =
      Inr [\<lparr>op_operationId = ''q'', op_method = ''GET'', op_pathTemplate = ''/'', op_inputSchema = None\<rparr>]" by code_simp
  have fee: "readProtocolFeeBpsOfCommission toy_terms_input = Inr 0" by code_simp
  have v0: "assertUrlOrigin env (ci_resourceOrigin toy_terms_input) ''resourceOrigin'' = Inr ''o''" unfolding like by code_simp
  have v1: "registryNonEmpty (ci_network toy_terms_input) ''network'' = Inr ''n''" by code_simp
  have v2: "assertBase58PublicKey (ci_asset toy_terms_input) ''asset'' = Inr (ci_asset toy_terms_input)" by code_simp
  have v3: "assertAtomicAmount (ci_requiredAmountAtomic toy_terms_input) ''requiredAmountAtomic'' = Inr ''1000''" by code_simp
  have v4: "assertBase58PublicKey (ci_payToWallet toy_terms_input) ''payToWallet'' = Inr (ci_payToWallet toy_terms_input)" by code_simp
  have v5: "assertBasisPoints (ci_commissionBps toy_terms_input) ''commissionBps'' = Inr 100" by code_simp
  have v6: "assertAtomicAmount (ci_payoutThresholdAtomic toy_terms_input) ''payoutThresholdAtomic'' = Inr ''1''" by code_simp
  have v7: "registryTimestamp env (ci_startsAt toy_terms_input) ''startsAt'' = Inr ''Z''" unfolding like by code_simp
  have v8: "map_opt_err (\<lambda>e. registryTimestamp env e ''endsAt'') (ci_endsAt toy_terms_input) = Inr (Some ''ZZ'')" unfolding like by code_simp
  have v9: "assertCommissionBase (ct_commissionBase toy_terms) = Inr ()" by code_simp
  have v10: "assertCampaignRange (rg_host env) (ct_startsAt toy_terms) (ct_endsAt toy_terms) = Inr ()" unfolding like by code_simp
  have flat: "\<forall>op \<in> set (ct_operations toy_terms). opt_all flat (op_inputSchema op)"
    by (simp add: toy_terms_def terms_of_input_def)
  obtain m hash where "buildCampaignTermsSigningBytes toy_terms = Inr m"
    "hashProtocolObject (rg_sha256 env) (JObj (terms_members toy_terms)) = Inr hash"
    using terms_bytes_total [OF flat] by blast
  with ops fee v0 v1 v2 v3 v4 v5 v6 v7 v8 v9 v10 show ?thesis by (simp add: createCampaignVersionRecord_def assertPositiveVersion_def toy_terms_def thrown_def)
qed

lemma toy_terms_origin: "ci_resourceOrigin toy_terms_input = ''o''"
  by (simp add: toy_terms_input_def)

lemma toy_verifies: "verifyCampaignTermsSignature (rg_ed campaign_env) toy_terms (ai_merchantPublicKey toy_activation) (ai_merchantSignature toy_activation)"
proof -
  obtain m where m: "buildCampaignTermsSigningBytes toy_terms = Inr m"
    using terms_bytes_total(1) [of toy_terms] by (auto simp: toy_terms_def terms_of_input_def)
  have "isl (base58Decode (ai_merchantPublicKey toy_activation)) = False \<and>
     length (projr (base58Decode (ai_merchantPublicKey toy_activation))) = 32" by code_simp
  then have "\<exists>kb. base58Decode (ai_merchantPublicKey toy_activation) = Inr kb \<and> length kb = 32"
    by (cases "base58Decode (ai_merchantPublicKey toy_activation)") simp_all
  moreover have "base64UrlDecode (ai_merchantSignature toy_activation) = Inr (replicate 64 7)"
    unfolding toy_activation_def activate_input.simps by (rule base64url_decode_encode)
  ultimately show ?thesis
    by (auto simp: verifyCampaignTermsSignature_def m verifyEd25519Signature_def assertByteLength_def campaign_env_def)
qed

lemma toy_campaign_runs:
  assumes "toy_like env"
    "verifyCampaignTermsSignature (rg_ed env) toy_terms (ai_merchantPublicKey toy_activation) (ai_merchantSignature toy_activation)"
  shows "\<exists>s c v. (campaign_step env)\<^sup>*\<^sup>* empty_campaigns s \<and> map_get (campaigns s) (''cmp_'' @ replicate 32 (CHR ''1'')) = Some c \<and>
     cg_status c = C_active \<and> cg_currentVersion c = 1 \<and> cg_merchantId c = ''mrc_'' @ replicate 32 (CHR ''1'') \<and>
     map_get (versions_of s (''cmp_'' @ replicate 32 (CHR ''1''))) 1 = Some v \<and> cv_terms v = toy_terms"
proof -
  note like = toy_like_checks [OF assms(1)]
  let ?k = "''cmp_'' @ replicate 32 (CHR ''1'')" and ?m = "''mrc_'' @ replicate 32 (CHR ''1'')"
  obtain v where v: "createCampaignVersionRecord env ?k ?m 1 toy_terms_input ''Z'' = Inr v" "cv_terms v = toy_terms"
    using toy_record [OF assms(1)] by blast
  have unsigned: "cv_merchantSignature v = None" "cv_merchantKid v = None"
    using createCampaignVersionRecord_facts [OF v(1)] by (simp_all add: version_ok_def)
  let ?c = "\<lparr>cg_id = ?k, cg_merchantId = ?m, cg_resourceOrigin = ''o'', cg_status = C_draft, cg_currentVersion = 1,
     cg_createdAt = ''Z'', cg_updatedAt = ''Z''\<rparr>"
  let ?s = "\<lparr>campaigns = [(?k, ?c)], versionsByCampaignId = [(?k, [(1, v)])]\<rparr>"
  have ids: "registryId ?k ''campaign id'' = Inr ?k" "registryId ?m ''merchant id'' = Inr ?m" by code_simp+
  have org: "assertUrlOrigin env ''o'' ''resourceOrigin'' = Inr ''o''" unfolding like by code_simp
  have "createCampaign env ''Z'' [] toy_campaign_input empty_campaigns = Inr (\<lparr>cp_campaign = ?c, cp_current = v\<rparr>, ?s)"
    using ids org v(1) by (simp add: createCampaign_def toy_campaign_input_def now_or_def empty_campaigns_def
        map_get_def map_set_def toy_terms_origin Let_def del: append.simps)
  then have one: "campaign_step env empty_campaigns ?s" by (rule campaign_created)
  have texts: "registryNonEmpty (ai_merchantKid toy_activation) ''merchantKid'' = Inr (ai_merchantKid toy_activation)"
    "assertBase58PublicKey (ai_merchantPublicKey toy_activation) ''merchantPublicKey'' = Inr (ai_merchantPublicKey toy_activation)"
    "registryNonEmpty (ai_merchantSignature toy_activation) ''merchantSignature'' = Inr (ai_merchantSignature toy_activation)" by code_simp+
  have "\<exists>p s. activateCampaignVersion env ''Z'' toy_activation ?s = Inr (p, s) \<and>
     campaigns s = map_set ?k (?c\<lparr>cg_status := C_active\<rparr>) [(?k, ?c)] \<and>
     (\<exists>w. map_get (versions_of s ?k) 1 = Some w \<and> cv_terms w = toy_terms)"
    using texts assms(2) unsigned v(2)
    by (simp add: activateCampaignVersion_def assertPositiveVersion_def versions_of_def map_get_def Let_def)
      (simp add: toy_activation_def map_set_def)
  then obtain p s w where s: "activateCampaignVersion env ''Z'' toy_activation ?s = Inr (p, s)"
    "campaigns s = map_set ?k (?c\<lparr>cg_status := C_active\<rparr>) [(?k, ?c)]"
    "map_get (versions_of s ?k) 1 = Some w" "cv_terms w = toy_terms" by blast
  have "(campaign_step env)\<^sup>*\<^sup>* empty_campaigns s"
    using one version_activated [OF s(1)] by (meson r_into_rtranclp rtranclp.rtrancl_into_rtrancl)
  moreover have "map_get (campaigns s) ?k = Some (?c\<lparr>cg_status := C_active\<rparr>)" by (simp add: s(2))
  ultimately show ?thesis
    by (intro exI [of _ s] exI [of _ "?c\<lparr>cg_status := C_active\<rparr>"] exI [of _ w]) (simp add: s(3,4) del: append.simps)
qed

lemmas toy_campaign_active = toy_campaign_runs [OF campaign_env_like toy_verifies]

text \<open>C29. The terms of a campaign are fixed and signed: in every registry that can be reached a campaign
  has exactly the versions from one to the current one, the current version can be read, its terms are
  those of this campaign, version and merchant, keep every rule of the validators, and are the ones
  that were hashed; and when the campaign is active or paused, the version carries a signature that
  some public key verifies over exactly these terms.\<close>

theorem active_campaign_terms_are_signed:
  assumes "(campaign_step env)\<^sup>*\<^sup>* empty_campaigns s" "map_get (campaigns s) k = Some c"
  shows "(\<forall>n. map_get (versions_of s k) n \<noteq> None \<longleftrightarrow> 1 \<le> n \<and> n \<le> cg_currentVersion c) \<and>
    (\<exists>v. getCampaign s k = Inr (Some \<lparr>cp_campaign = c, cp_current = v\<rparr>) \<and>
       ct_campaignId (cv_terms v) = k \<and> ct_campaignVersion (cv_terms v) = cg_currentVersion c \<and>
       ct_merchantId (cv_terms v) = cg_merchantId c \<and> ct_resourceOrigin (cv_terms v) = cg_resourceOrigin c \<and>
       terms_valid env (cv_terms v) \<and>
       hashProtocolObject (rg_sha256 env) (JObj (terms_members (cv_terms v))) = Inr (cv_termsHash v) \<and>
       (cg_status c \<in> {C_active, C_paused} \<longrightarrow> (\<exists>signature key. cv_merchantSignature v = Some signature \<and>
          base58_regex key \<and> verifyCampaignTermsSignature (rg_ed env) (cv_terms v) key signature)))"
proof -
  have e: "entry_ok env k c (versions_of s k)"
    using campaign_run_ok [OF assms(1) empty_campaigns_ok] assms(2) by (simp add: campaigns_ok_def)
  then have dom: "map_get (versions_of s k) n \<noteq> None \<longleftrightarrow> 1 \<le> n \<and> n \<le> cg_currentVersion c" for n
    unfolding entry_ok_def by blast
  have "1 \<le> cg_currentVersion c" "cg_id c = k" using e by (simp_all add: entry_ok_def)
  then obtain v where v: "map_get (versions_of s k) (cg_currentVersion c) = Some v" using dom by fastforce
  have g: "getCampaign s k = Inr (Some \<lparr>cp_campaign = c, cp_current = v\<rparr>)"
    using assms(2) v \<open>cg_id c = k\<close> by (simp add: getCampaign_def profile_of_def)
  have ok: "version_ok env k (cg_merchantId c) (cg_currentVersion c) v" using e v unfolding entry_ok_def by blast
  have cur: "ct_resourceOrigin (cv_terms v) = cg_resourceOrigin c"
    "cg_status c \<in> {C_active, C_paused} \<longrightarrow> cv_merchantSignature v \<noteq> None" using e v unfolding entry_ok_def by blast+
  show ?thesis
    by (intro conjI allI dom exI [of _ v] g) (use ok cur in \<open>auto simp: version_ok_def version_signed_def\<close>)
qed

theorem active_campaign_terms_are_signed_witness:
  "\<exists>s c v signature key. map_get (campaigns s) (''cmp_'' @ replicate 32 (CHR ''1'')) = Some c \<and> cg_status c = C_active \<and>
     getCampaign s (''cmp_'' @ replicate 32 (CHR ''1'')) = Inr (Some \<lparr>cp_campaign = c, cp_current = v\<rparr>) \<and>
     verifyCampaignTermsSignature (rg_ed campaign_env) (cv_terms v) key signature"
proof -
  obtain s c where s: "(campaign_step campaign_env)\<^sup>*\<^sup>* empty_campaigns s"
    "map_get (campaigns s) (''cmp_'' @ replicate 32 (CHR ''1'')) = Some c" "cg_status c = C_active"
    using toy_campaign_active by blast
  from active_campaign_terms_are_signed [OF s(1,2)] s(2,3) show ?thesis by blast
qed

text \<open>C30. Campaign terms never change: later in any run every version of a campaign is still there with
  the same terms and hash, a signed version is the same in every member, the version number never goes
  back, the merchant stays, and a closed campaign stays closed with the versions it had.\<close>

theorem campaign_terms_never_change:
  assumes "(campaign_step env)\<^sup>*\<^sup>* empty_campaigns s" "(campaign_step env)\<^sup>*\<^sup>* s s'" "map_get (campaigns s) k = Some c"
  shows "\<exists>c'. map_get (campaigns s') k = Some c' \<and> cg_merchantId c' = cg_merchantId c \<and>
    cg_currentVersion c \<le> cg_currentVersion c' \<and>
    (cg_status c = C_closed \<longrightarrow> cg_status c' = C_closed \<and> versions_of s' k = versions_of s k) \<and>
    (\<forall>n v. getCampaignVersion s k n = Inr (Some v) \<longrightarrow> (\<exists>v'. getCampaignVersion s' k n = Inr (Some v') \<and>
       cv_terms v' = cv_terms v \<and> cv_termsHash v' = cv_termsHash v \<and> (cv_merchantSignature v \<noteq> None \<longrightarrow> v' = v)))"
proof -
  obtain c' where c': "map_get (campaigns s') k = Some c'" "entry_later c (versions_of s k) c' (versions_of s' k)"
    using campaign_run_later [OF assms(2) campaign_run_ok [OF assms(1) empty_campaigns_ok] assms(3)] by blast
  have "\<exists>v'. getCampaignVersion s' k n = Inr (Some v') \<and> cv_terms v' = cv_terms v \<and> cv_termsHash v' = cv_termsHash v \<and>
      (cv_merchantSignature v \<noteq> None \<longrightarrow> v' = v)" if "getCampaignVersion s k n = Inr (Some v)" for n v
  proof -
    have n: "0 < n" "map_get (versions_of s k) n = Some v"
      using that by (auto simp: getCampaignVersion_def err_simps registry_simps)
    obtain v' where "map_get (versions_of s' k) n = Some v'" "same_version v v'"
      using c'(2) n(2) unfolding entry_later_def by blast
    then show ?thesis using n(1) by (simp add: getCampaignVersion_def assertPositiveVersion_def same_version_def)
  qed
  moreover have "cg_merchantId c' = cg_merchantId c" "cg_currentVersion c \<le> cg_currentVersion c'"
    "cg_status c = C_closed \<longrightarrow> cg_status c' = C_closed \<and> versions_of s' k = versions_of s k"
    using c'(2) unfolding entry_later_def by blast+
  ultimately show ?thesis using c'(1) by blast
qed

theorem campaign_terms_never_change_witness:
  "\<exists>(s :: campaign_registry) c c'. map_get (campaigns s) (''cmp_'' @ replicate 32 (CHR ''1'')) = Some c \<and> cg_currentVersion c = 1 \<and>
     map_get (campaigns s) (''cmp_'' @ replicate 32 (CHR ''1'')) = Some c' \<and> cg_currentVersion c \<le> cg_currentVersion c'"
proof -
  obtain s c where s: "(campaign_step campaign_env)\<^sup>*\<^sup>* empty_campaigns s"
    "map_get (campaigns s) (''cmp_'' @ replicate 32 (CHR ''1'')) = Some c" "cg_currentVersion c = 1"
    using toy_campaign_active by blast
  from campaign_terms_never_change [OF s(1) rtranclp.rtrancl_refl s(2)] obtain c' where
    "map_get (campaigns s) (''cmp_'' @ replicate 32 (CHR ''1'')) = Some c'" "cg_currentVersion c \<le> cg_currentVersion c'" by blast
  with s(2,3) show ?thesis by blast
qed

end
