(* ===== verification/Routes.thy ===== *)
theory Routes
  imports Campaigns
begin

text \<open>
  The in-memory route registry of \<^verbatim>\<open>packages/control-plane/src/routes.ts\<close>. A route is activated by a referral
  claim its referrer signed; rotating the payout wallet appends a version with a further signed claim.
  The clock, the id and the nonce factories are arguments, and so are the texts of the schema's issues.
  Copies (\<open>cloneRoute\<close>, \<open>cloneClaim\<close>) are kept where they can change the value: a scope that starts with
  the wildcard is copied as the wildcard alone.
\<close>

section \<open>Records\<close>

datatype route_status = R_active | R_suspended | R_expired | R_revoked

record unsigned_claim =
  uc_version :: string
  uc_routeId :: string
  uc_campaignId :: string
  uc_campaignVersionMin :: int
  uc_referrerWallet :: string
  uc_payoutWallet :: string
  uc_resourceOrigin :: string
  uc_operationIds :: "string list"
  uc_issuedAt :: string
  uc_expiresAt :: string
  uc_nonce :: string
  uc_metadataHash :: "string option"

record route_draft =
  rd_routeId :: string
  rd_claim :: unsigned_claim
  rd_signingBytesHex :: string
  rd_unsignedClaimHash :: string

record route =
  rt_id :: string
  rt_currentVersion :: int
  rt_campaignId :: string
  rt_campaignVersionMin :: int
  rt_referrerWallet :: string
  rt_payoutWallet :: string
  rt_resourceOrigin :: string
  rt_operationIds :: "string list"
  rt_claimHash :: string
  rt_claim :: referral_claim
  rt_signingBytesHex :: string
  rt_status :: route_status
  rt_issuedAt :: string
  rt_expiresAt :: string
  rt_nonce :: string
  rt_metadataHash :: "string option"
  rt_createdAt :: string
  rt_activatedAt :: string

record route_version =
  rv_routeId :: string
  rv_version :: int
  rv_campaignVersionMin :: int
  rv_payoutWallet :: string
  rv_claimHash :: string
  rv_claim :: referral_claim
  rv_signingBytesHex :: string
  rv_issuedAt :: string
  rv_expiresAt :: string
  rv_nonce :: string
  rv_metadataHash :: "string option"
  rv_createdAt :: string

record route_registry =
  routesById :: "(string, route) js_map"
  routeIdByClaimHash :: "(string, string) js_map"
  versionsByRouteId :: "(string, route_version list) js_map"

definition empty_routes :: route_registry where
  "empty_routes = \<lparr>routesById = [], routeIdByClaimHash = [], versionsByRouteId = []\<rparr>"

record draft_input =
  di_id :: "string option"
  di_campaignId :: string
  di_campaignVersionMin :: int
  di_referrerWallet :: string
  di_payoutWallet :: string
  di_resourceOrigin :: string
  di_operationIds :: "string list"
  di_issuedAt :: "string option"
  di_expiresAt :: string
  di_nonce :: "string option"
  di_metadataHash :: "string option"

record search_input =
  si_campaignId :: "string option"
  si_referrerWallet :: "string option"
  si_resourceOrigin :: "string option"
  si_operationId :: "string option"
  si_status :: "route_status option"
  si_limit :: "int option"

record route_search =
  rs_campaignId :: "string option"
  rs_referrerWallet :: "string option"
  rs_resourceOrigin :: "string option"
  rs_operationId :: "string option"
  rs_status :: route_status
  rs_limit :: int
  rs_now :: string

section \<open>Validators\<close>

definition assertSha256Hash :: "string \<Rightarrow> string \<Rightarrow> registry_error + string" where
  "assertSha256Hash v label = (if sha256_regex v then Inr v else Inl (Invalid (label @ '' must be a sha256 hash'')))"

definition routeTimestamp :: "registry_env \<Rightarrow> string \<Rightarrow> string \<Rightarrow> registry_error + string" where
  "routeTimestamp env v label =
     (if utc_timestamp (rg_zod env) v then Inr v else Inl (Invalid (label @ '' must be UTC RFC3339'')))"

definition routePositiveInteger :: "int \<Rightarrow> string \<Rightarrow> registry_error + int" where
  "routePositiveInteger n label = (if n \<le> 0 then Inl (Invalid (label @ '' must be a positive integer'')) else Inr n)"

definition assertNonce :: "string \<Rightarrow> registry_error + string" where
  "assertNonce v = (if length v < 16 \<or> length v > 128 then Inl (Invalid ''nonce must be 16-128 characters'') else Inr v)"

definition scope_step :: "string \<Rightarrow> string list \<Rightarrow> registry_error + string list" where
  "scope_step operationId seen =
     (if js_trim operationId = [] then Inl (Invalid ''operationIds entries must be non-empty strings'')
      else if operationId \<in> set seen then Inl (Invalid ''operationIds entries must be unique'')
      else Inr (seen @ [operationId]))"

definition assertOperationScope :: "string list \<Rightarrow> registry_error + string list" where
  "assertOperationScope scope =
     (if scope = [] then Inl (Invalid ''operationIds must be a non-empty array'')
      else if ''*'' \<in> set scope
      then if length scope \<noteq> 1 \<or> hd scope \<noteq> ''*'' then Inl (Invalid ''operationIds wildcard must be the only scope entry'')
        else Inr [''*'']
      else fold_err scope_step scope [])"

definition assertOperationId :: "string \<Rightarrow> registry_error + string" where
  "assertOperationId v = (if js_trim v = [] then Inl (Invalid ''operationId must be a non-empty string'') else Inr v)"

definition assertRouteRange :: "host \<Rightarrow> string \<Rightarrow> string \<Rightarrow> registry_error + unit" where
  "assertRouteRange h issuedAt expiresAt =
     ensure (\<not> date_le h expiresAt issuedAt) (Invalid ''expiresAt must be after issuedAt'')"

definition cloneOperationScope :: "string list \<Rightarrow> string list" where
  "cloneOperationScope scope = (case scope of x # _ \<Rightarrow> if x = ''*'' then [''*''] else scope | [] \<Rightarrow> [])"

definition cloneClaim :: "referral_claim \<Rightarrow> referral_claim" where
  "cloneClaim c = c\<lparr>cl_operationIds := cloneOperationScope (cl_operationIds c)\<rparr>"

definition cloneRoute :: "route \<Rightarrow> route" where
  "cloneRoute r = r\<lparr>rt_operationIds := cloneOperationScope (rt_operationIds r), rt_claim := cloneClaim (rt_claim r)\<rparr>"

definition cloneRouteVersion :: "route_version \<Rightarrow> route_version" where
  "cloneRouteVersion v = v\<lparr>rv_claim := cloneClaim (rv_claim v)\<rparr>"

definition parseVerifiedRouteClaim ::
  "registry_env \<Rightarrow> (referral_claim \<Rightarrow> string list) \<Rightarrow> referral_claim \<Rightarrow> registry_error + referral_claim" where
  "parseVerifiedRouteClaim env issues c =
     (if \<not> claim_schema (rg_zod env) c then Inl (Invalid (join ''; '' (issues c)))
      else case verifyReferralClaimSignature (rg_ed env) c of
        Inl e \<Rightarrow> Inl (Thrown e)
      | Inr v \<Rightarrow> if \<not> vr_ok v then Inl (Invalid (join ''; '' (vr_errors v))) else Inr c)"

definition createRouteVersionRecord :: "route \<Rightarrow> referral_claim \<Rightarrow> int \<Rightarrow> string \<Rightarrow> route_version" where
  "createRouteVersionRecord r c version createdAt =
     \<lparr>rv_routeId = rt_id r, rv_version = version, rv_campaignVersionMin = cl_campaignVersionMin c,
      rv_payoutWallet = cl_payoutWallet c, rv_claimHash = rt_claimHash r, rv_claim = cloneClaim c,
      rv_signingBytesHex = rt_signingBytesHex r, rv_issuedAt = cl_issuedAt c, rv_expiresAt = cl_expiresAt c,
      rv_nonce = cl_nonce c, rv_metadataHash = cl_metadataHash c, rv_createdAt = createdAt\<rparr>"

definition operationScopesEqual :: "string list \<Rightarrow> string list \<Rightarrow> bool" where
  "operationScopesEqual l r \<longleftrightarrow> length l = length r \<and> list_all2 (=) l r"

definition assertRoutePayoutRotation :: "route \<Rightarrow> referral_claim \<Rightarrow> registry_error + unit" where
  "assertRoutePayoutRotation r c =
     (if cl_routeId c \<noteq> rt_id r then Inl (Invalid ''rotated claim routeId must match route'')
      else if cl_campaignId c \<noteq> rt_campaignId r then Inl (Invalid ''rotated claim campaignId must match route'')
      else if cl_campaignVersionMin c \<noteq> rt_campaignVersionMin r
      then Inl (Invalid ''rotated claim campaignVersionMin must match route'')
      else if cl_referrerWallet c \<noteq> rt_referrerWallet r then Inl (Invalid ''rotated claim referrerWallet must match route'')
      else if cl_resourceOrigin c \<noteq> rt_resourceOrigin r then Inl (Invalid ''rotated claim resourceOrigin must match route'')
      else if \<not> operationScopesEqual (cl_operationIds c) (rt_operationIds r)
      then Inl (Invalid ''rotated claim operationIds must match route'')
      else Inr ())"

section \<open>Operations\<close>

definition unsigned_members :: "unsigned_claim \<Rightarrow> (string \<times> json) list" where
  "unsigned_members u = [(''version'', JStr (uc_version u)), (''routeId'', JStr (uc_routeId u)),
     (''campaignId'', JStr (uc_campaignId u)), (''campaignVersionMin'', json_int (uc_campaignVersionMin u)),
     (''referrerWallet'', JStr (uc_referrerWallet u)), (''payoutWallet'', JStr (uc_payoutWallet u)),
     (''resourceOrigin'', JStr (uc_resourceOrigin u)), (''operationIds'', JArr (map JStr (uc_operationIds u))),
     (''issuedAt'', JStr (uc_issuedAt u)), (''expiresAt'', JStr (uc_expiresAt u)), (''nonce'', JStr (uc_nonce u)),
     (''metadataHash'', jopt (uc_metadataHash u))]"

definition createRouteDraft ::
  "registry_env \<Rightarrow> string \<Rightarrow> string \<Rightarrow> string \<Rightarrow> draft_input \<Rightarrow> registry_error + route_draft" where
  "createRouteDraft env clock newId newNonce i =
     and_then (routeTimestamp env (now_or (di_issuedAt i) clock) ''issuedAt'') (\<lambda>issuedAt.
     and_then (routeTimestamp env (di_expiresAt i) ''expiresAt'') (\<lambda>expiresAt.
     and_then (assertRouteRange (rg_host env) issuedAt expiresAt) (\<lambda>_.
     and_then (registryId (now_or (di_id i) newId) ''route id'') (\<lambda>routeId.
     and_then (registryId (di_campaignId i) ''campaign id'') (\<lambda>campaignId.
     and_then (routePositiveInteger (di_campaignVersionMin i) ''campaignVersionMin'') (\<lambda>versionMin.
     and_then (assertBase58PublicKey (di_referrerWallet i) ''referrerWallet'') (\<lambda>referrerWallet.
     and_then (assertBase58PublicKey (di_payoutWallet i) ''payoutWallet'') (\<lambda>payoutWallet.
     and_then (assertUrlOrigin env (di_resourceOrigin i) ''resourceOrigin'') (\<lambda>resourceOrigin.
     and_then (assertOperationScope (di_operationIds i)) (\<lambda>operationIds.
     and_then (assertNonce (now_or (di_nonce i) newNonce)) (\<lambda>nonce.
     and_then (map_opt_err (\<lambda>h. assertSha256Hash h ''metadataHash'') (di_metadataHash i)) (\<lambda>metadataHash.
     let c = \<lparr>uc_version = ''1'', uc_routeId = routeId, uc_campaignId = campaignId, uc_campaignVersionMin = versionMin,
           uc_referrerWallet = referrerWallet, uc_payoutWallet = payoutWallet, uc_resourceOrigin = resourceOrigin,
           uc_operationIds = operationIds, uc_issuedAt = issuedAt, uc_expiresAt = expiresAt, uc_nonce = nonce,
           uc_metadataHash = metadataHash\<rparr>
     in and_then (thrown (buildDomainSeparatedSigningBytes ''split402:referral-claim:v1'' (JObj (unsigned_members c)))) (\<lambda>bytes.
        and_then (thrown (hashProtocolObject (rg_sha256 env) (JObj (unsigned_members c)))) (\<lambda>hash.
        Inr \<lparr>rd_routeId = uc_routeId c, rd_claim = c, rd_signingBytesHex = bytesToHex bytes,
          rd_unsignedClaimHash = hash\<rparr>))))))))))))))"

definition route_of_claim :: "referral_claim \<Rightarrow> string \<Rightarrow> string \<Rightarrow> string \<Rightarrow> route" where
  "route_of_claim c claimHash signingBytesHex now =
     \<lparr>rt_id = cl_routeId c, rt_currentVersion = 1, rt_campaignId = cl_campaignId c,
      rt_campaignVersionMin = cl_campaignVersionMin c, rt_referrerWallet = cl_referrerWallet c,
      rt_payoutWallet = cl_payoutWallet c, rt_resourceOrigin = cl_resourceOrigin c,
      rt_operationIds = cloneOperationScope (cl_operationIds c), rt_claimHash = claimHash, rt_claim = cloneClaim c,
      rt_signingBytesHex = signingBytesHex, rt_status = R_active, rt_issuedAt = cl_issuedAt c,
      rt_expiresAt = cl_expiresAt c, rt_nonce = cl_nonce c, rt_metadataHash = cl_metadataHash c,
      rt_createdAt = now, rt_activatedAt = now\<rparr>"

definition put_route :: "string \<Rightarrow> string \<Rightarrow> route \<Rightarrow> route_version list \<Rightarrow> route_registry \<Rightarrow> route_registry" where
  "put_route k claimHash r versions s = s\<lparr>routesById := map_set k r (routesById s),
     routeIdByClaimHash := map_set claimHash k (routeIdByClaimHash s),
     versionsByRouteId := map_set k versions (versionsByRouteId s)\<rparr>"

text \<open>\<open>checkedAt\<close> and \<open>now\<close> are the two readings of the clock.\<close>

definition activateRoute ::
  "registry_env \<Rightarrow> (referral_claim \<Rightarrow> string list) \<Rightarrow> string \<Rightarrow> string \<Rightarrow> referral_claim \<Rightarrow> route_registry \<Rightarrow>
     registry_error + route \<times> route_registry" where
  "activateRoute env issues checkedAt now claim s =
     and_then (parseVerifiedRouteClaim env issues claim) (\<lambda>c.
     and_then (assertRouteRange (rg_host env) (cl_issuedAt c) (cl_expiresAt c)) (\<lambda>_.
     and_then (ensure (\<not> date_le (rg_host env) (cl_expiresAt c) checkedAt) (Invalid ''route claim is expired'')) (\<lambda>_.
     and_then (thrown (hashProtocolObject (rg_sha256 env) (JObj (claim_members c)))) (\<lambda>claimHash.
     case Option.bind (map_get (routeIdByClaimHash s) claimHash) (map_get (routesById s)) of
       Some existing \<Rightarrow> Inr (cloneRoute existing, s)
     | None \<Rightarrow>
       and_then (ensure (map_get (routesById s) (cl_routeId c) = None)
         (Conflicting (''route already exists: '' @ cl_routeId c))) (\<lambda>_.
       and_then (thrown (buildReferralClaimSigningBytes c)) (\<lambda>bytes.
       let r = route_of_claim c claimHash (bytesToHex bytes) now;
           v = createRouteVersionRecord r c 1 now
       in Inr (cloneRoute r, put_route (rt_id r) (rt_claimHash r) r [v] s)))))))"

definition getRoute :: "route_registry \<Rightarrow> string \<Rightarrow> route option" where
  "getRoute s routeId = map_option cloneRoute (map_get (routesById s) routeId)"

definition route_versions :: "route_registry \<Rightarrow> string \<Rightarrow> route_version list" where
  "route_versions s k = (case map_get (versionsByRouteId s) k of None \<Rightarrow> [] | Some vs \<Rightarrow> vs)"

definition listRouteVersions :: "route_registry \<Rightarrow> string \<Rightarrow> registry_error + route_version list" where
  "listRouteVersions s routeId =
     and_then (registryId routeId ''route id'') (\<lambda>_. Inr (map cloneRouteVersion (route_versions s routeId)))"

definition rotated_route :: "route \<Rightarrow> referral_claim \<Rightarrow> string \<Rightarrow> string \<Rightarrow> route" where
  "rotated_route r c claimHash signingBytesHex =
     r\<lparr>rt_currentVersion := rt_currentVersion r + 1, rt_campaignVersionMin := cl_campaignVersionMin c,
       rt_payoutWallet := cl_payoutWallet c, rt_claimHash := claimHash, rt_claim := cloneClaim c,
       rt_signingBytesHex := signingBytesHex, rt_issuedAt := cl_issuedAt c, rt_expiresAt := cl_expiresAt c,
       rt_nonce := cl_nonce c, rt_metadataHash := cl_metadataHash c\<rparr>"

fun route_status_text :: "route_status \<Rightarrow> string" where
  "route_status_text R_active = ''active''"
| "route_status_text R_suspended = ''suspended''"
| "route_status_text R_expired = ''expired''"
| "route_status_text R_revoked = ''revoked''"

definition rotateRoutePayout ::
  "registry_env \<Rightarrow> (referral_claim \<Rightarrow> string list) \<Rightarrow> string \<Rightarrow> string \<Rightarrow> string \<Rightarrow> referral_claim \<Rightarrow> route_registry \<Rightarrow>
     registry_error + route \<times> route_registry" where
  "rotateRoutePayout env issues checkedAt now routeId claim s =
     and_then (registryId routeId ''route id'') (\<lambda>k.
     case map_get (routesById s) k of
       None \<Rightarrow> Inl (Invalid (''unknown route: '' @ k))
     | Some existing \<Rightarrow>
       and_then (ensure (rt_status existing = R_active)
         (Invalid (''route must be active to rotate payout; current status is '' @ route_status_text (rt_status existing)))) (\<lambda>_.
       and_then (parseVerifiedRouteClaim env issues claim) (\<lambda>c.
       and_then (assertRoutePayoutRotation existing c) (\<lambda>_.
       and_then (assertRouteRange (rg_host env) (cl_issuedAt c) (cl_expiresAt c)) (\<lambda>_.
       and_then (ensure (\<not> date_le (rg_host env) (cl_expiresAt c) checkedAt) (Invalid ''route claim is expired'')) (\<lambda>_.
       and_then (thrown (hashProtocolObject (rg_sha256 env) (JObj (claim_members c)))) (\<lambda>claimHash.
       and_then (ensure (map_get (routeIdByClaimHash s) claimHash \<in> {None, Some k})
         (Conflicting (''route claim already exists for another route: '' @ the (map_get (routeIdByClaimHash s) claimHash)))) (\<lambda>_.
       if list_ex (\<lambda>v. rv_claimHash v = claimHash) (route_versions s k) then Inr (cloneRoute existing, s)
       else if claimHash = rt_claimHash existing then Inr (cloneRoute existing, s)
       else and_then (thrown (buildReferralClaimSigningBytes c)) (\<lambda>bytes.
         let r = rotated_route existing c claimHash (bytesToHex bytes);
             v = createRouteVersionRecord r c (rt_currentVersion existing + 1) now
         in Inr (cloneRoute r, put_route k claimHash r (route_versions s k @ [v]) s))))))))))"

definition suspendRoute :: "string \<Rightarrow> route_registry \<Rightarrow> registry_error + route option \<times> route_registry" where
  "suspendRoute routeId s = and_then (registryId routeId ''route id'') (\<lambda>k.
     case map_get (routesById s) k of
       None \<Rightarrow> Inr (None, s)
     | Some r \<Rightarrow>
       if rt_status r = R_suspended then Inr (Some (cloneRoute r), s)
       else and_then (ensure (rt_status r = R_active)
         (Invalid (''route must be active to suspend; current status is '' @ route_status_text (rt_status r)))) (\<lambda>_.
         let r' = r\<lparr>rt_status := R_suspended\<rparr>
         in Inr (Some (cloneRoute r'), s\<lparr>routesById := map_set (rt_id r') r' (routesById s)\<rparr>)))"

definition resumeRoute :: "string \<Rightarrow> route_registry \<Rightarrow> registry_error + route option \<times> route_registry" where
  "resumeRoute routeId s = and_then (registryId routeId ''route id'') (\<lambda>k.
     case map_get (routesById s) k of
       None \<Rightarrow> Inr (None, s)
     | Some r \<Rightarrow>
       if rt_status r = R_active then Inr (Some (cloneRoute r), s)
       else and_then (ensure (rt_status r = R_suspended)
         (Invalid (''route must be suspended to resume; current status is '' @ route_status_text (rt_status r)))) (\<lambda>_.
         let r' = r\<lparr>rt_status := R_active\<rparr>
         in Inr (Some (cloneRoute r'), s\<lparr>routesById := map_set (rt_id r') r' (routesById s)\<rparr>)))"

definition normalizeRouteSearchInput :: "registry_env \<Rightarrow> search_input \<Rightarrow> string \<Rightarrow> registry_error + route_search" where
  "normalizeRouteSearchInput env i now =
     (let limit = (case si_limit i of None \<Rightarrow> 50 | Some n \<Rightarrow> n) in
     if limit \<le> 0 \<or> limit > 100 then Inl (Invalid ''limit must be an integer from 1 to 100'')
     else and_then (map_opt_err (\<lambda>v. registryId v ''campaignId'') (si_campaignId i)) (\<lambda>campaignId.
     and_then (map_opt_err (\<lambda>v. assertBase58PublicKey v ''referrerWallet'') (si_referrerWallet i)) (\<lambda>referrerWallet.
     and_then (map_opt_err (\<lambda>v. assertUrlOrigin env v ''resourceOrigin'') (si_resourceOrigin i)) (\<lambda>resourceOrigin.
     and_then (map_opt_err assertOperationId (si_operationId i)) (\<lambda>operationId.
     and_then (routeTimestamp env now ''now'') (\<lambda>n.
     Inr \<lparr>rs_campaignId = campaignId, rs_referrerWallet = referrerWallet, rs_resourceOrigin = resourceOrigin,
       rs_operationId = operationId, rs_status = (case si_status i of None \<Rightarrow> R_active | Some st \<Rightarrow> st),
       rs_limit = limit, rs_now = n\<rparr>))))))"

definition searchCoversOperation :: "string list \<Rightarrow> string \<Rightarrow> bool" where
  "searchCoversOperation operationIds operationId \<longleftrightarrow>
     (operationIds \<noteq> [] \<and> hd operationIds = ''*'') \<or> list_ex (\<lambda>item. item = operationId) operationIds"

definition routeMatchesSearch :: "host \<Rightarrow> route \<Rightarrow> route_search \<Rightarrow> bool" where
  "routeMatchesSearch h r q \<longleftrightarrow> rt_status r = rs_status q \<and>
     \<not> (rs_status q = R_active \<and> date_le h (rt_expiresAt r) (rs_now q)) \<and>
     opt_all (\<lambda>v. rt_campaignId r = v) (rs_campaignId q) \<and>
     opt_all (\<lambda>v. rt_referrerWallet r = v) (rs_referrerWallet q) \<and>
     opt_all (\<lambda>v. rt_resourceOrigin r = v) (rs_resourceOrigin q) \<and>
     opt_all (\<lambda>v. searchCoversOperation (rt_operationIds r) v) (rs_operationId q)"

text \<open>\<open>NaN !== 0\<close>, and the sort takes \<open>NaN\<close> for equal.\<close>

definition compareRoutesNewestFirst :: "host \<Rightarrow> route \<Rightarrow> route \<Rightarrow> int" where
  "compareRoutesNewestFirst h l r = (case (dateParse h (rt_createdAt r), dateParse h (rt_createdAt l)) of
       (Some x, Some y) \<Rightarrow> if x - y \<noteq> 0 then x - y else localeCompare h (rt_id r) (rt_id l)
     | _ \<Rightarrow> 0)"

definition searchRoutes :: "registry_env \<Rightarrow> string \<Rightarrow> search_input \<Rightarrow> route_registry \<Rightarrow> registry_error + route list" where
  "searchRoutes env now i s = and_then (normalizeRouteSearchInput env i now) (\<lambda>q.
     Inr (map cloneRoute (take (nat (rs_limit q)) (sort_by (compareRoutesNewestFirst (rg_host env))
       (filter (\<lambda>r. routeMatchesSearch (rg_host env) r q) (map_values (routesById s)))))))"

section \<open>Invariant\<close>

inductive route_step :: "registry_env \<Rightarrow> (referral_claim \<Rightarrow> string list) \<Rightarrow> route_registry \<Rightarrow> route_registry \<Rightarrow> bool" for env issues where
  route_activated: "activateRoute env issues t now c s = Inr (r, s') \<Longrightarrow> route_step env issues s s'"
| payout_rotated: "rotateRoutePayout env issues t now k c s = Inr (r, s') \<Longrightarrow> route_step env issues s s'"
| route_suspended: "suspendRoute k s = Inr (q, s') \<Longrightarrow> route_step env issues s s'"
| route_resumed: "resumeRoute k s = Inr (q, s') \<Longrightarrow> route_step env issues s s'"

text \<open>A claim that passed the checks and backs a version of a route.\<close>

definition claim_verified :: "registry_env \<Rightarrow> referral_claim \<Rightarrow> bool" where
  "claim_verified env c \<longleftrightarrow> claim_schema (rg_zod env) c \<and> sg_publicKey (cl_signature c) = cl_referrerWallet c \<and>
     claim_signed_by (rg_ed env) (cl_referrerWallet c) c \<and> \<not> date_le (rg_host env) (cl_expiresAt c) (cl_issuedAt c)"

definition claim_backs :: "registry_env \<Rightarrow> route \<Rightarrow> route_version \<Rightarrow> referral_claim \<Rightarrow> bool" where
  "claim_backs env r v c \<longleftrightarrow> claim_verified env c \<and>
     cl_routeId c = rt_id r \<and> cl_campaignId c = rt_campaignId r \<and> cl_campaignVersionMin c = rt_campaignVersionMin r \<and>
     cl_referrerWallet c = rt_referrerWallet r \<and> cl_resourceOrigin c = rt_resourceOrigin r \<and>
     cloneOperationScope (cl_operationIds c) = rt_operationIds r \<and>
     hashProtocolObject (rg_sha256 env) (JObj (claim_members c)) = Inr (rv_claimHash v) \<and>
     rv_claim v = cloneClaim c \<and> rv_payoutWallet v = cl_payoutWallet c \<and>
     rv_campaignVersionMin v = cl_campaignVersionMin c \<and> rv_issuedAt v = cl_issuedAt c \<and> rv_expiresAt v = cl_expiresAt c"

definition current_of :: "route \<Rightarrow> route_version \<Rightarrow> bool" where
  "current_of r v \<longleftrightarrow> rt_claimHash r = rv_claimHash v \<and> rt_claim r = rv_claim v \<and> rt_payoutWallet r = rv_payoutWallet v \<and>
     rt_issuedAt r = rv_issuedAt v \<and> rt_expiresAt r = rv_expiresAt v"

definition route_ok :: "registry_env \<Rightarrow> string \<Rightarrow> route \<Rightarrow> route_version list \<Rightarrow> bool" where
  "route_ok env k r vs \<longleftrightarrow> rt_id r = k \<and> id_regex k \<and> vs \<noteq> [] \<and> rt_currentVersion r = int (length vs) \<and>
     map rv_version vs = map int [1..<Suc (length vs)] \<and> distinct (map rv_claimHash vs) \<and> current_of r (last vs) \<and>
     rt_status r \<in> {R_active, R_suspended} \<and>
     (\<forall>v \<in> set vs. rv_routeId v = k \<and> (\<exists>c. claim_backs env r v c))"

definition claim_hashes :: "route_registry \<Rightarrow> string \<Rightarrow> string set" where
  "claim_hashes s k = rv_claimHash ` set (route_versions s k)"

definition routes_ok :: "registry_env \<Rightarrow> route_registry \<Rightarrow> bool" where
  "routes_ok env s \<longleftrightarrow> (\<forall>k r. map_get (routesById s) k = Some r \<longrightarrow> route_ok env k r (route_versions s k)) \<and>
     (\<forall>h k. map_get (routeIdByClaimHash s) h = Some k \<longleftrightarrow> map_get (routesById s) k \<noteq> None \<and> h \<in> claim_hashes s k)"

definition same_route :: "route \<Rightarrow> route \<Rightarrow> bool" where
  "same_route a b \<longleftrightarrow> rt_id b = rt_id a \<and> rt_campaignId b = rt_campaignId a \<and>
     rt_campaignVersionMin b = rt_campaignVersionMin a \<and> rt_referrerWallet b = rt_referrerWallet a \<and>
     rt_resourceOrigin b = rt_resourceOrigin a \<and> rt_operationIds b = rt_operationIds a \<and>
     rt_createdAt b = rt_createdAt a \<and> rt_activatedAt b = rt_activatedAt a"

definition versions_before :: "route_registry \<Rightarrow> string \<Rightarrow> route_version list" where
  "versions_before s k = (if map_get (routesById s) k = None then [] else route_versions s k)"

definition changes_route ::
  "registry_env \<Rightarrow> route_registry \<Rightarrow> route_registry \<Rightarrow> string \<Rightarrow> route \<Rightarrow> route_version list \<Rightarrow> bool" where
  "changes_route env s s' k r new \<longleftrightarrow> routesById s' = map_set k r (routesById s) \<and>
     (\<forall>j. route_versions s' j = (if j = k then versions_before s k @ new else route_versions s j)) \<and>
     route_ok env k r (versions_before s k @ new) \<and>
     (\<forall>h. map_get (routeIdByClaimHash s') h =
        (if h \<in> rv_claimHash ` set new then Some k else map_get (routeIdByClaimHash s) h)) \<and>
     (\<forall>v \<in> set new. map_get (routeIdByClaimHash s) (rv_claimHash v) = None) \<and>
     (\<forall>r0. map_get (routesById s) k = Some r0 \<longrightarrow> same_route r0 r)"

lemma clone_scope_idem [simp]: "cloneOperationScope (cloneOperationScope ops) = cloneOperationScope ops"
  by (auto simp: cloneOperationScope_def split: list.splits)

lemma clone_wildcard [simp]: "cloneOperationScope [''*''] = [''*'']"
  by (simp add: cloneOperationScope_def)

lemma clone_claim_idem [simp]: "cloneClaim (cloneClaim c) = cloneClaim c"
  by (simp add: cloneClaim_def)

lemma scopes_equal: "operationScopesEqual l r \<longleftrightarrow> l = r"
  by (auto simp: operationScopesEqual_def list_all2_eq [symmetric])

lemma parse_claim_Inr:
  "parseVerifiedRouteClaim env issues c = Inr d \<longleftrightarrow> d = c \<and> claim_schema (rg_zod env) c \<and>
     sg_publicKey (cl_signature c) = cl_referrerWallet c \<and> claim_signed_by (rg_ed env) (cl_referrerWallet c) c"
proof -
  obtain v where v: "verifyReferralClaimSignature (rg_ed env) c = Inr v" "vr_errors v = [] \<longleftrightarrow>
      sg_publicKey (cl_signature c) = cl_referrerWallet c \<and> claim_signed_by (rg_ed env) (cl_referrerWallet c) c"
    using claim_signature_result by blast
  have "vr_ok v \<longleftrightarrow> vr_errors v = []" using v(1) by (auto simp: verifyReferralClaimSignature_def err_simps result_of_def)
  then show ?thesis using v by (auto simp: parseVerifiedRouteClaim_def)
qed

lemma claim_backs_same: "claim_backs env r v c \<Longrightarrow> same_route r r' \<Longrightarrow> claim_backs env r' v c"
  by (simp add: claim_backs_def same_route_def)

lemma route_changes_ok:
  assumes "changes_route env s s' k r new" "routes_ok env s"
  shows "routes_ok env s'"
proof -
  note ch = assms(1) [unfolded changes_route_def]
  have each: "route_ok env j q (route_versions s' j)" if "map_get (routesById s') j = Some q" for j q
    using that ch assms(2) by (cases "j = k") (auto simp: routes_ok_def)
  have old: "map_get (routeIdByClaimHash s) h = Some j \<longleftrightarrow> map_get (routesById s) j \<noteq> None \<and> h \<in> claim_hashes s j" for h j
    using assms(2) unfolding routes_ok_def by blast
  have hashes: "claim_hashes s' j = (if j = k then rv_claimHash ` set (versions_before s k) \<union> rv_claimHash ` set new else claim_hashes s j)" for j
    using ch by (simp add: claim_hashes_def image_Un)
  have before: "h \<in> rv_claimHash ` set (versions_before s k) \<longleftrightarrow> map_get (routeIdByClaimHash s) h = Some k" for h
    by (auto simp: old versions_before_def claim_hashes_def)
  have "map_get (routeIdByClaimHash s') h = Some j \<longleftrightarrow> map_get (routesById s') j \<noteq> None \<and> h \<in> claim_hashes s' j" for h j
  proof (cases "h \<in> rv_claimHash ` set new")
    case True
    then have "map_get (routeIdByClaimHash s) h = None" using ch by auto
    then have "j \<noteq> k \<Longrightarrow> \<not> (map_get (routesById s) j \<noteq> None \<and> h \<in> claim_hashes s j)" using old by (metis option.distinct(1))
    then show ?thesis using True ch by (auto simp: hashes)
  next
    case False
    then have i: "map_get (routeIdByClaimHash s') h = map_get (routeIdByClaimHash s) h" using ch by simp
    show ?thesis
    proof (cases "j = k")
      case True
      then show ?thesis using False i ch by (simp add: hashes before)
    next
      case ne: False
      then show ?thesis using i ch by (simp add: hashes old)
    qed
  qed
  then show ?thesis using each unfolding routes_ok_def by blast
qed

lemma route_of_claim_simps [simp]: "rt_id (route_of_claim c h m t) = cl_routeId c" "rt_claimHash (route_of_claim c h m t) = h"
  by (simp_all add: route_of_claim_def)

lemma rotated_route_simps [simp]: "rt_id (rotated_route r c h m) = rt_id r" "rt_claimHash (rotated_route r c h m) = h"
  by (simp_all add: rotated_route_def)

lemma version_hash [simp]: "rv_claimHash (createRouteVersionRecord r c n t) = rt_claimHash r"
  by (simp add: createRouteVersionRecord_def)

lemma put_route_simps [simp]:
  "routesById (put_route k h r vs s) = map_set k r (routesById s)"
  "map_get (routeIdByClaimHash (put_route k h r vs s)) g = (if g = h then Some k else map_get (routeIdByClaimHash s) g)"
  "route_versions (put_route k h r vs s) j = (if j = k then vs else route_versions s j)"
  by (simp_all add: put_route_def route_versions_def)

lemma put_route_changes:
  assumes "route_ok env k r (versions_before s k @ [v])" "map_get (routeIdByClaimHash s) (rv_claimHash v) = None"
    "\<And>r0. map_get (routesById s) k = Some r0 \<Longrightarrow> same_route r0 r"
  shows "changes_route env s (put_route k (rv_claimHash v) r (versions_before s k @ [v]) s) k r [v]"
  using assms by (simp add: changes_route_def)

lemma route_activate_cases:
  assumes "activateRoute env issues t now c s = Inr (r, s')" "s' \<noteq> s"
  shows "\<exists>h m. claim_verified env c \<and> hashProtocolObject (rg_sha256 env) (JObj (claim_members c)) = Inr h \<and>
    Option.bind (map_get (routeIdByClaimHash s) h) (map_get (routesById s)) = None \<and>
    map_get (routesById s) (cl_routeId c) = None \<and>
    s' = put_route (cl_routeId c) h (route_of_claim c h m now) [createRouteVersionRecord (route_of_claim c h m now) c 1 now] s"
  using assms by (auto simp: activateRoute_def Let_def err_simps parse_claim_Inr assertRouteRange_def claim_verified_def
      registry_simps split: option.splits)

lemma route_activate_effect:
  assumes "activateRoute env issues t now c s = Inr (r, s')" "routes_ok env s"
  shows "s' = s \<or> (\<exists>k r new. changes_route env s s' k r new)"
proof (cases "s' = s")
  case False
  obtain h m where c: "claim_verified env c" "hashProtocolObject (rg_sha256 env) (JObj (claim_members c)) = Inr h"
    and no: "Option.bind (map_get (routeIdByClaimHash s) h) (map_get (routesById s)) = None"
    and k: "map_get (routesById s) (cl_routeId c) = None"
    and s': "s' = put_route (cl_routeId c) h (route_of_claim c h m now) [createRouteVersionRecord (route_of_claim c h m now) c 1 now] s"
    using route_activate_cases [OF assms(1) False] by blast
  let ?r = "route_of_claim c h m now"
  let ?v = "createRouteVersionRecord ?r c 1 now"
  have "claim_backs env ?r ?v c"
    using c by (simp add: claim_backs_def route_of_claim_def createRouteVersionRecord_def)
  then have "route_ok env (cl_routeId c) ?r [?v]"
    using c(1) by (auto simp: route_ok_def current_of_def createRouteVersionRecord_def route_of_claim_def claim_verified_def claim_schema_def)
  then have ok: "route_ok env (cl_routeId c) ?r (versions_before s (cl_routeId c) @ [?v])" using k by (simp add: versions_before_def)
  have new: "map_get (routeIdByClaimHash s) h = None"
  proof (cases "map_get (routeIdByClaimHash s) h")
    case (Some j)
    then have "map_get (routesById s) j \<noteq> None" using assms(2) unfolding routes_ok_def by blast
    then show ?thesis using no Some by simp
  qed simp
  have "changes_route env s (put_route (cl_routeId c) (rv_claimHash ?v) ?r (versions_before s (cl_routeId c) @ [?v]) s) (cl_routeId c) ?r [?v]"
    by (rule put_route_changes [OF ok]) (use new k in simp_all)
  moreover have "s' = put_route (cl_routeId c) (rv_claimHash ?v) ?r (versions_before s (cl_routeId c) @ [?v]) s"
    using k by (simp add: s' versions_before_def)
  ultimately show ?thesis by blast
qed simp

lemma route_rotate_cases:
  assumes "rotateRoutePayout env issues t now k c s = Inr (r', s')" "s' \<noteq> s"
  shows "\<exists>h m r. claim_verified env c \<and> hashProtocolObject (rg_sha256 env) (JObj (claim_members c)) = Inr h \<and>
    map_get (routesById s) k = Some r \<and> rt_status r = R_active \<and> assertRoutePayoutRotation r c = Inr () \<and>
    map_get (routeIdByClaimHash s) h \<in> {None, Some k} \<and> h \<notin> claim_hashes s k \<and>
    s' = put_route k h (rotated_route r c h m) (route_versions s k @ [createRouteVersionRecord (rotated_route r c h m) c (rt_currentVersion r + 1) now]) s"
  using assms unfolding rotateRoutePayout_def Let_def
  by (auto simp: err_simps parse_claim_Inr assertRouteRange_def claim_verified_def registry_simps
      claim_hashes_def list_ex_iff split: option.splits if_splits)

lemma route_rotate_effect:
  assumes "rotateRoutePayout env issues t now k c s = Inr (r', s')" "routes_ok env s"
  shows "s' = s \<or> (\<exists>k r new. changes_route env s s' k r new)"
proof (cases "s' = s")
  case False
  obtain h m r where c: "claim_verified env c" "hashProtocolObject (rg_sha256 env) (JObj (claim_members c)) = Inr h"
    and r: "map_get (routesById s) k = Some r" "rt_status r = R_active"
    and rot: "assertRoutePayoutRotation r c = Inr ()"
    and h: "map_get (routeIdByClaimHash s) h \<in> {None, Some k}" "h \<notin> claim_hashes s k"
    and s': "s' = put_route k h (rotated_route r c h m)
        (route_versions s k @ [createRouteVersionRecord (rotated_route r c h m) c (rt_currentVersion r + 1) now]) s"
    using route_rotate_cases [OF assms(1) False] by blast
  let ?r = "rotated_route r c h m" and ?vs = "route_versions s k"
  let ?v = "createRouteVersionRecord ?r c (rt_currentVersion r + 1) now"
  have ok: "route_ok env k r ?vs" using assms(2) r(1) by (simp add: routes_ok_def)
  have eqs: "cl_routeId c = rt_id r" "cl_campaignId c = rt_campaignId r" "cl_campaignVersionMin c = rt_campaignVersionMin r"
    "cl_referrerWallet c = rt_referrerWallet r" "cl_resourceOrigin c = rt_resourceOrigin r" "cl_operationIds c = rt_operationIds r"
    using rot by (auto simp: assertRoutePayoutRotation_def scopes_equal split: if_splits)
  have same: "same_route r ?r" using eqs(3) by (simp add: same_route_def rotated_route_def)
  have scope: "cloneOperationScope (rt_operationIds r) = rt_operationIds r"
  proof -
    obtain w d where "claim_backs env r w d" using ok unfolding route_ok_def by (meson last_in_set)
    then have "cloneOperationScope (cl_operationIds d) = rt_operationIds r" by (simp add: claim_backs_def)
    then show ?thesis by (metis clone_scope_idem)
  qed
  have backs: "claim_backs env ?r ?v c"
    using c eqs scope by (simp add: claim_backs_def rotated_route_def createRouteVersionRecord_def)
  have before: "\<forall>v \<in> set ?vs. rv_routeId v = k \<and> (\<exists>d. claim_backs env ?r v d)"
    using ok claim_backs_same [OF _ same] unfolding route_ok_def by blast
  have num: "map rv_version (?vs @ [?v]) = map int [1..<Suc (length (?vs @ [?v]))]"
    using ok by (simp add: route_ok_def createRouteVersionRecord_def)
  have dis: "distinct (map rv_claimHash (?vs @ [?v]))"
    using ok h(2) by (auto simp: route_ok_def claim_hashes_def)
  have "route_ok env k ?r (?vs @ [?v])"
    unfolding route_ok_def
  proof (intro conjI num dis)
    show "current_of ?r (last (?vs @ [?v]))"
      by (simp add: current_of_def createRouteVersionRecord_def rotated_route_def)
    show "rt_currentVersion ?r = int (length (?vs @ [?v]))" using ok by (simp add: route_ok_def rotated_route_def)
    show "rt_status ?r \<in> {R_active, R_suspended}" using r(2) by (simp add: rotated_route_def)
    show "\<forall>v \<in> set (?vs @ [?v]). rv_routeId v = k \<and> (\<exists>d. claim_backs env ?r v d)"
      using before backs ok by (auto simp: route_ok_def createRouteVersionRecord_def)
  qed (use ok in \<open>simp_all add: route_ok_def\<close>)
  then have ok': "route_ok env k ?r (versions_before s k @ [?v])" using r(1) by (simp add: versions_before_def)
  have "map_get (routeIdByClaimHash s) h = None"
    using h assms(2) r(1) unfolding routes_ok_def by blast
  then have "changes_route env s (put_route k (rv_claimHash ?v) ?r (versions_before s k @ [?v]) s) k ?r [?v]"
    by (intro put_route_changes [OF ok']) (use r(1) same in simp_all)
  moreover have "s' = put_route k (rv_claimHash ?v) ?r (versions_before s k @ [?v]) s"
    using r(1) by (simp add: s' versions_before_def)
  ultimately show ?thesis by blast
qed simp

lemma route_status_effect:
  assumes "map_get (routesById s) k = Some r" "routes_ok env s" "st \<in> {R_active, R_suspended}"
  shows "changes_route env s (s\<lparr>routesById := map_set (rt_id r) (r\<lparr>rt_status := st\<rparr>) (routesById s)\<rparr>) k (r\<lparr>rt_status := st\<rparr>) []"
proof -
  let ?r = "r\<lparr>rt_status := st\<rparr>"
  have ok: "route_ok env k r (route_versions s k)" using assms(1,2) by (simp add: routes_ok_def)
  have same: "same_route r ?r" by (simp add: same_route_def)
  have "\<forall>v \<in> set (route_versions s k). rv_routeId v = k \<and> (\<exists>d. claim_backs env ?r v d)"
    using ok claim_backs_same [OF _ same] unfolding route_ok_def by blast
  then have "route_ok env k ?r (route_versions s k)"
    using ok assms(3) by (simp add: route_ok_def current_of_def)
  then show ?thesis
    using ok assms(1) same by (simp add: changes_route_def versions_before_def route_versions_def route_ok_def)
qed

lemma route_step_effect:
  "route_step env issues s s' \<Longrightarrow> routes_ok env s \<Longrightarrow> s' = s \<or> (\<exists>k r new. changes_route env s s' k r new)"
proof (induction rule: route_step.induct)
  case (route_activated t now c s r s')
  then show ?case using route_activate_effect by blast
next
  case (payout_rotated t now k c s r s')
  then show ?case using route_rotate_effect by blast
next
  case (route_suspended k s q s')
  then show ?case using route_status_effect [of s k _ env R_suspended]
    by (auto simp: suspendRoute_def Let_def err_simps registry_simps split: option.splits if_splits)
next
  case (route_resumed k s q s')
  then show ?case using route_status_effect [of s k _ env R_active]
    by (auto simp: resumeRoute_def Let_def err_simps registry_simps split: option.splits if_splits)
qed

lemma route_run_ok: "(route_step env issues)\<^sup>*\<^sup>* s s' \<Longrightarrow> routes_ok env s \<Longrightarrow> routes_ok env s'"
proof (induction rule: rtranclp_induct)
  case (step t u)
  then show ?case using route_step_effect [OF step.hyps(2)] route_changes_ok by blast
qed

lemma empty_routes_ok: "routes_ok env empty_routes"
  by (simp add: routes_ok_def empty_routes_def)

lemma same_route_trans: "same_route a b \<Longrightarrow> same_route b c \<Longrightarrow> same_route a c"
  by (simp add: same_route_def)

lemma route_run_later:
  assumes "(route_step env issues)\<^sup>*\<^sup>* s s'" "routes_ok env s" "map_get (routesById s) k = Some r"
  shows "\<exists>r' more. map_get (routesById s') k = Some r' \<and> same_route r r' \<and> route_versions s' k = route_versions s k @ more"
  using assms(1)
proof (induction rule: rtranclp_induct)
  case base
  then show ?case using assms(3) by (simp add: same_route_def)
next
  case (step t u)
  then obtain r1 more where r1: "map_get (routesById t) k = Some r1" "same_route r r1"
    "route_versions t k = route_versions s k @ more" by blast
  have "u = t \<or> (\<exists>j q new. changes_route env t u j q new)"
    by (rule route_step_effect [OF step.hyps(2) route_run_ok [OF step.hyps(1) assms(2)]])
  then show ?case
  proof
    assume "u = t"
    then show ?thesis using r1 by blast
  next
    assume "\<exists>j q new. changes_route env t u j q new"
    then obtain j q new where ch: "changes_route env t u j q new" by blast
    show ?thesis
    proof (cases "k = j")
      case True
      then have "map_get (routesById u) k = Some q" "same_route r1 q" "route_versions u k = route_versions t k @ new"
        using ch r1(1) by (simp_all add: changes_route_def versions_before_def)
      then show ?thesis using r1(2,3) same_route_trans by fastforce
    next
      case False
      then have "map_get (routesById u) k = Some r1" "route_versions u k = route_versions t k"
        using ch r1(1) by (simp_all add: changes_route_def)
      then show ?thesis using r1(2,3) by simp
    qed
  qed
qed

section \<open>Drafts\<close>

text \<open>The claim the referrer sends back: the draft with a signature.\<close>

definition signed_claim :: "unsigned_claim \<Rightarrow> solana_signature \<Rightarrow> referral_claim" where
  "signed_claim u g = \<lparr>cl_version = uc_version u, cl_routeId = uc_routeId u, cl_campaignId = uc_campaignId u,
     cl_campaignVersionMin = uc_campaignVersionMin u, cl_referrerWallet = uc_referrerWallet u,
     cl_payoutWallet = uc_payoutWallet u, cl_resourceOrigin = uc_resourceOrigin u, cl_operationIds = uc_operationIds u,
     cl_issuedAt = uc_issuedAt u, cl_expiresAt = uc_expiresAt u, cl_nonce = uc_nonce u,
     cl_metadataHash = uc_metadataHash u, cl_signature = g\<rparr>"

lemma signed_members: "omitKeys [''signature''] (claim_members (signed_claim u g)) = unsigned_members u"
  by (simp add: omitKeys_def claim_members_def unsigned_members_def signed_claim_def)

lemma signed_bytes: "buildReferralClaimSigningBytes (signed_claim u g) =
    buildDomainSeparatedSigningBytes ''split402:referral-claim:v1'' (JObj (unsigned_members u))"
  by (simp add: buildReferralClaimSigningBytes_def signed_members)

lemma claim_hash_total: "\<exists>h. hashProtocolObject sha (JObj (claim_members c)) = Inr h"
proof -
  have sig: "\<exists>x. serializeJson (JObj [(''type'', JStr a), (''publicKey'', JStr b), (''value'', JStr v)]) = Inr x" for a b v
    by (rule flat_serialises) simp
  have "\<exists>x. serializeJson (JObj (claim_members c)) = Inr x"
    by (rule flat_serialises) (simp add: claim_members_def strings_serialise sig del: serializeJson.simps)
  then show ?thesis by (auto simp: hashProtocolObject_def canonicalizeToBytes_def canonicalizeProtocolObject_def)
qed

lemma claim_bytes_inj:
  assumes "buildReferralClaimSigningBytes c = Inr m" "buildReferralClaimSigningBytes d = Inr m"
  shows "c = d\<lparr>cl_signature := cl_signature c\<rparr>"
proof -
  let ?es = "\<lambda>c. omitKeys [''signature''] (claim_members c)"
  have wf: "wf_json (JObj (?es c))" for c
    by (simp add: omitKeys_def claim_members_def)
  have keys: "map fst (?es c) = map fst (?es d)" "distinct (map fst (?es c))"
    by (simp_all add: omitKeys_def claim_members_def)
  have norm: "norm_json (JObj (?es c)) = norm_json (JObj (?es d))"
    by (rule domain_bytes_decode [OF assms [unfolded buildReferralClaimSigningBytes_def] _ _ wf wf, THEN conjunct2]) simp_all
  have strs: "map (norm_json \<circ> JStr) xs = map (norm_json \<circ> JStr) ys \<longleftrightarrow> xs = ys" for xs ys
    by (rule inj_map_eq_map) (simp add: inj_def)
  from norm_obj_values [OF keys norm] show ?thesis
    by (cases c, cases d) (simp add: omitKeys_def claim_members_def jopt_inj json_int_inj strs)
qed

lemma scope_step_Inr: "scope_step x acc = Inr out \<longleftrightarrow> js_trim x \<noteq> [] \<and> x \<notin> set acc \<and> out = acc @ [x]"
  by (auto simp: scope_step_def)

lemma scope_loop:
  "fold_err scope_step scope acc = Inr out \<Longrightarrow> out = acc @ scope \<and> (\<forall>x \<in> set scope. x \<noteq> [])"
proof (induction scope arbitrary: acc)
  case (Cons x xs)
  then have x: "js_trim x \<noteq> []" "fold_err scope_step xs (acc @ [x]) = Inr out" by (auto simp: err_simps scope_step_Inr)
  then have "x \<noteq> []" by (auto simp: js_trim_Nil)
  then show ?case using Cons.IH [OF x(2)] by simp
qed simp

lemma assertOperationScope_Inr:
  "assertOperationScope scope = Inr out \<Longrightarrow> out = scope \<and> scope \<noteq> [] \<and> (out = [''*''] \<or> (\<forall>x \<in> set out. x \<noteq> []))"
  using scope_loop [of scope "[]" out]
  by (cases scope) (auto simp: assertOperationScope_def split: if_splits)

lemma createRouteDraft_facts:
  assumes "createRouteDraft env clock newId newNonce i = Inr d"
  shows "rd_routeId d = uc_routeId (rd_claim d) \<and> (\<exists>m. rd_signingBytesHex d = bytesToHex m \<and>
      buildDomainSeparatedSigningBytes ''split402:referral-claim:v1'' (JObj (unsigned_members (rd_claim d))) = Inr m) \<and>
    uc_version (rd_claim d) = ''1'' \<and> id_regex (uc_routeId (rd_claim d)) \<and> id_regex (uc_campaignId (rd_claim d)) \<and> 0 < uc_campaignVersionMin (rd_claim d) \<and>
    base58_regex (uc_referrerWallet (rd_claim d)) \<and> base58_regex (uc_payoutWallet (rd_claim d)) \<and>
    (uc_operationIds (rd_claim d) = [''*''] \<or> (uc_operationIds (rd_claim d) \<noteq> [] \<and> (\<forall>x \<in> set (uc_operationIds (rd_claim d)). x \<noteq> []))) \<and>
    utc_timestamp (rg_zod env) (uc_issuedAt (rd_claim d)) \<and> utc_timestamp (rg_zod env) (uc_expiresAt (rd_claim d)) \<and>
    16 \<le> length (uc_nonce (rd_claim d)) \<and> length (uc_nonce (rd_claim d)) \<le> 128 \<and> opt_all sha256_regex (uc_metadataHash (rd_claim d)) \<and>
    \<not> date_le (rg_host env) (uc_expiresAt (rd_claim d)) (uc_issuedAt (rd_claim d))"
proof -
  from assms obtain issuedAt expiresAt k c n w p origin scope nonce meta m h where
    f: "routeTimestamp env (now_or (di_issuedAt i) clock) ''issuedAt'' = Inr issuedAt"
      "routeTimestamp env (di_expiresAt i) ''expiresAt'' = Inr expiresAt"
      "assertRouteRange (rg_host env) issuedAt expiresAt = Inr ()"
      "id_regex k" "id_regex c" "routePositiveInteger (di_campaignVersionMin i) ''campaignVersionMin'' = Inr n"
      "base58_regex w" "base58_regex p" "assertOperationScope (di_operationIds i) = Inr scope"
      "assertNonce (now_or (di_nonce i) newNonce) = Inr nonce"
      "map_opt_err (\<lambda>h. assertSha256Hash h ''metadataHash'') (di_metadataHash i) = Inr meta"
    and m: "buildDomainSeparatedSigningBytes ''split402:referral-claim:v1'' (JObj (unsigned_members (rd_claim d))) = Inr m"
    and d: "d = \<lparr>rd_routeId = k, rd_claim = \<lparr>uc_version = ''1'', uc_routeId = k, uc_campaignId = c, uc_campaignVersionMin = n,
           uc_referrerWallet = w, uc_payoutWallet = p, uc_resourceOrigin = origin, uc_operationIds = scope, uc_issuedAt = issuedAt,
           uc_expiresAt = expiresAt, uc_nonce = nonce, uc_metadataHash = meta\<rparr>, rd_signingBytesHex = bytesToHex m, rd_unsignedClaimHash = h\<rparr>"
    by (auto simp: createRouteDraft_def Let_def and_then_Inr registry_simps)
  have times: "utc_timestamp (rg_zod env) issuedAt" "utc_timestamp (rg_zod env) expiresAt"
    using f(1,2) by (auto simp: routeTimestamp_def split: if_splits)
  have range: "\<not> date_le (rg_host env) expiresAt issuedAt" "0 < n" using f(3,6)
    by (auto simp: assertRouteRange_def routePositiveInteger_def err_simps split: if_splits)
  have nonce: "16 \<le> length nonce" "length nonce \<le> 128" using f(10) by (auto simp: assertNonce_def split: if_splits)
  have meta: "opt_all sha256_regex meta" using f(11)
    by (cases "di_metadataHash i"; cases meta) (auto simp: assertSha256Hash_def and_then_Inr split: if_splits)
  have scope: "scope = [''*''] \<or> (scope \<noteq> [] \<and> (\<forall>x \<in> set scope. x \<noteq> []))" using assertOperationScope_Inr [OF f(9)] by auto
  show ?thesis
    using f(4,5,7,8) m times range nonce meta scope by (simp add: d)
qed

lemma activate_new:
  assumes "claim_verified env c" "hashProtocolObject (rg_sha256 env) (JObj (claim_members c)) = Inr h"
    and "\<not> date_le (rg_host env) (cl_expiresAt c) t" "map_get (routesById s) (cl_routeId c) = None"
    and "map_get (routeIdByClaimHash s) h = None" "buildReferralClaimSigningBytes c = Inr m"
  shows "activateRoute env issues t now c s = Inr (cloneRoute (route_of_claim c h (bytesToHex m) now),
     put_route (cl_routeId c) h (route_of_claim c h (bytesToHex m) now)
       [createRouteVersionRecord (route_of_claim c h (bytesToHex m) now) c 1 now] s)"
proof -
  have "parseVerifiedRouteClaim env issues c = Inr c"
    using assms(1) by (simp add: parse_claim_Inr claim_verified_def)
  then show ?thesis using assms by (simp add: activateRoute_def assertRouteRange_def thrown_def claim_verified_def Let_def)
qed

section \<open>Properties\<close>

text \<open>A draft, its signed claim and a primitive that accepts every signature.\<close>

definition route_env :: registry_env where
  "route_env = toy_env\<lparr>rg_ed := \<lparr>ed_sign = (\<lambda>k m. replicate 64 7), ed_spki = (\<lambda>k. []), ed_verify = (\<lambda>m k s. Some True)\<rparr>\<rparr>"

definition toy_wallet :: string where
  "toy_wallet = replicate 31 (CHR ''1'') @ ''2''"

definition toy_draft_input :: "string list \<Rightarrow> draft_input" where
  "toy_draft_input scope = \<lparr>di_id = None, di_campaignId = ''cmp_'' @ replicate 32 (CHR ''1''), di_campaignVersionMin = 1,
     di_referrerWallet = toy_wallet, di_payoutWallet = toy_wallet, di_resourceOrigin = ''o'', di_operationIds = scope,
     di_issuedAt = None, di_expiresAt = ''ZZ'', di_nonce = Some (replicate 16 (CHR ''n'')), di_metadataHash = None\<rparr>"

definition toy_unsigned :: "string list \<Rightarrow> unsigned_claim" where
  "toy_unsigned scope = \<lparr>uc_version = ''1'', uc_routeId = ''rte_'' @ replicate 32 (CHR ''1''),
     uc_campaignId = ''cmp_'' @ replicate 32 (CHR ''1''), uc_campaignVersionMin = 1, uc_referrerWallet = toy_wallet,
     uc_payoutWallet = toy_wallet, uc_resourceOrigin = ''o'', uc_operationIds = scope, uc_issuedAt = ''Z'',
     uc_expiresAt = ''ZZ'', uc_nonce = replicate 16 (CHR ''n''), uc_metadataHash = None\<rparr>"

definition toy_signature :: solana_signature where
  "toy_signature = \<lparr>sg_type = ''solana-ed25519'', sg_publicKey = toy_wallet, sg_value = base64UrlEncode (replicate 64 7)\<rparr>"

definition toy_claim :: "string list \<Rightarrow> referral_claim" where
  "toy_claim scope = signed_claim (toy_unsigned scope) toy_signature"

lemma route_env_simps [simp]: "rg_host route_env = toy_host" "rg_zod route_env = any_zod"
  by (simp_all add: route_env_def toy_env_def)

lemma toy_accepts: "safeVerify (rg_ed route_env) m (sg_publicKey toy_signature) (sg_value toy_signature)"
proof -
  have "isl (base58Decode toy_wallet) = False \<and> length (projr (base58Decode toy_wallet)) = 32" by code_simp
  then have "\<exists>kb. base58Decode toy_wallet = Inr kb \<and> length kb = 32"
    by (cases "base58Decode toy_wallet") simp_all
  then show ?thesis by (auto simp: safeVerify_iff toy_signature_def base64url_decode_encode route_env_def)
qed

lemma toy_signature_ok: "signature_schema toy_signature"
  by code_simp

lemma toy_claim_schema:
  "scope = [''*''] \<or> (scope \<noteq> [] \<and> (\<forall>x \<in> set scope. x \<noteq> [])) \<Longrightarrow> claim_schema any_zod (toy_claim scope)"
proof -
  have ids: "id_regex (''rte_'' @ replicate 32 (CHR ''1''))" "id_regex (''cmp_'' @ replicate 32 (CHR ''1''))" "base58_regex toy_wallet"
    by code_simp+
  show "scope = [''*''] \<or> (scope \<noteq> [] \<and> (\<forall>x \<in> set scope. x \<noteq> [])) \<Longrightarrow> claim_schema any_zod (toy_claim scope)"
    using ids toy_signature_ok
    by (simp add: claim_schema_def toy_claim_def signed_claim_def toy_unsigned_def utc_timestamp_def any_zod_def)
qed

lemma toy_claim_verified:
  assumes "scope = [''*''] \<or> (scope \<noteq> [] \<and> (\<forall>x \<in> set scope. x \<noteq> []))"
  shows "claim_verified route_env (toy_claim scope)"
proof -
  obtain m where m: "buildReferralClaimSigningBytes (toy_claim scope) = Inr m" using claim_bytes_total by blast
  have "claim_signed_by (rg_ed route_env) toy_wallet (toy_claim scope)"
    using toy_accepts [of m] by (simp add: claim_signed_by_def m) (simp add: toy_claim_def signed_claim_def toy_signature_def)
  then show ?thesis
    using toy_claim_schema [OF assms] by (simp add: claim_verified_def)
      (simp add: toy_claim_def signed_claim_def toy_signature_def toy_unsigned_def date_le_def toy_host_def)
qed

lemma toy_claim_activates:
  assumes "scope = [''*''] \<or> (scope \<noteq> [] \<and> (\<forall>x \<in> set scope. x \<noteq> []))"
  shows "\<exists>r s. activateRoute route_env issues ''Z'' ''Z'' (toy_claim scope) empty_routes = Inr (r, s) \<and>
    getRoute s (''rte_'' @ replicate 32 (CHR ''1'')) = Some r \<and> s \<noteq> empty_routes"
proof -
  let ?c = "toy_claim scope"
  obtain m h where m: "buildReferralClaimSigningBytes ?c = Inr m"
    and h: "hashProtocolObject (rg_sha256 route_env) (JObj (claim_members ?c)) = Inr h"
    using claim_bytes_total claim_hash_total by blast
  have k: "cl_routeId ?c = ''rte_'' @ replicate 32 (CHR ''1'')" by (simp add: toy_claim_def signed_claim_def toy_unsigned_def)
  have e: "\<not> date_le (rg_host route_env) (cl_expiresAt ?c) ''Z''"
    by (simp add: toy_claim_def signed_claim_def toy_unsigned_def date_le_def toy_host_def)
  have "map_get (routesById empty_routes) (cl_routeId ?c) = None" "map_get (routeIdByClaimHash empty_routes) h = None"
    by (simp_all add: empty_routes_def)
  note a = activate_new [OF toy_claim_verified [OF assms] h e this m, of issues "''Z''"]
  let ?r = "route_of_claim ?c h (bytesToHex m) ''Z''"
  let ?s = "put_route (cl_routeId ?c) h ?r [createRouteVersionRecord ?r ?c 1 ''Z''] empty_routes"
  have g: "getRoute ?s (''rte_'' @ replicate 32 (CHR ''1'')) = Some (cloneRoute ?r)" unfolding k by (simp add: getRoute_def)
  then have "?s \<noteq> empty_routes" by (metis empty_routes_def getRoute_def map_get_Nil option.simps(3) option.simps(8) route_registry.select_convs(1))
  then show ?thesis using a g by blast
qed

lemma toy_draft: "\<exists>d. createRouteDraft route_env ''Z'' (''rte_'' @ replicate 32 (CHR ''1'')) [] (toy_draft_input [''q'']) = Inr d \<and>
    rd_claim d = toy_unsigned [''q'']"
proof -
  have ids: "registryId (''rte_'' @ replicate 32 (CHR ''1'')) ''route id'' = Inr (''rte_'' @ replicate 32 (CHR ''1''))"
    "registryId (''cmp_'' @ replicate 32 (CHR ''1'')) ''campaign id'' = Inr (''cmp_'' @ replicate 32 (CHR ''1''))"
    "base58_regex toy_wallet" by code_simp+
  have env: "assertUrlOrigin route_env ''o'' l = Inr ''o''" for l by (simp add: assertUrlOrigin_def route_env_def toy_env_def)
  have scope: "assertOperationScope [''q''] = Inr [''q'']" by code_simp
  obtain m where m: "buildDomainSeparatedSigningBytes ''split402:referral-claim:v1'' (JObj (unsigned_members (toy_unsigned [''q'']))) = Inr m"
    using claim_bytes_total [of "toy_claim [''q'']"] by (auto simp: toy_claim_def signed_bytes)
  have "\<exists>x. serializeJson (JObj (unsigned_members (toy_unsigned [''q'']))) = Inr x"
    by (rule flat_serialises) (simp add: unsigned_members_def strings_serialise del: serializeJson.simps)
  then obtain h where h: "hashProtocolObject (rg_sha256 route_env) (JObj (unsigned_members (toy_unsigned [''q'']))) = Inr h"
    by (auto simp: hashProtocolObject_def canonicalizeToBytes_def canonicalizeProtocolObject_def)
  show ?thesis
    using ids env scope m h
    by (simp add: createRouteDraft_def toy_draft_input_def toy_unsigned_def now_or_def routeTimestamp_def utc_timestamp_def any_zod_def
        assertRouteRange_def date_le_def toy_host_def routePositiveInteger_def assertBase58PublicKey_def assertNonce_def thrown_def Let_def)
qed

text \<open>C31. A draft, signed by its referrer, activates: if the registry has neither the route nor the claim,
  the schema's URL check accepts the origin and the claim has not expired, activating the draft with a
  signature of the referrer wallet over the draft's signing bytes answers an active route with the
  draft's id, wallets and signing bytes, at version one, and the route is then found under its id.\<close>

theorem signed_draft_activates:
  assumes "createRouteDraft env clock newId newNonce i = Inr d" "c = signed_claim (rd_claim d) g"
    and "signature_schema g" "sg_publicKey g = uc_referrerWallet (rd_claim d)"
    and "buildReferralClaimSigningBytes c = Inr m" "safeVerify (rg_ed env) m (sg_publicKey g) (sg_value g)"
    and "z_url (rg_zod env) (uc_resourceOrigin (rd_claim d))"
    and "\<not> date_le (rg_host env) (uc_expiresAt (rd_claim d)) t"
    and "routes_ok env s" "map_get (routesById s) (rd_routeId d) = None"
    and "hashProtocolObject (rg_sha256 env) (JObj (claim_members c)) = Inr h" "map_get (routeIdByClaimHash s) h = None"
  shows "\<exists>r s'. activateRoute env issues t now c s = Inr (r, s') \<and> getRoute s' (rd_routeId d) = Some r \<and>
    rt_id r = rd_routeId d \<and> rt_status r = R_active \<and> rt_currentVersion r = 1 \<and>
    rt_referrerWallet r = uc_referrerWallet (rd_claim d) \<and> rt_payoutWallet r = uc_payoutWallet (rd_claim d) \<and>
    rt_signingBytesHex r = rd_signingBytesHex d \<and> rt_claimHash r = h"
proof -
  let ?u = "rd_claim d"
  note ex = createRouteDraft_facts [OF assms(1)]
  obtain b where b: "rd_routeId d = uc_routeId ?u" "rd_signingBytesHex d = bytesToHex b"
    "buildDomainSeparatedSigningBytes ''split402:referral-claim:v1'' (JObj (unsigned_members ?u)) = Inr b"
    using ex by blast
  have b_m: "b = m" using b(3) assms(2,5) by (simp add: signed_bytes)
  have schema: "claim_schema (rg_zod env) c" and range: "\<not> date_le (rg_host env) (cl_expiresAt c) (cl_issuedAt c)"
    using ex assms(3,7) by (auto simp: claim_schema_def assms(2) signed_claim_def)
  have "claim_signed_by (rg_ed env) (cl_referrerWallet c) c"
    using assms(4,5,6) by (simp add: claim_signed_by_def) (simp add: assms(2) signed_claim_def)
  then have ver: "claim_verified env c"
    using schema range assms(4) by (simp add: claim_verified_def assms(2) signed_claim_def)
  have "activateRoute env issues t now c s = Inr (cloneRoute (route_of_claim c h (bytesToHex m) now),
     put_route (cl_routeId c) h (route_of_claim c h (bytesToHex m) now)
       [createRouteVersionRecord (route_of_claim c h (bytesToHex m) now) c 1 now] s)"
    by (rule activate_new [OF ver assms(11) _ _ assms(12,5)]) (use assms(8,10) b(1) in \<open>simp_all add: assms(2) signed_claim_def\<close>)
  moreover have "cl_routeId c = rd_routeId d" "cl_referrerWallet c = uc_referrerWallet ?u" "cl_payoutWallet c = uc_payoutWallet ?u"
    using b(1) by (simp_all add: assms(2) signed_claim_def)
  ultimately show ?thesis using b(2) b_m
    by (simp add: getRoute_def cloneRoute_def route_of_claim_def)
qed

theorem signed_draft_activates_witness:
  "\<exists>d r s'. createRouteDraft route_env ''Z'' (''rte_'' @ replicate 32 (CHR ''1'')) [] (toy_draft_input [''q'']) = Inr d \<and>
     activateRoute route_env (\<lambda>_. []) ''Z'' ''Z'' (toy_claim [''q'']) empty_routes = Inr (r, s') \<and> rt_status r = R_active \<and>
     rt_signingBytesHex r = rd_signingBytesHex d"
proof -
  obtain d where d: "createRouteDraft route_env ''Z'' (''rte_'' @ replicate 32 (CHR ''1'')) [] (toy_draft_input [''q'']) = Inr d"
    "rd_claim d = toy_unsigned [''q'']" using toy_draft by blast
  obtain m h where m: "buildReferralClaimSigningBytes (toy_claim [''q'']) = Inr m"
    and h: "hashProtocolObject (rg_sha256 route_env) (JObj (claim_members (toy_claim [''q'']))) = Inr h"
    using claim_bytes_total claim_hash_total by blast
  have c: "toy_claim [''q''] = signed_claim (rd_claim d) toy_signature" by (simp add: toy_claim_def d(2))
  have g: "sg_publicKey toy_signature = uc_referrerWallet (rd_claim d)" "z_url (rg_zod route_env) (uc_resourceOrigin (rd_claim d))"
    "\<not> date_le (rg_host route_env) (uc_expiresAt (rd_claim d)) ''Z''"
    by (simp_all add: d(2) toy_signature_def toy_unsigned_def any_zod_def date_le_def toy_host_def)
  have e: "map_get (routesById empty_routes) (rd_routeId d) = None" "map_get (routeIdByClaimHash empty_routes) h = None"
    by (simp_all add: empty_routes_def)
  have "\<exists>r s'. activateRoute route_env (\<lambda>_. []) ''Z'' ''Z'' (toy_claim [''q'']) empty_routes = Inr (r, s') \<and>
    getRoute s' (rd_routeId d) = Some r \<and> rt_id r = rd_routeId d \<and> rt_status r = R_active \<and> rt_currentVersion r = 1 \<and>
    rt_referrerWallet r = uc_referrerWallet (rd_claim d) \<and> rt_payoutWallet r = uc_payoutWallet (rd_claim d) \<and>
    rt_signingBytesHex r = rd_signingBytesHex d \<and> rt_claimHash r = h"
    by (rule signed_draft_activates [OF d(1) c toy_signature_ok g(1) m toy_accepts g(2,3) empty_routes_ok e(1) h e(2)])
  then show ?thesis using d(1) by blast
qed

text \<open>C32. Every payout wallet of a route was signed for: in every registry that can be reached, the versions
  listed for a route are numbered from one to its current version without repeating a claim, the last
  is the current one, and each is backed by a claim that the referrer wallet signed for exactly this
  route, campaign, origin, scope and payout wallet; unless the scope is the wildcard, the stored claim
  is that claim.\<close>

theorem route_versions_are_signed:
  assumes "(route_step env issues)\<^sup>*\<^sup>* empty_routes s" "getRoute s k = Some r"
  shows "\<exists>vs. listRouteVersions s k = Inr vs \<and> vs \<noteq> [] \<and> rt_currentVersion r = int (length vs) \<and>
    map rv_version vs = map int [1..<Suc (length vs)] \<and> distinct (map rv_claimHash vs) \<and>
    rt_claimHash r = rv_claimHash (last vs) \<and> rt_payoutWallet r = rv_payoutWallet (last vs) \<and>
    (\<forall>v \<in> set vs. \<exists>c. claim_verified env c \<and> cl_routeId c = k \<and> cl_campaignId c = rt_campaignId r \<and>
       cl_campaignVersionMin c = rt_campaignVersionMin r \<and> cl_referrerWallet c = rt_referrerWallet r \<and>
       cl_resourceOrigin c = rt_resourceOrigin r \<and> cl_payoutWallet c = rv_payoutWallet v \<and>
       hashProtocolObject (rg_sha256 env) (JObj (claim_members c)) = Inr (rv_claimHash v) \<and>
       (rt_operationIds r \<noteq> [''*''] \<longrightarrow> rv_claim v = c \<and> cl_operationIds c = rt_operationIds r))"
proof -
  obtain q where q: "map_get (routesById s) k = Some q" "r = cloneRoute q" using assms(2) by (auto simp: getRoute_def)
  let ?vs = "route_versions s k"
  have ok: "route_ok env k q ?vs"
    using route_run_ok [OF assms(1) empty_routes_ok] q(1) by (simp add: routes_ok_def)
  have l: "listRouteVersions s k = Inr (map cloneRouteVersion ?vs)"
    using ok by (simp add: listRouteVersions_def registryId_def route_ok_def)
  have keep: "rv_version (cloneRouteVersion v) = rv_version v" "rv_claimHash (cloneRouteVersion v) = rv_claimHash v"
    "rv_payoutWallet (cloneRouteVersion v) = rv_payoutWallet v" for v by (simp_all add: cloneRouteVersion_def)
  have r: "rt_currentVersion r = rt_currentVersion q" "rt_claimHash r = rt_claimHash q" "rt_payoutWallet r = rt_payoutWallet q"
    "rt_campaignId r = rt_campaignId q" "rt_campaignVersionMin r = rt_campaignVersionMin q"
    "rt_referrerWallet r = rt_referrerWallet q" "rt_resourceOrigin r = rt_resourceOrigin q"
    "rt_operationIds r = cloneOperationScope (rt_operationIds q)" by (simp_all add: q(2) cloneRoute_def)
  have backed: "\<forall>v \<in> set ?vs. \<exists>c. claim_backs env q v c" using ok by (simp add: route_ok_def)
  have each: "\<exists>c. claim_verified env c \<and> cl_routeId c = k \<and> cl_campaignId c = rt_campaignId r \<and>
       cl_campaignVersionMin c = rt_campaignVersionMin r \<and> cl_referrerWallet c = rt_referrerWallet r \<and>
       cl_resourceOrigin c = rt_resourceOrigin r \<and> cl_payoutWallet c = rv_payoutWallet (cloneRouteVersion v) \<and>
       hashProtocolObject (rg_sha256 env) (JObj (claim_members c)) = Inr (rv_claimHash (cloneRouteVersion v)) \<and>
       (rt_operationIds r \<noteq> [''*''] \<longrightarrow> rv_claim (cloneRouteVersion v) = c \<and> cl_operationIds c = rt_operationIds r)"
    if "v \<in> set ?vs" for v
  proof -
    from backed that obtain c where c: "claim_backs env q v c" by blast
    have scope: "rt_operationIds r = cloneOperationScope (cl_operationIds c)"
      using c r(8) by (metis claim_backs_def clone_scope_idem)
    have "rv_claim (cloneRouteVersion v) = cloneClaim c"
      using c by (simp add: claim_backs_def cloneRouteVersion_def)
    moreover have "cloneOperationScope (cl_operationIds c) = cl_operationIds c" if "rt_operationIds r \<noteq> [''*'']"
      using that unfolding scope by (auto simp: cloneOperationScope_def split: list.splits if_splits)
    ultimately have "rt_operationIds r \<noteq> [''*''] \<longrightarrow> rv_claim (cloneRouteVersion v) = c \<and> cl_operationIds c = rt_operationIds r"
      using scope by (metis cloneClaim_def referral_claim.surjective referral_claim.update_convs(8))
    moreover have "claim_verified env c" "cl_routeId c = k" using c ok by (simp_all add: claim_backs_def route_ok_def)
    ultimately show ?thesis using c by (intro exI [of _ c]) (simp add: claim_backs_def keep r)
  qed
  have maps: "map rv_version (map cloneRouteVersion ?vs) = map rv_version ?vs" "map rv_claimHash (map cloneRouteVersion ?vs) = map rv_claimHash ?vs"
    by (simp_all add: keep)
  have current: "?vs \<noteq> []" "rt_currentVersion q = int (length ?vs)" "map rv_version ?vs = map int [1..<Suc (length ?vs)]"
    "distinct (map rv_claimHash ?vs)" "rt_claimHash q = rv_claimHash (last ?vs)" "rt_payoutWallet q = rv_payoutWallet (last ?vs)"
    using ok by (simp_all add: route_ok_def current_of_def)
  have last: "rv_claimHash (last (map cloneRouteVersion ?vs)) = rt_claimHash r" "rv_payoutWallet (last (map cloneRouteVersion ?vs)) = rt_payoutWallet r"
    using current by (simp_all add: last_map keep r)
  show ?thesis
    unfolding l
  proof (intro exI [of _ "map cloneRouteVersion ?vs"] conjI refl ballI)
    fix v assume "v \<in> set (map cloneRouteVersion ?vs)"
    then obtain w where w: "w \<in> set ?vs" "v = cloneRouteVersion w" by auto
    show "\<exists>c. claim_verified env c \<and> cl_routeId c = k \<and> cl_campaignId c = rt_campaignId r \<and>
       cl_campaignVersionMin c = rt_campaignVersionMin r \<and> cl_referrerWallet c = rt_referrerWallet r \<and>
       cl_resourceOrigin c = rt_resourceOrigin r \<and> cl_payoutWallet c = rv_payoutWallet v \<and>
       hashProtocolObject (rg_sha256 env) (JObj (claim_members c)) = Inr (rv_claimHash v) \<and>
       (rt_operationIds r \<noteq> [''*''] \<longrightarrow> rv_claim v = c \<and> cl_operationIds c = rt_operationIds r)"
      unfolding w(2) by (rule each [OF w(1)])
  qed (use current in \<open>simp_all only: maps last r length_map map_is_Nil_conv not_False_eq_True\<close>)
qed

theorem route_versions_are_signed_witness:
  "\<exists>s vs. listRouteVersions s (''rte_'' @ replicate 32 (CHR ''1'')) = Inr vs \<and> vs \<noteq> [] \<and>
     (\<forall>v \<in> set vs. \<exists>c. claim_verified route_env c \<and> cl_payoutWallet c = rv_payoutWallet v)"
proof -
  obtain r s where s: "activateRoute route_env (\<lambda>_. []) ''Z'' ''Z'' (toy_claim [''q'']) empty_routes = Inr (r, s)"
    "getRoute s (''rte_'' @ replicate 32 (CHR ''1'')) = Some r" using toy_claim_activates [where scope = "[''q'']" and issues = "\<lambda>_. []"] by auto
  have run: "(route_step route_env (\<lambda>_. []))\<^sup>*\<^sup>* empty_routes s" by (rule r_into_rtranclp) (rule route_activated [OF s(1)])
  from route_versions_are_signed [OF run s(2)] show ?thesis by blast
qed

text \<open>C33. A route keeps what its receipts rely on: later in any run it has the same campaign, referrer,
  origin, scope and activation time, its versions are those it had with further ones appended, and
  a claim hash stays with the one route that used it.\<close>

theorem route_history_only_grows:
  assumes "(route_step env issues)\<^sup>*\<^sup>* empty_routes s" "(route_step env issues)\<^sup>*\<^sup>* s s'" "getRoute s k = Some r"
  shows "\<exists>r' vs more. getRoute s' k = Some r' \<and> same_route r r' \<and> listRouteVersions s k = Inr vs \<and>
    listRouteVersions s' k = Inr (vs @ more) \<and>
    (\<forall>v \<in> set (vs @ more). \<forall>j. map_get (routeIdByClaimHash s') (rv_claimHash v) = Some j \<longleftrightarrow> j = k)"
proof -
  obtain q where q: "map_get (routesById s) k = Some q" "r = cloneRoute q" using assms(3) by (auto simp: getRoute_def)
  have ok: "routes_ok env s" by (rule route_run_ok [OF assms(1) empty_routes_ok])
  have ok': "routes_ok env s'" by (rule route_run_ok [OF assms(2) ok])
  obtain q' more where q': "map_get (routesById s') k = Some q'" "same_route q q'" "route_versions s' k = route_versions s k @ more"
    using route_run_later [OF assms(2) ok q(1)] by blast
  have idk: "id_regex k" using ok q(1) by (auto simp: routes_ok_def route_ok_def)
  have "map_get (routeIdByClaimHash s') (rv_claimHash v) = Some k" if "v \<in> set (route_versions s' k)" for v
    using ok' q'(1) that unfolding routes_ok_def claim_hashes_def by blast
  then have idx: "map_get (routeIdByClaimHash s') (rv_claimHash (cloneRouteVersion v)) = Some j \<longleftrightarrow> j = k"
    if "v \<in> set (route_versions s k @ more)" for v j
    using that q'(3) by (auto simp: cloneRouteVersion_def)
  show ?thesis
  proof (intro exI conjI)
    show "getRoute s' k = Some (cloneRoute q')" by (simp add: getRoute_def q'(1))
    show "same_route r (cloneRoute q')" using q'(2) by (simp add: q(2) same_route_def cloneRoute_def)
    show "listRouteVersions s k = Inr (map cloneRouteVersion (route_versions s k))"
      by (simp add: listRouteVersions_def registryId_def idk)
    show "listRouteVersions s' k = Inr (map cloneRouteVersion (route_versions s k) @ map cloneRouteVersion more)"
      by (simp add: listRouteVersions_def registryId_def idk q'(3))
    show "\<forall>v \<in> set (map cloneRouteVersion (route_versions s k) @ map cloneRouteVersion more).
        \<forall>j. map_get (routeIdByClaimHash s') (rv_claimHash v) = Some j \<longleftrightarrow> j = k"
      using idx by auto
  qed
qed

theorem route_history_only_grows_witness:
  "\<exists>s r vs more. getRoute s (''rte_'' @ replicate 32 (CHR ''1'')) = Some r \<and>
     listRouteVersions s (''rte_'' @ replicate 32 (CHR ''1'')) = Inr (vs @ more)"
proof -
  obtain r s where s: "activateRoute route_env (\<lambda>_. []) ''Z'' ''Z'' (toy_claim [''q'']) empty_routes = Inr (r, s)"
    "getRoute s (''rte_'' @ replicate 32 (CHR ''1'')) = Some r" using toy_claim_activates [where scope = "[''q'']" and issues = "\<lambda>_. []"] by auto
  have run: "(route_step route_env (\<lambda>_. []))\<^sup>*\<^sup>* empty_routes s" by (rule r_into_rtranclp) (rule route_activated [OF s(1)])
  from route_history_only_grows [OF run rtranclp.rtrancl_refl s(2)] show ?thesis using s(2) by blast
qed



end
