(* ===== verification/Payout_Plan.thy ===== *)
theory Payout_Plan
  imports Payout_Preview
begin

text \<open>
  \<^verbatim>\<open>packages/control-plane/src/payouts.ts\<close>, \<open>createPayoutBatchPlan\<close>: the batch that allocates the
  accruals a preview selects. The lemmas connect the allocations of a plan with the accruals it was
  given, down to the amounts.
\<close>

record batch_input =
  bi_merchantId :: string
  bi_payoutWalletId :: string
  bi_network :: string
  bi_asset :: string
  bi_accruals :: "accrual list"
  bi_now :: "string option"
  bi_batchId :: "string option"
  bi_minimumPayoutAmountAtomic :: "string option"
  bi_maxRecipients :: "int option"

definition plan_allocation :: "(string, accrual) js_map \<Rightarrow> string \<Rightarrow> string \<Rightarrow> cp_error + allocation" where
  "plan_allocation accrualById itemId accrualId = (case map_get accrualById accrualId of
       None \<Rightarrow> Inl (Batch_Invalid (''missing selected accrual: '' @ accrualId))
     | Some a \<Rightarrow> Inr \<lparr>al_payoutItemId = itemId, al_accrualId = accrualId, al_amountAtomic = ac_amountAtomic a\<rparr>)"

definition plan_item ::
  "(string, accrual) js_map \<Rightarrow> string \<Rightarrow> string \<Rightarrow> string \<Rightarrow> preview_item \<Rightarrow> cp_error + payout_item" where
  "plan_item accrualById batchId createdAt newId previewItem =
     and_then (assertSplit402Id newId ''payoutItemId'') (\<lambda>itemId.
     and_then (map_err (plan_allocation accrualById itemId) (pi_accrualIds previewItem)) (\<lambda>allocations.
     Inr \<lparr>it_id = itemId, it_payoutBatchId = batchId,
          it_destinationWallet = pi_destinationWallet previewItem, it_destinationTokenAccount = None,
          it_amountAtomic = pi_amountAtomic previewItem, it_status = I_allocated,
          it_createdAt = createdAt, it_allocations = allocations\<rparr>))"

text \<open>The item ids are \<open>newItemId 0, newItemId 1, \<dots>\<close>, \<open>newBatchId\<close> the id drawn when none is given.\<close>

definition createPayoutBatchPlan ::
  "host \<Rightarrow> string \<Rightarrow> string \<Rightarrow> (nat \<Rightarrow> string) \<Rightarrow> batch_input \<Rightarrow> cp_error + payout_batch" where
  "createPayoutBatchPlan h clock newBatchId newItemId i =
     and_then (assertNonEmptyString (bi_merchantId i) ''merchantId'') (\<lambda>merchantId.
     and_then (assertSplit402Id (bi_payoutWalletId i) ''payoutWalletId'') (\<lambda>payoutWalletId.
     and_then (assertNonEmptyString (bi_network i) ''network'') (\<lambda>network.
     and_then (assertNonEmptyString (bi_asset i) ''asset'') (\<lambda>asset.
     and_then (normalizeTimestamp h (now_or (bi_now i) clock) ''now'') (\<lambda>createdAt.
     and_then (assertSplit402Id (now_or (bi_batchId i) newBatchId) ''batchId'') (\<lambda>batchId.
     let accruals = filter (\<lambda>a. ac_asset a = asset) (bi_accruals i) in
     and_then (createPayoutPreview h clock \<lparr>pin_merchantId = merchantId, pin_accruals = accruals,
        pin_now = Some createdAt, pin_minimumPayoutAmountAtomic = bi_minimumPayoutAmountAtomic i,
        pin_maxRecipients = bi_maxRecipients i, pin_fundingBalances = None\<rparr>) (\<lambda>preview.
     case find (\<lambda>b. pv_asset b = asset) (pr_batches preview) of
       None \<Rightarrow> Inl (Batch_Invalid ''no payout items selected'')
     | Some previewBatch \<Rightarrow>
        if pv_items previewBatch = [] then Inl (Batch_Invalid ''no payout items selected'')
        else let accrualById = map_from (map (\<lambda>a. (ac_id a, a)) accruals) in
        and_then (map_err (\<lambda>(n, p). plan_item accrualById batchId createdAt (newItemId n) p)
          (enumerate 0 (pv_items previewBatch))) (\<lambda>items.
        Inr \<lparr>pb_id = batchId, pb_merchantId = merchantId, pb_payoutWalletId = payoutWalletId,
          pb_network = network, pb_asset = asset, pb_status = B_planned,
          pb_totalAmountAtomic = pv_totalAmountAtomic previewBatch, pb_itemCount = length items,
          pb_accrualCount = (\<Sum>it\<leftarrow>items. length (it_allocations it)),
          pb_failureCode = None, pb_failureMessage = None,
          pb_createdAt = createdAt, pb_updatedAt = createdAt, pb_items = items\<rparr>))))))))"

text \<open>The ids a batch allocates.\<close>

definition allocated_ids :: "payout_batch \<Rightarrow> string list" where
  "allocated_ids b = concat (map (\<lambda>it. map al_accrualId (it_allocations it)) (pb_items b))"

section \<open>Facts\<close>

lemma map_from_snoc: "map_from (ps @ [(k, v)]) = map_set k v (map_from ps)"
  by (simp add: map_from_def)

lemma map_from_ok: "map_ok (map_from ps)"
proof (induction ps rule: rev_induct)
  case (snoc p ps)
  then show ?case by (cases p) (simp add: map_from_snoc jm.ok_put)
qed (simp add: map_from_def)

lemma map_from_get_in:
  "map_get (map_from ps) k = Some v \<Longrightarrow> (k, v) \<in> set ps"
proof (induction ps rule: rev_induct)
  case (snoc p ps)
  then show ?case by (cases p) (auto simp: map_from_snoc split: if_splits)
qed (simp add: map_from_def)

lemma map_from_get_distinct:
  assumes "distinct (map fst ps)" "(k, v) \<in> set ps"
  shows "map_get (map_from ps) k = Some v"
  using assms
proof (induction ps rule: rev_induct)
  case (snoc p ps)
  then show ?case by (cases p) (force simp: map_from_snoc image_iff)
qed simp

lemma map_from_present: "k \<in> fst ` set ps \<Longrightarrow> map_get (map_from ps) k \<noteq> None"
proof (induction ps rule: rev_induct)
  case (snoc p ps)
  then show ?case by (cases p) (auto simp: map_from_snoc)
qed simp

lemma plan_item_facts:
  assumes "plan_item m bid at nid p = Inr it"
  shows "it_destinationWallet it = pi_destinationWallet p \<and> it_amountAtomic it = pi_amountAtomic p \<and>
    map al_accrualId (it_allocations it) = pi_accrualIds p \<and> it_status it = I_allocated \<and>
    it_payoutBatchId it = bid \<and> it_id it = nid \<and> id_regex nid \<and>
    (\<forall>al \<in> set (it_allocations it). al_payoutItemId al = nid \<and>
       (\<exists>a. map_get m (al_accrualId al) = Some a \<and> al_amountAtomic al = ac_amountAtomic a))"
proof -
  from assms obtain als where nid: "id_regex nid" and als: "map_err (plan_allocation m nid) (pi_accrualIds p) = Inr als"
    and it: "it = \<lparr>it_id = nid, it_payoutBatchId = bid, it_destinationWallet = pi_destinationWallet p,
       it_destinationTokenAccount = None, it_amountAtomic = pi_amountAtomic p, it_status = I_allocated,
       it_createdAt = at, it_allocations = als\<rparr>"
    by (auto simp: plan_item_def err_simps)
  have "list_all2 (\<lambda>k al. plan_allocation m nid k = Inr al) (pi_accrualIds p) als"
    using als by (simp add: map_err_Inr)
  then have "map al_accrualId als = pi_accrualIds p \<and> (\<forall>al \<in> set als. al_payoutItemId al = nid \<and>
       (\<exists>a. map_get m (al_accrualId al) = Some a \<and> al_amountAtomic al = ac_amountAtomic a))"
    by (induction rule: list_all2_induct) (auto simp: plan_allocation_def split: option.splits)
  then show ?thesis using nid by (simp add: it)
qed

lemma plan_items_facts:
  assumes "map_err (\<lambda>(n, p). plan_item m bid at (f n) p) (enumerate k ps) = Inr items"
  shows "list_all2 (\<lambda>p it. \<exists>nid. plan_item m bid at nid p = Inr it) ps items"
  using assms
proof (induction ps arbitrary: k items)
  case (Cons p ps)
  then show ?case by (auto simp: and_then_Inr)
qed simp

lemma createPayoutBatchPlan_facts:
  assumes "createPayoutBatchPlan h clock nb ni i = Inr b"
  obtains p pb where
    "createPayoutPreview h clock \<lparr>pin_merchantId = bi_merchantId i,
       pin_accruals = filter (\<lambda>a. ac_asset a = bi_asset i) (bi_accruals i),
       pin_now = Some (pb_createdAt b), pin_minimumPayoutAmountAtomic = bi_minimumPayoutAmountAtomic i,
       pin_maxRecipients = bi_maxRecipients i, pin_fundingBalances = None\<rparr> = Inr p"
    "pb \<in> set (pr_batches p)" "pv_asset pb = bi_asset i"
    "list_all2 (\<lambda>p it. \<exists>nid. plan_item (map_from (map (\<lambda>a. (ac_id a, a)) (filter (\<lambda>a. ac_asset a = bi_asset i) (bi_accruals i))))
       (pb_id b) (pb_createdAt b) nid p = Inr it) (pv_items pb) (pb_items b)"
    "pb_totalAmountAtomic b = pv_totalAmountAtomic pb" "pb_merchantId b = bi_merchantId i"
    "pb_asset b = bi_asset i" "pb_status b = B_planned" "pb_items b \<noteq> []"
    "pb_itemCount b = length (pb_items b)" "pb_accrualCount b = length (allocated_ids b)"
proof -
  obtain ca bid p pb items where r:
    "createPayoutPreview h clock \<lparr>pin_merchantId = bi_merchantId i,
       pin_accruals = filter (\<lambda>a. ac_asset a = bi_asset i) (bi_accruals i),
       pin_now = Some ca, pin_minimumPayoutAmountAtomic = bi_minimumPayoutAmountAtomic i,
       pin_maxRecipients = bi_maxRecipients i, pin_fundingBalances = None\<rparr> = Inr p"
    "find (\<lambda>b. pv_asset b = bi_asset i) (pr_batches p) = Some pb" "pv_items pb \<noteq> []"
    "map_err (\<lambda>(n, p). plan_item (map_from (map (\<lambda>a. (ac_id a, a)) (filter (\<lambda>a. ac_asset a = bi_asset i) (bi_accruals i))))
       bid ca (ni n) p) (enumerate 0 (pv_items pb)) = Inr items"
    "b = \<lparr>pb_id = bid, pb_merchantId = bi_merchantId i, pb_payoutWalletId = bi_payoutWalletId i,
          pb_network = bi_network i, pb_asset = bi_asset i, pb_status = B_planned,
          pb_totalAmountAtomic = pv_totalAmountAtomic pb, pb_itemCount = length items,
          pb_accrualCount = (\<Sum>it\<leftarrow>items. length (it_allocations it)),
          pb_failureCode = None, pb_failureMessage = None, pb_createdAt = ca, pb_updatedAt = ca, pb_items = items\<rparr>"
    using assms unfolding createPayoutBatchPlan_def Let_def
    by (auto simp: and_then_Inr assertNonEmptyString_Inr assertSplit402Id_Inr split: option.splits if_splits)
  note items = plan_items_facts [OF r(4)]
  have "items \<noteq> []" using items r(3) by (auto dest: list_all2_lengthD)
  moreover have "length (allocated_ids b) = (\<Sum>it\<leftarrow>items. length (it_allocations it))"
    by (simp add: r(5) allocated_ids_def length_concat o_def)
  ultimately show thesis
    using that [of p pb] r items by (auto simp: find_Some_iff)
qed

text \<open>What one item of a plan allocates, for accruals with distinct ids.\<close>

definition allocation_ok :: "accrual list \<Rightarrow> payout_batch \<Rightarrow> payout_item \<Rightarrow> allocation \<Rightarrow> bool" where
  "allocation_ok accruals b it al \<longleftrightarrow> al_payoutItemId al = it_id it \<and>
     (\<exists>a \<in> set accruals. ac_id a = al_accrualId al \<and> ac_amountAtomic a = al_amountAtomic al \<and>
        ac_merchantId a = pb_merchantId b \<and> ac_asset a = pb_asset b \<and>
        ac_payoutWallet a = it_destinationWallet it \<and> ac_status a = Available \<and> 0 < accrual_amount a)"

lemma plan_item_allocations:
  assumes item: "plan_item (map_from (map (\<lambda>a. (ac_id a, a)) as)) bid at nid p = Inr it"
    and dist: "distinct (map ac_id as)"
    and ids: "mset (pi_accrualIds p) = mset (map ac_id g)" and sub: "set g \<subseteq> set as"
    and amount: "pi_amountAtomic p = show_int (\<Sum>a\<leftarrow>g. accrual_amount a)"
  shows "amount_of (it_amountAtomic it) = (\<Sum>al\<leftarrow>it_allocations it. amount_of (al_amountAtomic al)) \<and>
    (\<forall>al \<in> set (it_allocations it). \<exists>a \<in> set g. ac_id a = al_accrualId al \<and> ac_amountAtomic a = al_amountAtomic al)"
proof
  let ?m = "map_from (map (\<lambda>a. (ac_id a, a)) as)"
  note f = plan_item_facts [OF item]
  have get: "map_get ?m (ac_id a) = Some a" if "a \<in> set as" for a
    using that dist by (intro map_from_get_distinct) (auto simp: o_def)
  have al_a: "\<exists>a \<in> set g. ac_id a = al_accrualId al \<and> ac_amountAtomic a = al_amountAtomic al"
    if al: "al \<in> set (it_allocations it)" for al
  proof -
    have "al_accrualId al \<in> set (map al_accrualId (it_allocations it))" using al by simp
    then have "al_accrualId al \<in> set (map ac_id g)" using f ids mset_eq_setD by metis
    then obtain a where a: "a \<in> set g" "ac_id a = al_accrualId al" by auto
    then have "map_get ?m (al_accrualId al) = Some a" using get [of a] sub by auto
    moreover obtain a' where "map_get ?m (al_accrualId al) = Some a'" "al_amountAtomic al = ac_amountAtomic a'"
      using f al by blast
    ultimately show ?thesis using a by (intro bexI [of _ a]) simp_all
  qed
  then show "\<forall>al \<in> set (it_allocations it). \<exists>a \<in> set g. ac_id a = al_accrualId al \<and> ac_amountAtomic a = al_amountAtomic al"
    by blast
  let ?v = "\<lambda>k. case map_get ?m k of None \<Rightarrow> 0 | Some a \<Rightarrow> accrual_amount a"
  have "(\<Sum>al\<leftarrow>it_allocations it. amount_of (al_amountAtomic al)) = (\<Sum>al\<leftarrow>it_allocations it. ?v (al_accrualId al))"
    using f by (intro arg_cong [where f = sum_list] map_cong) (auto simp: accrual_amount_def)
  also have "\<dots> = (\<Sum>k\<leftarrow>pi_accrualIds p. ?v k)"
  proof -
    have "map al_accrualId (it_allocations it) = pi_accrualIds p" using f by simp
    then show ?thesis by (metis (no_types, lifting) list.map_comp comp_def map_eq_conv)
  qed
  also have "\<dots> = (\<Sum>k\<leftarrow>map ac_id g. ?v k)" by (rule sum_list_mset_eq [OF ids])
  also have "\<dots> = (\<Sum>a\<leftarrow>g. accrual_amount a)"
    using get sub by (auto simp: o_def intro!: arg_cong [where f = sum_list] map_cong)
  finally have "(\<Sum>al\<leftarrow>it_allocations it. amount_of (al_amountAtomic al)) = (\<Sum>a\<leftarrow>g. accrual_amount a)" .
  moreover have "0 \<le> (\<Sum>a\<leftarrow>g. accrual_amount a)" by (intro sum_list_nonneg) (auto simp: accrual_amount_def)
  ultimately show "amount_of (it_amountAtomic it) = (\<Sum>al\<leftarrow>it_allocations it. amount_of (al_amountAtomic al))"
    using f amount by simp
qed

lemma payableD: "payable h m n a \<Longrightarrow> ac_merchantId a = m \<and> ac_status a = Available \<and> 0 < accrual_amount a"
  by (simp add: payable_def)

lemma list_all2_sum:
  "list_all2 (\<lambda>x y. f x = g y) xs ys \<Longrightarrow> (\<Sum>x\<leftarrow>xs. f x) = (\<Sum>y\<leftarrow>ys. (g y :: int))"
  by (induction rule: list_all2_induct) auto

lemma member_subset_sum: "x \<in> set xs \<Longrightarrow> f x \<subseteq># (\<Sum>y\<leftarrow>xs. f y)"
  by (induction xs) (auto simp: subset_mset.add_increasing)

lemma payout_plan_sound:
  assumes "createPayoutBatchPlan h clock nb ni i = Inr b" and dist: "distinct (map ac_id (bi_accruals i))"
  shows "distinct (allocated_ids b) \<and> set (allocated_ids b) \<subseteq> ac_id ` set (bi_accruals i) \<and>
    amount_of (pb_totalAmountAtomic b) = (\<Sum>it\<leftarrow>pb_items b. amount_of (it_amountAtomic it)) \<and>
    (\<forall>it \<in> set (pb_items b).
       amount_of (it_amountAtomic it) = (\<Sum>al\<leftarrow>it_allocations it. amount_of (al_amountAtomic al)) \<and>
       (\<forall>al \<in> set (it_allocations it). allocation_ok (bi_accruals i) b it al)) \<and>
    pb_itemCount b = length (pb_items b) \<and> pb_accrualCount b = length (allocated_ids b)"
proof -
  let ?as = "filter (\<lambda>a. ac_asset a = bi_asset i) (bi_accruals i)"
  let ?m = "map_from (map (\<lambda>a. (ac_id a, a)) ?as)"
  let ?in = "\<lparr>pin_merchantId = bi_merchantId i, pin_accruals = ?as,
       pin_now = Some (pb_createdAt b), pin_minimumPayoutAmountAtomic = bi_minimumPayoutAmountAtomic i,
       pin_maxRecipients = bi_maxRecipients i, pin_fundingBalances = None\<rparr>"
  from assms(1) obtain p pb where r: "createPayoutPreview h clock ?in = Inr p"
    "pb \<in> set (pr_batches p)" "pv_asset pb = bi_asset i"
    "list_all2 (\<lambda>p it. \<exists>nid. plan_item ?m (pb_id b) (pb_createdAt b) nid p = Inr it) (pv_items pb) (pb_items b)"
    "pb_totalAmountAtomic b = pv_totalAmountAtomic pb" "pb_merchantId b = bi_merchantId i"
    "pb_asset b = bi_asset i" "pb_status b = B_planned" "pb_items b \<noteq> []"
    "pb_itemCount b = length (pb_items b)" "pb_accrualCount b = length (allocated_ids b)"
    by (rule createPayoutBatchPlan_facts)
  have das: "distinct (map ac_id ?as)" using dist by (simp add: distinct_map_filter)
  let ?G = "\<lambda>w. group_of (payable h (bi_merchantId i) (dateParse h (pr_generatedAt p))) (bi_asset i) w ?as"
  have grp: "mset (pi_accrualIds q) = mset (map ac_id (?G (pi_destinationWallet q))) \<and>
      pi_amountAtomic q = show_int (\<Sum>a\<leftarrow>?G (pi_destinationWallet q). accrual_amount a)" if "q \<in> set (pv_items pb)" for q
    using preview_item_sound [OF r(1,2) that] by (simp add: r(3) Let_def)
  have item: "\<exists>q \<in> set (pv_items pb). \<exists>nid. plan_item ?m (pb_id b) (pb_createdAt b) nid q = Inr it"
    if "it \<in> set (pb_items b)" for it using list_all2_right [OF r(4) that] by simp
  have items: "amount_of (it_amountAtomic it) = (\<Sum>al\<leftarrow>it_allocations it. amount_of (al_amountAtomic al)) \<and>
      (\<forall>al \<in> set (it_allocations it). allocation_ok (bi_accruals i) b it al)" if it: "it \<in> set (pb_items b)" for it
  proof -
    from item [OF it] obtain q nid where q: "q \<in> set (pv_items pb)"
      and pi: "plan_item ?m (pb_id b) (pb_createdAt b) nid q = Inr it" by blast
    have sub: "set (?G (pi_destinationWallet q)) \<subseteq> set ?as" by (auto simp: group_of_def)
    note al = plan_item_allocations [OF pi das _ sub] and f = plan_item_facts [OF pi]
    have "allocation_ok (bi_accruals i) b it al" if "al \<in> set (it_allocations it)" for al
    proof -
      from al grp [OF q] that obtain a where a: "a \<in> set (?G (pi_destinationWallet q))"
        "ac_id a = al_accrualId al" "ac_amountAtomic a = al_amountAtomic al" by blast
      then show ?thesis
        using f that by (auto simp: allocation_ok_def group_of_def r(6,7) dest!: payableD)
    qed
    then show ?thesis using al grp [OF q] by blast
  qed
  have "list_all2 (\<lambda>q it. amount_of (pi_amountAtomic q) = amount_of (it_amountAtomic it)) (pv_items pb) (pb_items b)"
    using r(4) by (rule list_all2_mono) (auto dest: plan_item_facts)
  then have total: "amount_of (pb_totalAmountAtomic b) = (\<Sum>it\<leftarrow>pb_items b. amount_of (it_amountAtomic it))"
    using preview_batches [OF r(1)] r(2,5) by (auto simp: list_all2_sum)
  have "list_all2 (\<lambda>q it. map al_accrualId (it_allocations it) = pi_accrualIds q) (pv_items pb) (pb_items b)"
    using r(4) by (rule list_all2_mono) (auto dest: plan_item_facts)
  then have "mset (allocated_ids b) = batch_ids pb"
    unfolding allocated_ids_def batch_ids_def by (induction rule: list_all2_induct) auto
  moreover have "batch_ids pb \<subseteq># (\<Sum>c\<leftarrow>pr_batches p. batch_ids c)"
    by (rule member_subset_sum [OF r(2)])
  moreover have "(\<Sum>c\<leftarrow>pr_batches p. batch_ids c) \<subseteq># mset (map ac_id ?as)"
    using preview_partition [OF r(1)] by simp (metis mset_subset_eq_add_right)
  ultimately have sub: "mset (allocated_ids b) \<subseteq># mset (map ac_id ?as)" using subset_mset.order_trans by metis
  have "distinct (allocated_ids b)"
    using distinct_subset_mset [OF sub, of id] das by simp
  moreover have "set (allocated_ids b) \<subseteq> ac_id ` set (bi_accruals i)"
    using set_mset_mono [OF sub] by auto
  ultimately show ?thesis using items total r(10,11) by blast
qed

text \<open>C1. A payout batch pays what it allocates: the plan made from accruals with distinct ids
  allocates each accrual at most once; every allocation carries the amount of an available, positive
  accrual of the batch's merchant and asset whose payout wallet is the item's destination; an item's
  amount is the sum of its allocations, the batch total the sum of its items, and the counters
  are exact.\<close>

theorem payout_plan_conserves:
  assumes "createPayoutBatchPlan h clock nb ni i = Inr b" and dist: "distinct (map ac_id (bi_accruals i))"
  shows "distinct (allocated_ids b) \<and> set (allocated_ids b) \<subseteq> ac_id ` set (bi_accruals i) \<and>
    amount_of (pb_totalAmountAtomic b) = (\<Sum>it\<leftarrow>pb_items b. amount_of (it_amountAtomic it)) \<and>
    (\<forall>it \<in> set (pb_items b).
       amount_of (it_amountAtomic it) = (\<Sum>al\<leftarrow>it_allocations it. amount_of (al_amountAtomic al)) \<and>
       (\<forall>al \<in> set (it_allocations it). allocation_ok (bi_accruals i) b it al)) \<and>
    pb_itemCount b = length (pb_items b) \<and> pb_accrualCount b = length (allocated_ids b)"
  by (rule payout_plan_sound [OF assms])

definition toy_id :: "string \<Rightarrow> char \<Rightarrow> string" where
  "toy_id prefix c = prefix @ ''_'' @ replicate 32 c"

definition toy_batch_input :: batch_input where
  "toy_batch_input = \<lparr>bi_merchantId = ''m'', bi_payoutWalletId = toy_id ''mpw'' (CHR ''1''), bi_network = ''n'',
     bi_asset = ''usd'', bi_accruals = [toy_accrual ''a3'' ''w1'' ''usd'' ''30'', toy_accrual ''a1'' ''w1'' ''usd'' ''12''],
     bi_now = Some ''ZZZ'', bi_batchId = Some (toy_id ''pbt'' (CHR ''2'')),
     bi_minimumPayoutAmountAtomic = None, bi_maxRecipients = None\<rparr>"

definition toy_batch :: payout_batch where
  "toy_batch = \<lparr>pb_id = toy_id ''pbt'' (CHR ''2''), pb_merchantId = ''m'', pb_payoutWalletId = toy_id ''mpw'' (CHR ''1''),
     pb_network = ''n'', pb_asset = ''usd'', pb_status = B_planned, pb_totalAmountAtomic = ''42'', pb_itemCount = 1,
     pb_accrualCount = 2, pb_failureCode = None, pb_failureMessage = None, pb_createdAt = ''ZZZ'', pb_updatedAt = ''ZZZ'',
     pb_items = [\<lparr>it_id = toy_id ''pit'' (CHR ''3''), it_payoutBatchId = toy_id ''pbt'' (CHR ''2''),
       it_destinationWallet = ''w1'', it_destinationTokenAccount = None, it_amountAtomic = ''42'',
       it_status = I_allocated, it_createdAt = ''ZZZ'',
       it_allocations = [
         \<lparr>al_payoutItemId = toy_id ''pit'' (CHR ''3''), al_accrualId = ''a1'', al_amountAtomic = ''12''\<rparr>,
         \<lparr>al_payoutItemId = toy_id ''pit'' (CHR ''3''), al_accrualId = ''a3'', al_amountAtomic = ''30''\<rparr>]\<rparr>]\<rparr>"

lemma toy_batch_run:
  "createPayoutBatchPlan toy_host ''Z'' ''x'' (\<lambda>n. toy_id ''pit'' (CHR ''3'')) toy_batch_input = Inr toy_batch"
  by code_simp

theorem payout_plan_conserves_witness:
  "distinct (allocated_ids toy_batch) \<and>
   amount_of (pb_totalAmountAtomic toy_batch) = (\<Sum>it\<leftarrow>pb_items toy_batch. amount_of (it_amountAtomic it))"
proof -
  have "distinct (map ac_id (bi_accruals toy_batch_input))" by code_simp
  from payout_plan_conserves [OF toy_batch_run this] show ?thesis by blast
qed

end
