(* ===== verification/Payout_Transactions.thy ===== *)
theory Payout_Transactions
  imports Payout_Plan
begin

text \<open>
  \<^verbatim>\<open>packages/control-plane/src/payouts.ts\<close>, signed payout transactions: their records, the mapping of
  transactions to payout items, the latest attempt of each sequence and the roll-up of transaction
  finality to items and batch, and which transactions are still to be watched.
\<close>

section \<open>Signed transactions\<close>

record signed_item_input =
  xi_payoutItemId :: string
  xi_amountAtomic :: string
  xi_destinationWallet :: string
  xi_destinationTokenAccount :: "string option"

record signed_tx_input =
  si_id :: "string option"
  si_sequence :: int
  si_attempt :: "int option"
  si_recentBlockhash :: "string option"
  si_lastValidBlockHeight :: "int option"
  si_signedTransactionBase64 :: string
  si_expectedSignature :: "string option"
  si_items :: "signed_item_input list option"

record save_signed_input =
  ss_payoutBatchId :: string
  ss_transactions :: "signed_tx_input list"
  ss_now :: "string option"

definition readAttempt :: "signed_tx_input \<Rightarrow> int" where
  "readAttempt t = (case si_attempt t of None \<Rightarrow> 1 | Some n \<Rightarrow> n)"

definition readSignedPayoutTransactionItems ::
  "signed_item_input list option \<Rightarrow> string \<Rightarrow> cp_error + transaction_item list" where
  "readSignedPayoutTransactionItems items payoutTransactionId = (case items of None \<Rightarrow> Inr []
     | Some xs \<Rightarrow> map_err (\<lambda>x.
         and_then (assertSplit402Id (xi_payoutItemId x) ''payout transaction payoutItemId'') (\<lambda>itemId.
         and_then (readPositiveAtomicAmount (xi_amountAtomic x) ''payout transaction item amountAtomic'') (\<lambda>amount.
         and_then (assertNonEmptyString (xi_destinationWallet x) ''payout transaction item destinationWallet'') (\<lambda>wallet.
         and_then (map_opt_err (\<lambda>a. assertNonEmptyString a ''payout transaction item destinationTokenAccount'')
           (xi_destinationTokenAccount x)) (\<lambda>account.
         Inr \<lparr>ti_payoutTransactionId = payoutTransactionId, ti_payoutItemId = itemId,
              ti_amountAtomic = show_int amount, ti_destinationWallet = wallet,
              ti_destinationTokenAccount = account\<rparr>))))) xs)"

text \<open>What the loop remembers: the sequence and attempt pairs and the signatures it has seen, the
  records it has made, and how many ids it has drawn.\<close>

record signed_state =
  st_sequenceAttempts :: "string list"
  st_expectedSignatures :: "string list"
  st_records :: "payout_transaction list"
  st_drawn :: nat

definition signed_record ::
  "string \<Rightarrow> string \<Rightarrow> (nat \<Rightarrow> string) \<Rightarrow> signed_tx_input \<Rightarrow> signed_state \<Rightarrow> cp_error + payout_transaction" where
  "signed_record payoutBatchId createdAt newId t st =
     and_then (assertNonNegativeInteger (si_sequence t) ''payout transaction sequence'') (\<lambda>sequence.
     and_then (assertPositiveInteger (readAttempt t) ''payout transaction attempt'') (\<lambda>attempt.
     and_then (ensure (show_int sequence @ '':'' @ show_int attempt \<notin> set (st_sequenceAttempts st))
       (Batch_Invalid (''duplicate payout transaction sequence and attempt: '' @ show_int sequence @ '':'' @ show_int attempt))) (\<lambda>_.
     and_then (map_opt_err (\<lambda>s. assertNonEmptyString s ''payout transaction expectedSignature'')
       (si_expectedSignature t)) (\<lambda>expectedSignature.
     and_then (ensure (opt_all (\<lambda>s. s \<notin> set (st_expectedSignatures st)) expectedSignature)
       (Batch_Invalid ''duplicate payout transaction expectedSignature'')) (\<lambda>_.
     and_then (assertSplit402Id (now_or (si_id t) (newId (st_drawn st))) ''payout transaction id'') (\<lambda>txId.
     and_then (map_opt_err (\<lambda>s. assertNonEmptyString s ''payout transaction recentBlockhash'')
       (si_recentBlockhash t)) (\<lambda>recentBlockhash.
     and_then (map_opt_err (\<lambda>n. assertNonNegativeInteger n ''payout transaction lastValidBlockHeight'')
       (si_lastValidBlockHeight t)) (\<lambda>lastValidBlockHeight.
     and_then (assertBase64String (si_signedTransactionBase64 t) ''payout transaction signedTransactionBase64'') (\<lambda>signed.
     and_then (readSignedPayoutTransactionItems (si_items t) txId) (\<lambda>items.
     Inr \<lparr>tx_id = txId, tx_payoutBatchId = payoutBatchId, tx_sequence = sequence,
        tx_attempt = attempt, tx_recentBlockhash = recentBlockhash,
        tx_lastValidBlockHeight = lastValidBlockHeight, tx_signedTransactionBase64 = Some signed,
        tx_expectedSignature = expectedSignature, tx_status = T_signed, tx_submittedAt = None,
        tx_confirmedAt = None, tx_finalizedAt = None, tx_error = None, tx_createdAt = createdAt,
        tx_items = items\<rparr>))))))))))"

definition signed_step ::
  "string \<Rightarrow> string \<Rightarrow> (nat \<Rightarrow> string) \<Rightarrow> signed_tx_input \<Rightarrow> signed_state \<Rightarrow> cp_error + signed_state" where
  "signed_step payoutBatchId createdAt newId t st =
     and_then (signed_record payoutBatchId createdAt newId t st) (\<lambda>r.
     Inr \<lparr>st_sequenceAttempts = (show_int (tx_sequence r) @ '':'' @ show_int (tx_attempt r)) # st_sequenceAttempts st,
          st_expectedSignatures = (case tx_expectedSignature r of None \<Rightarrow> st_expectedSignatures st
             | Some s \<Rightarrow> s # st_expectedSignatures st),
          st_records = st_records st @ [r],
          st_drawn = (if si_id t = None then st_drawn st + 1 else st_drawn st)\<rparr>)"

definition createSignedPayoutTransactionRecords ::
  "host \<Rightarrow> string \<Rightarrow> (nat \<Rightarrow> string) \<Rightarrow> save_signed_input \<Rightarrow> cp_error + payout_transaction list" where
  "createSignedPayoutTransactionRecords h clock newId i =
     and_then (assertSplit402Id (ss_payoutBatchId i) ''payoutBatchId'') (\<lambda>payoutBatchId.
     and_then (normalizeTimestamp h (now_or (ss_now i) clock) ''now'') (\<lambda>createdAt.
     and_then (ensure (ss_transactions i \<noteq> []) (Batch_Invalid ''signed payout transactions are required'')) (\<lambda>_.
     and_then (fold_err (signed_step payoutBatchId createdAt newId)
       (sort_by (\<lambda>l r. or_else (si_sequence l - si_sequence r) (readAttempt l - readAttempt r)) (ss_transactions i))
       \<lparr>st_sequenceAttempts = [], st_expectedSignatures = [], st_records = [], st_drawn = 0\<rparr>) (\<lambda>st.
     Inr (st_records st)))))"

section \<open>Mapping transactions to payout items\<close>

definition default_mappings :: "payout_transaction \<Rightarrow> payout_batch \<Rightarrow> transaction_item list" where
  "default_mappings t b = map (\<lambda>it. \<lparr>ti_payoutTransactionId = tx_id t, ti_payoutItemId = it_id it,
     ti_amountAtomic = it_amountAtomic it, ti_destinationWallet = it_destinationWallet it,
     ti_destinationTokenAccount = it_destinationTokenAccount it\<rparr>) (pb_items b)"

text \<open>One mapping: the state is the set of items seen in the transaction, the sequence of each item
  so far, and the mappings made.\<close>

definition mapping_step ::
  "(string, payout_item) js_map \<Rightarrow> payout_transaction \<Rightarrow> transaction_item \<Rightarrow>
   string list \<times> (string, int) js_map \<times> transaction_item list \<Rightarrow>
   cp_error + string list \<times> (string, int) js_map \<times> transaction_item list" where
  "mapping_step batchItemsById t m st = (case st of (seen, sequenceByItem, done) \<Rightarrow>
     let itemId = ti_payoutItemId m in
     case map_get batchItemsById itemId of
       None \<Rightarrow> Inl (Batch_Invalid (''payout transaction references unknown payout item: '' @ itemId))
     | Some payoutItem \<Rightarrow>
       if itemId \<in> set seen then Inl (Batch_Invalid (''duplicate payout item mapping: '' @ itemId))
       else if \<not> opt_all (\<lambda>s. s = tx_sequence t) (map_get sequenceByItem itemId)
       then Inl (Batch_Invalid (''payout item is mapped to multiple transaction sequences: '' @ itemId))
       else if ti_amountAtomic m \<noteq> it_amountAtomic payoutItem
       then Inl (Batch_Invalid (''payout transaction item amount mismatch: '' @ itemId))
       else if ti_destinationWallet m \<noteq> it_destinationWallet payoutItem
       then Inl (Batch_Invalid (''payout transaction item destination wallet mismatch: '' @ itemId))
       else if ti_destinationTokenAccount m \<noteq> it_destinationTokenAccount payoutItem
       then Inl (Batch_Invalid (''payout transaction item destination token account mismatch: '' @ itemId))
       else Inr (itemId # seen, map_set itemId (tx_sequence t) sequenceByItem,
         done @ [m\<lparr>ti_payoutTransactionId := tx_id t\<rparr>]))"

definition attach_step ::
  "bool \<Rightarrow> payout_batch \<Rightarrow> (string, payout_item) js_map \<Rightarrow> payout_transaction \<Rightarrow>
   (string, int) js_map \<times> payout_transaction list \<Rightarrow> cp_error + (string, int) js_map \<times> payout_transaction list" where
  "attach_step defaultAllItems b batchItemsById t st =
     (let rawItems = (if defaultAllItems then default_mappings t b else tx_items t)
      in and_then (ensure (rawItems \<noteq> []) (Batch_Invalid ''payout transaction item mappings are required'')) (\<lambda>_.
         and_then (fold_err (mapping_step batchItemsById t) rawItems ([], fst st, [])) (\<lambda>(_, sequenceByItem, items).
         Inr (sequenceByItem, snd st @ [t\<lparr>tx_items := items\<rparr>]))))"

definition attachPayoutTransactionItemMappings ::
  "payout_transaction list \<Rightarrow> payout_batch \<Rightarrow> cp_error + payout_transaction list" where
  "attachPayoutTransactionItemMappings ts b =
     (if ts = [] then Inr []
      else let batchItemsById = map_from (map (\<lambda>it. (it_id it, it)) (pb_items b));
               defaultAllItems = (length ts = 1 \<and> tx_items (hd ts) = [])
           in and_then (fold_err (attach_step defaultAllItems b batchItemsById) ts ([], []))
                (\<lambda>st. Inr (snd st)))"

section \<open>Finality\<close>

record item_status_update =
  iu_payoutItemId :: string
  iu_status :: item_status

record finality_rollup =
  fr_batchStatus :: batch_status
  fr_itemStatus :: "item_status option"
  fr_failureCode :: "string option"
  fr_failureMessage :: "string option"

record item_rollup =
  ir_batchStatus :: batch_status
  ir_updatedItems :: "item_status_update list"
  ir_failureCode :: "string option"
  ir_failureMessage :: "string option"

definition readPayoutTransactionFailureMessage :: "payout_transaction \<Rightarrow> string" where
  "readPayoutTransactionFailureMessage t =
     (let message = (case tx_error t of None \<Rightarrow> None | Some es \<Rightarrow> map_of es ''message'')
      in case message of Some (JStr s) \<Rightarrow> if 0 < length s then s else ''payout transaction failed: '' @ tx_id t
         | _ \<Rightarrow> ''payout transaction failed: '' @ tx_id t)"

definition expired_message :: "payout_transaction \<Rightarrow> string" where
  "expired_message t = ''payout transaction expired before safe finality: '' @ tx_id t"

definition unknown_message :: "payout_transaction \<Rightarrow> string" where
  "unknown_message t = ''payout transaction outcome is unknown: '' @ tx_id t"

definition summarizePayoutBatchFinality :: "payout_transaction list \<Rightarrow> finality_rollup option" where
  "summarizePayoutBatchFinality ts =
     (if ts = [] then None else
      case find (\<lambda>t. tx_status t = T_failed) ts of
        Some t \<Rightarrow> Some \<lparr>fr_batchStatus = B_failed, fr_itemStatus = Some I_failed,
          fr_failureCode = Some ''payout_transaction_failed'',
          fr_failureMessage = Some (readPayoutTransactionFailureMessage t)\<rparr>
      | None \<Rightarrow>
      case find (\<lambda>t. tx_status t = T_expired) ts of
        Some t \<Rightarrow> Some \<lparr>fr_batchStatus = B_outcome_unknown, fr_itemStatus = None,
          fr_failureCode = Some ''payout_transaction_expired'', fr_failureMessage = Some (expired_message t)\<rparr>
      | None \<Rightarrow>
      case find (\<lambda>t. tx_status t = T_outcome_unknown) ts of
        Some t \<Rightarrow> Some \<lparr>fr_batchStatus = B_outcome_unknown, fr_itemStatus = None,
          fr_failureCode = Some ''payout_transaction_outcome_unknown'', fr_failureMessage = Some (unknown_message t)\<rparr>
      | None \<Rightarrow>
      if list_all (\<lambda>t. tx_status t = T_finalized) ts
      then Some \<lparr>fr_batchStatus = B_finalized, fr_itemStatus = Some I_finalized, fr_failureCode = None, fr_failureMessage = None\<rparr>
      else if list_all (\<lambda>t. tx_status t \<in> {T_confirmed, T_finalized}) ts
      then Some \<lparr>fr_batchStatus = B_confirmed, fr_itemStatus = Some I_confirmed, fr_failureCode = None, fr_failureMessage = None\<rparr>
      else if list_ex (\<lambda>t. tx_status t \<in> {T_submitted, T_confirmed, T_finalized}) ts
      then Some \<lparr>fr_batchStatus = B_submitted, fr_itemStatus = Some I_submitted, fr_failureCode = None, fr_failureMessage = None\<rparr>
      else if list_ex (\<lambda>t. tx_status t \<in> {T_signed, T_planned}) ts
      then Some \<lparr>fr_batchStatus = B_signing, fr_itemStatus = None, fr_failureCode = None, fr_failureMessage = None\<rparr>
      else None)"

definition latest_step :: "host \<Rightarrow> payout_transaction \<Rightarrow> (int, payout_transaction) js_map \<Rightarrow> (int, payout_transaction) js_map" where
  "latest_step h t m = (case map_get m (tx_sequence t) of None \<Rightarrow> map_set (tx_sequence t) t m
     | Some e \<Rightarrow> if tx_attempt t > tx_attempt e \<or>
          (tx_attempt t = tx_attempt e \<and> localeCompare h (tx_createdAt t) (tx_createdAt e) > 0)
         then map_set (tx_sequence t) t m else m)"

definition compare_latest :: "host \<Rightarrow> payout_transaction \<Rightarrow> payout_transaction \<Rightarrow> int" where
  "compare_latest h l r = or_else (tx_sequence l - tx_sequence r) (or_else (tx_attempt l - tx_attempt r)
     (or_else (localeCompare h (tx_createdAt l) (tx_createdAt r)) (localeCompare h (tx_id l) (tx_id r))))"

definition latestAttemptBySequence :: "host \<Rightarrow> payout_transaction list \<Rightarrow> payout_transaction list" where
  "latestAttemptBySequence h ts = sort_by (compare_latest h) (map_values (fold (latest_step h) ts []))"

fun payoutItemStatusForTransactionStatus :: "tx_status \<Rightarrow> item_status option" where
  "payoutItemStatusForTransactionStatus T_submitted = Some I_submitted"
| "payoutItemStatusForTransactionStatus T_confirmed = Some I_confirmed"
| "payoutItemStatusForTransactionStatus T_finalized = Some I_finalized"
| "payoutItemStatusForTransactionStatus T_failed = Some I_failed"
| "payoutItemStatusForTransactionStatus T_planned = None"
| "payoutItemStatusForTransactionStatus T_signed = None"
| "payoutItemStatusForTransactionStatus T_expired = None"
| "payoutItemStatusForTransactionStatus T_outcome_unknown = None"

definition mark_item :: "item_status \<Rightarrow> transaction_item \<Rightarrow> (string, item_status) js_map \<Rightarrow> (string, item_status) js_map" where
  "mark_item s ti m = (if map_get m (ti_payoutItemId ti) \<noteq> None then map_set (ti_payoutItemId ti) s m else m)"

definition status_step :: "payout_transaction \<Rightarrow> (string, item_status) js_map \<Rightarrow> (string, item_status) js_map" where
  "status_step t m = (case payoutItemStatusForTransactionStatus (tx_status t) of None \<Rightarrow> m
     | Some s \<Rightarrow> fold (mark_item s) (tx_items t) m)"

text \<open>The failure code and message of the first active transaction that has one.\<close>

fun failure_of :: "payout_transaction list \<Rightarrow> (string \<times> string) option" where
  "failure_of [] = None"
| "failure_of (t # ts) =
     (if tx_status t = T_failed then Some (''payout_transaction_failed'', readPayoutTransactionFailureMessage t)
      else if tx_status t = T_expired then Some (''payout_transaction_expired'', expired_message t)
      else if tx_status t = T_outcome_unknown then Some (''payout_transaction_outcome_unknown'', unknown_message t)
      else failure_of ts)"

definition terminal_failure :: "payout_transaction \<Rightarrow> bool" where
  "terminal_failure t \<longleftrightarrow> tx_status t \<in> {T_failed, T_expired, T_outcome_unknown}"

definition rollup_status :: "payout_transaction list \<Rightarrow> item_status list \<Rightarrow> batch_status" where
  "rollup_status active next =
     (case find terminal_failure active of
        Some t \<Rightarrow> if tx_status t = T_failed then B_failed else B_outcome_unknown
      | None \<Rightarrow>
        if list_all (\<lambda>s. s = I_finalized) next then B_finalized
        else if next \<noteq> [] \<and> list_all (\<lambda>s. s \<in> {I_confirmed, I_finalized}) next then B_confirmed
        else if list_ex (\<lambda>s. s \<in> {I_submitted, I_confirmed, I_finalized}) next then B_submitted
        else B_signing)"

definition summarizePayoutBatchTransactionItemFinality ::
  "host \<Rightarrow> payout_batch \<Rightarrow> payout_transaction list \<Rightarrow> item_rollup option" where
  "summarizePayoutBatchTransactionItemFinality h b ts =
     (if ts = [] then None
      else let active = latestAttemptBySequence h ts;
               statusById = fold status_step active (map_from (map (\<lambda>it. (it_id it, it_status it)) (pb_items b)));
               nextOf = (\<lambda>it. case map_get statusById (it_id it) of None \<Rightarrow> it_status it | Some s \<Rightarrow> s);
               updates = map (\<lambda>it. \<lparr>iu_payoutItemId = it_id it, iu_status = nextOf it\<rparr>) (pb_items b)
           in Some \<lparr>ir_batchStatus = rollup_status active (map nextOf (pb_items b)),
                ir_updatedItems = filter (\<lambda>u. case find (\<lambda>it. it_id it = iu_payoutItemId u) (pb_items b) of
                    None \<Rightarrow> False | Some e \<Rightarrow> it_status e \<noteq> iu_status u) updates,
                ir_failureCode = map_option fst (failure_of active),
                ir_failureMessage = map_option snd (failure_of active)\<rparr>)"

section \<open>Watching transactions\<close>

definition isPayoutTransactionOutcomeUnknown :: "payout_transaction \<Rightarrow> bool" where
  "isPayoutTransactionOutcomeUnknown t \<longleftrightarrow> tx_status t = T_outcome_unknown \<or> tx_status t = T_expired"

definition isPayoutTransactionPendingFinality :: "payout_transaction \<Rightarrow> bool" where
  "isPayoutTransactionPendingFinality t \<longleftrightarrow> (tx_status t = T_submitted \<or> tx_status t = T_confirmed) \<and>
     (case tx_expectedSignature t of None \<Rightarrow> False | Some s \<Rightarrow> 0 < length s)"

definition normalizePayoutPendingFinalityLimit :: "int option \<Rightarrow> cp_error + int" where
  "normalizePayoutPendingFinalityLimit limit = (case limit of None \<Rightarrow> Inr 25
     | Some n \<Rightarrow> if n < 1 then Inl (Batch_Invalid ''pending finality limit must be a positive integer'')
         else Inr (min n 100))"

definition normalizePayoutLedgerClosureLimit :: "int option \<Rightarrow> cp_error + int" where
  "normalizePayoutLedgerClosureLimit limit =
     (let n = (case limit of None \<Rightarrow> 25 | Some n \<Rightarrow> n)
      in if n \<le> 0 \<or> n > 100 then Inl (Batch_Invalid ''payout ledger closure limit must be between 1 and 100'')
         else Inr n)"

definition normalizeListMerchantPayoutBatchesLimit :: "int option \<Rightarrow> cp_error + int" where
  "normalizeListMerchantPayoutBatchesLimit limit =
     (let n = (case limit of None \<Rightarrow> 50 | Some n \<Rightarrow> n)
      in if n \<le> 0 \<or> n > 100 then Inl (Batch_Invalid ''limit must be an integer from 1 to 100'') else Inr n)"

definition comparePayoutTransactionsPendingFinality :: "host \<Rightarrow> payout_transaction \<Rightarrow> payout_transaction \<Rightarrow> int" where
  "comparePayoutTransactionsPendingFinality h l r =
     (let ls = now_or (tx_submittedAt l) []; rs = now_or (tx_submittedAt r) []
      in if ls \<noteq> rs then (if ls = [] then 1 else if rs = [] then - 1 else localeCompare h ls rs)
         else or_else (localeCompare h (tx_createdAt l) (tx_createdAt r)) (localeCompare h (tx_id l) (tx_id r)))"

record reconciliation_item =
  ri_batch :: payout_batch
  ri_transactions :: "payout_transaction list"

definition createPayoutReconciliationItem ::
  "payout_batch \<Rightarrow> payout_transaction list \<Rightarrow> reconciliation_item option" where
  "createPayoutReconciliationItem b ts =
     (if pb_status b \<noteq> B_outcome_unknown then None
      else let unknown = filter isPayoutTransactionOutcomeUnknown ts
           in if unknown = [] then None else Some \<lparr>ri_batch = b, ri_transactions = unknown\<rparr>)"

section \<open>Facts\<close>

definition attempt_key :: "payout_transaction \<Rightarrow> string" where
  "attempt_key t = show_int (tx_sequence t) @ '':'' @ show_int (tx_attempt t)"

definition signatures :: "payout_transaction list \<Rightarrow> string list" where
  "signatures ts = concat (map (\<lambda>t. case tx_expectedSignature t of None \<Rightarrow> [] | Some s \<Rightarrow> [s]) ts)"

definition signed_inv :: "string \<Rightarrow> signed_state \<Rightarrow> bool" where
  "signed_inv bid st \<longleftrightarrow>
     set (st_sequenceAttempts st) = attempt_key ` set (st_records st) \<and>
     distinct (map attempt_key (st_records st)) \<and>
     set (st_expectedSignatures st) = set (signatures (st_records st)) \<and>
     distinct (signatures (st_records st)) \<and>
     (\<forall>t \<in> set (st_records st). tx_status t = T_signed \<and> tx_payoutBatchId t = bid \<and> id_regex (tx_id t) \<and>
        0 \<le> tx_sequence t \<and> 0 < tx_attempt t)"

lemma signatures_append [simp]: "signatures (xs @ ys) = signatures xs @ signatures ys"
  by (simp add: signatures_def)

lemma signed_record_facts:
  assumes "signed_record bid at newId t st = Inr r"
  shows "attempt_key r \<notin> set (st_sequenceAttempts st) \<and>
    opt_all (\<lambda>s. s \<notin> set (st_expectedSignatures st)) (tx_expectedSignature r) \<and>
    tx_status r = T_signed \<and> tx_payoutBatchId r = bid \<and> id_regex (tx_id r) \<and> 0 \<le> tx_sequence r \<and> 0 < tx_attempt r"
  using assms unfolding signed_record_def and_then_Inr ensure_Inr assertSplit402Id_Inr
  by (elim exE conjE)
    (simp add: attempt_key_def assertNonNegativeInteger_def assertPositiveInteger_def split: if_splits, force)

lemma signed_step_inv:
  assumes "signed_step bid at newId t st = Inr st'" "signed_inv bid st"
  shows "signed_inv bid st' \<and> length (st_records st') = Suc (length (st_records st))"
proof -
  from assms(1) obtain r where rec: "signed_record bid at newId t st = Inr r"
    and r: "st_records st' = st_records st @ [r]"
    and new: "st_sequenceAttempts st' = attempt_key r # st_sequenceAttempts st"
      "st_expectedSignatures st' = (case tx_expectedSignature r of None \<Rightarrow> st_expectedSignatures st
         | Some s \<Rightarrow> s # st_expectedSignatures st)"
    by (auto simp: signed_step_def and_then_Inr attempt_key_def)
  show ?thesis
    using assms(2) r new signed_record_facts [OF rec]
    by (cases "tx_expectedSignature r") (auto simp: signed_inv_def signatures_def)
qed

lemma signed_loop:
  "fold_err (signed_step bid at newId) xs st = Inr st' \<Longrightarrow> signed_inv bid st \<Longrightarrow>
   signed_inv bid st' \<and> length (st_records st') = length (st_records st) + length xs"
proof (induction xs arbitrary: st)
  case (Cons x xs)
  then obtain s1 where s1: "signed_step bid at newId x st = Inr s1" "fold_err (signed_step bid at newId) xs s1 = Inr st'"
    by (auto simp: and_then_Inr)
  show ?case using Cons.IH [OF s1(2)] signed_step_inv [OF s1(1) Cons.prems(2)] by simp
qed simp

lemma createSigned_facts:
  assumes "createSignedPayoutTransactionRecords h clock newId i = Inr rs"
  shows "distinct (map attempt_key rs) \<and> distinct (signatures rs) \<and> length rs = length (ss_transactions i) \<and> rs \<noteq> [] \<and>
    (\<forall>t \<in> set rs. tx_status t = T_signed \<and> tx_payoutBatchId t = ss_payoutBatchId i \<and> id_regex (tx_id t) \<and>
       0 \<le> tx_sequence t \<and> 0 < tx_attempt t)"
proof -
  from assms obtain at st xs where f: "fold_err (signed_step (ss_payoutBatchId i) at newId) xs
       \<lparr>st_sequenceAttempts = [], st_expectedSignatures = [], st_records = [], st_drawn = 0\<rparr> = Inr st"
    and xs: "length xs = length (ss_transactions i)" "ss_transactions i \<noteq> []" and rs: "rs = st_records st"
    unfolding createSignedPayoutTransactionRecords_def and_then_Inr by (auto simp: ensure_Inr assertSplit402Id_Inr)
  have "signed_inv (ss_payoutBatchId i) \<lparr>st_sequenceAttempts = [], st_expectedSignatures = [], st_records = [], st_drawn = 0\<rparr>"
    by (simp add: signed_inv_def signatures_def)
  from signed_loop [OF f this] have "signed_inv (ss_payoutBatchId i) st \<and> length rs = length xs" by (simp add: rs)
  moreover have "rs \<noteq> []" using xs calculation by auto
  ultimately show ?thesis using xs by (simp add: signed_inv_def rs)
qed

text \<open>A mapping that agrees with the batch.\<close>

definition mapping_ok :: "payout_batch \<Rightarrow> payout_transaction \<Rightarrow> transaction_item \<Rightarrow> bool" where
  "mapping_ok b t m \<longleftrightarrow> ti_payoutTransactionId m = tx_id t \<and>
     (\<exists>it \<in> set (pb_items b). it_id it = ti_payoutItemId m \<and> it_amountAtomic it = ti_amountAtomic m \<and>
        it_destinationWallet it = ti_destinationWallet m \<and> it_destinationTokenAccount it = ti_destinationTokenAccount m)"

lemma batch_item_get:
  "map_get (map_from (map (\<lambda>it. (it_id it, it)) items)) k = Some it \<Longrightarrow> it \<in> set items \<and> it_id it = k"
  by (auto dest: map_from_get_in)

definition sequences_agree :: "(string, int) js_map \<Rightarrow> payout_transaction list \<Rightarrow> bool" where
  "sequences_agree q ts \<longleftrightarrow>
     (\<forall>t \<in> set ts. \<forall>m \<in> set (tx_items t). map_get q (ti_payoutItemId m) = Some (tx_sequence t))"

lemma mapping_loop:
  assumes "fold_err (mapping_step (map_from (map (\<lambda>it. (it_id it, it)) (pb_items b))) t) ms (seen, q, done) = Inr (seen', q', done')"
    and "set seen = ti_payoutItemId ` set done" "distinct (map ti_payoutItemId done)"
    and "\<forall>m \<in> set done. mapping_ok b t m \<and> map_get q (ti_payoutItemId m) = Some (tx_sequence t)"
  shows "(distinct (map ti_payoutItemId done') \<and> length done' = length done + length ms \<and>
     (\<forall>m \<in> set done'. mapping_ok b t m \<and> map_get q' (ti_payoutItemId m) = Some (tx_sequence t))) \<and>
    (\<forall>k s. map_get q k = Some s \<longrightarrow> map_get q' k = Some s)"
  using assms
proof (induction ms arbitrary: seen q "done")
  case (Cons m ms)
  let ?M = "map_from (map (\<lambda>it. (it_id it, it)) (pb_items b))"
  from Cons.prems(1) obtain s1 where s1: "mapping_step ?M t m (seen, q, done) = Inr s1"
    and rest: "fold_err (mapping_step ?M t) ms s1 = Inr (seen', q', done')" by (auto simp: and_then_Inr)
  let ?m = "m\<lparr>ti_payoutTransactionId := tx_id t\<rparr>"
  from s1 obtain it where it: "map_get ?M (ti_payoutItemId m) = Some it"
    and fresh: "ti_payoutItemId m \<notin> set seen"
    and seq: "opt_all (\<lambda>s. s = tx_sequence t) (map_get q (ti_payoutItemId m))"
    and eq: "ti_amountAtomic m = it_amountAtomic it" "ti_destinationWallet m = it_destinationWallet it"
      "ti_destinationTokenAccount m = it_destinationTokenAccount it"
    and s1_eq: "s1 = (ti_payoutItemId m # seen, map_set (ti_payoutItemId m) (tx_sequence t) q, done @ [?m])"
    by (auto simp: mapping_step_def Let_def split: option.splits if_splits)
  have ok: "mapping_ok b t ?m" using batch_item_get [OF it] eq by (auto simp: mapping_ok_def)
  have keep: "map_get (map_set (ti_payoutItemId m) (tx_sequence t) q) k = Some s" if "map_get q k = Some s" for k s
    using that seq by auto
  from Cons.IH [OF rest [unfolded s1_eq]] Cons.prems(2-4) fresh ok keep show ?case by fastforce
qed auto

definition attached_ok :: "payout_batch \<Rightarrow> payout_transaction \<Rightarrow> bool" where
  "attached_ok b t \<longleftrightarrow> tx_items t \<noteq> [] \<and> distinct (map ti_payoutItemId (tx_items t)) \<and>
     (\<forall>m \<in> set (tx_items t). mapping_ok b t m)"

lemma attach_step_facts:
  assumes "attach_step d b (map_from (map (\<lambda>it. (it_id it, it)) (pb_items b))) t (q, ts) = Inr (q', ts')"
    and "sequences_agree q ts"
  shows "\<exists>t'. ts' = ts @ [t'] \<and> (\<exists>items. t' = t\<lparr>tx_items := items\<rparr>) \<and> attached_ok b t' \<and> sequences_agree q' ts'"
proof -
  let ?M = "map_from (map (\<lambda>it. (it_id it, it)) (pb_items b))"
  from assms(1) obtain raw seen items where raw: "raw \<noteq> []"
    and loop: "fold_err (mapping_step ?M t) raw ([], q, []) = Inr (seen, q', items)"
    and ts': "ts' = ts @ [t\<lparr>tx_items := items\<rparr>]"
    by (auto simp: attach_step_def Let_def and_then_Inr ensure_Inr)
  from mapping_loop [OF loop] have m: "distinct (map ti_payoutItemId items)" "length items = length raw"
    "\<forall>m \<in> set items. mapping_ok b t m \<and> map_get q' (ti_payoutItemId m) = Some (tx_sequence t)"
    "\<forall>k s. map_get q k = Some s \<longrightarrow> map_get q' k = Some s" by auto
  have "sequences_agree q' ts'" using assms(2) m(3,4) by (auto simp: sequences_agree_def ts')
  moreover have "attached_ok b (t\<lparr>tx_items := items\<rparr>)"
    using m raw by (auto simp: attached_ok_def mapping_ok_def)
  ultimately show ?thesis by (auto simp: ts')
qed

lemma attach_loop:
  assumes "fold_err (attach_step d b (map_from (map (\<lambda>it. (it_id it, it)) (pb_items b)))) xs (q, ts) = Inr (q', ts')"
    and "sequences_agree q ts"
  shows "\<exists>new. ts' = ts @ new \<and> list_all2 (\<lambda>t t'. (\<exists>items. t' = t\<lparr>tx_items := items\<rparr>) \<and> attached_ok b t') xs new \<and>
    sequences_agree q' ts'"
  using assms
proof (induction xs arbitrary: q ts)
  case (Cons x xs)
  from Cons.prems(1) obtain s1 where s1: "attach_step d b (map_from (map (\<lambda>it. (it_id it, it)) (pb_items b))) x (q, ts) = Inr s1"
    and rest: "fold_err (attach_step d b (map_from (map (\<lambda>it. (it_id it, it)) (pb_items b)))) xs s1 = Inr (q', ts')"
    by (auto simp: and_then_Inr)
  obtain q1 ts1 where s1_eq: "s1 = (q1, ts1)" by (cases s1)
  from attach_step_facts [OF s1 [unfolded s1_eq] Cons.prems(2)] obtain t'
    where t': "ts1 = ts @ [t']" "\<exists>items. t' = x\<lparr>tx_items := items\<rparr>" "attached_ok b t'" "sequences_agree q1 ts1" by blast
  from Cons.IH [OF rest [unfolded s1_eq] t'(4)] obtain new where
    "ts' = ts1 @ new" "list_all2 (\<lambda>t t'. (\<exists>items. t' = t\<lparr>tx_items := items\<rparr>) \<and> attached_ok b t') xs new" "sequences_agree q' ts'"
    by blast
  then show ?case using t' by (intro exI [of _ "t' # new"]) simp
qed simp

lemma attach_facts:
  assumes "attachPayoutTransactionItemMappings xs b = Inr ts"
  shows "list_all2 (\<lambda>t t'. (\<exists>items. t' = t\<lparr>tx_items := items\<rparr>) \<and> attached_ok b t') xs ts \<and> (\<exists>q. sequences_agree q ts)"
proof (cases "xs = []")
  case True
  then show ?thesis using assms by (simp add: attachPayoutTransactionItemMappings_def sequences_agree_def)
next
  case False
  then obtain d q where "fold_err (attach_step d b (map_from (map (\<lambda>it. (it_id it, it)) (pb_items b)))) xs ([], []) = Inr (q, ts)"
    using assms by (auto simp: attachPayoutTransactionItemMappings_def Let_def and_then_Inr)
  from attach_loop [OF this] show ?thesis by (auto simp: sequences_agree_def)
qed

subsection \<open>The latest attempt of each sequence\<close>

lemma latest_step_keys: "map_ok m \<Longrightarrow> map_ok (latest_step h t m)"
  by (simp add: latest_step_def jm.ok_put split: option.splits)

definition latest_inv :: "payout_transaction list \<Rightarrow> (int, payout_transaction) js_map \<Rightarrow> bool" where
  "latest_inv ts m \<longleftrightarrow> map_ok m \<and> (\<forall>k t. map_get m k = Some t \<longrightarrow> t \<in> set ts \<and> tx_sequence t = k) \<and>
     (\<forall>t \<in> set ts. \<exists>l. map_get m (tx_sequence t) = Some l \<and> tx_attempt t \<le> tx_attempt l)"

lemma latest_step_inv:
  assumes inv: "latest_inv ts m"
  shows "latest_inv (ts @ [t]) (latest_step h t m)"
proof -
  have ok: "map_ok m" using inv by (simp add: latest_inv_def)
  have put: "latest_inv (ts @ [t]) (map_set (tx_sequence t) t m)"
    if le: "\<And>l. map_get m (tx_sequence t) = Some l \<Longrightarrow> tx_attempt l \<le> tx_attempt t"
    unfolding latest_inv_def
  proof (intro conjI allI ballI impI)
    show "map_ok (map_set (tx_sequence t) t m)" using ok by (rule jm.ok_put)
    fix k u assume "map_get (map_set (tx_sequence t) t m) k = Some u"
    then show "u \<in> set (ts @ [t])" "tx_sequence u = k" using inv by (auto simp: latest_inv_def split: if_splits)
  next
    fix u assume "u \<in> set (ts @ [t])"
    then have "u = t \<or> (\<exists>l. map_get m (tx_sequence u) = Some l \<and> tx_attempt u \<le> tx_attempt l)"
      using inv by (auto simp: latest_inv_def)
    then show "\<exists>l. map_get (map_set (tx_sequence t) t m) (tx_sequence u) = Some l \<and> tx_attempt u \<le> tx_attempt l"
      using le by (cases "tx_sequence u = tx_sequence t") (auto intro: order_trans)
  qed
  show ?thesis
  proof (cases "map_get m (tx_sequence t)")
    case None
    then show ?thesis using put by (simp add: latest_step_def)
  next
    case (Some l)
    have keep: "latest_inv (ts @ [t]) m" if "tx_attempt t \<le> tx_attempt l"
      using inv Some that by (auto simp: latest_inv_def)
    show ?thesis using put keep Some by (auto simp: latest_step_def)
  qed
qed

lemma latest_loop: "latest_inv ts (fold (latest_step h) ts [])"
  by (induction ts rule: rev_induct) (simp_all add: latest_step_inv, simp add: latest_inv_def)

lemma latest_facts:
  "set (latestAttemptBySequence h ts) \<subseteq> set ts \<and> distinct (map tx_sequence (latestAttemptBySequence h ts)) \<and>
   (\<forall>t \<in> set ts. \<exists>l \<in> set (latestAttemptBySequence h ts). tx_sequence l = tx_sequence t \<and> tx_attempt t \<le> tx_attempt l)"
proof -
  let ?m = "fold (latest_step h) ts []"
  have inv: "latest_inv ts ?m" by (rule latest_loop)
  then have ok: "map_ok ?m" by (simp add: latest_inv_def)
  have set_eq: "set (latestAttemptBySequence h ts) = set (map_values ?m)" by (simp add: latestAttemptBySequence_def)
  have seqs: "map tx_sequence (map_values ?m) = map fst ?m"
    unfolding map_values_def map_map
  proof (rule map_cong [OF refl])
    fix e assume "e \<in> set ?m"
    then show "(tx_sequence \<circ> snd) e = fst e" using inv map_get_entry [OF ok, of e] by (simp add: latest_inv_def)
  qed
  have "distinct (map tx_sequence (map_values ?m))" using ok by (simp add: seqs map_ok_def)
  then have "distinct (map tx_sequence (latestAttemptBySequence h ts))"
    unfolding latestAttemptBySequence_def by (rule distinct_subset_mset [rotated]) simp
  moreover have "\<exists>l \<in> set (map_values ?m). tx_sequence l = tx_sequence t \<and> tx_attempt t \<le> tx_attempt l"
    if t: "t \<in> set ts" for t
  proof -
    obtain l where l: "map_get ?m (tx_sequence t) = Some l" "tx_attempt t \<le> tx_attempt l"
      using inv t unfolding latest_inv_def by blast
    then have "l \<in> set (map_values ?m)" "tx_sequence l = tx_sequence t"
      using jm.get_vals [OF ok l(1)] inv by (auto simp: latest_inv_def)
    then show ?thesis using l(2) by blast
  qed
  moreover have "set (map_values ?m) \<subseteq> set ts" using inv ok by (auto simp: latest_inv_def jm.vals_get)
  ultimately show ?thesis by (simp add: set_eq)
qed

subsection \<open>No item is paid twice\<close>

lemma concat_distinct:
  assumes "\<And>x. x \<in> set xs \<Longrightarrow> distinct (f x)" "distinct xs"
    and "\<And>x y. x \<in> set xs \<Longrightarrow> y \<in> set xs \<Longrightarrow> x \<noteq> y \<Longrightarrow> set (f x) \<inter> set (f y) = {}"
  shows "distinct (concat (map f xs))"
  using assms
proof (induction xs)
  case (Cons x xs)
  have "distinct (concat (map f xs))" using Cons.prems by (intro Cons.IH) auto
  moreover have "set (f x) \<inter> (\<Union>y \<in> set xs. set (f y)) = {}"
  proof -
    have "set (f x) \<inter> set (f y) = {}" if "y \<in> set xs" for y
      using that Cons.prems(2) Cons.prems(3) [of x y] by auto
    then show ?thesis by blast
  qed
  ultimately show ?case using Cons.prems(1) by simp
qed simp

text \<open>A choice of different elements of a list sums to at most the whole list.\<close>

lemma sum_chosen_le:
  assumes "distinct (map g ms)" "\<And>m. m \<in> set ms \<Longrightarrow> \<exists>x \<in> set xs. h x = g m \<and> f x = v m" "\<And>x. 0 \<le> f x"
  shows "(\<Sum>m\<leftarrow>ms. v m) \<le> (\<Sum>x\<leftarrow>xs. f x :: int)"
  using assms(1,2)
proof (induction ms arbitrary: xs)
  case Nil
  have "0 \<le> (\<Sum>x\<leftarrow>xs. f x)" by (rule sum_list_nonneg) (auto simp: assms(3))
  then show ?case by simp
next
  case (Cons m ms)
  have "\<exists>x \<in> set xs. h x = g m \<and> f x = v m" by (rule Cons.prems(2)) simp
  then obtain x where x: "x \<in> set xs" "h x = g m" "f x = v m" by blast
  then obtain ys zs where xs: "xs = ys @ x # zs" by (meson split_list)
  have "(\<Sum>m\<leftarrow>ms. v m) \<le> (\<Sum>x\<leftarrow>ys @ zs. f x)"
  proof (rule Cons.IH)
    show "distinct (map g ms)" using Cons.prems(1) by simp
    fix n assume n: "n \<in> set ms"
    then have "\<exists>y \<in> set xs. h y = g n \<and> f y = v n" by (intro Cons.prems(2)) simp
    then obtain y where y: "y \<in> set xs" "h y = g n" "f y = v n" by blast
    have "g m \<notin> g ` set ms" using Cons.prems(1) by simp
    then have "g n \<noteq> g m" using n by (metis imageI)
    then have "y \<noteq> x" using x y by auto
    then show "\<exists>y \<in> set (ys @ zs). h y = g n \<and> f y = v n" using y xs by auto
  qed
  then show ?case using x by (simp add: xs)
qed

text \<open>The items the active transactions (the latest attempt of each sequence) pay.\<close>

definition active_mappings :: "host \<Rightarrow> payout_transaction list \<Rightarrow> transaction_item list" where
  "active_mappings h ts = concat (map tx_items (latestAttemptBySequence h ts))"

lemma active_pay_once:
  assumes "\<And>t. t \<in> set ts \<Longrightarrow> attached_ok b t" "sequences_agree q ts"
  shows "distinct (map ti_payoutItemId (active_mappings h ts)) \<and>
    (\<Sum>m\<leftarrow>active_mappings h ts. amount_of (ti_amountAtomic m)) \<le> (\<Sum>it\<leftarrow>pb_items b. amount_of (it_amountAtomic it))"
proof -
  let ?act = "latestAttemptBySequence h ts"
  have sub: "set ?act \<subseteq> set ts" and seq: "distinct (map tx_sequence ?act)" using latest_facts by auto
  have dist: "distinct (map ti_payoutItemId (active_mappings h ts))"
    unfolding active_mappings_def map_concat map_map comp_def
  proof (rule concat_distinct)
    show "distinct (map ti_payoutItemId (tx_items t))" if "t \<in> set ?act" for t
      using assms(1) [of t] sub that by (auto simp: attached_ok_def)
    show "distinct ?act" using seq by (simp add: distinct_map)
    fix t u assume tu: "t \<in> set ?act" "u \<in> set ?act" "t \<noteq> u"
    then have ne: "tx_sequence t \<noteq> tx_sequence u" using seq by (auto simp: distinct_map inj_on_def)
    have seq_of: "map_get q k = Some (tx_sequence s)" if "k \<in> set (map ti_payoutItemId (tx_items s))" "s \<in> set ts" for k s
      using assms(2) that by (auto simp: sequences_agree_def)
    show "set (map ti_payoutItemId (tx_items t)) \<inter> set (map ti_payoutItemId (tx_items u)) = {}"
    proof (rule ccontr)
      assume "set (map ti_payoutItemId (tx_items t)) \<inter> set (map ti_payoutItemId (tx_items u)) \<noteq> {}"
      then obtain k where "k \<in> set (map ti_payoutItemId (tx_items t))" "k \<in> set (map ti_payoutItemId (tx_items u))" by blast
      then have "Some (tx_sequence t) = Some (tx_sequence u)" using seq_of sub tu(1,2) by (metis subsetD)
      then show False using ne by simp
    qed
  qed
  moreover have "(\<Sum>m\<leftarrow>active_mappings h ts. amount_of (ti_amountAtomic m)) \<le>
      (\<Sum>it\<leftarrow>pb_items b. amount_of (it_amountAtomic it))"
  proof (rule sum_chosen_le [where h = it_id, OF dist])
    fix m assume "m \<in> set (active_mappings h ts)"
    then obtain t where "t \<in> set ts" "m \<in> set (tx_items t)" using sub by (auto simp: active_mappings_def)
    then have "mapping_ok b t m" using assms(1) by (auto simp: attached_ok_def)
    then show "\<exists>it \<in> set (pb_items b). it_id it = ti_payoutItemId m \<and> amount_of (it_amountAtomic it) = amount_of (ti_amountAtomic m)"
      by (auto simp: mapping_ok_def)
  qed simp
  ultimately show ?thesis by blast
qed

text \<open>C11. The signed transactions of a batch pay each item at most once: the records saved from one
  request have pairwise different (sequence, attempt) pairs and expected signatures, every mapping
  repeats the amount and the destination of an item of the batch, and among the active transactions
  (the latest attempt of each sequence) no item occurs twice, so that together they move at most
  the total of the items.\<close>

theorem signed_transactions_pay_once:
  assumes "createSignedPayoutTransactionRecords h clock newId i = Inr rs"
    and "attachPayoutTransactionItemMappings rs b = Inr ts"
  shows "distinct (map (\<lambda>t. (tx_sequence t, tx_attempt t)) ts) \<and> distinct (signatures ts) \<and>
    (\<forall>t \<in> set ts. tx_status t = T_signed \<and> tx_items t \<noteq> [] \<and> (\<forall>m \<in> set (tx_items t). mapping_ok b t m)) \<and>
    distinct (map ti_payoutItemId (active_mappings h ts)) \<and>
    (\<Sum>m\<leftarrow>active_mappings h ts. amount_of (ti_amountAtomic m)) \<le> (\<Sum>it\<leftarrow>pb_items b. amount_of (it_amountAtomic it))"
proof -
  note c = createSigned_facts [OF assms(1)]
  from attach_facts [OF assms(2)] obtain q where
    a: "list_all2 (\<lambda>t t'. (\<exists>items. t' = t\<lparr>tx_items := items\<rparr>) \<and> attached_ok b t') rs ts" and q: "sequences_agree q ts" by blast
  have same: "map attempt_key ts = map attempt_key rs \<and> signatures ts = signatures rs \<and> map tx_status ts = map tx_status rs"
    using a by (induction rule: list_all2_induct) (auto simp: signatures_def attempt_key_def)
  have ok: "attached_ok b t" if "t \<in> set ts" for t using list_all2_right [OF a that] by blast
  have "distinct (map attempt_key ts)" using same c by simp
  moreover have "map attempt_key ts = map (\<lambda>p. show_int (fst p) @ '':'' @ show_int (snd p)) (map (\<lambda>t. (tx_sequence t, tx_attempt t)) ts)"
    by (simp add: attempt_key_def)
  ultimately have "distinct (map (\<lambda>p. show_int (fst p) @ '':'' @ show_int (snd p)) (map (\<lambda>t. (tx_sequence t, tx_attempt t)) ts))"
    by (simp only:)
  then have keys: "distinct (map (\<lambda>t. (tx_sequence t, tx_attempt t)) ts)" unfolding distinct_map [of _ "map _ _"] by blast
  have "set (map tx_status rs) \<subseteq> {T_signed}" using c by auto
  then have "set (map tx_status ts) \<subseteq> {T_signed}" using same by simp
  then have "\<forall>t \<in> set ts. tx_status t = T_signed" by auto
  then have "\<forall>t \<in> set ts. tx_status t = T_signed \<and> tx_items t \<noteq> [] \<and> (\<forall>m \<in> set (tx_items t). mapping_ok b t m)"
    using ok by (simp add: attached_ok_def)
  moreover note active_pay_once [of ts b q h, OF ok q]
  moreover have "distinct (signatures ts)" using same c by simp
  ultimately show ?thesis using keys by blast
qed

text \<open>The roll-up, item by item: the status an item ends with is the one of the last active
  transaction that mentions it and has a definite item status, or else the one it had.\<close>

definition status_after :: "payout_transaction list \<Rightarrow> payout_item \<Rightarrow> item_status" where
  "status_after active it = fold (\<lambda>t s.
     case payoutItemStatusForTransactionStatus (tx_status t) of None \<Rightarrow> s
     | Some s' \<Rightarrow> if it_id it \<in> ti_payoutItemId ` set (tx_items t) then s' else s) active (it_status it)"

lemma status_items_fold:
  "map_get (fold (mark_item s) tis m) k =
   (if map_get m k \<noteq> None \<and> k \<in> ti_payoutItemId ` set tis then Some s else map_get m k)"
  by (induction tis arbitrary: m) (auto simp: mark_item_def)

lemma status_step_get:
  "map_get (status_step t m) k = (case payoutItemStatusForTransactionStatus (tx_status t) of None \<Rightarrow> map_get m k
     | Some s \<Rightarrow> if map_get m k \<noteq> None \<and> k \<in> ti_payoutItemId ` set (tx_items t) then Some s else map_get m k)"
  by (cases "payoutItemStatusForTransactionStatus (tx_status t)") (simp_all add: status_step_def status_items_fold)

lemma status_fold:
  "map_get m (it_id it) = Some s \<Longrightarrow>
   map_get (fold status_step active m) (it_id it) = Some (fold (\<lambda>t s.
     case payoutItemStatusForTransactionStatus (tx_status t) of None \<Rightarrow> s
     | Some s' \<Rightarrow> if it_id it \<in> ti_payoutItemId ` set (tx_items t) then s' else s) active s)"
proof (induction active arbitrary: m s)
  case (Cons t active)
  let ?s = "case payoutItemStatusForTransactionStatus (tx_status t) of None \<Rightarrow> s
     | Some s' \<Rightarrow> if it_id it \<in> ti_payoutItemId ` set (tx_items t) then s' else s"
  have "map_get (status_step t m) (it_id it) = Some ?s"
    using Cons.prems by (simp add: status_step_get split: option.splits)
  from Cons.IH [OF this] show ?case by simp
qed simp

lemma map_filter_cong:
  "(\<And>x. x \<in> set xs \<Longrightarrow> P x = Q x) \<Longrightarrow> (\<And>x. x \<in> set xs \<Longrightarrow> f x = g x) \<Longrightarrow>
   map f (filter P xs) = map g (filter Q xs)"
  by (induction xs) auto

lemma find_unique:
  "distinct (map f xs) \<Longrightarrow> x \<in> set xs \<Longrightarrow> find (\<lambda>y. f y = f x) xs = Some x"
proof (induction xs)
  case (Cons z xs)
  have "f z \<noteq> f x" if "x \<in> set xs"
    using Cons.prems(1) that by (metis distinct.simps(2) imageI list.set_map list.simps(9))
  then show ?case using Cons by auto
qed simp

lemma summarize_facts:
  assumes "summarizePayoutBatchTransactionItemFinality h b ts = Some r" "distinct (map it_id (pb_items b))"
  shows "let active = latestAttemptBySequence h ts; next = map (status_after active) (pb_items b) in
    ir_batchStatus r = rollup_status active next \<and>
    ir_updatedItems r = map (\<lambda>it. \<lparr>iu_payoutItemId = it_id it, iu_status = status_after active it\<rparr>)
      (filter (\<lambda>it. it_status it \<noteq> status_after active it) (pb_items b))"
proof -
  let ?act = "latestAttemptBySequence h ts"
  let ?m = "map_from (map (\<lambda>it. (it_id it, it_status it)) (pb_items b))"
  let ?nx = "\<lambda>it. case map_get (fold status_step ?act ?m) (it_id it) of None \<Rightarrow> it_status it | Some s \<Rightarrow> s"
  have nx: "?nx it = status_after ?act it" if "it \<in> set (pb_items b)" for it
  proof -
    have "map_get ?m (it_id it) = Some (it_status it)"
      using that assms(2) by (intro map_from_get_distinct) (auto simp: o_def)
    from status_fold [OF this] show ?thesis by (simp add: status_after_def)
  qed
  have found: "find (\<lambda>e. it_id e = it_id it) (pb_items b) = Some it" if "it \<in> set (pb_items b)" for it
    by (rule find_unique [OF assms(2) that])
  have flt: "filter (\<lambda>u. case find (\<lambda>it. it_id it = iu_payoutItemId u) (pb_items b) of
        None \<Rightarrow> False | Some e \<Rightarrow> it_status e \<noteq> iu_status u)
      (map (\<lambda>it. \<lparr>iu_payoutItemId = it_id it, iu_status = ?nx it\<rparr>) (pb_items b)) =
    map (\<lambda>it. \<lparr>iu_payoutItemId = it_id it, iu_status = status_after ?act it\<rparr>)
      (filter (\<lambda>it. it_status it \<noteq> status_after ?act it) (pb_items b))"
    unfolding filter_map by (rule map_filter_cong) (simp_all add: found nx)
  have next_eq: "map ?nx (pb_items b) = map (status_after ?act) (pb_items b)"
    using nx by (intro map_cong) simp_all
  have "r = \<lparr>ir_batchStatus = rollup_status ?act (map ?nx (pb_items b)),
        ir_updatedItems = filter (\<lambda>u. case find (\<lambda>it. it_id it = iu_payoutItemId u) (pb_items b) of
          None \<Rightarrow> False | Some e \<Rightarrow> it_status e \<noteq> iu_status u)
          (map (\<lambda>it. \<lparr>iu_payoutItemId = it_id it, iu_status = ?nx it\<rparr>) (pb_items b)),
        ir_failureCode = map_option fst (failure_of ?act), ir_failureMessage = map_option snd (failure_of ?act)\<rparr>"
    using assms(1) by (auto simp: summarizePayoutBatchTransactionItemFinality_def Let_def split: if_splits)
  then show ?thesis unfolding flt next_eq by (simp add: Let_def)
qed

lemma find_terminal:
  "find terminal_failure ts = None \<longleftrightarrow> (\<forall>t \<in> set ts. \<not> terminal_failure t)"
  by (auto simp: find_None_iff)

lemma rollup_status_cases:
  "rollup_status active next = B_finalized \<longleftrightarrow>
     (\<forall>t \<in> set active. \<not> terminal_failure t) \<and> (\<forall>s \<in> set next. s = I_finalized)"
  "rollup_status active next \<in> {B_failed, B_outcome_unknown} \<longleftrightarrow> (\<exists>t \<in> set active. terminal_failure t)"
proof -
  show "rollup_status active next = B_finalized \<longleftrightarrow>
     (\<forall>t \<in> set active. \<not> terminal_failure t) \<and> (\<forall>s \<in> set next. s = I_finalized)"
    using find_terminal [of active]
    by (cases "find terminal_failure active") (auto simp: rollup_status_def list_all_iff)
  show "rollup_status active next \<in> {B_failed, B_outcome_unknown} \<longleftrightarrow> (\<exists>t \<in> set active. terminal_failure t)"
    using find_terminal [of active]
    by (cases "find terminal_failure active") (auto simp: rollup_status_def)
qed


definition toy_signed_input :: save_signed_input where
  "toy_signed_input = \<lparr>ss_payoutBatchId = toy_id ''pbt'' (CHR ''2''),
     ss_transactions = [\<lparr>si_id = None, si_sequence = 0, si_attempt = None, si_recentBlockhash = None,
       si_lastValidBlockHeight = None, si_signedTransactionBase64 = ''AAAA'', si_expectedSignature = Some ''s1'',
       si_items = None\<rparr>], ss_now = Some ''ZZZ''\<rparr>"

definition toy_signed :: payout_transaction where
  "toy_signed = \<lparr>tx_id = toy_id ''ptx'' (CHR ''4''), tx_payoutBatchId = toy_id ''pbt'' (CHR ''2''), tx_sequence = 0,
     tx_attempt = 1, tx_recentBlockhash = None, tx_lastValidBlockHeight = None,
     tx_signedTransactionBase64 = Some ''AAAA'', tx_expectedSignature = Some ''s1'', tx_status = T_signed,
     tx_submittedAt = None, tx_confirmedAt = None, tx_finalizedAt = None, tx_error = None, tx_createdAt = ''ZZZ'',
     tx_items = []\<rparr>"

definition toy_attached :: payout_transaction where
  "toy_attached = toy_signed\<lparr>tx_items := default_mappings toy_signed toy_batch\<rparr>"

lemma toy_signed_runs:
  "createSignedPayoutTransactionRecords toy_host ''Z'' (\<lambda>n. toy_id ''ptx'' (CHR ''4'')) toy_signed_input = Inr [toy_signed]"
  "attachPayoutTransactionItemMappings [toy_signed] toy_batch = Inr [toy_attached]"
  by code_simp+

theorem signed_transactions_pay_once_witness:
  "(\<Sum>m\<leftarrow>active_mappings toy_host [toy_attached]. amount_of (ti_amountAtomic m)) \<le>
     (\<Sum>it\<leftarrow>pb_items toy_batch. amount_of (it_amountAtomic it)) \<and>
   active_mappings toy_host [toy_attached] \<noteq> []"
proof -
  have "active_mappings toy_host [toy_attached] \<noteq> []" by code_simp
  then show ?thesis using signed_transactions_pay_once [OF toy_signed_runs] by blast
qed


end
