(* ===== verification/Payout_Release.thy ===== *)
theory Payout_Release
  imports Payout_Transactions
begin

text \<open>
  \<^verbatim>\<open>packages/control-plane/src/payouts.ts\<close>, releasing the allocations of a batch and closing its
  ledger: which batches may be released, which signed transactions block a release (they may already
  have been broadcast), and the double-entry transaction that closes a finalized batch.
\<close>

section \<open>Release\<close>

definition isPayoutBatchAllocationReleaseAllowed :: "batch_status \<Rightarrow> bool" where
  "isPayoutBatchAllocationReleaseAllowed s \<longleftrightarrow>
     s = B_draft \<or> s = B_planned \<or> s = B_signing \<or> s = B_failed \<or> s = B_cancelled"

definition releasePayoutBatchAllocationsForBatch ::
  "host \<Rightarrow> string \<Rightarrow> payout_batch \<Rightarrow> string \<Rightarrow> string option \<Rightarrow> string option \<Rightarrow> bool \<Rightarrow> cp_error + payout_batch" where
  "releasePayoutBatchAllocationsForBatch h clock b reason now override allowOutcomeUnknown =
     and_then (assertNonEmptyString reason ''reason'') (\<lambda>reason.
     and_then (map_opt_err (\<lambda>r. assertNonEmptyString r ''override.reason'') override) (\<lambda>overrideReason.
     and_then (normalizeTimestamp h (now_or now clock) ''now'') (\<lambda>updatedAt.
     if \<not> isPayoutBatchAllocationReleaseAllowed (pb_status b) \<and>
        \<not> (pb_status b = B_outcome_unknown \<and> allowOutcomeUnknown)
     then Inl (Batch_Conflict (''payout batch status '' @ show_batch_status (pb_status b) @ '' cannot release allocations''))
     else Inr (b\<lparr>pb_status := B_cancelled, pb_failureCode := Some ''allocations_released'',
       pb_failureMessage := Some (case overrideReason of None \<Rightarrow> reason
          | Some o' \<Rightarrow> reason @ '' (operator override: '' @ o' @ '')''),
       pb_updatedAt := updatedAt,
       pb_items := map (\<lambda>it. it\<lparr>it_status := I_released\<rparr>) (pb_items b)\<rparr>))))"

definition listPayoutBatchAllocationReleaseHazards :: "payout_transaction list \<Rightarrow> payout_transaction list" where
  "listPayoutBatchAllocationReleaseHazards ts = filter (\<lambda>t. tx_expectedSignature t \<noteq> None \<and>
     tx_status t \<noteq> T_failed \<and> tx_status t \<noteq> T_expired) ts"

definition chain_statuses :: "chain_check list \<Rightarrow> (string, chain_status) js_map" where
  "chain_statuses checks = map_from (map (\<lambda>c. (ck_transactionId c, ck_status c)) checks)"

text \<open>\<open>chainChecks ?? []\<close> is the list; the override is its reason.\<close>

definition assertPayoutBatchAllocationsReleasable ::
  "payout_transaction list \<Rightarrow> chain_check list \<Rightarrow> string option \<Rightarrow> cp_error + unit" where
  "assertPayoutBatchAllocationsReleasable ts checks override = (case override of
       Some r \<Rightarrow> and_then (assertNonEmptyString r ''override.reason'') (\<lambda>_. Inr ())
     | None \<Rightarrow>
        let m = chain_statuses checks;
            hazards = filter (\<lambda>t. map_get m (tx_id t) \<noteq> Some C_expired \<and> map_get m (tx_id t) \<noteq> Some C_failed)
              (listPayoutBatchAllocationReleaseHazards ts)
        in if length hazards = 0 then Inr ()
           else Inl (Release_Blocked (map (\<lambda>t. \<lparr>hz_transactionId = tx_id t, hz_status = tx_status t,
             hz_expectedSignature = tx_expectedSignature t, hz_chainStatus = map_get m (tx_id t)\<rparr>) hazards)))"

definition isOutcomeUnknownPayoutBatchReleaseProven :: "payout_transaction list \<Rightarrow> chain_check list \<Rightarrow> bool" where
  "isOutcomeUnknownPayoutBatchReleaseProven ts checks =
     (if length ts = 0 then False
      else let m = chain_statuses checks in list_all (\<lambda>t.
        if tx_status t = T_failed \<or> tx_status t = T_expired then True
        else map_get m (tx_id t) = Some C_failed \<or> map_get m (tx_id t) = Some C_expired) ts)"

text \<open>A transaction that cannot land any more: the store or the chain says failed or expired.\<close>

definition cannot_land :: "chain_check list \<Rightarrow> payout_transaction \<Rightarrow> bool" where
  "cannot_land checks t \<longleftrightarrow> tx_status t \<in> {T_failed, T_expired} \<or>
     map_get (chain_statuses checks) (tx_id t) \<in> {Some C_failed, Some C_expired}"

lemma releasable_iff:
  "assertPayoutBatchAllocationsReleasable ts checks None = Inr () \<longleftrightarrow>
   (\<forall>t \<in> set ts. tx_expectedSignature t \<noteq> None \<longrightarrow> cannot_land checks t)"
  by (auto simp: assertPayoutBatchAllocationsReleasable_def Let_def filter_empty_conv cannot_land_def
      listPayoutBatchAllocationReleaseHazards_def)

lemma blocked_names_hazards:
  assumes "assertPayoutBatchAllocationsReleasable ts checks override = Inl (Release_Blocked hs)"
  shows "override = None \<and> hz_transactionId ` set hs =
     tx_id ` {t \<in> set ts. tx_expectedSignature t \<noteq> None \<and> \<not> cannot_land checks t}"
proof (cases override)
  case None
  let ?P = "\<lambda>t. map_get (chain_statuses checks) (tx_id t) \<noteq> Some C_expired \<and> map_get (chain_statuses checks) (tx_id t) \<noteq> Some C_failed"
  have "set hs = (\<lambda>t. \<lparr>hz_transactionId = tx_id t, hz_status = tx_status t, hz_expectedSignature = tx_expectedSignature t,
      hz_chainStatus = map_get (chain_statuses checks) (tx_id t)\<rparr>) ` set (filter ?P (listPayoutBatchAllocationReleaseHazards ts))"
    using assms None by (auto simp: assertPayoutBatchAllocationsReleasable_def Let_def split: if_splits)
  then have "hz_transactionId ` set hs = tx_id ` set (filter ?P (listPayoutBatchAllocationReleaseHazards ts))"
    by (simp add: image_image)
  also have "set (filter ?P (listPayoutBatchAllocationReleaseHazards ts)) =
      {t \<in> set ts. tx_expectedSignature t \<noteq> None \<and> \<not> cannot_land checks t}"
    by (auto simp: listPayoutBatchAllocationReleaseHazards_def cannot_land_def)
  finally show ?thesis using None by simp
next
  case (Some r)
  then show ?thesis using assms
    by (auto simp: assertPayoutBatchAllocationsReleasable_def and_then_Inl assertNonEmptyString_def split: if_splits)
qed

lemma proven_iff:
  "isOutcomeUnknownPayoutBatchReleaseProven ts checks \<longleftrightarrow> ts \<noteq> [] \<and> (\<forall>t \<in> set ts. cannot_land checks t)"
  by (auto simp: isOutcomeUnknownPayoutBatchReleaseProven_def Let_def list_all_iff cannot_land_def)

section \<open>Closing the ledger\<close>

definition bigint_of :: "string \<Rightarrow> cp_error + int" where
  "bigint_of s = (case bigint_of_string s of None \<Rightarrow> Inl (Host_Error ''SyntaxError'') | Some n \<Rightarrow> Inr n)"

text \<open>The totals per asset: \<open>byAsset\<close> of both balance checks.\<close>

definition asset_totals :: "ledger_entry list \<Rightarrow> cp_error + (string, int) js_map" where
  "asset_totals es = fold_err (\<lambda>e m. and_then (bigint_of (le_amountAtomic e)) (\<lambda>n.
     Inr (map_set (le_asset e) ((case map_get m (le_asset e) of None \<Rightarrow> 0 | Some k \<Rightarrow> k) + n) m))) es []"

definition assertPayoutLedgerBalances :: "ledger_entry list \<Rightarrow> cp_error + unit" where
  "assertPayoutLedgerBalances es = and_then (asset_totals es) (\<lambda>m.
     ensure (filter (\<lambda>(_, n). n \<noteq> 0) m = []) (Batch_Invalid ''payout ledger transaction is not balanced''))"

definition item_total :: "payout_item list \<Rightarrow> cp_error + int" where
  "item_total items = fold_err (\<lambda>it total. and_then (readPositiveAtomicAmount (it_amountAtomic it) ''item.amountAtomic'')
     (\<lambda>n. Inr (total + n))) items 0"

definition payable_entry :: "payout_batch \<Rightarrow> string \<Rightarrow> string \<Rightarrow> payout_item \<Rightarrow> cp_error + ledger_entry" where
  "payable_entry b transactionId newId it =
     and_then (assertSplit402Id newId ''ledger entry id'') (\<lambda>entryId.
     and_then (negatePositiveAtomic (it_amountAtomic it)) (\<lambda>amount.
     Inr \<lparr>le_id = entryId, le_transactionId = transactionId, le_accountType = Referrer_payable,
       le_accountReference = it_destinationWallet it, le_asset = pb_asset b, le_amountAtomic = amount\<rparr>))"

definition createPayoutFinalizationLedgerTransaction ::
  "host \<Rightarrow> string \<Rightarrow> payout_batch \<Rightarrow> string option \<Rightarrow> string \<Rightarrow> (nat \<Rightarrow> string) \<Rightarrow> cp_error + ledger_transaction" where
  "createPayoutFinalizationLedgerTransaction h clock b now txId newEntryId =
     (if pb_status b \<noteq> B_finalized
      then Inl (Batch_Invalid ''payout batch must be finalized before ledger closure'')
      else if pb_items b = [] then Inl (Batch_Invalid ''payout batch must contain items'')
      else if list_ex (\<lambda>it. it_status it \<noteq> I_finalized) (pb_items b)
      then Inl (Batch_Invalid ''all payout items must be finalized before ledger closure'')
      else
        and_then (normalizeTimestamp h (now_or now clock) ''now'') (\<lambda>createdAt.
        and_then (assertSplit402Id txId ''ledger transaction id'') (\<lambda>transactionId.
        and_then (item_total (pb_items b)) (\<lambda>itemTotal.
        and_then (ensure (show_int itemTotal = pb_totalAmountAtomic b)
          (Batch_Invalid ''payout batch total does not match finalized item total'')) (\<lambda>_.
        and_then (assertSplit402Id (newEntryId 0) ''ledger entry id'') (\<lambda>firstId.
        and_then (map_err (\<lambda>(n, it). payable_entry b transactionId (newEntryId n) it) (enumerate 1 (pb_items b))) (\<lambda>payables.
        let entries = \<lparr>le_id = firstId, le_transactionId = transactionId,
              le_accountType = Merchant_commission_liability, le_accountReference = pb_merchantId b,
              le_asset = pb_asset b, le_amountAtomic = show_int itemTotal\<rparr> # payables
        in and_then (assertPayoutLedgerBalances entries) (\<lambda>_.
           Inr \<lparr>lt_id = transactionId, lt_sourceType = Payout_batch, lt_sourceId = pb_id b,
             lt_asset = pb_asset b, lt_entries = entries, lt_createdAt = createdAt\<rparr>))))))))"

text \<open>The value of an entry, and what a ledger transaction adds to each asset.\<close>

definition entry_value :: "ledger_entry \<Rightarrow> int" where
  "entry_value e = (case bigint_of_string (le_amountAtomic e) of None \<Rightarrow> 0 | Some n \<Rightarrow> n)"

definition asset_sum :: "string \<Rightarrow> ledger_entry list \<Rightarrow> int" where
  "asset_sum asset es = (\<Sum>e\<leftarrow>filter (\<lambda>e. le_asset e = asset) es. entry_value e)"

lemma asset_totals_loop:
  assumes "fold_err (\<lambda>e m. and_then (bigint_of (le_amountAtomic e)) (\<lambda>n.
     Inr (map_set (le_asset e) ((case map_get m (le_asset e) of None \<Rightarrow> 0 | Some k \<Rightarrow> k) + n) m))) es m = Inr m'"
    and "map_ok m"
  shows "map_ok m' \<and> map_total asset m' = map_total asset m + asset_sum asset es"
  using assms
proof (induction es arbitrary: m)
  case Nil
  then show ?case by (simp add: asset_sum_def)
next
  case (Cons e es)
  let ?f = "\<lambda>e m. and_then (bigint_of (le_amountAtomic e)) (\<lambda>n.
     Inr (map_set (le_asset e) ((case map_get m (le_asset e) of None \<Rightarrow> 0 | Some k \<Rightarrow> k) + n) m))"
  from Cons.prems(1) obtain m1 where m1: "?f e m = Inr m1" "fold_err ?f es m1 = Inr m'"
    unfolding fold_err.simps and_then_Inr by blast
  then have "m1 = map_set (le_asset e) (map_total (le_asset e) m + entry_value e) m"
    by (auto simp: and_then_Inr bigint_of_def entry_value_def map_total_def split: option.splits)
  then have "map_ok m1" "map_total asset m1 = map_total asset m + (if le_asset e = asset then entry_value e else 0)"
    using Cons.prems(2) by (auto simp: jm.ok_put map_total_def)
  then show ?case using Cons.IH [OF m1(2)] by (simp add: asset_sum_def)
qed

lemma balance_check:
  assumes "asset_totals es = Inr m" "filter (\<lambda>(_, n). n \<noteq> 0) m = []"
  shows "asset_sum asset es = 0"
proof -
  have ok: "map_ok m" and total: "map_total asset m = asset_sum asset es"
    using asset_totals_loop [OF assms(1) [unfolded asset_totals_def], of asset] by (simp_all add: map_total_def)
  have "map_total asset m = 0"
  proof (cases "map_get m asset")
    case (Some n)
    then have "(asset, n) \<in> set m" by (simp add: map_get_def map_of_SomeD)
    then show ?thesis using assms(2) Some by (auto simp: filter_empty_conv map_total_def)
  qed (simp add: map_total_def)
  then show ?thesis using total by simp
qed

lemma payout_ledger_balanced:
  "assertPayoutLedgerBalances es = Inr () \<Longrightarrow> asset_sum asset es = 0"
  by (auto simp: assertPayoutLedgerBalances_def and_then_Inr ensure_Inr intro: balance_check)

lemma item_total_sum:
  "fold_err (\<lambda>it total. and_then (readPositiveAtomicAmount (it_amountAtomic it) ''item.amountAtomic'')
     (\<lambda>n. Inr (total + n))) items k = Inr t \<Longrightarrow> t = k + (\<Sum>it\<leftarrow>items. amount_of (it_amountAtomic it))"
proof (induction items arbitrary: k)
  case (Cons it items)
  then obtain n where n: "readPositiveAtomicAmount (it_amountAtomic it) ''item.amountAtomic'' = Inr n"
    and rest: "fold_err (\<lambda>it total. and_then (readPositiveAtomicAmount (it_amountAtomic it) ''item.amountAtomic'')
     (\<lambda>n. Inr (total + n))) items (k + n) = Inr t"
    by (auto simp: and_then_Inr)
  show ?case using Cons.IH [OF rest] n by (simp add: readPositiveAtomicAmount_Inr)
qed simp

lemma bigint_minus: "atomic_regex v \<Longrightarrow> 0 < amount_of v \<Longrightarrow> bigint_of_string (CHR ''-'' # v) = Some (- amount_of v)"
proof -
  assume v: "atomic_regex v" "0 < amount_of v"
  have "show_int (- amount_of v) = CHR ''-'' # show_nat (nat (amount_of v))"
    using v(2) by (simp add: show_int_def)
  moreover have "show_nat (nat (amount_of v)) = v" using show_int_amount_of [OF v(1)] v(2) by (simp add: show_int_def)
  ultimately show ?thesis using bigint_show_int [of "- amount_of v"] by simp
qed

lemma payable_entry_facts:
  assumes "payable_entry b tid nid it = Inr e"
  shows "le_accountType e = Referrer_payable \<and> le_accountReference e = it_destinationWallet it \<and>
    le_asset e = pb_asset b \<and> le_transactionId e = tid \<and> entry_value e = - amount_of (it_amountAtomic it)"
  using assms bigint_minus [of "it_amountAtomic it"]
  by (auto simp: payable_entry_def and_then_Inr negatePositiveAtomic_Inr entry_value_def)

lemma payable_entries_facts:
  "map_err (\<lambda>(n, it). payable_entry b tid (f n) it) (enumerate k items) = Inr es \<Longrightarrow>
   list_all2 (\<lambda>it e. le_accountType e = Referrer_payable \<and> le_accountReference e = it_destinationWallet it \<and>
     le_asset e = pb_asset b \<and> le_transactionId e = tid \<and> entry_value e = - amount_of (it_amountAtomic it)) items es"
proof (induction items arbitrary: k es)
  case (Cons it items)
  then show ?case by (auto simp: and_then_Inr dest!: payable_entry_facts)
qed simp

text \<open>C13. Closing a payout batch books it exactly: a ledger transaction is made only from a finalized
  batch whose items are all finalized and whose total is the sum of the items; it debits the
  merchant's commission liability by the total, credits each item's wallet with the item's amount,
  in the batch's asset, and sums to zero for every asset.\<close>

theorem ledger_closure_exact:
  assumes "createPayoutFinalizationLedgerTransaction h clock b now txId newEntryId = Inr t"
  shows "pb_status b = B_finalized \<and> (\<forall>it \<in> set (pb_items b). it_status it = I_finalized) \<and>
    lt_sourceType t = Payout_batch \<and> lt_sourceId t = pb_id b \<and> (\<forall>asset. asset_sum asset (lt_entries t) = 0) \<and>
    amount_of (pb_totalAmountAtomic b) = (\<Sum>it\<leftarrow>pb_items b. amount_of (it_amountAtomic it)) \<and>
    (\<exists>e es. lt_entries t = e # es \<and> le_accountType e = Merchant_commission_liability \<and>
      le_accountReference e = pb_merchantId b \<and> le_asset e = pb_asset b \<and>
      entry_value e = amount_of (pb_totalAmountAtomic b) \<and>
      list_all2 (\<lambda>it e. le_accountType e = Referrer_payable \<and> le_accountReference e = it_destinationWallet it \<and>
        le_asset e = pb_asset b \<and> entry_value e = - amount_of (it_amountAtomic it)) (pb_items b) es)"
proof -
  from assms obtain createdAt total fid es where
    st: "pb_status b = B_finalized" "\<not> list_ex (\<lambda>it. it_status it \<noteq> I_finalized) (pb_items b)"
    and total: "item_total (pb_items b) = Inr total" "show_int total = pb_totalAmountAtomic b"
    and es: "map_err (\<lambda>(n, it). payable_entry b txId (newEntryId n) it) (enumerate 1 (pb_items b)) = Inr es"
    and bal: "assertPayoutLedgerBalances (\<lparr>le_id = fid, le_transactionId = txId, le_accountType = Merchant_commission_liability,
       le_accountReference = pb_merchantId b, le_asset = pb_asset b, le_amountAtomic = show_int total\<rparr> # es) = Inr ()"
    and t: "t = \<lparr>lt_id = txId, lt_sourceType = Payout_batch, lt_sourceId = pb_id b, lt_asset = pb_asset b,
       lt_entries = \<lparr>le_id = fid, le_transactionId = txId, le_accountType = Merchant_commission_liability,
       le_accountReference = pb_merchantId b, le_asset = pb_asset b, le_amountAtomic = show_int total\<rparr> # es,
       lt_createdAt = createdAt\<rparr>"
    by (auto simp: createPayoutFinalizationLedgerTransaction_def Let_def and_then_Inr ensure_Inr assertSplit402Id_Inr
        split: if_splits)
  have sum: "total = (\<Sum>it\<leftarrow>pb_items b. amount_of (it_amountAtomic it))"
    using item_total_sum [OF total(1) [unfolded item_total_def]] by simp
  have "0 \<le> total" unfolding sum by (rule sum_list_nonneg) auto
  then have amt: "amount_of (pb_totalAmountAtomic b) = total" unfolding total(2) [symmetric] by simp
  have entries: "list_all2 (\<lambda>it e. le_accountType e = Referrer_payable \<and> le_accountReference e = it_destinationWallet it \<and>
        le_asset e = pb_asset b \<and> entry_value e = - amount_of (it_amountAtomic it)) (pb_items b) es"
    using payable_entries_facts [OF es] by (rule list_all2_mono) simp
  have "\<forall>asset. asset_sum asset (lt_entries t) = 0" using payout_ledger_balanced [OF bal] by (simp add: t)
  then show ?thesis using st entries amt sum by (simp add: t list_ex_iff entry_value_def)
qed

definition toy_final_batch :: payout_batch where
  "toy_final_batch = toy_batch\<lparr>pb_status := B_finalized, pb_items := map (\<lambda>it. it\<lparr>it_status := I_finalized\<rparr>) (pb_items toy_batch)\<rparr>"

lemma not_isl_iff_Inr: "isl x = False \<longleftrightarrow> (\<exists>y. x = Inr y)"
  by (cases x) auto

lemma toy_closure_runs: "\<exists>t. createPayoutFinalizationLedgerTransaction toy_host ''Z'' toy_final_batch None
    (toy_id ''ldg'' (CHR ''5'')) (\<lambda>n. toy_id ''lde'' (CHR ''6'')) = Inr t"
proof -
  have "isl (createPayoutFinalizationLedgerTransaction toy_host ''Z'' toy_final_batch None
    (toy_id ''ldg'' (CHR ''5'')) (\<lambda>n. toy_id ''lde'' (CHR ''6''))) = False" by code_simp
  then show ?thesis by (simp only: not_isl_iff_Inr)
qed

theorem ledger_closure_exact_witness:
  "\<exists>t. createPayoutFinalizationLedgerTransaction toy_host ''Z'' toy_final_batch None
     (toy_id ''ldg'' (CHR ''5'')) (\<lambda>n. toy_id ''lde'' (CHR ''6'')) = Inr t \<and> asset_sum ''usd'' (lt_entries t) = 0"
  using toy_closure_runs ledger_closure_exact by blast

end
