(* ===== verification/Payout_Views.thy ===== *)
theory Payout_Views
  imports Payout_Release
begin

text \<open>
  \<^verbatim>\<open>packages/control-plane/src/payouts.ts\<close>, the read models: a referrer's payout history and balance
  summary, and a merchant's obligation summary. Each is computed from the accruals and the payout
  batches; an accrual counts in exactly one of five amounts, decided by its own status and by the
  item of the last batch that allocates it.
\<close>

section \<open>Definitions\<close>

datatype history_status = H_pending | H_available | H_held | H_in_flight | H_paid

record history_item =
  hi_accrualId :: string
  hi_receiptId :: string
  hi_merchantId :: string
  hi_campaignId :: string
  hi_routeId :: string
  hi_referrerWallet :: string
  hi_payoutWallet :: string
  hi_asset :: string
  hi_amountAtomic :: string
  hi_status :: history_status
  hi_accrualStatus :: accrual_status
  hi_createdAt :: string
  hi_availableAt :: "string option"
  hi_payoutBatchId :: "string option"
  hi_payoutItemId :: "string option"
  hi_payoutStatus :: "item_status option"

type_synonym allocation_index = "(string, payout_batch \<times> payout_item) js_map"

definition index_item :: "payout_batch \<Rightarrow> payout_item \<Rightarrow> allocation_index \<Rightarrow> allocation_index" where
  "index_item b it m = fold (\<lambda>al. map_set (al_accrualId al) (b, it)) (it_allocations it) m"

definition buildPayoutAllocationIndex :: "payout_batch list \<Rightarrow> allocation_index" where
  "buildPayoutAllocationIndex batches = fold (\<lambda>b. fold (index_item b) (pb_items b)) batches []"

definition readReferrerPayoutHistoryStatus :: "accrual \<Rightarrow> payout_item option \<Rightarrow> history_status" where
  "readReferrerPayoutHistoryStatus a payout =
     (if map_option it_status payout = Some I_finalized then H_paid
      else if ac_status a = Paid then H_paid
      else if ac_status a = Pending_chain_verification then H_pending
      else if ac_status a = Available then H_available
      else if ac_status a = Held then H_held
      else H_in_flight)"

definition readMerchantObligationStatus :: "accrual \<Rightarrow> payout_item option \<Rightarrow> history_status" where
  "readMerchantObligationStatus a payout = readReferrerPayoutHistoryStatus a payout"

definition normalizeReferrerPayoutHistoryLimit :: "int option \<Rightarrow> cp_error + int" where
  "normalizeReferrerPayoutHistoryLimit limit = (case limit of None \<Rightarrow> Inr 50
     | Some n \<Rightarrow> if n \<le> 0 \<or> n > 500
         then Inl (Batch_Invalid ''referrer payout history limit must be between 1 and 500'') else Inr n)"

definition compareReferrerPayoutHistoryItems :: "host \<Rightarrow> history_item \<Rightarrow> history_item \<Rightarrow> int" where
  "compareReferrerPayoutHistoryItems h l r =
     (let created = num_minus (dateParse h (hi_createdAt r)) (dateParse h (hi_createdAt l))
      in if falsy created then localeCompare h (hi_accrualId l) (hi_accrualId r) else sort_number created)"

record history_input =
  hin_referrerWallet :: string
  hin_asset :: "string option"
  hin_limit :: "int option"

definition history_accrual :: "string \<Rightarrow> string option \<Rightarrow> accrual \<Rightarrow> bool" where
  "history_accrual wallet asset a \<longleftrightarrow> ac_referrerWallet a = wallet \<and> opt_all (\<lambda>x. ac_asset a = x) asset \<and>
     ac_status a \<noteq> Rejected \<and> ac_status a \<noteq> Reversed"

definition history_item_of :: "host \<Rightarrow> allocation_index \<Rightarrow> accrual \<Rightarrow> cp_error + history_item" where
  "history_item_of h idx a =
     (let payout = map_get idx (ac_id a) in
      and_then (normalizeTimestamp h (ac_createdAt a) ''createdAt'') (\<lambda>createdAt.
      and_then (map_opt_err (\<lambda>t. normalizeTimestamp h t ''availableAt'') (ac_availableAt a)) (\<lambda>availableAt.
      Inr \<lparr>hi_accrualId = ac_id a, hi_receiptId = ac_receiptId a, hi_merchantId = ac_merchantId a,
        hi_campaignId = ac_campaignId a, hi_routeId = ac_routeId a, hi_referrerWallet = ac_referrerWallet a,
        hi_payoutWallet = ac_payoutWallet a, hi_asset = ac_asset a, hi_amountAtomic = ac_amountAtomic a,
        hi_status = readReferrerPayoutHistoryStatus a (map_option snd payout), hi_accrualStatus = ac_status a,
        hi_createdAt = createdAt, hi_availableAt = availableAt,
        hi_payoutBatchId = map_option (\<lambda>p. pb_id (fst p)) payout,
        hi_payoutItemId = map_option (\<lambda>p. it_id (snd p)) payout,
        hi_payoutStatus = map_option (\<lambda>p. it_status (snd p)) payout\<rparr>)))"

definition createReferrerPayoutHistoryItems ::
  "host \<Rightarrow> accrual list \<Rightarrow> payout_batch list \<Rightarrow> history_input \<Rightarrow> cp_error + history_item list" where
  "createReferrerPayoutHistoryItems h accruals batches i =
     and_then (assertNonEmptyString (hin_referrerWallet i) ''referrerWallet'') (\<lambda>wallet.
     and_then (map_opt_err (\<lambda>n. normalizeReferrerPayoutHistoryLimit (Some n)) (hin_limit i)) (\<lambda>limit.
     and_then (map_err (history_item_of h (buildPayoutAllocationIndex batches))
       (filter (history_accrual wallet (hin_asset i)) accruals)) (\<lambda>items.
     let sorted = sort_by (compareReferrerPayoutHistoryItems h) items
     in Inr (case limit of None \<Rightarrow> sorted | Some n \<Rightarrow> take (nat n) sorted))))"

record balance_totals =
  bt_pending :: int
  bt_available :: int
  bt_held :: int
  bt_inFlight :: int
  bt_paid :: int
  bt_total :: int

definition no_balance :: balance_totals where
  "no_balance = \<lparr>bt_pending = 0, bt_available = 0, bt_held = 0, bt_inFlight = 0, bt_paid = 0, bt_total = 0\<rparr>"

definition add_balance :: "history_status \<Rightarrow> int \<Rightarrow> balance_totals \<Rightarrow> balance_totals" where
  "add_balance st amount b =
     (let b = b\<lparr>bt_total := bt_total b + amount\<rparr> in case st of
        H_pending \<Rightarrow> b\<lparr>bt_pending := bt_pending b + amount\<rparr>
      | H_available \<Rightarrow> b\<lparr>bt_available := bt_available b + amount\<rparr>
      | H_held \<Rightarrow> b\<lparr>bt_held := bt_held b + amount\<rparr>
      | H_in_flight \<Rightarrow> b\<lparr>bt_inFlight := bt_inFlight b + amount\<rparr>
      | H_paid \<Rightarrow> b\<lparr>bt_paid := bt_paid b + amount\<rparr>)"

definition balance_step ::
  "history_item \<Rightarrow> (string, balance_totals) js_map \<Rightarrow> cp_error + (string, balance_totals) js_map" where
  "balance_step item m = and_then (readAtomicAmount (hi_amountAtomic item) ''amountAtomic'') (\<lambda>amount.
     Inr (map_set (hi_asset item) (add_balance (hi_status item) amount
       (case map_get m (hi_asset item) of None \<Rightarrow> no_balance | Some b \<Rightarrow> b)) m))"

record balance_asset =
  ba_asset :: string
  ba_pendingAmountAtomic :: string
  ba_availableAmountAtomic :: string
  ba_heldAmountAtomic :: string
  ba_inFlightAmountAtomic :: string
  ba_paidAmountAtomic :: string
  ba_totalEarnedAmountAtomic :: string

record balance_summary =
  bs_referrerWallet :: string
  bs_generatedAt :: string
  bs_assets :: "balance_asset list"

definition balance_asset_of :: "string \<times> balance_totals \<Rightarrow> cp_error + balance_asset" where
  "balance_asset_of p = (let (asset, t) = p in
     and_then (serialize_amount (bt_pending t)) (\<lambda>pending.
     and_then (serialize_amount (bt_available t)) (\<lambda>available.
     and_then (serialize_amount (bt_held t)) (\<lambda>held.
     and_then (serialize_amount (bt_inFlight t)) (\<lambda>inFlight.
     and_then (serialize_amount (bt_paid t)) (\<lambda>paid.
     and_then (serialize_amount (bt_total t)) (\<lambda>total.
     Inr \<lparr>ba_asset = asset, ba_pendingAmountAtomic = pending, ba_availableAmountAtomic = available,
       ba_heldAmountAtomic = held, ba_inFlightAmountAtomic = inFlight, ba_paidAmountAtomic = paid,
       ba_totalEarnedAmountAtomic = total\<rparr>)))))))"

text \<open>\<open>Array.from(map.entries()).sort\<close> by key.\<close>

definition entries_by_key :: "host \<Rightarrow> (string, 'v) js_map \<Rightarrow> (string \<times> 'v) list" where
  "entries_by_key h m = sort_by (\<lambda>l r. localeCompare h (fst l) (fst r)) m"

definition createReferrerBalanceSummary ::
  "host \<Rightarrow> string \<Rightarrow> accrual list \<Rightarrow> payout_batch list \<Rightarrow> string \<Rightarrow> string option \<Rightarrow> string option \<Rightarrow>
   cp_error + balance_summary" where
  "createReferrerBalanceSummary h clock accruals batches wallet asset now =
     and_then (assertNonEmptyString wallet ''referrerWallet'') (\<lambda>referrerWallet.
     and_then (normalizeTimestamp h (now_or now clock) ''now'') (\<lambda>generatedAt.
     and_then (createReferrerPayoutHistoryItems h accruals batches
       \<lparr>hin_referrerWallet = referrerWallet, hin_asset = asset, hin_limit = None\<rparr>) (\<lambda>items.
     and_then (fold_err balance_step items []) (\<lambda>m.
     and_then (map_err balance_asset_of (entries_by_key h m)) (\<lambda>assets.
     Inr \<lparr>bs_referrerWallet = referrerWallet, bs_generatedAt = generatedAt, bs_assets = assets\<rparr>)))))"

record obligation_totals =
  ot_pending :: int
  ot_available :: int
  ot_held :: int
  ot_inFlight :: int
  ot_paid :: int
  ot_accrualCount :: nat
  ot_pendingCount :: nat
  ot_availableCount :: nat
  ot_heldCount :: nat
  ot_inFlightCount :: nat
  ot_paidCount :: nat

definition no_obligation :: obligation_totals where
  "no_obligation = \<lparr>ot_pending = 0, ot_available = 0, ot_held = 0, ot_inFlight = 0, ot_paid = 0,
     ot_accrualCount = 0, ot_pendingCount = 0, ot_availableCount = 0, ot_heldCount = 0, ot_inFlightCount = 0,
     ot_paidCount = 0\<rparr>"

definition add_obligation :: "history_status \<Rightarrow> int \<Rightarrow> obligation_totals \<Rightarrow> obligation_totals" where
  "add_obligation st amount b =
     (let b = b\<lparr>ot_accrualCount := ot_accrualCount b + 1\<rparr> in case st of
        H_pending \<Rightarrow> b\<lparr>ot_pending := ot_pending b + amount, ot_pendingCount := ot_pendingCount b + 1\<rparr>
      | H_available \<Rightarrow> b\<lparr>ot_available := ot_available b + amount, ot_availableCount := ot_availableCount b + 1\<rparr>
      | H_held \<Rightarrow> b\<lparr>ot_held := ot_held b + amount, ot_heldCount := ot_heldCount b + 1\<rparr>
      | H_in_flight \<Rightarrow> b\<lparr>ot_inFlight := ot_inFlight b + amount, ot_inFlightCount := ot_inFlightCount b + 1\<rparr>
      | H_paid \<Rightarrow> b\<lparr>ot_paid := ot_paid b + amount, ot_paidCount := ot_paidCount b + 1\<rparr>)"

definition obliges :: "string \<Rightarrow> string option \<Rightarrow> accrual \<Rightarrow> bool" where
  "obliges merchantId asset a \<longleftrightarrow> \<not> (ac_merchantId a \<noteq> merchantId \<or> ac_status a = Rejected \<or>
     ac_status a = Reversed \<or> \<not> opt_all (\<lambda>x. ac_asset a = x) asset)"

definition obligation_step ::
  "allocation_index \<Rightarrow> string \<Rightarrow> string option \<Rightarrow> accrual \<Rightarrow> (string, obligation_totals) js_map \<Rightarrow>
   cp_error + (string, obligation_totals) js_map" where
  "obligation_step idx merchantId asset a m =
     (if \<not> obliges merchantId asset a then Inr m
      else and_then (readAtomicAmount (ac_amountAtomic a) ''amountAtomic'') (\<lambda>amount.
        Inr (map_set (ac_asset a)
          (add_obligation (readMerchantObligationStatus a (map_option snd (map_get idx (ac_id a)))) amount
            (case map_get m (ac_asset a) of None \<Rightarrow> no_obligation | Some b \<Rightarrow> b)) m)))"

record obligation_asset =
  oa_asset :: string
  oa_fundingStatus :: funding_status
  oa_fundingAmountAtomic :: "string option"
  oa_fundingDeficitAtomic :: "string option"
  oa_pendingAmountAtomic :: string
  oa_availableAmountAtomic :: string
  oa_heldAmountAtomic :: string
  oa_inFlightAmountAtomic :: string
  oa_paidAmountAtomic :: string
  oa_outstandingAmountAtomic :: string
  oa_totalAccruedAmountAtomic :: string
  oa_accrualCount :: nat
  oa_pendingAccrualCount :: nat
  oa_availableAccrualCount :: nat
  oa_heldAccrualCount :: nat
  oa_inFlightAccrualCount :: nat
  oa_paidAccrualCount :: nat

record obligation_summary =
  os_merchantId :: string
  os_generatedAt :: string
  os_assets :: "obligation_asset list"

definition obligation_asset_of ::
  "(string, int) js_map option \<Rightarrow> string \<times> obligation_totals \<Rightarrow> cp_error + obligation_asset" where
  "obligation_asset_of fundingByAsset p = (let (asset, t) = p;
       outstanding = ot_pending t + ot_available t + ot_held t + ot_inFlight t;
       total = outstanding + ot_paid t;
       fundingAmount = (case fundingByAsset of None \<Rightarrow> None | Some m \<Rightarrow> map_get m asset);
       fundingDeficit = (case fundingAmount of None \<Rightarrow> 0 | Some f \<Rightarrow> if f \<ge> outstanding then 0 else outstanding - f);
       fundingStatus = (if fundingAmount = None then Unknown else if fundingDeficit = 0 then Covered else Deficit)
     in
     and_then (map_opt_err serialize_amount fundingAmount) (\<lambda>funding.
     and_then (map_opt_err (\<lambda>_. serialize_amount fundingDeficit) fundingAmount) (\<lambda>deficit.
     and_then (serialize_amount (ot_pending t)) (\<lambda>pending.
     and_then (serialize_amount (ot_available t)) (\<lambda>available.
     and_then (serialize_amount (ot_held t)) (\<lambda>held.
     and_then (serialize_amount (ot_inFlight t)) (\<lambda>inFlight.
     and_then (serialize_amount (ot_paid t)) (\<lambda>paid.
     and_then (serialize_amount outstanding) (\<lambda>outstandingText.
     and_then (serialize_amount total) (\<lambda>totalText.
     Inr \<lparr>oa_asset = asset, oa_fundingStatus = fundingStatus, oa_fundingAmountAtomic = funding,
       oa_fundingDeficitAtomic = deficit, oa_pendingAmountAtomic = pending, oa_availableAmountAtomic = available,
       oa_heldAmountAtomic = held, oa_inFlightAmountAtomic = inFlight, oa_paidAmountAtomic = paid,
       oa_outstandingAmountAtomic = outstandingText, oa_totalAccruedAmountAtomic = totalText,
       oa_accrualCount = ot_accrualCount t, oa_pendingAccrualCount = ot_pendingCount t,
       oa_availableAccrualCount = ot_availableCount t, oa_heldAccrualCount = ot_heldCount t,
       oa_inFlightAccrualCount = ot_inFlightCount t, oa_paidAccrualCount = ot_paidCount t\<rparr>))))))))))"

record obligation_input =
  oin_merchantId :: string
  oin_asset :: "string option"
  oin_now :: "string option"
  oin_fundingBalances :: "funding_balance list option"

definition createMerchantObligationSummary ::
  "host \<Rightarrow> string \<Rightarrow> accrual list \<Rightarrow> payout_batch list \<Rightarrow> obligation_input \<Rightarrow> cp_error + obligation_summary" where
  "createMerchantObligationSummary h clock accruals batches i =
     and_then (assertNonEmptyString (oin_merchantId i) ''merchantId'') (\<lambda>merchantId.
     and_then (normalizeTimestamp h (now_or (oin_now i) clock) ''now'') (\<lambda>generatedAt.
     let idx = buildPayoutAllocationIndex batches in
     and_then (buildFundingBalanceMap (oin_fundingBalances i)) (\<lambda>fundingByAsset.
     and_then (fold_err (obligation_step idx merchantId (oin_asset i)) accruals []) (\<lambda>m.
     and_then (map_err (obligation_asset_of fundingByAsset) (entries_by_key h m)) (\<lambda>assets.
     Inr \<lparr>os_merchantId = merchantId, os_generatedAt = generatedAt, os_assets = assets\<rparr>)))))"

section \<open>Grouping\<close>

text \<open>A loop that keeps one bucket per key: a measure of the bucket that grows by the weight of the
  element is the total weight of the elements of that key.\<close>

definition measured :: "('b \<Rightarrow> 'n :: comm_monoid_add) \<Rightarrow> (string, 'b) js_map \<Rightarrow> string \<Rightarrow> 'n" where
  "measured f m k = (case map_get m k of None \<Rightarrow> 0 | Some b \<Rightarrow> f b)"

definition groups_by :: "('a \<Rightarrow> (string, 'b) js_map \<Rightarrow> 'e + (string, 'b) js_map) \<Rightarrow> ('a \<Rightarrow> bool) \<Rightarrow> ('a \<Rightarrow> string) \<Rightarrow> bool" where
  "groups_by step p key \<longleftrightarrow> (\<forall>x m m'. step x m = Inr m' \<longrightarrow> (if p x then \<exists>b. m' = map_set (key x) b m else m' = m))"

lemma groups_byD:
  assumes "groups_by step p key" "step x m = Inr m'"
  shows "p x \<Longrightarrow> \<exists>b. m' = map_set (key x) b m" and "\<not> p x \<Longrightarrow> m' = m"
  using assms by (fastforce simp: groups_by_def)+

lemma grouped_keys:
  assumes "fold_err step xs m = Inr m'" "groups_by step p key" "map_ok m"
  shows "map_ok m' \<and> (map_get m' k \<noteq> None \<longleftrightarrow> map_get m k \<noteq> None \<or> k \<in> key ` set (filter p xs))"
  using assms(1,3)
proof (induction xs arbitrary: m)
  case (Cons x xs)
  then obtain m1 where m1: "step x m = Inr m1" "fold_err step xs m1 = Inr m'" by (auto simp: and_then_Inr)
  note D = groups_byD [OF assms(2) m1(1)]
  have "map_ok m1" using D Cons.prems(2) jm.ok_put by (cases "p x") auto
  note IH = Cons.IH [OF m1(2) this]
  show ?case using IH D by (cases "p x") (auto split: if_splits)
qed simp

lemma grouped_measure:
  assumes "fold_err step xs m = Inr m'" "groups_by step p key"
    and grow: "\<And>x m m'. step x m = Inr m' \<Longrightarrow> p x \<Longrightarrow> measured f m' (key x) = measured f m (key x) + w x"
  shows "measured f m' k = measured f m k + (\<Sum>x\<leftarrow>filter (\<lambda>x. p x \<and> key x = k) xs. w x)"
  using assms(1)
proof (induction xs arbitrary: m)
  case (Cons x xs)
  then obtain m1 where m1: "step x m = Inr m1" "fold_err step xs m1 = Inr m'" by (auto simp: and_then_Inr)
  note D = groups_byD [OF assms(2) m1(1)]
  have "measured f m1 k = measured f m k + (if p x \<and> key x = k then w x else 0)"
  proof (cases "p x \<and> key x = k")
    case True
    then show ?thesis using grow [OF m1(1)] by auto
  next
    case False
    then show ?thesis using D by (cases "p x") (auto simp: measured_def)
  qed
  then show ?case using Cons.IH [OF m1(2)] by (simp add: add.assoc)
qed simp

lemma measured_Nil [simp]: "measured f [] k = 0"
  by (simp add: measured_def)

lemma entries_by_key_set [simp]: "set (entries_by_key h m) = set m"
  by (simp add: entries_by_key_def)

lemma entries_by_key_distinct: "map_ok m \<Longrightarrow> distinct (map fst (entries_by_key h m))"
proof -
  assume "map_ok m"
  moreover have "mset (map fst (entries_by_key h m)) = mset (map fst m)" by (simp add: entries_by_key_def)
  ultimately show ?thesis by (metis map_ok_def mset_eq_imp_distinct_iff)
qed

lemma entries_measured:
  "map_ok m \<Longrightarrow> (k, b) \<in> set m \<Longrightarrow> f b = measured f m k"
  by (simp add: measured_def map_get_def map_ok_def)

lemma entries_keys: "map_ok m \<Longrightarrow> fst ` set m = {k. map_get m k \<noteq> None}"
  by (simp add: map_get_def dom_map_of_conv_image_fst [symmetric] dom_def)

section \<open>The allocation index\<close>

definition allocates :: "payout_batch list \<Rightarrow> string \<Rightarrow> payout_batch \<times> payout_item \<Rightarrow> bool" where
  "allocates batches k p \<longleftrightarrow> fst p \<in> set batches \<and> snd p \<in> set (pb_items (fst p)) \<and>
     k \<in> al_accrualId ` set (it_allocations (snd p))"

lemma index_allocations:
  "map_get (fold (\<lambda>al. map_set (al_accrualId al) p) als m) k =
   (if k \<in> al_accrualId ` set als then Some p else map_get m k)"
  by (induction als arbitrary: m) auto

lemma index_items:
  "map_get (fold (index_item b) its m) k = Some p \<Longrightarrow>
   map_get m k = Some p \<or> fst p = b \<and> snd p \<in> set its \<and> k \<in> al_accrualId ` set (it_allocations (snd p))"
proof (induction its arbitrary: m)
  case (Cons it its)
  then have "map_get (index_item b it m) k = Some p \<or>
      fst p = b \<and> snd p \<in> set its \<and> k \<in> al_accrualId ` set (it_allocations (snd p))" by simp
  then show ?case unfolding index_item_def index_allocations by (cases "k \<in> al_accrualId ` set (it_allocations it)") auto
qed simp

lemma index_items_None:
  "map_get (fold (index_item b) its m) k = None \<longleftrightarrow>
   map_get m k = None \<and> (\<forall>it \<in> set its. k \<notin> al_accrualId ` set (it_allocations it))"
  by (induction its arbitrary: m) (auto simp: index_item_def index_allocations)

lemma index_sound: "map_get (buildPayoutAllocationIndex batches) k = Some p \<Longrightarrow> allocates batches k p"
proof -
  have "map_get (fold (\<lambda>b. fold (index_item b) (pb_items b)) bs m) k = Some p \<Longrightarrow>
      set bs \<subseteq> set batches \<Longrightarrow> map_get m k = Some p \<or> allocates batches k p" for bs m
  proof (induction bs arbitrary: m)
    case (Cons b bs)
    then show ?case using index_items [of b "pb_items b" m k p] by (fastforce simp: allocates_def)
  qed simp
  then show "map_get (buildPayoutAllocationIndex batches) k = Some p \<Longrightarrow> allocates batches k p"
    by (fastforce simp: buildPayoutAllocationIndex_def)
qed

lemma index_complete:
  "map_get (buildPayoutAllocationIndex batches) k = None \<longleftrightarrow> (\<forall>p. \<not> allocates batches k p)"
proof -
  have "map_get (fold (\<lambda>b. fold (index_item b) (pb_items b)) bs m) k = None \<longleftrightarrow>
      map_get m k = None \<and> (\<forall>b \<in> set bs. \<forall>it \<in> set (pb_items b). k \<notin> al_accrualId ` set (it_allocations it))" for bs m
    by (induction bs arbitrary: m) (simp_all add: index_items_None conj_assoc del: image_iff)
  then show ?thesis by (simp add: buildPayoutAllocationIndex_def allocates_def) blast
qed

section \<open>Merchant obligations\<close>

definition obligation_status :: "payout_batch list \<Rightarrow> accrual \<Rightarrow> history_status" where
  "obligation_status batches a =
     readMerchantObligationStatus a (map_option snd (map_get (buildPayoutAllocationIndex batches) (ac_id a)))"

text \<open>The accruals of an asset that a summary counts, and those among them of one status.\<close>

definition obliged :: "string \<Rightarrow> string option \<Rightarrow> accrual list \<Rightarrow> string \<Rightarrow> accrual list" where
  "obliged merchantId asset accruals k = filter (\<lambda>a. obliges merchantId asset a \<and> ac_asset a = k) accruals"

definition total_of :: "accrual list \<Rightarrow> int" where
  "total_of as = (\<Sum>a\<leftarrow>as. accrual_amount a)"

definition with_status :: "(accrual \<Rightarrow> history_status) \<Rightarrow> history_status \<Rightarrow> accrual list \<Rightarrow> accrual list" where
  "with_status f st as = filter (\<lambda>a. f a = st) as"

lemma total_of_nonneg [simp]: "0 \<le> total_of as"
  by (auto simp: total_of_def accrual_amount_def intro!: sum_list_nonneg)

lemma total_of_split: "total_of (with_status f H_pending as) + total_of (with_status f H_available as) +
    total_of (with_status f H_held as) + total_of (with_status f H_in_flight as) +
    total_of (with_status f H_paid as) = total_of as"
proof (induction as)
  case (Cons a as)
  then show ?case by (cases "f a") (simp_all add: total_of_def with_status_def)
qed (simp add: total_of_def with_status_def)

lemma total_of_indicator: "(\<Sum>a\<leftarrow>as. if f a = st then accrual_amount a else 0) = total_of (with_status f st as)"
  by (induction as) (auto simp: total_of_def with_status_def)

lemma count_indicator: "(\<Sum>a\<leftarrow>as. if f a = st then 1 else 0) = length (with_status f st as)"
  by (induction as) (auto simp: with_status_def)

definition totals_match :: "(accrual \<Rightarrow> history_status) \<Rightarrow> accrual list \<Rightarrow> obligation_totals \<Rightarrow> bool" where
  "totals_match f as b \<longleftrightarrow>
     ot_pending b = total_of (with_status f H_pending as) \<and> ot_pendingCount b = length (with_status f H_pending as) \<and>
     ot_available b = total_of (with_status f H_available as) \<and> ot_availableCount b = length (with_status f H_available as) \<and>
     ot_held b = total_of (with_status f H_held as) \<and> ot_heldCount b = length (with_status f H_held as) \<and>
     ot_inFlight b = total_of (with_status f H_in_flight as) \<and> ot_inFlightCount b = length (with_status f H_in_flight as) \<and>
     ot_paid b = total_of (with_status f H_paid as) \<and> ot_paidCount b = length (with_status f H_paid as) \<and>
     ot_accrualCount b = length as"

lemma obligation_groups: "groups_by (obligation_step idx merchantId asset) (obliges merchantId asset) ac_asset"
  by (auto simp: groups_by_def obligation_step_def and_then_Inr)

lemma obligation_grow:
  assumes "obligation_step (buildPayoutAllocationIndex batches) merchantId asset a m = Inr m'" "obliges merchantId asset a"
    and "\<And>st n b. f (add_obligation st n b) = f b + w st n" "f no_obligation = 0"
  shows "measured f m' (ac_asset a) = measured f m (ac_asset a) + w (obligation_status batches a) (accrual_amount a)"
  using assms(1,2)
  by (auto simp: obligation_step_def and_then_Inr measured_def readAtomicAmount_Inr accrual_amount_def
      obligation_status_def assms(3,4) split: option.splits)

lemma obligation_totals_match:
  assumes run: "fold_err (obligation_step (buildPayoutAllocationIndex batches) merchantId asset) accruals [] = Inr m"
    and mem: "(k, b) \<in> set m"
  shows "totals_match (obligation_status batches) (obliged merchantId asset accruals k) b"
proof -
  let ?as = "obliged merchantId asset accruals k"
  have ok: "map_ok m" using grouped_keys [OF run obligation_groups] by simp
  have val: "f b = (\<Sum>a\<leftarrow>?as. w (obligation_status batches a) (accrual_amount a))"
    if "\<And>st n b. f (add_obligation st n b) = f b + w st n" "f no_obligation = 0"
    for f :: "obligation_totals \<Rightarrow> 'n :: comm_monoid_add" and w
    using grouped_measure [OF run obligation_groups, of f "\<lambda>a. w (obligation_status batches a) (accrual_amount a)" k]
      obligation_grow [of batches merchantId asset _ _ _ f w] that entries_measured [OF ok mem, of f]
    by (simp add: obliged_def)
  note bump = add_obligation_def no_obligation_def Let_def
  have amount: "f b = total_of (with_status (obligation_status batches) s ?as)"
    if "\<And>st n b. f (add_obligation st n b) = f b + (if st = s then n else 0)" "f no_obligation = 0" for f s
    using val [of f "\<lambda>st n. if st = s then n else 0"] that by (simp add: total_of_indicator)
  have count: "f b = length (with_status (obligation_status batches) s ?as)"
    if "\<And>st n b. f (add_obligation st n b) = f b + (if st = s then 1 else 0)" "f no_obligation = 0" for f s
    using val [of f "\<lambda>st n. if st = s then 1 else 0"] that by (simp add: count_indicator)
  have "ot_accrualCount b = length ?as"
    using val [of ot_accrualCount "\<lambda>st n. 1"] by (simp add: bump sum_list_triv split: history_status.split)
  moreover have "ot_pending b = total_of (with_status (obligation_status batches) H_pending ?as)"
    by (rule amount) (simp_all add: bump split: history_status.split)
  moreover have "ot_available b = total_of (with_status (obligation_status batches) H_available ?as)"
    by (rule amount) (simp_all add: bump split: history_status.split)
  moreover have "ot_held b = total_of (with_status (obligation_status batches) H_held ?as)"
    by (rule amount) (simp_all add: bump split: history_status.split)
  moreover have "ot_inFlight b = total_of (with_status (obligation_status batches) H_in_flight ?as)"
    by (rule amount) (simp_all add: bump split: history_status.split)
  moreover have "ot_paid b = total_of (with_status (obligation_status batches) H_paid ?as)"
    by (rule amount) (simp_all add: bump split: history_status.split)
  moreover have "ot_pendingCount b = length (with_status (obligation_status batches) H_pending ?as)"
    by (rule count) (simp_all add: bump split: history_status.split)
  moreover have "ot_availableCount b = length (with_status (obligation_status batches) H_available ?as)"
    by (rule count) (simp_all add: bump split: history_status.split)
  moreover have "ot_heldCount b = length (with_status (obligation_status batches) H_held ?as)"
    by (rule count) (simp_all add: bump split: history_status.split)
  moreover have "ot_inFlightCount b = length (with_status (obligation_status batches) H_in_flight ?as)"
    by (rule count) (simp_all add: bump split: history_status.split)
  moreover have "ot_paidCount b = length (with_status (obligation_status batches) H_paid ?as)"
    by (rule count) (simp_all add: bump split: history_status.split)
  ultimately show ?thesis unfolding totals_match_def by blast
qed

lemma obligation_asset_facts:
  assumes "obligation_asset_of funding (k, b) = Inr x"
  shows "oa_asset x = k \<and> oa_pendingAmountAtomic x = show_int (ot_pending b) \<and>
    oa_availableAmountAtomic x = show_int (ot_available b) \<and> oa_heldAmountAtomic x = show_int (ot_held b) \<and>
    oa_inFlightAmountAtomic x = show_int (ot_inFlight b) \<and> oa_paidAmountAtomic x = show_int (ot_paid b) \<and>
    oa_outstandingAmountAtomic x = show_int (ot_pending b + ot_available b + ot_held b + ot_inFlight b) \<and>
    oa_totalAccruedAmountAtomic x =
      show_int (ot_pending b + ot_available b + ot_held b + ot_inFlight b + ot_paid b) \<and>
    oa_accrualCount x = ot_accrualCount b \<and> oa_pendingAccrualCount x = ot_pendingCount b \<and>
    oa_availableAccrualCount x = ot_availableCount b \<and> oa_heldAccrualCount x = ot_heldCount b \<and>
    oa_inFlightAccrualCount x = ot_inFlightCount b \<and> oa_paidAccrualCount x = ot_paidCount b \<and>
    (case (case funding of None \<Rightarrow> None | Some m \<Rightarrow> map_get m k) of
       None \<Rightarrow> oa_fundingStatus x = Unknown \<and> oa_fundingAmountAtomic x = None \<and> oa_fundingDeficitAtomic x = None
     | Some f \<Rightarrow> (let due = ot_pending b + ot_available b + ot_held b + ot_inFlight b in
         oa_fundingAmountAtomic x = Some (show_int f) \<and>
         oa_fundingDeficitAtomic x = Some (show_int (max 0 (due - f))) \<and>
         oa_fundingStatus x = (if due \<le> f then Covered else Deficit)))"
  using assms
  by (cases "case funding of None \<Rightarrow> None | Some m \<Rightarrow> map_get m k")
     (auto simp: obligation_asset_of_def Let_def and_then_Inr serialize_amount_Inr split: if_splits)

text \<open>How an obligation of one asset reads off the accruals it counts.\<close>

definition obligation_books :: "payout_batch list \<Rightarrow> accrual list \<Rightarrow> obligation_asset \<Rightarrow> bool" where
  "obligation_books batches as x \<longleftrightarrow>
     (let part = (\<lambda>st. with_status (obligation_status batches) st as) in
      oa_pendingAmountAtomic x = show_int (total_of (part H_pending)) \<and> oa_pendingAccrualCount x = length (part H_pending) \<and>
      oa_availableAmountAtomic x = show_int (total_of (part H_available)) \<and> oa_availableAccrualCount x = length (part H_available) \<and>
      oa_heldAmountAtomic x = show_int (total_of (part H_held)) \<and> oa_heldAccrualCount x = length (part H_held) \<and>
      oa_inFlightAmountAtomic x = show_int (total_of (part H_in_flight)) \<and> oa_inFlightAccrualCount x = length (part H_in_flight) \<and>
      oa_paidAmountAtomic x = show_int (total_of (part H_paid)) \<and> oa_paidAccrualCount x = length (part H_paid) \<and>
      oa_outstandingAmountAtomic x = show_int (total_of as - total_of (part H_paid)) \<and>
      oa_totalAccruedAmountAtomic x = show_int (total_of as) \<and> oa_accrualCount x = length as)"

lemma obligation_asset_books:
  assumes "obligation_asset_of funding (k, b) = Inr x" "totals_match (obligation_status batches) as b"
  shows "obligation_books batches as x"
proof -
  have due: "ot_pending b + ot_available b + ot_held b + ot_inFlight b =
      total_of as - total_of (with_status (obligation_status batches) H_paid as)"
    and all: "ot_pending b + ot_available b + ot_held b + ot_inFlight b + ot_paid b = total_of as"
    using assms(2) total_of_split [of "obligation_status batches" as] by (simp_all add: totals_match_def)
  show ?thesis
    using obligation_asset_facts [OF assms(1), unfolded due all] assms(2)
    by (simp add: obligation_books_def totals_match_def Let_def)
qed

lemma obligation_run:
  assumes "createMerchantObligationSummary h clock accruals batches i = Inr s"
  shows "\<exists>funding m. buildFundingBalanceMap (oin_fundingBalances i) = Inr funding \<and>
    fold_err (obligation_step (buildPayoutAllocationIndex batches) (oin_merchantId i) (oin_asset i)) accruals [] = Inr m \<and>
    list_all2 (\<lambda>p x. obligation_asset_of funding p = Inr x) (entries_by_key h m) (os_assets s)"
  using assms
  by (auto simp: createMerchantObligationSummary_def Let_def and_then_Inr assertNonEmptyString_Inr map_err_Inr)

lemma funding_key:
  assumes "buildFundingBalanceMap balances = Inr (Some m)" "map_get m k = Some f"
  shows "f = funding_total k (the balances)"
proof -
  obtain bs where "balances = Some bs"
    using assms(1) by (cases balances) (auto simp: buildFundingBalanceMap_def)
  moreover have "map_total k m = f" using assms(2) by (simp add: map_total_def)
  ultimately show ?thesis using buildFundingBalanceMap_total [OF assms(1)] by auto
qed


definition toy_obligation_input :: obligation_input where
  "toy_obligation_input = \<lparr>oin_merchantId = ''m'', oin_asset = None, oin_now = None,
     oin_fundingBalances = Some [\<lparr>fb_asset = ''usd'', fb_amountAtomic = ''40''\<rparr>]\<rparr>"

definition toy_obligations :: obligation_summary where
  "toy_obligations = \<lparr>os_merchantId = ''m'', os_generatedAt = ''Z'', os_assets = [\<lparr>oa_asset = ''usd'',
     oa_fundingStatus = Deficit, oa_fundingAmountAtomic = Some ''40'', oa_fundingDeficitAtomic = Some ''12'',
     oa_pendingAmountAtomic = ''0'', oa_availableAmountAtomic = ''43'', oa_heldAmountAtomic = ''9'',
     oa_inFlightAmountAtomic = ''0'', oa_paidAmountAtomic = ''0'', oa_outstandingAmountAtomic = ''52'',
     oa_totalAccruedAmountAtomic = ''52'', oa_accrualCount = 4, oa_pendingAccrualCount = 0,
     oa_availableAccrualCount = 3, oa_heldAccrualCount = 1, oa_inFlightAccrualCount = 0, oa_paidAccrualCount = 0\<rparr>]\<rparr>"

lemma toy_obligations_run:
  "createMerchantObligationSummary toy_host ''Z'' (pin_accruals toy_preview_input) [] toy_obligation_input = Inr toy_obligations"
  by code_simp


section \<open>Referrer balances\<close>

definition status_in_history :: "payout_batch list \<Rightarrow> accrual \<Rightarrow> history_status" where
  "status_in_history batches a =
     readReferrerPayoutHistoryStatus a (map_option snd (map_get (buildPayoutAllocationIndex batches) (ac_id a)))"

definition earned :: "string \<Rightarrow> string option \<Rightarrow> accrual list \<Rightarrow> string \<Rightarrow> accrual list" where
  "earned wallet asset accruals k = filter (\<lambda>a. history_accrual wallet asset a \<and> ac_asset a = k) accruals"

definition history_facts :: "payout_batch list \<Rightarrow> accrual \<Rightarrow> history_item \<Rightarrow> bool" where
  "history_facts batches a x \<longleftrightarrow> hi_accrualId x = ac_id a \<and> hi_asset x = ac_asset a \<and>
     hi_amountAtomic x = ac_amountAtomic a \<and> hi_status x = status_in_history batches a \<and>
     hi_merchantId x = ac_merchantId a \<and> hi_referrerWallet x = ac_referrerWallet a"

lemma history_run:
  assumes "createReferrerPayoutHistoryItems h accruals batches i = Inr xs"
  shows "\<exists>items. list_all2 (history_facts batches) (filter (history_accrual (hin_referrerWallet i) (hin_asset i)) accruals) items \<and>
    xs = (case hin_limit i of None \<Rightarrow> sort_by (compareReferrerPayoutHistoryItems h) items
      | Some n \<Rightarrow> take (nat n) (sort_by (compareReferrerPayoutHistoryItems h) items)) \<and>
    opt_all (\<lambda>n. 0 < n \<and> n \<le> 500) (hin_limit i)"
proof -
  let ?as = "filter (history_accrual (hin_referrerWallet i) (hin_asset i)) accruals"
  from assms obtain items where items: "map_err (history_item_of h (buildPayoutAllocationIndex batches)) ?as = Inr items"
    and xs: "xs = (case hin_limit i of None \<Rightarrow> sort_by (compareReferrerPayoutHistoryItems h) items
      | Some n \<Rightarrow> take (nat n) (sort_by (compareReferrerPayoutHistoryItems h) items))"
    and limit: "opt_all (\<lambda>n. 0 < n \<and> n \<le> 500) (hin_limit i)"
    by (cases "hin_limit i") (auto simp: createReferrerPayoutHistoryItems_def Let_def and_then_Inr assertNonEmptyString_Inr
        map_opt_err_Inr normalizeReferrerPayoutHistoryLimit_def opt_all_def split: if_splits)
  have "history_item_of h (buildPayoutAllocationIndex batches) a = Inr x \<Longrightarrow> history_facts batches a x" for a x
    by (auto simp: history_item_of_def Let_def and_then_Inr history_facts_def status_in_history_def)
  then have "list_all2 (history_facts batches) ?as items"
    using items unfolding map_err_Inr by (rule list_all2_mono [rotated])
  then show ?thesis using xs limit by blast
qed

lemma history_sum:
  fixes g :: "history_status \<Rightarrow> int \<Rightarrow> int"
  assumes "list_all2 (history_facts batches) as items" "mset xs = mset items"
  shows "(\<Sum>x\<leftarrow>filter (\<lambda>x. hi_asset x = k) xs. g (hi_status x) (amount_of (hi_amountAtomic x))) =
    (\<Sum>a\<leftarrow>filter (\<lambda>a. ac_asset a = k) as. g (status_in_history batches a) (accrual_amount a))"
proof -
  have "(\<Sum>x\<leftarrow>filter (\<lambda>x. hi_asset x = k) xs. g (hi_status x) (amount_of (hi_amountAtomic x))) =
      (\<Sum>x\<leftarrow>filter (\<lambda>x. hi_asset x = k) items. g (hi_status x) (amount_of (hi_amountAtomic x)))"
  proof -
    have "mset (map (\<lambda>x. g (hi_status x) (amount_of (hi_amountAtomic x))) (filter (\<lambda>x. hi_asset x = k) xs)) =
        mset (map (\<lambda>x. g (hi_status x) (amount_of (hi_amountAtomic x))) (filter (\<lambda>x. hi_asset x = k) items))"
      using assms(2) by simp
    then show ?thesis by (metis sum_mset_sum_list)
  qed
  also have "\<dots> = (\<Sum>a\<leftarrow>filter (\<lambda>a. ac_asset a = k) as. g (status_in_history batches a) (accrual_amount a))"
    using assms(1) by (induction rule: list_all2_induct) (auto simp: history_facts_def accrual_amount_def)
  finally show ?thesis .
qed

lemma balance_groups: "groups_by balance_step (\<lambda>_. True) hi_asset"
  by (auto simp: groups_by_def balance_step_def and_then_Inr)

lemma balance_value:
  fixes f :: "balance_totals \<Rightarrow> int"
  assumes run: "fold_err balance_step xs [] = Inr m" and mem: "(k, b) \<in> set m"
    and add: "\<And>st n b. f (add_balance st n b) = f b + w st n" "f no_balance = 0"
    and rel: "list_all2 (history_facts batches) as items" "mset xs = mset items"
  shows "f b = (\<Sum>a\<leftarrow>filter (\<lambda>a. ac_asset a = k) as. w (status_in_history batches a) (accrual_amount a))"
proof -
  have ok: "map_ok m" using grouped_keys [OF run balance_groups] by simp
  have "measured f m k = measured f [] k +
      (\<Sum>x\<leftarrow>filter (\<lambda>x. True \<and> hi_asset x = k) xs. w (hi_status x) (amount_of (hi_amountAtomic x)))"
    by (rule grouped_measure [OF run balance_groups])
      (auto simp: balance_step_def and_then_Inr readAtomicAmount_Inr measured_def add split: option.splits)
  then show ?thesis using history_sum [OF rel, of w k] entries_measured [OF ok mem, of f] by simp
qed

definition balance_books :: "payout_batch list \<Rightarrow> accrual list \<Rightarrow> balance_asset \<Rightarrow> bool" where
  "balance_books batches as x \<longleftrightarrow>
     (let part = (\<lambda>st. total_of (with_status (status_in_history batches) st as)) in
      ba_pendingAmountAtomic x = show_int (part H_pending) \<and> ba_availableAmountAtomic x = show_int (part H_available) \<and>
      ba_heldAmountAtomic x = show_int (part H_held) \<and> ba_inFlightAmountAtomic x = show_int (part H_in_flight) \<and>
      ba_paidAmountAtomic x = show_int (part H_paid) \<and> ba_totalEarnedAmountAtomic x = show_int (total_of as))"

lemma balance_asset_books:
  assumes run: "fold_err balance_step xs [] = Inr m" and mem: "(k, b) \<in> set m"
    and rel: "list_all2 (history_facts batches) as items" "mset xs = mset items"
    and x: "balance_asset_of (k, b) = Inr x"
  shows "balance_books batches (filter (\<lambda>a. ac_asset a = k) as) x"
proof -
  let ?as = "filter (\<lambda>a. ac_asset a = k) as"
  note bump = add_balance_def no_balance_def Let_def
  note val = balance_value [OF run mem _ _ rel]
  have part: "f b = total_of (with_status (status_in_history batches) s ?as)"
    if "\<And>st n b. f (add_balance st n b) = f b + (if st = s then n else 0)" "f no_balance = 0" for f s
    using val [of f "\<lambda>st n. if st = s then n else 0"] that by (simp add: total_of_indicator)
  have "bt_total b = total_of ?as"
    using val [of bt_total "\<lambda>st n. n"] by (simp add: bump total_of_def split: history_status.split)
  moreover have "bt_pending b = total_of (with_status (status_in_history batches) H_pending ?as)"
    by (rule part) (simp_all add: bump split: history_status.split)
  moreover have "bt_available b = total_of (with_status (status_in_history batches) H_available ?as)"
    by (rule part) (simp_all add: bump split: history_status.split)
  moreover have "bt_held b = total_of (with_status (status_in_history batches) H_held ?as)"
    by (rule part) (simp_all add: bump split: history_status.split)
  moreover have "bt_inFlight b = total_of (with_status (status_in_history batches) H_in_flight ?as)"
    by (rule part) (simp_all add: bump split: history_status.split)
  moreover have "bt_paid b = total_of (with_status (status_in_history batches) H_paid ?as)"
    by (rule part) (simp_all add: bump split: history_status.split)
  ultimately show ?thesis
    using x by (auto simp: balance_asset_of_def Let_def and_then_Inr serialize_amount_Inr balance_books_def)
qed


definition toy_balance :: balance_summary where
  "toy_balance = \<lparr>bs_referrerWallet = ''ref'', bs_generatedAt = ''Z'', bs_assets = [\<lparr>ba_asset = ''usd'',
     ba_pendingAmountAtomic = ''0'', ba_availableAmountAtomic = ''43'', ba_heldAmountAtomic = ''9'',
     ba_inFlightAmountAtomic = ''0'', ba_paidAmountAtomic = ''0'', ba_totalEarnedAmountAtomic = ''52''\<rparr>]\<rparr>"

lemma toy_balance_run:
  "createReferrerBalanceSummary toy_host ''Z'' (pin_accruals toy_preview_input) [] ''ref'' None None = Inr toy_balance"
  by code_simp


end
