(* ===== verification/Receipt_Store.thy ===== *)
theory Receipt_Store
  imports Payout_Views
begin

text \<open>
  \<^verbatim>\<open>packages/control-plane/src/index.ts\<close>, \<open>InMemoryReceiptIngestionStore\<close>: the receipts with their
  accruals and ledger transactions, the payout batches, their transactions and the closing ledger
  transactions. Every method is a function of the store that returns the new store; a method that
  throws does so before it changes anything, so an error carries no store. A loop that saves each
  snapshot it visits while it iterates over the map is a fold over the values the map had: saving
  replaces the value of the key being visited and adds none. The constant member
  \<open>ingestionState\<close> is left out.
\<close>

section \<open>State\<close>

record receipt_record =
  rr_id :: string
  rr_receiptHash :: string
  rr_receipt :: receipt
  rr_source :: ingest_source
  rr_verificationState :: verification_state
  rr_verificationReason :: "string option"
  rr_createdAt :: string

record snapshot =
  sn_receipt :: receipt_record
  sn_accrual :: "accrual option"
  sn_ledgerTransaction :: "ledger_transaction option"

record store =
  receiptsById :: "(string, snapshot) js_map"
  receiptIdByHash :: "(string, string) js_map"
  receiptIdByPaymentId :: "(string, string) js_map"
  receiptIdBySettlementTx :: "(string, string) js_map"
  payoutBatchesById :: "(string, payout_batch) js_map"
  payoutTransactionsById :: "(string, payout_transaction) js_map"
  payoutLedgerTransactionsByBatchId :: "(string, ledger_transaction) js_map"

definition empty_store :: store where
  "empty_store = \<lparr>receiptsById = [], receiptIdByHash = [], receiptIdByPaymentId = [],
     receiptIdBySettlementTx = [], payoutBatchesById = [], payoutTransactionsById = [],
     payoutLedgerTransactionsByBatchId = []\<rparr>"

section \<open>Receipts\<close>

definition getByReceiptId :: "store \<Rightarrow> string \<Rightarrow> snapshot option" where
  "getByReceiptId s k = map_get (receiptsById s) k"

definition getByReceiptHash :: "store \<Rightarrow> string \<Rightarrow> snapshot option" where
  "getByReceiptHash s k = (case map_get (receiptIdByHash s) k of None \<Rightarrow> None
     | Some i \<Rightarrow> map_get (receiptsById s) i)"

definition getByPaymentId :: "store \<Rightarrow> string \<Rightarrow> snapshot option" where
  "getByPaymentId s k = (case map_get (receiptIdByPaymentId s) k of None \<Rightarrow> None
     | Some i \<Rightarrow> map_get (receiptsById s) i)"

definition getBySettlementTxSignature :: "store \<Rightarrow> string \<Rightarrow> snapshot option" where
  "getBySettlementTxSignature s k = (case map_get (receiptIdBySettlementTx s) k of None \<Rightarrow> None
     | Some i \<Rightarrow> map_get (receiptsById s) i)"

definition save :: "snapshot \<Rightarrow> store \<Rightarrow> store" where
  "save sn s =
     (let r = sn_receipt sn in
      s\<lparr>receiptsById := map_set (rr_id r) sn (receiptsById s),
        receiptIdByHash := map_set (rr_receiptHash r) (rr_id r) (receiptIdByHash s),
        receiptIdByPaymentId := map_set (rc_paymentId (rr_receipt r)) (rr_id r) (receiptIdByPaymentId s),
        receiptIdBySettlementTx :=
          map_set (rc_settlementTxSignature (rr_receipt r)) (rr_id r) (receiptIdBySettlementTx s)\<rparr>)"

text \<open>The snapshot after the chain verified, or rejected, the settlement.\<close>

definition verified_snapshot :: "string \<Rightarrow> snapshot \<Rightarrow> snapshot" where
  "verified_snapshot verifiedAt sn =
     sn\<lparr>sn_receipt := (sn_receipt sn)\<lparr>rr_verificationState :=
          (if rr_verificationState (sn_receipt sn) = Pending_verification then Signature_verified
           else rr_verificationState (sn_receipt sn))\<rparr>,
        sn_accrual := map_option (\<lambda>a. if ac_status a = Pending_chain_verification
          then a\<lparr>ac_status := Available, ac_availableAt := Some verifiedAt\<rparr> else a) (sn_accrual sn)\<rparr>"

definition rejected_snapshot :: "string \<Rightarrow> snapshot \<Rightarrow> snapshot" where
  "rejected_snapshot reason sn =
     sn\<lparr>sn_receipt := (sn_receipt sn)\<lparr>rr_verificationState :=
          (if rr_verificationState (sn_receipt sn) = Pending_verification then Chain_rejected
           else rr_verificationState (sn_receipt sn)), rr_verificationReason := Some reason\<rparr>,
        sn_accrual := map_option (\<lambda>a. if ac_status a = Pending_chain_verification
          then a\<lparr>ac_status := Rejected\<rparr> else a) (sn_accrual sn)\<rparr>"

definition markReceiptChainVerified :: "string \<Rightarrow> string \<Rightarrow> store \<Rightarrow> snapshot option \<times> store" where
  "markReceiptChainVerified receiptId verifiedAt s = (case getByReceiptId s receiptId of
       None \<Rightarrow> (None, s)
     | Some sn \<Rightarrow> let u = verified_snapshot verifiedAt sn in (Some u, save u s))"

definition markReceiptChainRejected :: "string \<Rightarrow> string \<Rightarrow> store \<Rightarrow> snapshot option \<times> store" where
  "markReceiptChainRejected receiptId reason s = (case getByReceiptId s receiptId of
       None \<Rightarrow> (None, s)
     | Some sn \<Rightarrow> let u = rejected_snapshot reason sn in (Some u, save u s))"

definition listAccruals :: "store \<Rightarrow> accrual list" where
  "listAccruals s = List.map_filter sn_accrual (map_values (receiptsById s))"

definition listPayoutEligibleAccruals :: "host \<Rightarrow> eligible_input \<Rightarrow> store \<Rightarrow> cp_error + accrual list" where
  "listPayoutEligibleAccruals h i s = filterPayoutEligibleAccruals h (listAccruals s) i"

section \<open>Payout batches\<close>

definition item_accrual_ids :: "payout_item list \<Rightarrow> string list" where
  "item_accrual_ids items = concat (map (\<lambda>it. map al_accrualId (it_allocations it)) items)"

definition with_accrual_status :: "accrual_status \<Rightarrow> snapshot \<Rightarrow> snapshot" where
  "with_accrual_status st sn = sn\<lparr>sn_accrual := map_option (\<lambda>a. a\<lparr>ac_status := st\<rparr>) (sn_accrual sn)\<rparr>"

definition collect_step :: "string list \<Rightarrow> snapshot \<Rightarrow> snapshot list \<Rightarrow> cp_error + snapshot list" where
  "collect_step ids sn acc = (case sn_accrual sn of
       None \<Rightarrow> Inr acc
     | Some a \<Rightarrow>
        if ac_id a \<in> set ids
        then if ac_status a \<noteq> Available
             then Inl (Batch_Conflict (''accrual is not available for payout: '' @ ac_id a))
             else Inr (acc @ [sn])
        else Inr acc)"

definition createPayoutBatch ::
  "host \<Rightarrow> string \<Rightarrow> string \<Rightarrow> (nat \<Rightarrow> string) \<Rightarrow> batch_input \<Rightarrow> store \<Rightarrow> cp_error + payout_batch \<times> store" where
  "createPayoutBatch h clock newBatchId newItemId i s =
     and_then (createPayoutBatchPlan h clock newBatchId newItemId i) (\<lambda>batch.
     let selectedAccrualIds = remdups (item_accrual_ids (pb_items batch)) in
     and_then (fold_err (collect_step selectedAccrualIds) (map_values (receiptsById s)) []) (\<lambda>snapshotsToAllocate.
     if length snapshotsToAllocate \<noteq> length selectedAccrualIds
     then Inl (Batch_Conflict ''one or more selected accruals were not found'')
     else let s' = fold (\<lambda>sn. save (with_accrual_status Allocated sn)) snapshotsToAllocate s
          in Inr (batch, s'\<lparr>payoutBatchesById := map_set (pb_id batch) batch (payoutBatchesById s')\<rparr>)))"

record available_batch_input =
  ab_merchantId :: string
  ab_payoutWalletId :: string
  ab_network :: string
  ab_asset :: string
  ab_campaignId :: "string option"
  ab_routeId :: "string option"
  ab_now :: "string option"
  ab_limit :: "int option"
  ab_batchId :: "string option"
  ab_minimumPayoutAmountAtomic :: "string option"
  ab_maxRecipients :: "int option"

definition createPayoutBatchFromAvailableAccruals ::
  "host \<Rightarrow> string \<Rightarrow> string \<Rightarrow> (nat \<Rightarrow> string) \<Rightarrow> available_batch_input \<Rightarrow> store \<Rightarrow> cp_error + payout_batch \<times> store" where
  "createPayoutBatchFromAvailableAccruals h clock newBatchId newItemId i s =
     and_then (listPayoutEligibleAccruals h \<lparr>ei_merchantId = ab_merchantId i, ei_asset = Some (ab_asset i),
       ei_campaignId = ab_campaignId i, ei_routeId = ab_routeId i, ei_now = ab_now i, ei_limit = ab_limit i\<rparr> s) (\<lambda>accruals.
     createPayoutBatch h clock newBatchId newItemId \<lparr>bi_merchantId = ab_merchantId i,
       bi_payoutWalletId = ab_payoutWalletId i, bi_network = ab_network i, bi_asset = ab_asset i,
       bi_accruals = accruals, bi_now = ab_now i, bi_batchId = ab_batchId i,
       bi_minimumPayoutAmountAtomic = ab_minimumPayoutAmountAtomic i, bi_maxRecipients = ab_maxRecipients i\<rparr> s)"

definition getPayoutBatch :: "store \<Rightarrow> string \<Rightarrow> payout_batch option" where
  "getPayoutBatch s k = map_get (payoutBatchesById s) k"

definition listMerchantPayoutBatches ::
  "host \<Rightarrow> string \<Rightarrow> batch_status option \<Rightarrow> int option \<Rightarrow> store \<Rightarrow> cp_error + payout_batch list" where
  "listMerchantPayoutBatches h merchantId status limit s =
     and_then (normalizeListMerchantPayoutBatchesLimit limit) (\<lambda>n.
     Inr (take (nat n) (sort_by (\<lambda>l r. or_else (localeCompare h (pb_createdAt r) (pb_createdAt l))
         (localeCompare h (pb_id r) (pb_id l)))
       (filter (\<lambda>b. opt_all (\<lambda>st. pb_status b = st) status)
         (filter (\<lambda>b. pb_merchantId b = merchantId) (map_values (payoutBatchesById s)))))))"

definition comparePayoutTransactions :: "host \<Rightarrow> payout_transaction \<Rightarrow> payout_transaction \<Rightarrow> int" where
  "comparePayoutTransactions h l r = or_else (tx_sequence l - tx_sequence r) (or_else (tx_attempt l - tx_attempt r)
     (or_else (localeCompare h (tx_createdAt l) (tx_createdAt r)) (localeCompare h (tx_id l) (tx_id r))))"

definition listPayoutTransactions :: "host \<Rightarrow> store \<Rightarrow> string \<Rightarrow> payout_transaction list" where
  "listPayoutTransactions h s batchId = sort_by (comparePayoutTransactions h)
     (filter (\<lambda>t. tx_payoutBatchId t = batchId) (map_values (payoutTransactionsById s)))"

text \<open>A loop over all snapshots that moves the allocated accruals among \<open>ids\<close> to a new status.\<close>

definition settle_step :: "accrual_status \<Rightarrow> string list \<Rightarrow> snapshot \<Rightarrow> store \<Rightarrow> store" where
  "settle_step st ids sn s = (case sn_accrual sn of
       None \<Rightarrow> s
     | Some a \<Rightarrow> if ac_status a = Allocated \<and> ac_id a \<in> set ids then save (with_accrual_status st sn) s else s)"

definition settle_accruals :: "accrual_status \<Rightarrow> string list \<Rightarrow> store \<Rightarrow> store" where
  "settle_accruals st ids s = fold (settle_step st ids) (map_values (receiptsById s)) s"

record release_input =
  re_payoutBatchId :: string
  re_reason :: string
  re_now :: "string option"
  re_override :: "string option"
  re_chainChecks :: "chain_check list"

definition releasePayoutBatchAllocations ::
  "host \<Rightarrow> string \<Rightarrow> release_input \<Rightarrow> store \<Rightarrow> cp_error + payout_batch option \<times> store" where
  "releasePayoutBatchAllocations h clock i s = (case map_get (payoutBatchesById s) (re_payoutBatchId i) of
       None \<Rightarrow> Inr (None, s)
     | Some batch \<Rightarrow>
        let transactions = listPayoutTransactions h s (pb_id batch);
            allowOutcomeUnknown = (pb_status batch = B_outcome_unknown \<and>
              isOutcomeUnknownPayoutBatchReleaseProven transactions (re_chainChecks i))
        in and_then (if pb_status batch = B_outcome_unknown \<and> \<not> allowOutcomeUnknown
             then assertPayoutBatchAllocationsReleasable transactions (re_chainChecks i) None else Inr ()) (\<lambda>_.
           and_then (releasePayoutBatchAllocationsForBatch h clock batch (re_reason i) (re_now i) (re_override i)
             allowOutcomeUnknown) (\<lambda>released.
           and_then (assertPayoutBatchAllocationsReleasable transactions (re_chainChecks i) (re_override i)) (\<lambda>_.
           let s' = s\<lparr>payoutBatchesById := map_set (pb_id released) released (payoutBatchesById s)\<rparr>
           in Inr (Some released, settle_accruals Available (item_accrual_ids (pb_items released)) s')))))"

section \<open>Payout transactions\<close>

definition insertable :: "host \<Rightarrow> store \<Rightarrow> payout_transaction \<Rightarrow> cp_error + unit" where
  "insertable h s r =
     and_then (ensure (map_get (payoutTransactionsById s) (tx_id r) = None)
       (Batch_Conflict (''payout transaction already exists: '' @ tx_id r))) (\<lambda>_.
     and_then (ensure (find (\<lambda>e. tx_sequence e = tx_sequence r \<and> tx_attempt e = tx_attempt r)
         (listPayoutTransactions h s (tx_payoutBatchId r)) = None)
       (Batch_Conflict (''payout transaction already exists for sequence '' @ show_int (tx_sequence r) @
          '' attempt '' @ show_int (tx_attempt r)))) (\<lambda>_.
     ensure (opt_all (\<lambda>g. \<not> list_ex (\<lambda>e. tx_expectedSignature e = Some g) (map_values (payoutTransactionsById s)))
         (tx_expectedSignature r))
       (Batch_Conflict (''payout transaction expected signature already exists: '' @ now_or (tx_expectedSignature r) []))))"

definition put_transaction :: "payout_transaction \<Rightarrow> store \<Rightarrow> store" where
  "put_transaction t s = s\<lparr>payoutTransactionsById := map_set (tx_id t) t (payoutTransactionsById s)\<rparr>"

definition saveSignedPayoutTransactions ::
  "host \<Rightarrow> string \<Rightarrow> (nat \<Rightarrow> string) \<Rightarrow> save_signed_input \<Rightarrow> store \<Rightarrow> cp_error + payout_transaction list \<times> store" where
  "saveSignedPayoutTransactions h clock newId i s =
     (case map_get (payoutBatchesById s) (ss_payoutBatchId i) of
        None \<Rightarrow> Inl (Batch_Conflict (''unknown payout batch: '' @ ss_payoutBatchId i))
      | Some batch \<Rightarrow>
         and_then (createSignedPayoutTransactionRecords h clock newId i) (\<lambda>raw.
         and_then (attachPayoutTransactionItemMappings raw batch) (\<lambda>records.
         and_then (map_err (insertable h s) records) (\<lambda>_.
         Inr (records, fold put_transaction records s)))))"

definition listPayoutTransactionsPendingFinality ::
  "host \<Rightarrow> int option \<Rightarrow> store \<Rightarrow> cp_error + payout_transaction list" where
  "listPayoutTransactionsPendingFinality h limit s =
     and_then (normalizePayoutPendingFinalityLimit limit) (\<lambda>n.
     Inr (take (nat n) (sort_by (comparePayoutTransactionsPendingFinality h)
       (filter isPayoutTransactionPendingFinality (map_values (payoutTransactionsById s))))))"

definition comparePayoutBatchesForReconciliation :: "host \<Rightarrow> payout_batch \<Rightarrow> payout_batch \<Rightarrow> int" where
  "comparePayoutBatchesForReconciliation h l r =
     or_else (localeCompare h (pb_updatedAt l) (pb_updatedAt r)) (localeCompare h (pb_id l) (pb_id r))"

text \<open>\<open>slice(0, limit)\<close>: a negative limit counts from the end.\<close>

definition js_take :: "int \<Rightarrow> 'a list \<Rightarrow> 'a list" where
  "js_take n xs = (if n \<ge> 0 then take (nat n) xs else take (length xs - nat (- n)) xs)"

definition listPayoutReconciliationItems ::
  "host \<Rightarrow> string \<Rightarrow> string option \<Rightarrow> int option \<Rightarrow> store \<Rightarrow> reconciliation_item list" where
  "listPayoutReconciliationItems h merchantId asset limit s =
     List.map_filter (\<lambda>b. createPayoutReconciliationItem b (listPayoutTransactions h s (pb_id b)))
       (js_take (case limit of None \<Rightarrow> 50 | Some n \<Rightarrow> n) (sort_by (comparePayoutBatchesForReconciliation h)
         (filter (\<lambda>b. opt_all (\<lambda>a. pb_asset b = a) asset) (filter (\<lambda>b. pb_merchantId b = merchantId)
           (filter (\<lambda>b. pb_status b = B_outcome_unknown) (map_values (payoutBatchesById s)))))))"

definition getReferrerBalanceSummary ::
  "host \<Rightarrow> string \<Rightarrow> string \<Rightarrow> string option \<Rightarrow> store \<Rightarrow> cp_error + balance_summary" where
  "getReferrerBalanceSummary h clock wallet asset s =
     createReferrerBalanceSummary h clock (listAccruals s) (map_values (payoutBatchesById s)) wallet asset None"

definition listReferrerPayoutHistory ::
  "host \<Rightarrow> string \<Rightarrow> string option \<Rightarrow> int option \<Rightarrow> store \<Rightarrow> cp_error + history_item list" where
  "listReferrerPayoutHistory h wallet asset limit s =
     createReferrerPayoutHistoryItems h (listAccruals s) (map_values (payoutBatchesById s))
       \<lparr>hin_referrerWallet = wallet, hin_asset = asset,
        hin_limit = Some (case limit of None \<Rightarrow> 50 | Some n \<Rightarrow> n)\<rparr>"

definition getMerchantObligationSummary ::
  "host \<Rightarrow> string \<Rightarrow> obligation_input \<Rightarrow> store \<Rightarrow> cp_error + obligation_summary" where
  "getMerchantObligationSummary h clock i s =
     createMerchantObligationSummary h clock (listAccruals s) (map_values (payoutBatchesById s)) i"

text \<open>\<open>new Date(value).toISOString()\<close>, which throws a \<open>RangeError\<close> on an invalid date.\<close>

definition iso_of :: "host \<Rightarrow> string \<Rightarrow> string option \<Rightarrow> cp_error + string" where
  "iso_of h clock v = (case v of None \<Rightarrow> Inr clock
     | Some t \<Rightarrow> (case dateParse h t of None \<Rightarrow> Inl (Host_Error ''Invalid time value'') | Some n \<Rightarrow> Inr (toISOString h n)))"

definition markPayoutTransactionSubmitted ::
  "host \<Rightarrow> string \<Rightarrow> string \<Rightarrow> string option \<Rightarrow> string option \<Rightarrow> store \<Rightarrow> cp_error + payout_transaction option \<times> store" where
  "markPayoutTransactionSubmitted h clock txId submittedAt expectedSignature s =
     (case map_get (payoutTransactionsById s) txId of
        None \<Rightarrow> Inr (None, s)
      | Some existing \<Rightarrow>
         and_then (ensure (expectedSignature = None \<or> tx_expectedSignature existing = None \<or>
             tx_expectedSignature existing = expectedSignature)
           (Batch_Conflict ''submitted payout transaction signature does not match expected signature'')) (\<lambda>_.
         and_then (iso_of h clock submittedAt) (\<lambda>at'.
         let t = existing\<lparr>tx_expectedSignature := (if expectedSignature = None then tx_expectedSignature existing
                   else expectedSignature), tx_status := T_submitted, tx_submittedAt := Some at'\<rparr>
         in Inr (Some t, put_transaction t s))))"

datatype finality_status = F_confirmed | F_finalized | F_failed | F_expired | F_outcome_unknown

fun finality_tx_status :: "finality_status \<Rightarrow> tx_status" where
  "finality_tx_status F_confirmed = T_confirmed"
| "finality_tx_status F_finalized = T_finalized"
| "finality_tx_status F_failed = T_failed"
| "finality_tx_status F_expired = T_expired"
| "finality_tx_status F_outcome_unknown = T_outcome_unknown"

definition normalizeOptionalTimestamp :: "host \<Rightarrow> string \<Rightarrow> string option \<Rightarrow> cp_error + string" where
  "normalizeOptionalTimestamp h clock v = (case v of None \<Rightarrow> Inr clock
     | Some t \<Rightarrow> (case dateParse h t of None \<Rightarrow> Inl (Host_Error ''timestamp must be an ISO timestamp'')
         | Some n \<Rightarrow> Inr (toISOString h n)))"

definition rolled_batch :: "item_rollup \<Rightarrow> string \<Rightarrow> payout_batch \<Rightarrow> payout_batch" where
  "rolled_batch r updatedAt b =
     (let updates = map_from (map (\<lambda>u. (iu_payoutItemId u, iu_status u)) (ir_updatedItems r)) in
      b\<lparr>pb_status := ir_batchStatus r,
        pb_failureCode := (if ir_failureCode r = None then pb_failureCode b else ir_failureCode r),
        pb_failureMessage := (if ir_failureMessage r = None then pb_failureMessage b else ir_failureMessage r),
        pb_updatedAt := updatedAt,
        pb_items := map (\<lambda>it. it\<lparr>it_status := (case map_get updates (it_id it) of None \<Rightarrow> it_status it | Some st \<Rightarrow> st)\<rparr>)
          (pb_items b)\<rparr>)"

definition rollUpPayoutBatchFinality :: "host \<Rightarrow> string \<Rightarrow> string \<Rightarrow> store \<Rightarrow> store" where
  "rollUpPayoutBatchFinality h batchId updatedAt s = (case map_get (payoutBatchesById s) batchId of
       None \<Rightarrow> s
     | Some b \<Rightarrow> (case summarizePayoutBatchTransactionItemFinality h b (listPayoutTransactions h s batchId) of
         None \<Rightarrow> s
       | Some r \<Rightarrow> s\<lparr>payoutBatchesById := map_set batchId (rolled_batch r updatedAt b) (payoutBatchesById s)\<rparr>))"

record finality_input =
  fi_id :: string
  fi_status :: finality_status
  fi_observedAt :: "string option"
  fi_error :: "(string \<times> json) list option"
  fi_expectedStatus :: "tx_status option"

definition finality_update :: "finality_input \<Rightarrow> string \<Rightarrow> payout_transaction \<Rightarrow> payout_transaction" where
  "finality_update i observedAt t =
     t\<lparr>tx_status := finality_tx_status (fi_status i),
       tx_confirmedAt := (if fi_status i = F_confirmed then Some observedAt
          else if fi_status i = F_finalized then Some (now_or (tx_confirmedAt t) observedAt) else tx_confirmedAt t),
       tx_finalizedAt := (if fi_status i = F_finalized then Some observedAt else tx_finalizedAt t),
       tx_error := (if fi_error i = None then tx_error t else fi_error i)\<rparr>"

definition markPayoutTransactionFinality ::
  "host \<Rightarrow> string \<Rightarrow> finality_input \<Rightarrow> store \<Rightarrow> cp_error + payout_transaction option \<times> store" where
  "markPayoutTransactionFinality h clock i s = (case map_get (payoutTransactionsById s) (fi_id i) of
       None \<Rightarrow> Inr (None, s)
     | Some existing \<Rightarrow>
        if \<not> opt_all (\<lambda>st. tx_status existing = st) (fi_expectedStatus i) then Inr (None, s)
        else and_then (normalizeOptionalTimestamp h clock (fi_observedAt i)) (\<lambda>observedAt.
          let t = finality_update i observedAt existing
          in Inr (Some t, rollUpPayoutBatchFinality h (tx_payoutBatchId t) observedAt (put_transaction t s))))"

section \<open>Ledger closure\<close>

definition listFinalizedPayoutBatchesPendingLedgerClosure ::
  "host \<Rightarrow> int option \<Rightarrow> store \<Rightarrow> cp_error + payout_batch list" where
  "listFinalizedPayoutBatchesPendingLedgerClosure h limit s =
     and_then (normalizePayoutLedgerClosureLimit limit) (\<lambda>n.
     Inr (take (nat n) (sort_by (comparePayoutBatchesForReconciliation h)
       (filter (\<lambda>b. map_get (payoutLedgerTransactionsByBatchId s) (pb_id b) = None)
         (filter (\<lambda>b. pb_status b = B_finalized) (map_values (payoutBatchesById s)))))))"

text \<open>\<open>errors.join("; ")\<close>\<close>

fun join_with :: "string \<Rightarrow> string list \<Rightarrow> string" where
  "join_with sep [] = []"
| "join_with sep [x] = x"
| "join_with sep (x # y # xs) = x @ sep @ join_with sep (y # xs)"

text \<open>The verifier of finalized transfers is code of the caller: a function of the batch and its
  transactions to \<open>ok\<close> and \<open>errors\<close>.\<close>

type_synonym transfer_verifier = "payout_batch \<Rightarrow> payout_transaction list \<Rightarrow> bool \<times> string list"

definition verifyPayoutFinalizedTransfersBeforeLedgerClosure ::
  "payout_batch \<Rightarrow> payout_transaction list \<Rightarrow> transfer_verifier \<Rightarrow> cp_error + unit" where
  "verifyPayoutFinalizedTransfersBeforeLedgerClosure b ts verify =
     ensure (fst (verify b ts))
       (Batch_Invalid (''finalized payout transfer verification failed: '' @ join_with ''; '' (snd (verify b ts))))"

text \<open>The closing itself, with the batch that was read before the verifier was awaited.\<close>

definition finish_closing ::
  "host \<Rightarrow> string \<Rightarrow> string \<Rightarrow> string option \<Rightarrow> string \<Rightarrow> (nat \<Rightarrow> string) \<Rightarrow> payout_batch \<Rightarrow> store \<Rightarrow>
   cp_error + ledger_transaction \<times> store" where
  "finish_closing h clock batchId now txId newEntryId batch s =
     and_then (createPayoutFinalizationLedgerTransaction h clock batch now txId newEntryId) (\<lambda>t.
     let s' = s\<lparr>payoutLedgerTransactionsByBatchId := map_set batchId t (payoutLedgerTransactionsByBatchId s)\<rparr>
     in Inr (t, settle_accruals Paid (item_accrual_ids (filter (\<lambda>it. it_status it = I_finalized) (pb_items batch))) s'))"

definition closeFinalizedPayoutBatchLedger ::
  "host \<Rightarrow> string \<Rightarrow> transfer_verifier \<Rightarrow> string \<Rightarrow> string option \<Rightarrow> string \<Rightarrow> (nat \<Rightarrow> string) \<Rightarrow> store \<Rightarrow>
   cp_error + ledger_transaction option \<times> store" where
  "closeFinalizedPayoutBatchLedger h clock verify batchId now txId newEntryId s =
     (case map_get (payoutLedgerTransactionsByBatchId s) batchId of
        Some t \<Rightarrow> Inr (Some t, s)
      | None \<Rightarrow> (case map_get (payoutBatchesById s) batchId of
          None \<Rightarrow> Inr (None, s)
        | Some batch \<Rightarrow>
           and_then (verifyPayoutFinalizedTransfersBeforeLedgerClosure batch (listPayoutTransactions h s (pb_id batch)) verify) (\<lambda>_.
           and_then (finish_closing h clock batchId now txId newEntryId batch s) (\<lambda>(t, s'). Inr (Some t, s')))))"

section \<open>The indexes\<close>

definition sn_id :: "snapshot \<Rightarrow> string" where
  "sn_id sn = rr_id (sn_receipt sn)"

definition sn_hash :: "snapshot \<Rightarrow> string" where
  "sn_hash sn = rr_receiptHash (sn_receipt sn)"

definition sn_payment :: "snapshot \<Rightarrow> string" where
  "sn_payment sn = rc_paymentId (rr_receipt (sn_receipt sn))"

definition sn_settlement :: "snapshot \<Rightarrow> string" where
  "sn_settlement sn = rc_settlementTxSignature (rr_receipt (sn_receipt sn))"

lemmas sn_keys = sn_id_def sn_hash_def sn_payment_def sn_settlement_def

text \<open>An index is right when it names exactly the stored snapshots by their own key.\<close>

definition index_right :: "(snapshot \<Rightarrow> string) \<Rightarrow> (string, snapshot) js_map \<Rightarrow> (string, string) js_map \<Rightarrow> bool" where
  "index_right key rs ix \<longleftrightarrow>
     (\<forall>sn. map_get rs (sn_id sn) = Some sn \<longrightarrow> map_get ix (key sn) = Some (sn_id sn)) \<and>
     (\<forall>k i. map_get ix k = Some i \<longrightarrow> (\<exists>sn. map_get rs i = Some sn \<and> key sn = k))"

definition store_ok :: "store \<Rightarrow> bool" where
  "store_ok s \<longleftrightarrow> map_ok (receiptsById s) \<and>
     (\<forall>k sn. map_get (receiptsById s) k = Some sn \<longrightarrow> sn_id sn = k) \<and>
     index_right sn_hash (receiptsById s) (receiptIdByHash s) \<and>
     index_right sn_payment (receiptsById s) (receiptIdByPaymentId s) \<and>
     index_right sn_settlement (receiptsById s) (receiptIdBySettlementTx s)"

lemma empty_store_ok [simp]: "store_ok empty_store"
  by (simp add: store_ok_def empty_store_def index_right_def)

text \<open>A snapshot fits a key when nothing is stored under it, or the same receipt is.\<close>

definition fits :: "(snapshot \<Rightarrow> string) \<Rightarrow> snapshot \<Rightarrow> (string, snapshot) js_map \<Rightarrow> (string, string) js_map \<Rightarrow> bool" where
  "fits key sn rs ix \<longleftrightarrow> map_get ix (key sn) \<in> {None, Some (sn_id sn)} \<and>
     (\<forall>old. map_get rs (sn_id sn) = Some old \<longrightarrow> key old = key sn)"

lemma index_right_save:
  assumes "index_right key rs ix" "fits key sn rs ix" "\<forall>k sn. map_get rs k = Some sn \<longrightarrow> sn_id sn = k"
  shows "index_right key (map_set (sn_id sn) sn rs) (map_set (key sn) (sn_id sn) ix)"
  unfolding index_right_def
proof (intro conjI allI impI)
  fix sn' assume get: "map_get (map_set (sn_id sn) sn rs) (sn_id sn') = Some sn'"
  show "map_get (map_set (key sn) (sn_id sn) ix) (key sn') = Some (sn_id sn')"
  proof (cases "sn_id sn' = sn_id sn")
    case True
    then show ?thesis using get by simp
  next
    case False
    then have "map_get ix (key sn') = Some (sn_id sn')" using get assms(1) by (simp add: index_right_def)
    moreover have "key sn' \<noteq> key sn" using calculation assms(2) False by (auto simp: fits_def)
    ultimately show ?thesis by simp
  qed
next
  fix k i assume "map_get (map_set (key sn) (sn_id sn) ix) k = Some i"
  then consider "k = key sn" "i = sn_id sn" | "k \<noteq> key sn" "map_get ix k = Some i" by (auto split: if_splits)
  then show "\<exists>sn'. map_get (map_set (sn_id sn) sn rs) i = Some sn' \<and> key sn' = k"
  proof cases
    case 2
    then obtain sn' where sn': "map_get rs i = Some sn'" "key sn' = k"
      using assms(1) unfolding index_right_def by blast
    then have "i \<noteq> sn_id sn" using assms(2) 2(1) by (auto simp: fits_def)
    then show ?thesis using sn' by simp
  qed simp
qed

definition fits_all :: "snapshot \<Rightarrow> store \<Rightarrow> bool" where
  "fits_all sn s \<longleftrightarrow> fits sn_hash sn (receiptsById s) (receiptIdByHash s) \<and>
     fits sn_payment sn (receiptsById s) (receiptIdByPaymentId s) \<and>
     fits sn_settlement sn (receiptsById s) (receiptIdBySettlementTx s)"

lemma save_maps:
  "receiptsById (save sn s) = map_set (sn_id sn) sn (receiptsById s)"
  "receiptIdByHash (save sn s) = map_set (sn_hash sn) (sn_id sn) (receiptIdByHash s)"
  "receiptIdByPaymentId (save sn s) = map_set (sn_payment sn) (sn_id sn) (receiptIdByPaymentId s)"
  "receiptIdBySettlementTx (save sn s) = map_set (sn_settlement sn) (sn_id sn) (receiptIdBySettlementTx s)"
  "payoutBatchesById (save sn s) = payoutBatchesById s"
  "payoutTransactionsById (save sn s) = payoutTransactionsById s"
  "payoutLedgerTransactionsByBatchId (save sn s) = payoutLedgerTransactionsByBatchId s"
  by (simp_all add: save_def sn_keys Let_def)

lemma get_save: "getByReceiptId (save sn s) k = (if k = sn_id sn then Some sn else getByReceiptId s k)"
  by (simp add: getByReceiptId_def save_maps)

lemma save_ok: "store_ok s \<Longrightarrow> fits_all sn s \<Longrightarrow> store_ok (save sn s)"
  by (auto simp: store_ok_def fits_all_def save_maps jm.ok_put index_right_save)

lemma store_ok_id: "store_ok s \<Longrightarrow> getByReceiptId s k = Some sn \<Longrightarrow> sn_id sn = k"
  by (simp add: store_ok_def getByReceiptId_def)

text \<open>Saving a new version of a stored receipt fits.\<close>

definition same_keys :: "snapshot \<Rightarrow> snapshot \<Rightarrow> bool" where
  "same_keys a b \<longleftrightarrow> sn_id a = sn_id b \<and> sn_hash a = sn_hash b \<and> sn_payment a = sn_payment b \<and>
     sn_settlement a = sn_settlement b"

lemma fits_resave:
  "index_right key rs ix \<Longrightarrow> map_get rs (sn_id old) = Some old \<Longrightarrow> sn_id sn = sn_id old \<Longrightarrow> key sn = key old \<Longrightarrow>
   fits key sn rs ix"
  by (auto simp: index_right_def fits_def)

lemma resave_ok:
  assumes "store_ok s" "getByReceiptId s (sn_id old) = Some old" "same_keys old sn"
  shows "store_ok (save sn s)"
proof (rule save_ok [OF assms(1)])
  have get: "map_get (receiptsById s) (sn_id old) = Some old" using assms(2) by (simp add: getByReceiptId_def)
  note k = assms(3) [unfolded same_keys_def] and ix = assms(1) [unfolded store_ok_def]
  show "fits_all sn s" unfolding fits_all_def
    using fits_resave [OF _ get, of sn_hash] fits_resave [OF _ get, of sn_payment]
      fits_resave [OF _ get, of sn_settlement] k ix by simp
qed

lemma values_id:
  assumes "store_ok s"
  shows "sn \<in> set (map_values (receiptsById s)) \<longleftrightarrow> getByReceiptId s (sn_id sn) = Some sn"
    and "distinct (map sn_id (map_values (receiptsById s)))"
proof -
  have ok: "map_ok (receiptsById s)" and id: "\<And>k sn. map_get (receiptsById s) k = Some sn \<Longrightarrow> sn_id sn = k"
    using assms by (auto simp: store_ok_def)
  show "sn \<in> set (map_values (receiptsById s)) \<longleftrightarrow> getByReceiptId s (sn_id sn) = Some sn"
    using jm.vals_get [OF ok, of sn] id by (metis getByReceiptId_def)
  have "(k, sn) \<in> set (receiptsById s) \<Longrightarrow> sn_id sn = k" for k sn
    using ok id [of k sn] by (simp add: map_ok_def map_get_def)
  then have "map sn_id (map_values (receiptsById s)) = map fst (receiptsById s)" by (auto simp: map_values_def)
  then show "distinct (map sn_id (map_values (receiptsById s)))" using ok by (simp add: map_ok_def)
qed

text \<open>A loop that saves, for some of the snapshots it visits, a new version.\<close>

lemma fold_resave:
  fixes P :: "snapshot \<Rightarrow> bool" and g :: "snapshot \<Rightarrow> snapshot"
  assumes "store_ok s" "distinct (map sn_id xs)" "\<forall>sn \<in> set xs. getByReceiptId s (sn_id sn) = Some sn"
    and "\<And>sn. same_keys sn (g sn)"
  defines "s' \<equiv> fold (\<lambda>sn t. if P sn then save (g sn) t else t) xs s"
  shows "store_ok s'"
    and "getByReceiptId s' k = map_option (\<lambda>sn. if sn \<in> set xs \<and> P sn then g sn else sn) (getByReceiptId s k)"
    and "payoutBatchesById s' = payoutBatchesById s" and "payoutTransactionsById s' = payoutTransactionsById s"
    and "payoutLedgerTransactionsByBatchId s' = payoutLedgerTransactionsByBatchId s"
proof -
  have "store_ok s' \<and>
    (\<forall>k. getByReceiptId s' k = map_option (\<lambda>sn. if sn \<in> set xs \<and> P sn then g sn else sn) (getByReceiptId s k)) \<and>
    payoutBatchesById s' = payoutBatchesById s \<and> payoutTransactionsById s' = payoutTransactionsById s \<and>
    payoutLedgerTransactionsByBatchId s' = payoutLedgerTransactionsByBatchId s"
    using assms(1-3) unfolding s'_def
  proof (induction xs arbitrary: s)
    case Nil
    then show ?case by (simp add: option.map_id0 [unfolded id_def])
  next
    case (Cons x xs)
    define s1 where "s1 = (if P x then save (g x) s else s)"
    have gx: "sn_id (g x) = sn_id x" using assms(4) [of x] by (simp add: same_keys_def)
    have ok1: "store_ok s1" using resave_ok [OF Cons.prems(1) _ assms(4)] Cons.prems(1,3) by (simp add: s1_def)
    have get1: "getByReceiptId s1 k = (if P x \<and> k = sn_id x then Some (g x) else getByReceiptId s k)" for k
      by (simp add: s1_def get_save gx)
    have ids: "\<And>sn. sn \<in> set xs \<Longrightarrow> sn_id sn \<noteq> sn_id x" using Cons.prems(2) by (auto simp: image_iff)
    have get_xs: "\<forall>sn \<in> set xs. getByReceiptId s1 (sn_id sn) = Some sn"
      using Cons.prems(3) ids by (auto simp: get1)
    note IH = Cons.IH [OF ok1 _ get_xs]
    have "getByReceiptId (fold (\<lambda>sn t. if P sn then save (g sn) t else t) (x # xs) s) k =
        map_option (\<lambda>sn. if sn \<in> set (x # xs) \<and> P sn then g sn else sn) (getByReceiptId s k)" for k
    proof -
      have "getByReceiptId (fold (\<lambda>sn t. if P sn then save (g sn) t else t) (x # xs) s) k =
          map_option (\<lambda>sn. if sn \<in> set xs \<and> P sn then g sn else sn) (getByReceiptId s1 k)"
        using IH Cons.prems(2) by (simp add: s1_def)
      also have "\<dots> = map_option (\<lambda>sn. if sn \<in> set (x # xs) \<and> P sn then g sn else sn) (getByReceiptId s k)"
      proof (cases "k = sn_id x")
        case True
        have "getByReceiptId s k = Some x" using Cons.prems(3) True by simp
        moreover have "g x \<notin> set xs" using ids [of "g x"] gx by auto
        moreover have "x \<notin> set xs" using ids by auto
        ultimately show ?thesis using True by (simp add: get1)
      next
        case False
        then show ?thesis using store_ok_id [OF Cons.prems(1)] by (cases "getByReceiptId s k") (auto simp: get1)
      qed
      finally show ?thesis .
    qed
    moreover have "payoutBatchesById s1 = payoutBatchesById s" "payoutTransactionsById s1 = payoutTransactionsById s"
      "payoutLedgerTransactionsByBatchId s1 = payoutLedgerTransactionsByBatchId s" by (simp_all add: s1_def save_maps)
    ultimately show ?case using IH Cons.prems(2) by (simp add: s1_def)
  qed
  then show "store_ok s'"
    and "getByReceiptId s' k = map_option (\<lambda>sn. if sn \<in> set xs \<and> P sn then g sn else sn) (getByReceiptId s k)"
    and "payoutBatchesById s' = payoutBatchesById s" and "payoutTransactionsById s' = payoutTransactionsById s"
    and "payoutLedgerTransactionsByBatchId s' = payoutLedgerTransactionsByBatchId s" by blast+
qed

section \<open>What each operation does to the receipts\<close>

text \<open>The receipts of a store, changed pointwise.\<close>

definition receipts_become :: "(snapshot \<Rightarrow> snapshot) \<Rightarrow> store \<Rightarrow> store \<Rightarrow> bool" where
  "receipts_become f s s' \<longleftrightarrow> store_ok s' \<and> (\<forall>k. getByReceiptId s' k = map_option f (getByReceiptId s k))"

definition same_payouts :: "store \<Rightarrow> store \<Rightarrow> bool" where
  "same_payouts s s' \<longleftrightarrow> payoutBatchesById s' = payoutBatchesById s \<and>
     payoutTransactionsById s' = payoutTransactionsById s \<and>
     payoutLedgerTransactionsByBatchId s' = payoutLedgerTransactionsByBatchId s"

definition takes :: "string list \<Rightarrow> snapshot \<Rightarrow> bool" where
  "takes ids sn \<longleftrightarrow> (\<exists>a. sn_accrual sn = Some a \<and> ac_id a \<in> set ids)"

definition has_status :: "accrual_status \<Rightarrow> snapshot \<Rightarrow> bool" where
  "has_status st sn \<longleftrightarrow> (\<exists>a. sn_accrual sn = Some a \<and> ac_status a = st)"

text \<open>The snapshot with its accrual moved on, when it is among \<open>ids\<close> and has the status \<open>from\<close>.\<close>

definition moved :: "accrual_status \<Rightarrow> accrual_status \<Rightarrow> string list \<Rightarrow> snapshot \<Rightarrow> snapshot" where
  "moved old new ids sn = (if takes ids sn \<and> has_status old sn then with_accrual_status new sn else sn)"

lemma same_keys_status [simp]: "same_keys sn (with_accrual_status st sn)"
  by (simp add: same_keys_def sn_keys with_accrual_status_def)

lemma resave_some:
  assumes "store_ok s" "set xs \<subseteq> set (map_values (receiptsById s))" "distinct (map sn_id xs)"
    and "\<And>sn. same_keys sn (g sn)"
  shows "receipts_become (\<lambda>sn. if sn \<in> set xs \<and> P sn then g sn else sn) s
      (fold (\<lambda>sn t. if P sn then save (g sn) t else t) xs s) \<and>
    same_payouts s (fold (\<lambda>sn t. if P sn then save (g sn) t else t) xs s)"
proof -
  have "\<forall>sn \<in> set xs. getByReceiptId s (sn_id sn) = Some sn" using assms(2) values_id(1) [OF assms(1)] by blast
  note F = fold_resave [OF assms(1) assms(3) this assms(4)]
  show ?thesis unfolding receipts_become_def same_payouts_def using F by blast
qed

lemma receipts_become_cong:
  assumes "receipts_become f s s'" "\<And>k sn. getByReceiptId s k = Some sn \<Longrightarrow> f sn = g sn"
  shows "receipts_become g s s'"
  unfolding receipts_become_def
proof (intro conjI allI)
  fix k show "getByReceiptId s' k = map_option g (getByReceiptId s k)"
    using assms by (cases "getByReceiptId s k") (simp_all add: receipts_become_def)
qed (use assms in \<open>simp add: receipts_become_def\<close>)

lemma settle_accruals_become:
  assumes "store_ok s"
  shows "receipts_become (moved Allocated st ids) s (settle_accruals st ids s) \<and> same_payouts s (settle_accruals st ids s)"
proof -
  have step: "settle_step st ids = (\<lambda>sn t. if takes ids sn \<and> has_status Allocated sn
      then save (with_accrual_status st sn) t else t)"
    by (auto simp: settle_step_def takes_def has_status_def fun_eq_iff split: option.splits)
  let ?vs = "map_values (receiptsById s)"
  have R: "receipts_become (\<lambda>sn. if sn \<in> set ?vs \<and> takes ids sn \<and> has_status Allocated sn
      then with_accrual_status st sn else sn) s (settle_accruals st ids s)"
    "same_payouts s (settle_accruals st ids s)"
    unfolding settle_accruals_def step
    using resave_some [OF assms subset_refl values_id(2) [OF assms], where P = "\<lambda>sn. takes ids sn \<and> has_status Allocated sn"
      and g = "with_accrual_status st"] by simp_all
  have mem: "getByReceiptId s k = Some sn \<Longrightarrow> sn \<in> set ?vs" for k sn
    using store_ok_id [OF assms] values_id(1) [OF assms] by blast
  show ?thesis using receipts_become_cong [OF R(1), of "moved Allocated st ids"] R(2) mem by (simp add: moved_def)
qed

lemma collect_result:
  "fold_err (collect_step ids) xs acc = Inr ys \<Longrightarrow>
   ys = acc @ filter (takes ids) xs \<and> (\<forall>sn \<in> set xs. takes ids sn \<longrightarrow> has_status Available sn)"
proof (induction xs arbitrary: acc)
  case (Cons x xs)
  then obtain acc1 where x: "collect_step ids x acc = Inr acc1" and rest: "fold_err (collect_step ids) xs acc1 = Inr ys"
    by (auto simp: and_then_Inr)
  have "acc1 = acc @ filter (takes ids) [x] \<and> (takes ids x \<longrightarrow> has_status Available x)"
    using x by (auto simp: collect_step_def takes_def has_status_def split: option.splits if_splits)
  then show ?case using Cons.IH [OF rest] by auto
qed simp

lemma createPayoutBatch_facts:
  assumes "createPayoutBatch h clock newBatchId newItemId i s = Inr (b, s')" "store_ok s"
  defines "ids \<equiv> item_accrual_ids (pb_items b)"
  shows "createPayoutBatchPlan h clock newBatchId newItemId i = Inr b"
    and "receipts_become (moved Available Allocated ids) s s'"
    and "\<forall>k sn. getByReceiptId s k = Some sn \<longrightarrow> takes ids sn \<longrightarrow> has_status Available sn"
    and "length (filter (takes ids) (map_values (receiptsById s))) = card (set ids)"
    and "payoutBatchesById s' = map_set (pb_id b) b (payoutBatchesById s)"
    and "payoutTransactionsById s' = payoutTransactionsById s"
    and "payoutLedgerTransactionsByBatchId s' = payoutLedgerTransactionsByBatchId s"
proof -
  let ?vs = "map_values (receiptsById s)"
  from assms(1) obtain ys where plan: "createPayoutBatchPlan h clock newBatchId newItemId i = Inr b"
    and ys: "fold_err (collect_step (remdups ids)) ?vs [] = Inr ys" and len: "length ys = length (remdups ids)"
    and s': "s' = fold (\<lambda>sn. save (with_accrual_status Allocated sn)) ys s\<lparr>payoutBatchesById :=
        map_set (pb_id b) b (payoutBatchesById (fold (\<lambda>sn. save (with_accrual_status Allocated sn)) ys s))\<rparr>"
    unfolding createPayoutBatch_def and_then_Inr Let_def ids_def by (auto simp: and_then_Inr split: if_splits)
  have takes_eq: "takes (remdups ids) = takes ids" by (simp add: takes_def fun_eq_iff)
  have ys_eq: "ys = filter (takes ids) ?vs" and avail: "\<forall>sn \<in> set ?vs. takes ids sn \<longrightarrow> has_status Available sn"
    using collect_result [OF ys] by (simp_all add: takes_eq)
  have sub: "set ys \<subseteq> set ?vs" "distinct (map sn_id ys)"
    using values_id(2) [OF assms(2)] by (auto simp: ys_eq distinct_map_filter)
  define t where "t = fold (\<lambda>sn. save (with_accrual_status Allocated sn)) ys s"
  have R: "receipts_become (\<lambda>sn. if sn \<in> set ys then with_accrual_status Allocated sn else sn) s t" "same_payouts s t"
    using resave_some [where P = "\<lambda>_. True" and g = "with_accrual_status Allocated", OF assms(2) sub same_keys_status]
    by (simp_all add: t_def)
  have mem: "getByReceiptId s k = Some sn \<Longrightarrow> sn \<in> set ?vs" for k sn
    using store_ok_id [OF assms(2)] values_id(1) [OF assms(2)] by blast
  have "receipts_become (moved Available Allocated ids) s t"
    using receipts_become_cong [OF R(1), of "moved Available Allocated ids"] mem avail by (auto simp: ys_eq moved_def)
  then show "receipts_become (moved Available Allocated ids) s s'"
    unfolding s' t_def [symmetric] by (simp add: receipts_become_def store_ok_def getByReceiptId_def)
  show "createPayoutBatchPlan h clock newBatchId newItemId i = Inr b" by (rule plan)
  show "\<forall>k sn. getByReceiptId s k = Some sn \<longrightarrow> takes ids sn \<longrightarrow> has_status Available sn" using mem avail by blast
  show "length (filter (takes ids) ?vs) = card (set ids)" using len by (simp add: ys_eq length_remdups_card_conv)
  show "payoutBatchesById s' = map_set (pb_id b) b (payoutBatchesById s)"
    "payoutTransactionsById s' = payoutTransactionsById s"
    "payoutLedgerTransactionsByBatchId s' = payoutLedgerTransactionsByBatchId s"
    using R(2) unfolding s' t_def [symmetric] by (simp_all add: same_payouts_def)
qed

lemma releasePayoutBatchAllocationsForBatch_facts:
  assumes "releasePayoutBatchAllocationsForBatch h clock b reason now override allow = Inr r"
  shows "(isPayoutBatchAllocationReleaseAllowed (pb_status b) \<or> pb_status b = B_outcome_unknown \<and> allow) \<and>
    pb_id r = pb_id b \<and> pb_status r = B_cancelled \<and> pb_totalAmountAtomic r = pb_totalAmountAtomic b \<and>
    pb_items r = map (\<lambda>it. it\<lparr>it_status := I_released\<rparr>) (pb_items b)"
  using assms by (auto simp: releasePayoutBatchAllocationsForBatch_def and_then_Inr split: if_splits)

lemma item_accrual_ids_status: "item_accrual_ids (map (\<lambda>it. it\<lparr>it_status := st it\<rparr>) items) = item_accrual_ids items"
  by (simp add: item_accrual_ids_def comp_def)

lemma receipts_become_compose:
  "receipts_become f (s\<lparr>payoutBatchesById := m\<rparr>) s' \<Longrightarrow> receipts_become f s s'"
  "receipts_become f (s\<lparr>payoutLedgerTransactionsByBatchId := m'\<rparr>) s' \<Longrightarrow> receipts_become f s s'"
  by (simp_all add: receipts_become_def getByReceiptId_def)

lemma store_ok_payouts [simp]:
  "store_ok (s\<lparr>payoutBatchesById := m\<rparr>) = store_ok s"
  "store_ok (s\<lparr>payoutLedgerTransactionsByBatchId := m'\<rparr>) = store_ok s"
  "store_ok (s\<lparr>payoutTransactionsById := m''\<rparr>) = store_ok s"
  by (simp_all add: store_ok_def)

lemma release_facts:
  assumes "releasePayoutBatchAllocations h clock i s = Inr (Some r, s')" "store_ok s"
  shows "\<exists>b. map_get (payoutBatchesById s) (re_payoutBatchId i) = Some b \<and>
    (let ts = listPayoutTransactions h s (pb_id b) in
      (isPayoutBatchAllocationReleaseAllowed (pb_status b) \<or>
         pb_status b = B_outcome_unknown \<and> isOutcomeUnknownPayoutBatchReleaseProven ts (re_chainChecks i)) \<and>
      assertPayoutBatchAllocationsReleasable ts (re_chainChecks i) (re_override i) = Inr ()) \<and>
    pb_id r = pb_id b \<and> pb_status r = B_cancelled \<and> pb_totalAmountAtomic r = pb_totalAmountAtomic b \<and>
    pb_items r = map (\<lambda>it. it\<lparr>it_status := I_released\<rparr>) (pb_items b) \<and>
    receipts_become (moved Allocated Available (item_accrual_ids (pb_items b))) s s' \<and>
    payoutBatchesById s' = map_set (pb_id b) r (payoutBatchesById s) \<and>
    payoutTransactionsById s' = payoutTransactionsById s \<and>
    payoutLedgerTransactionsByBatchId s' = payoutLedgerTransactionsByBatchId s"
proof -
  obtain b where b: "map_get (payoutBatchesById s) (re_payoutBatchId i) = Some b"
    using assms(1) by (auto simp: releasePayoutBatchAllocations_def split: option.splits)
  let ?ts = "listPayoutTransactions h s (pb_id b)"
  let ?allow = "pb_status b = B_outcome_unknown \<and> isOutcomeUnknownPayoutBatchReleaseProven ?ts (re_chainChecks i)"
  have R: "releasePayoutBatchAllocationsForBatch h clock b (re_reason i) (re_now i) (re_override i) ?allow = Inr r"
    "assertPayoutBatchAllocationsReleasable ?ts (re_chainChecks i) (re_override i) = Inr ()"
    "s' = settle_accruals Available (item_accrual_ids (pb_items r))
      (s\<lparr>payoutBatchesById := map_set (pb_id r) r (payoutBatchesById s)\<rparr>)"
    using assms(1) by (auto simp: releasePayoutBatchAllocations_def b Let_def and_then_Inr)
  note F = releasePayoutBatchAllocationsForBatch_facts [OF R(1)]
  have ids: "item_accrual_ids (pb_items r) = item_accrual_ids (pb_items b)" using F by (simp add: item_accrual_ids_status)
  have "store_ok (s\<lparr>payoutBatchesById := map_set (pb_id r) r (payoutBatchesById s)\<rparr>)" using assms(2) by simp
  note S = settle_accruals_become [OF this, of Available "item_accrual_ids (pb_items r)", folded R(3), unfolded ids]
  show ?thesis
    using b R(2) F receipts_become_compose(1) [OF S [THEN conjunct1]] S by (auto simp: Let_def same_payouts_def)
qed

lemma closing_facts:
  assumes "finish_closing h clock batchId now txId newEntryId b s = Inr (t, s')" "store_ok s"
  shows "createPayoutFinalizationLedgerTransaction h clock b now txId newEntryId = Inr t \<and>
    receipts_become (moved Allocated Paid (item_accrual_ids (pb_items b))) s s' \<and>
    payoutBatchesById s' = payoutBatchesById s \<and> payoutTransactionsById s' = payoutTransactionsById s \<and>
    payoutLedgerTransactionsByBatchId s' = map_set batchId t (payoutLedgerTransactionsByBatchId s)"
proof -
  let ?ids = "item_accrual_ids (filter (\<lambda>it. it_status it = I_finalized) (pb_items b))"
  from assms(1) have t: "createPayoutFinalizationLedgerTransaction h clock b now txId newEntryId = Inr t"
    and s': "s' = settle_accruals Paid ?ids (s\<lparr>payoutLedgerTransactionsByBatchId := map_set batchId t (payoutLedgerTransactionsByBatchId s)\<rparr>)"
    by (auto simp: finish_closing_def and_then_Inr Let_def)
  have "\<not> list_ex (\<lambda>it. it_status it \<noteq> I_finalized) (pb_items b)"
    using t by (auto simp: createPayoutFinalizationLedgerTransaction_def split: if_splits)
  then have "filter (\<lambda>it. it_status it = I_finalized) (pb_items b) = pb_items b" by (auto simp: list_ex_iff filter_id_conv)
  then have s'': "s' = settle_accruals Paid (item_accrual_ids (pb_items b))
      (s\<lparr>payoutLedgerTransactionsByBatchId := map_set batchId t (payoutLedgerTransactionsByBatchId s)\<rparr>)"
    unfolding s' by (simp only:)
  have "store_ok (s\<lparr>payoutLedgerTransactionsByBatchId := map_set batchId t (payoutLedgerTransactionsByBatchId s)\<rparr>)"
    using assms(2) by simp
  note S = settle_accruals_become [OF this, of Paid "item_accrual_ids (pb_items b)", folded s'']
  show ?thesis using t receipts_become_compose(2) [OF S [THEN conjunct1]] S by (simp add: same_payouts_def)
qed

lemma resave_one:
  assumes "store_ok s" "\<And>sn. same_keys sn (f sn)"
  shows "receipts_become (\<lambda>sn. if sn_id sn = i then f sn else sn) s
      (case getByReceiptId s i of None \<Rightarrow> s | Some sn \<Rightarrow> save (f sn) s)"
    and "same_payouts s (case getByReceiptId s i of None \<Rightarrow> s | Some sn \<Rightarrow> save (f sn) s)"
proof -
  let ?t = "case getByReceiptId s i of None \<Rightarrow> s | Some sn \<Rightarrow> save (f sn) s"
  have "getByReceiptId ?t k = map_option (\<lambda>sn. if sn_id sn = i then f sn else sn) (getByReceiptId s k)" for k
  proof (cases "getByReceiptId s k")
    case None
    then show ?thesis using store_ok_id [OF assms(1), of i] assms(2)
      by (cases "getByReceiptId s i") (auto simp: get_save same_keys_def)
  next
    case (Some sn)
    then have id: "sn_id sn = k" using store_ok_id [OF assms(1)] by simp
    show ?thesis
    proof (cases "k = i")
      case True
      then show ?thesis using Some id assms(2) [of sn] by (simp add: get_save same_keys_def)
    next
      case False
      have "sn_id (f sn') = i" if "getByReceiptId s i = Some sn'" for sn'
        using store_ok_id [OF assms(1) that] assms(2) [of sn'] by (simp add: same_keys_def)
      then show ?thesis using Some False id by (cases "getByReceiptId s i") (simp_all add: get_save)
    qed
  qed
  moreover have "store_ok ?t"
    using assms(1) resave_ok [OF assms(1) _ assms(2)] store_ok_id [OF assms(1)] by (cases "getByReceiptId s i") auto
  ultimately show "receipts_become (\<lambda>sn. if sn_id sn = i then f sn else sn) s ?t"
    unfolding receipts_become_def by blast
  show "same_payouts s ?t" by (cases "getByReceiptId s i") (simp_all add: same_payouts_def save_maps)
qed

lemma mark_verified_become:
  assumes "markReceiptChainVerified i at' s = (v, s')" "store_ok s"
  shows "receipts_become (\<lambda>sn. if sn_id sn = i then verified_snapshot at' sn else sn) s s' \<and> same_payouts s s'"
proof -
  have keys: "same_keys sn (verified_snapshot at' sn)" for sn by (simp add: same_keys_def sn_keys verified_snapshot_def)
  have "s' = (case getByReceiptId s i of None \<Rightarrow> s | Some sn \<Rightarrow> save (verified_snapshot at' sn) s)"
    using assms(1) by (simp add: markReceiptChainVerified_def Let_def split: option.splits)
  then show ?thesis using resave_one [OF assms(2) keys, of i] by simp
qed

lemma mark_rejected_become:
  assumes "markReceiptChainRejected i reason s = (v, s')" "store_ok s"
  shows "receipts_become (\<lambda>sn. if sn_id sn = i then rejected_snapshot reason sn else sn) s s' \<and> same_payouts s s'"
proof -
  have keys: "same_keys sn (rejected_snapshot reason sn)" for sn by (simp add: same_keys_def sn_keys rejected_snapshot_def)
  have "s' = (case getByReceiptId s i of None \<Rightarrow> s | Some sn \<Rightarrow> save (rejected_snapshot reason sn) s)"
    using assms(1) by (simp add: markReceiptChainRejected_def Let_def split: option.splits)
  then show ?thesis using resave_one [OF assms(2) keys, of i] by simp
qed

end
