(* ===== verification/Ingestion.thy ===== *)
theory Ingestion
  imports Receipt_Store Signing
begin

text \<open>
  \<^verbatim>\<open>packages/control-plane/src/index.ts\<close>, \<open>ReceiptIngestor\<close>: the admission of a receipt (schema,
  duplicate, conflict, merchant key, signature and arithmetic, campaign policy), the accrual and the
  ledger transaction it books, and the answer. The store is an argument, the four lookups and the
  save of the interface \<open>ReceiptIngestionStore\<close>; a save may fail and leaves the store as it then is,
  with what concurrent writers did. The laws an ingestor relies on are the locale below, interpreted on
  the in-memory store. The merchant key resolver, the policy verifier, the clock and the id factory
  are members of the environment, as are SHA-256, Ed25519 and the issue texts of the schema library.
\<close>

section \<open>Definitions\<close>

record 's receipt_store =
  op_getByReceiptId :: "'s \<Rightarrow> string \<Rightarrow> snapshot option"
  op_getByReceiptHash :: "'s \<Rightarrow> string \<Rightarrow> snapshot option"
  op_getByPaymentId :: "'s \<Rightarrow> string \<Rightarrow> snapshot option"
  op_getBySettlementTxSignature :: "'s \<Rightarrow> string \<Rightarrow> snapshot option"
  op_save :: "snapshot \<Rightarrow> 's \<Rightarrow> cp_error option \<times> 's"

definition in_memory :: "store receipt_store" where
  "in_memory = \<lparr>op_getByReceiptId = getByReceiptId, op_getByReceiptHash = getByReceiptHash,
     op_getByPaymentId = getByPaymentId, op_getBySettlementTxSignature = getBySettlementTxSignature,
     op_save = (\<lambda>sn s. (None, save sn s))\<rparr>"

datatype conflict_field = On_receiptId | On_paymentId | On_settlementTxSignature

datatype ingest_result =
  Created snapshot
  | Duplicate snapshot
  | Conflict conflict_field string string
  | Not_admitted "string list"

record ingest_env =
  ie_sha256 :: "bytes \<Rightarrow> bytes"
  ie_ed :: ed25519
  ie_zod :: zod
  ie_issues :: "receipt \<Rightarrow> string list"
  ie_resolveMerchantPublicKey :: "receipt \<Rightarrow> string option"
  ie_policyVerifier :: "(receipt \<Rightarrow> verification_result) option"
  ie_now :: string
  ie_idFactory :: "(nat \<Rightarrow> string \<Rightarrow> string) option"

definition findConflict :: "'s receipt_store \<Rightarrow> receipt \<Rightarrow> string \<Rightarrow> 's \<Rightarrow> ingest_result option" where
  "findConflict ops r receiptHash s =
     (case op_getByReceiptId ops s (rc_receiptId r) of
        Some e \<Rightarrow> Some (Conflict On_receiptId (rr_id (sn_receipt e)) receiptHash)
      | None \<Rightarrow> (case op_getByPaymentId ops s (rc_paymentId r) of
        Some e \<Rightarrow> Some (Conflict On_paymentId (rr_id (sn_receipt e)) receiptHash)
      | None \<Rightarrow> (case op_getBySettlementTxSignature ops s (rc_settlementTxSignature r) of
        Some e \<Rightarrow> Some (Conflict On_settlementTxSignature (rr_id (sn_receipt e)) receiptHash)
      | None \<Rightarrow> None)))"

text \<open>\<open>n\<close> is the number of ids drawn before; without a factory the id is a digest of the purpose and
  the receipt. The counter branch of the code is never reached: every call names a receipt.\<close>

definition nextId :: "ingest_env \<Rightarrow> nat \<Rightarrow> string \<Rightarrow> string \<Rightarrow> string \<Rightarrow> string" where
  "nextId env n prefix receiptId purpose = (case ie_idFactory env of
       Some f \<Rightarrow> f n prefix
     | None \<Rightarrow> prefix @ ''_'' @ take 32 (bytesToHex (ie_sha256 env
         (utf8Bytes (prefix @ '':'' @ purpose @ '':'' @ receiptId)))))"

definition createAccrual :: "ingest_env \<Rightarrow> receipt \<Rightarrow> string \<Rightarrow> cp_error + accrual option" where
  "createAccrual env r createdAt = (case (rc_routeId r, rc_referrerWallet r, rc_payoutWallet r) of
       (Some routeId, Some referrerWallet, Some payoutWallet) \<Rightarrow>
         and_then (bigint_of (rc_referrerCreditAtomic r)) (\<lambda>credit.
         if credit \<le> 0 then Inr None
         else Inr (Some \<lparr>ac_id = nextId env 0 ''acr'' (rc_receiptId r) ''accrual'',
           ac_receiptId = rc_receiptId r, ac_merchantId = rc_merchantId r, ac_campaignId = rc_campaignId r,
           ac_routeId = routeId, ac_referrerWallet = referrerWallet, ac_payoutWallet = payoutWallet,
           ac_asset = rc_asset r, ac_amountAtomic = rc_referrerCreditAtomic r,
           ac_status = Pending_chain_verification, ac_availableAt = None, ac_createdAt = createdAt\<rparr>))
     | _ \<Rightarrow> Inr None)"

definition negateAtomic :: "string \<Rightarrow> cp_error + string" where
  "negateAtomic v = and_then (bigint_of v) (\<lambda>n. Inr (if n = 0 then ''0'' else CHR ''-'' # show_int n))"

definition assertLedgerBalances :: "ledger_entry list \<Rightarrow> cp_error + unit" where
  "assertLedgerBalances es = and_then (asset_totals es) (\<lambda>m.
     let unbalanced = filter (\<lambda>(_, n). n \<noteq> 0) m
     in ensure (unbalanced = []) (Host_Error (''ledger transaction is not balanced: '' @
          join_with '', '' (map (\<lambda>(asset, n). asset @ ''='' @ show_int n) unbalanced))))"

definition createLedgerTransaction ::
  "ingest_env \<Rightarrow> receipt \<Rightarrow> accrual \<Rightarrow> string \<Rightarrow> cp_error + ledger_transaction" where
  "createLedgerTransaction env r a createdAt =
     (let transactionId = nextId env 1 ''ldg'' (rc_receiptId r) ''commission_accrual'' in
      and_then (negateAtomic (rc_commissionAmountAtomic r)) (\<lambda>debit.
      let entries = [
        \<lparr>le_id = nextId env 2 ''lde'' (rc_receiptId r) ''merchant_commission_liability'', le_transactionId = transactionId,
         le_accountType = Merchant_commission_liability, le_accountReference = rc_merchantId r,
         le_asset = rc_asset r, le_amountAtomic = debit\<rparr>,
        \<lparr>le_id = nextId env 3 ''lde'' (rc_receiptId r) ''referrer_payable'', le_transactionId = transactionId,
         le_accountType = Referrer_payable, le_accountReference = ac_payoutWallet a,
         le_asset = rc_asset r, le_amountAtomic = rc_referrerCreditAtomic r\<rparr>,
        \<lparr>le_id = nextId env 4 ''lde'' (rc_receiptId r) ''protocol_fee_payable'', le_transactionId = transactionId,
         le_accountType = Protocol_fee_payable, le_accountReference = ''split402'',
         le_asset = rc_asset r, le_amountAtomic = rc_protocolFeeAtomic r\<rparr>]
      in and_then (assertLedgerBalances entries) (\<lambda>_.
         Inr \<lparr>lt_id = transactionId, lt_sourceType = Commission_accrual, lt_sourceId = ac_id a,
           lt_asset = rc_asset r, lt_entries = entries, lt_createdAt = createdAt\<rparr>)))"

definition createSnapshot ::
  "ingest_env \<Rightarrow> receipt \<Rightarrow> string \<Rightarrow> ingest_source \<Rightarrow> cp_error + snapshot" where
  "createSnapshot env r receiptHash source =
     and_then (createAccrual env r (ie_now env)) (\<lambda>accrual.
     and_then (map_opt_err (\<lambda>a. createLedgerTransaction env r a (ie_now env)) accrual) (\<lambda>ledger.
     Inr \<lparr>sn_receipt = \<lparr>rr_id = rc_receiptId r, rr_receiptHash = receiptHash, rr_receipt = r,
            rr_source = source, rr_verificationState = Pending_verification, rr_verificationReason = None,
            rr_createdAt = ie_now env\<rparr>,
          sn_accrual = accrual, sn_ledgerTransaction = ledger\<rparr>))"

text \<open>The checks between the conflict check and the snapshot.\<close>

definition admitted :: "ingest_env \<Rightarrow> receipt \<Rightarrow> bool" where
  "admitted env r \<longleftrightarrow> (\<exists>key v. ie_resolveMerchantPublicKey env r = Some key \<and>
     verifySplit402ReceiptObject (ie_ed env) r key = Inr v \<and> vr_ok v \<and>
     (case ie_policyVerifier env of None \<Rightarrow> True | Some verify \<Rightarrow> vr_ok (verify r)))"

definition receipt_hash :: "ingest_env \<Rightarrow> receipt \<Rightarrow> string + string" where
  "receipt_hash env r = hashProtocolObject (ie_sha256 env) (JObj (receipt_members r))"

definition after_failed_save ::
  "'s receipt_store \<Rightarrow> receipt \<Rightarrow> string \<Rightarrow> cp_error \<Rightarrow> 's \<Rightarrow> cp_error + ingest_result" where
  "after_failed_save ops r receiptHash e s =
     (if e \<noteq> Persistence_Conflict then Inl e
      else case op_getByReceiptHash ops s receiptHash of
        Some d \<Rightarrow> Inr (Duplicate d)
      | None \<Rightarrow> (case findConflict ops r receiptHash s of Some c \<Rightarrow> Inr c | None \<Rightarrow> Inl e))"

definition ingest ::
  "ingest_env \<Rightarrow> 's receipt_store \<Rightarrow> receipt \<Rightarrow> ingest_source \<Rightarrow> 's \<Rightarrow> (cp_error + ingest_result) \<times> 's" where
  "ingest env ops r source s =
     (if \<not> receipt_schema (ie_zod env) r then (Inr (Not_admitted (ie_issues env r)), s)
      else case receipt_hash env r of Inl e \<Rightarrow> (Inl (Host_Error e), s) | Inr receiptHash \<Rightarrow>
      (case op_getByReceiptHash ops s receiptHash of Some d \<Rightarrow> (Inr (Duplicate d), s) | None \<Rightarrow>
      (case findConflict ops r receiptHash s of Some c \<Rightarrow> (Inr c, s) | None \<Rightarrow>
      (case ie_resolveMerchantPublicKey env r of
         None \<Rightarrow> (Inr (Not_admitted [''unknown merchant public key for '' @ rc_merchantId r]), s)
       | Some key \<Rightarrow>
      (case verifySplit402ReceiptObject (ie_ed env) r key of Inl e \<Rightarrow> (Inl (Host_Error e), s) | Inr v \<Rightarrow>
       if \<not> vr_ok v then (Inr (Not_admitted (vr_errors v)), s)
       else if (case ie_policyVerifier env of None \<Rightarrow> False | Some verify \<Rightarrow> \<not> vr_ok (verify r))
       then (Inr (Not_admitted (vr_errors (the (ie_policyVerifier env) r))), s)
       else (case createSnapshot env r receiptHash source of Inl e \<Rightarrow> (Inl e, s) | Inr sn \<Rightarrow>
         (case op_save ops sn s of
            (None, s') \<Rightarrow> (Inr (Created sn), s')
          | (Some e, s') \<Rightarrow> (after_failed_save ops r receiptHash e s', s'))))))))"

section \<open>What is booked\<close>

lemma verifier_result:
  assumes "receipt_schema z r"
  shows "\<exists>v. verifySplit402ReceiptObject ed r pk = Inr v \<and> (vr_ok v \<longleftrightarrow> receipt_signed_by ed pk r \<and> receipt_sums_ok r)"
proof -
  obtain s where s: "verifySplit402ReceiptSignature ed r pk = Inr s"
    "vr_errors s = [] \<longleftrightarrow> receipt_signed_by ed pk r" using receipt_signature_result by blast
  obtain a where a: "verifyReceiptArithmetic r = Inr a" "vr_errors a = [] \<longleftrightarrow> receipt_sums_ok r"
    using arithmetic_result [OF receipt_schema_well_typed [OF assms]] by blast
  show ?thesis using s a by (simp add: verifySplit402ReceiptObject_def)
qed

lemma admitted_iff:
  assumes "receipt_schema z r"
  shows "admitted env r \<longleftrightarrow> (\<exists>key. ie_resolveMerchantPublicKey env r = Some key \<and>
      receipt_signed_by (ie_ed env) key r \<and> receipt_sums_ok r) \<and>
    (case ie_policyVerifier env of None \<Rightarrow> True | Some verify \<Rightarrow> vr_ok (verify r))"
  unfolding admitted_def using verifier_result [OF assms, of "ie_ed env"] by (metis sum.inject(2))

lemma negateAtomic_value:
  assumes "atomic_regex v"
  shows "\<exists>w. negateAtomic v = Inr w \<and> bigint_of_string w = Some (- amount_of v)"
proof (cases "amount_of v = 0")
  case True
  have "bigint_of_string ''0'' = Some 0" by code_simp
  then show ?thesis using assms True by (simp add: negateAtomic_def bigint_of_def)
next
  case False
  then have "0 < amount_of v" using amount_of_nonneg [of v] by linarith
  then show ?thesis using assms False bigint_minus [OF assms]
    by (simp add: negateAtomic_def bigint_of_def show_int_amount_of)
qed

lemma asset_totals_three:
  assumes "bigint_of_string (le_amountAtomic e1) = Some n1" "bigint_of_string (le_amountAtomic e2) = Some n2"
    "bigint_of_string (le_amountAtomic e3) = Some n3"
    "le_asset e1 = k" "le_asset e2 = k" "le_asset e3 = k"
  shows "asset_totals [e1, e2, e3] = Inr [(k, n1 + n2 + n3)]"
  using assms by (simp add: asset_totals_def bigint_of_def map_set_def map_get_def)

lemma createAccrual_facts:
  assumes "receipt_schema z r" "receipt_sums_ok r"
  shows "\<exists>v. createAccrual env r now = Inr v \<and>
    (v = None \<longleftrightarrow> rc_routeId r = None \<or> amount_of (rc_referrerCreditAtomic r) = 0) \<and>
    (\<forall>a. v = Some a \<longrightarrow> ac_receiptId a = rc_receiptId r \<and> ac_merchantId a = rc_merchantId r \<and>
       Some (ac_routeId a) = rc_routeId r \<and> Some (ac_referrerWallet a) = rc_referrerWallet r \<and>
       Some (ac_payoutWallet a) = rc_payoutWallet r \<and> ac_asset a = rc_asset r \<and>
       ac_amountAtomic a = rc_referrerCreditAtomic r \<and> ac_status a = Pending_chain_verification \<and> ac_availableAt a = None)"
proof -
  have reg: "atomic_regex (rc_referrerCreditAtomic r)" using receipt_schema_amounts [OF assms(1)] by simp
  have together: "rc_routeId r = None \<longleftrightarrow> rc_referrerWallet r = None" "rc_routeId r = None \<longleftrightarrow> rc_payoutWallet r = None"
    using assms(1) by (auto simp: receipt_schema_def route_fields_together_def)
  show ?thesis
  proof (cases "rc_routeId r")
    case None
    then show ?thesis by (simp add: createAccrual_def)
  next
    case (Some route)
    then obtain w p where "rc_referrerWallet r = Some w" "rc_payoutWallet r = Some p" using together by auto
    moreover have "amount_of (rc_referrerCreditAtomic r) \<le> 0 \<longleftrightarrow> amount_of (rc_referrerCreditAtomic r) = 0"
      using amount_of_nonneg [of "rc_referrerCreditAtomic r"] by linarith
    ultimately show ?thesis using Some reg by (simp add: createAccrual_def bigint_of_def)
  qed
qed

lemma createLedger_facts:
  assumes "receipt_schema z r" "receipt_sums_ok r"
  shows "\<exists>t e1 e2 e3. createLedgerTransaction env r a now = Inr t \<and> lt_entries t = [e1, e2, e3] \<and>
    lt_sourceType t = Commission_accrual \<and> lt_sourceId t = ac_id a \<and> lt_asset t = rc_asset r \<and>
    (\<forall>e \<in> {e1, e2, e3}. le_asset e = rc_asset r \<and> le_transactionId e = lt_id t) \<and>
    le_accountType e1 = Merchant_commission_liability \<and> le_accountReference e1 = rc_merchantId r \<and>
    entry_value e1 = - amount_of (rc_commissionAmountAtomic r) \<and>
    le_accountType e2 = Referrer_payable \<and> le_accountReference e2 = ac_payoutWallet a \<and>
    entry_value e2 = amount_of (rc_referrerCreditAtomic r) \<and>
    le_accountType e3 = Protocol_fee_payable \<and> entry_value e3 = amount_of (rc_protocolFeeAtomic r)"
proof -
  note reg = receipt_schema_amounts [OF assms(1)]
  obtain w where w: "negateAtomic (rc_commissionAmountAtomic r) = Inr w"
    "bigint_of_string w = Some (- amount_of (rc_commissionAmountAtomic r))"
    using negateAtomic_value reg by blast
  have zero: "- amount_of (rc_commissionAmountAtomic r) + amount_of (rc_referrerCreditAtomic r) +
      amount_of (rc_protocolFeeAtomic r) = 0"
    using assms(2) by (simp add: receipt_sums_ok_def Let_def)
  have "asset_totals [e1, e2, e3] = Inr [(rc_asset r, 0)]"
    if "le_amountAtomic e1 = w" "le_amountAtomic e2 = rc_referrerCreditAtomic r"
      "le_amountAtomic e3 = rc_protocolFeeAtomic r" "\<forall>e \<in> {e1, e2, e3}. le_asset e = rc_asset r" for e1 e2 e3
  proof -
    have "asset_totals [e1, e2, e3] = Inr [(rc_asset r, - amount_of (rc_commissionAmountAtomic r) +
        amount_of (rc_referrerCreditAtomic r) + amount_of (rc_protocolFeeAtomic r))]"
      by (rule asset_totals_three) (use that w reg in auto)
    then show ?thesis unfolding zero .
  qed
  then show ?thesis
    using w reg by (simp add: createLedgerTransaction_def assertLedgerBalances_def Let_def entry_value_def)
qed

text \<open>The books of a snapshot: what an accrual and its ledger transaction say.\<close>

definition snapshot_books :: "snapshot \<Rightarrow> bool" where
  "snapshot_books sn \<longleftrightarrow> (let r = rr_receipt (sn_receipt sn) in
     rr_id (sn_receipt sn) = rc_receiptId r \<and> receipt_sums_ok r \<and>
     (sn_accrual sn = None \<longleftrightarrow> rc_routeId r = None \<or> amount_of (rc_referrerCreditAtomic r) = 0) \<and>
     (sn_accrual sn = None \<longleftrightarrow> sn_ledgerTransaction sn = None) \<and>
     (\<forall>a. sn_accrual sn = Some a \<longrightarrow> ac_receiptId a = rc_receiptId r \<and> ac_merchantId a = rc_merchantId r \<and>
        Some (ac_payoutWallet a) = rc_payoutWallet r \<and> ac_asset a = rc_asset r \<and>
        accrual_amount a = amount_of (rc_referrerCreditAtomic r) \<and> 0 < accrual_amount a \<and>
        (\<exists>t e1 e2 e3. sn_ledgerTransaction sn = Some t \<and> lt_entries t = [e1, e2, e3] \<and> lt_sourceId t = ac_id a \<and>
          (\<forall>e \<in> {e1, e2, e3}. le_asset e = rc_asset r) \<and>
          entry_value e1 = - amount_of (rc_commissionAmountAtomic r) \<and> le_accountReference e1 = rc_merchantId r \<and>
          entry_value e2 = accrual_amount a \<and> le_accountReference e2 = ac_payoutWallet a \<and>
          entry_value e3 = amount_of (rc_protocolFeeAtomic r) \<and>
          entry_value e1 + entry_value e2 + entry_value e3 = 0)))"

lemma createSnapshot_facts:
  assumes "receipt_schema z r" "receipt_sums_ok r"
  shows "\<exists>sn. createSnapshot env r hash source = Inr sn \<and> snapshot_books sn \<and>
    rr_receipt (sn_receipt sn) = r \<and> rr_receiptHash (sn_receipt sn) = hash \<and> rr_id (sn_receipt sn) = rc_receiptId r \<and>
    rr_verificationState (sn_receipt sn) = Pending_verification \<and>
    (\<forall>a. sn_accrual sn = Some a \<longrightarrow> ac_status a = Pending_chain_verification)"
proof -
  obtain v where v: "createAccrual env r (ie_now env) = Inr v"
    "v = None \<longleftrightarrow> rc_routeId r = None \<or> amount_of (rc_referrerCreditAtomic r) = 0"
    "\<forall>a. v = Some a \<longrightarrow> ac_receiptId a = rc_receiptId r \<and> ac_merchantId a = rc_merchantId r \<and>
       Some (ac_routeId a) = rc_routeId r \<and> Some (ac_referrerWallet a) = rc_referrerWallet r \<and>
       Some (ac_payoutWallet a) = rc_payoutWallet r \<and> ac_asset a = rc_asset r \<and>
       ac_amountAtomic a = rc_referrerCreditAtomic r \<and> ac_status a = Pending_chain_verification \<and> ac_availableAt a = None"
    using createAccrual_facts [OF assms] by blast
  show ?thesis
  proof (cases v)
    case None
    then show ?thesis using v(1,2) assms(2) by (simp add: createSnapshot_def snapshot_books_def Let_def)
  next
    case (Some a)
    obtain t e1 e2 e3 where t: "createLedgerTransaction env r a (ie_now env) = Inr t" "lt_entries t = [e1, e2, e3]"
      "lt_sourceId t = ac_id a" "\<forall>e \<in> {e1, e2, e3}. le_asset e = rc_asset r"
      "le_accountReference e1 = rc_merchantId r" "entry_value e1 = - amount_of (rc_commissionAmountAtomic r)"
      "le_accountReference e2 = ac_payoutWallet a" "entry_value e2 = amount_of (rc_referrerCreditAtomic r)"
      "entry_value e3 = amount_of (rc_protocolFeeAtomic r)"
      using createLedger_facts [OF assms, of env a "ie_now env"] by blast
    have credit: "accrual_amount a = amount_of (rc_referrerCreditAtomic r)" using v(3) Some by (simp add: accrual_amount_def)
    have "amount_of (rc_referrerCreditAtomic r) \<noteq> 0" using v(2) Some by simp
    then have pos: "0 < accrual_amount a" using amount_of_nonneg [of "rc_referrerCreditAtomic r"] unfolding credit by linarith
    have zero: "entry_value e1 + entry_value e2 + entry_value e3 = 0"
      using t assms(2) by (simp add: receipt_sums_ok_def Let_def)
    let ?sn = "\<lparr>sn_receipt = \<lparr>rr_id = rc_receiptId r, rr_receiptHash = hash, rr_receipt = r,
            rr_source = source, rr_verificationState = Pending_verification, rr_verificationReason = None,
            rr_createdAt = ie_now env\<rparr>, sn_accrual = Some a, sn_ledgerTransaction = Some t\<rparr>"
    have "createSnapshot env r hash source = Inr ?sn" using v(1) Some t(1) by (simp add: createSnapshot_def)
    moreover have "snapshot_books ?sn"
      unfolding snapshot_books_def Let_def using t v(2,3) Some credit pos zero assms(2) by simp
    ultimately show ?thesis using v(3) Some by auto
  qed
qed

section \<open>The answers\<close>

lemma receipt_hash_total: "\<exists>hash. receipt_hash env r = Inr hash"
proof -
  have "\<exists>s. serializeJson (JObj (receipt_members r)) = Inr s"
    by (rule flat_serialises) (simp add: receipt_members_def)
  then show ?thesis
    by (auto simp: receipt_hash_def hashProtocolObject_def canonicalizeToBytes_def canonicalizeProtocolObject_def)
qed

lemma findConflict_None:
  "findConflict ops r hash s = None \<longleftrightarrow> op_getByReceiptId ops s (rc_receiptId r) = None \<and>
   op_getByPaymentId ops s (rc_paymentId r) = None \<and>
   op_getBySettlementTxSignature ops s (rc_settlementTxSignature r) = None"
  by (auto simp: findConflict_def split: option.splits)

lemma findConflict_Some: "findConflict ops r hash s = Some c \<Longrightarrow> \<exists>f i. c = Conflict f i hash"
  by (auto simp: findConflict_def split: option.splits)

text \<open>A receipt that is new to the store: neither its hash nor its keys are known.\<close>

definition unseen :: "'s receipt_store \<Rightarrow> receipt \<Rightarrow> string \<Rightarrow> 's \<Rightarrow> bool" where
  "unseen ops r hash s \<longleftrightarrow> op_getByReceiptHash ops s hash = None \<and> findConflict ops r hash s = None"

lemma ingest_known:
  assumes "receipt_schema (ie_zod env) r" "receipt_hash env r = Inr hash" "\<not> unseen ops r hash s"
  shows "ingest env ops r source s = (Inr (case op_getByReceiptHash ops s hash of Some d \<Rightarrow> Duplicate d
     | None \<Rightarrow> the (findConflict ops r hash s)), s)"
  using assms by (auto simp: ingest_def unseen_def split: option.splits)

lemma ingest_unseen:
  assumes "receipt_schema (ie_zod env) r" "receipt_hash env r = Inr hash" "unseen ops r hash s"
  shows "if admitted env r
    then \<exists>sn. createSnapshot env r hash source = Inr sn \<and> snapshot_books sn \<and> rr_receipt (sn_receipt sn) = r \<and>
      rr_receiptHash (sn_receipt sn) = hash \<and>
      (\<forall>a. sn_accrual sn = Some a \<longrightarrow> ac_status a = Pending_chain_verification) \<and>
      ingest env ops r source s = (case op_save ops sn s of (None, s') \<Rightarrow> (Inr (Created sn), s')
        | (Some e, s') \<Rightarrow> (after_failed_save ops r hash e s', s'))
    else \<exists>es. ingest env ops r source s = (Inr (Not_admitted es), s)"
proof (cases "ie_resolveMerchantPublicKey env r")
  case None
  then show ?thesis using assms by (simp add: ingest_def unseen_def admitted_def)
next
  case (Some key)
  obtain v where v: "verifySplit402ReceiptObject (ie_ed env) r key = Inr v"
    "vr_ok v \<longleftrightarrow> receipt_signed_by (ie_ed env) key r \<and> receipt_sums_ok r"
    using verifier_result [OF assms(1)] by blast
  have adm: "admitted env r \<longleftrightarrow> vr_ok v \<and> (case ie_policyVerifier env of None \<Rightarrow> True | Some verify \<Rightarrow> vr_ok (verify r))"
    using Some v(1) by (simp add: admitted_def)
  show ?thesis
  proof (cases "admitted env r")
    case True
    then have sums: "receipt_sums_ok r" using adm v(2) by simp
    from createSnapshot_facts [OF assms(1) sums, of env hash source] show ?thesis
      using assms Some v(1) True adm by (auto simp: ingest_def unseen_def split: option.splits)
  next
    case False
    then show ?thesis using assms Some v(1) adm by (auto simp: ingest_def unseen_def split: option.splits)
  qed
qed

lemma ingest_created:
  assumes "ingest env ops r source s = (Inr (Created sn), s')"
  shows "\<exists>hash. receipt_schema (ie_zod env) r \<and> admitted env r \<and> receipt_hash env r = Inr hash \<and>
    unseen ops r hash s \<and> snapshot_books sn \<and> rr_receipt (sn_receipt sn) = r \<and> rr_receiptHash (sn_receipt sn) = hash \<and>
    (\<forall>a. sn_accrual sn = Some a \<longrightarrow> ac_status a = Pending_chain_verification) \<and> op_save ops sn s = (None, s')"
proof -
  have schema: "receipt_schema (ie_zod env) r" using assms by (auto simp: ingest_def split: if_splits)
  obtain hash where hash: "receipt_hash env r = Inr hash" using receipt_hash_total by blast
  have un: "unseen ops r hash s"
  proof (rule ccontr)
    assume no: "\<not> unseen ops r hash s"
    with ingest_known [OF schema hash no, of source] assms show False
      using findConflict_Some [of ops r hash s] by (auto simp: unseen_def split: option.splits)
  qed
  have after: "after_failed_save ops r hash e t \<noteq> Inr (Created sn)" for e t
    using findConflict_Some [of ops r hash t] by (auto simp: after_failed_save_def split: option.splits)
  note U = ingest_unseen [OF schema hash un, of source]
  show ?thesis
  proof (cases "admitted env r")
    case True
    with U obtain sn0 where sn0: "snapshot_books sn0" "rr_receipt (sn_receipt sn0) = r" "rr_receiptHash (sn_receipt sn0) = hash"
      "\<forall>a. sn_accrual sn0 = Some a \<longrightarrow> ac_status a = Pending_chain_verification"
      "ingest env ops r source s = (case op_save ops sn0 s of (None, s') \<Rightarrow> (Inr (Created sn0), s')
        | (Some e, s') \<Rightarrow> (after_failed_save ops r hash e s', s'))" by auto
    have "sn = sn0 \<and> op_save ops sn0 s = (None, s')"
      using sn0(5) assms after by (auto split: prod.splits option.splits)
    then show ?thesis using schema hash un sn0 True by blast
  qed (use U assms in auto)
qed

section \<open>The store interface\<close>

text \<open>What an ingestor relies on: a hash lookup answers with a snapshot of that hash; saving an unseen
  snapshot makes it known by its hash and keeps the store well formed; a save that fails with a
  persistence conflict does so because some key of the snapshot is taken.\<close>

locale receipt_ingestion_store =
  fixes ops :: "'s receipt_store" and ok :: "'s \<Rightarrow> bool"
  assumes hash_lookup: "ok s \<Longrightarrow> op_getByReceiptHash ops s h = Some sn \<Longrightarrow> rr_receiptHash (sn_receipt sn) = h"
    and save_unseen: "ok s \<Longrightarrow> unseen ops (rr_receipt (sn_receipt sn)) (rr_receiptHash (sn_receipt sn)) s \<Longrightarrow>
      rr_id (sn_receipt sn) = rc_receiptId (rr_receipt (sn_receipt sn)) \<Longrightarrow> op_save ops sn s = (None, s') \<Longrightarrow>
      ok s' \<and> op_getByReceiptHash ops s' (rr_receiptHash (sn_receipt sn)) = Some sn"
    and save_failed: "ok s \<Longrightarrow> op_save ops sn s = (Some e, s') \<Longrightarrow> ok s' \<and>
      (e = Persistence_Conflict \<longrightarrow>
         \<not> unseen ops (rr_receipt (sn_receipt sn)) (rr_receiptHash (sn_receipt sn)) s')"
begin

lemma created_stored:
  assumes "ok s" "ingest env ops r source s = (Inr (Created sn), s')" "receipt_hash env r = Inr hash"
  shows "ok s' \<and> op_getByReceiptHash ops s' hash = Some sn"
proof -
  from ingest_created [OF assms(2)] obtain h where h: "receipt_hash env r = Inr h" "unseen ops r h s" "snapshot_books sn"
    "rr_receipt (sn_receipt sn) = r" "rr_receiptHash (sn_receipt sn) = h" "op_save ops sn s = (None, s')" by blast
  have "rr_id (sn_receipt sn) = rc_receiptId (rr_receipt (sn_receipt sn))"
    using h(3) by (simp add: snapshot_books_def Let_def)
  from save_unseen [OF assms(1) _ this h(6)] show ?thesis using h assms(3) by simp
qed

lemma no_persistence_error:
  assumes "ok s" "ingest env ops r source s = (res, s')"
  shows "ok s' \<and> res \<noteq> Inl Persistence_Conflict"
proof (cases "receipt_schema (ie_zod env) r")
  case True
  obtain hash where hash: "receipt_hash env r = Inr hash" using receipt_hash_total by blast
  show ?thesis
  proof (cases "unseen ops r hash s \<and> admitted env r")
    case True
    with ingest_unseen [OF \<open>receipt_schema (ie_zod env) r\<close> hash, of ops s source] obtain sn where sn:
      "snapshot_books sn" "rr_receipt (sn_receipt sn) = r" "rr_receiptHash (sn_receipt sn) = hash"
      "ingest env ops r source s = (case op_save ops sn s of (None, s') \<Rightarrow> (Inr (Created sn), s')
        | (Some e, s') \<Rightarrow> (after_failed_save ops r hash e s', s'))" by auto
    obtain e t where save: "op_save ops sn s = (e, t)" by fastforce
    show ?thesis
    proof (cases e)
      case None
      then have c: "ingest env ops r source s = (Inr (Created sn), t)" using sn(4) save by simp
      then show ?thesis using created_stored [OF assms(1) c hash] assms(2) by simp
    next
      case (Some e')
      note F = save_failed [OF assms(1), of sn e' t] save Some
      have "after_failed_save ops r hash e' t \<noteq> Inl Persistence_Conflict"
        using F sn(2,3) by (auto simp: after_failed_save_def unseen_def split: option.splits)
      then show ?thesis using sn(4) assms(2) F by simp
    qed
  next
    case False
    then have "s' = s \<and> (\<exists>v. res = Inr v)"
      using ingest_unseen [OF True hash, of ops s source] ingest_known [OF True hash, of ops s source] assms(2)
      by (cases "unseen ops r hash s") auto
    then show ?thesis using assms(1) by auto
  qed
qed (use assms in \<open>auto simp: ingest_def\<close>)

lemma repeat_is_duplicate:
  assumes "ok s" "ingest env ops r source s = (Inr (Created sn), s')"
    and "ie_sha256 env' = ie_sha256 env" "ie_zod env' = ie_zod env"
  shows "ingest env' ops r source' s' = (Inr (Duplicate sn), s')"
proof -
  obtain hash where hash: "receipt_hash env r = Inr hash" using receipt_hash_total by blast
  have "op_getByReceiptHash ops s' hash = Some sn" using created_stored [OF assms(1,2) hash] by blast
  moreover have "receipt_hash env' r = Inr hash" using hash assms(3) by (simp add: receipt_hash_def)
  moreover have "receipt_schema (ie_zod env') r" using ingest_created [OF assms(2)] assms(4) by auto
  ultimately show ?thesis by (simp add: ingest_known unseen_def)
qed

end

lemma index_lookup_None:
  assumes "index_right key rs ix"
  shows "(case map_get ix k of None \<Rightarrow> None | Some i \<Rightarrow> map_get rs i) = None \<longleftrightarrow> map_get ix k = None"
proof (cases "map_get ix k")
  case (Some i)
  then obtain sn where "map_get rs i = Some sn" using assms unfolding index_right_def by blast
  then show ?thesis using Some by simp
qed simp

lemma index_lookup_Some:
  assumes "store_ok s" "index_right key (receiptsById s) ix"
    and "(case map_get ix k of None \<Rightarrow> None | Some i \<Rightarrow> map_get (receiptsById s) i) = Some sn"
  shows "key sn = k \<and> getByReceiptId s (sn_id sn) = Some sn"
proof -
  obtain i where i: "map_get ix k = Some i" "map_get (receiptsById s) i = Some sn"
    using assms(3) by (cases "map_get ix k") auto
  moreover have "sn_id sn = i" using store_ok_id [OF assms(1)] i(2) by (simp add: getByReceiptId_def)
  moreover obtain sn' where "map_get (receiptsById s) i = Some sn'" "key sn' = k"
    using assms(2) i(1) unfolding index_right_def by blast
  ultimately show ?thesis by (simp add: getByReceiptId_def)
qed

lemma store_ok_indexes:
  assumes "store_ok s"
  shows "index_right sn_hash (receiptsById s) (receiptIdByHash s)"
    and "index_right sn_payment (receiptsById s) (receiptIdByPaymentId s)"
    and "index_right sn_settlement (receiptsById s) (receiptIdBySettlementTx s)"
  using assms by (simp_all add: store_ok_def)

lemma unseen_in_memory:
  assumes "store_ok s"
  shows "unseen in_memory r hash s \<longleftrightarrow> getByReceiptId s (rc_receiptId r) = None \<and>
    map_get (receiptIdByHash s) hash = None \<and> map_get (receiptIdByPaymentId s) (rc_paymentId r) = None \<and>
    map_get (receiptIdBySettlementTx s) (rc_settlementTxSignature r) = None"
  using store_ok_indexes [OF assms] unfolding unseen_def findConflict_None
  by (simp add: in_memory_def getByReceiptHash_def getByPaymentId_def getBySettlementTxSignature_def index_lookup_None) blast

lemma unseen_fits:
  assumes "store_ok s" "unseen in_memory (rr_receipt (sn_receipt sn)) (rr_receiptHash (sn_receipt sn)) s"
    "rr_id (sn_receipt sn) = rc_receiptId (rr_receipt (sn_receipt sn))"
  shows "fits_all sn s \<and> getByReceiptId s (sn_id sn) = None"
  using assms(2,3) by (simp add: unseen_in_memory [OF assms(1)] fits_all_def fits_def sn_keys getByReceiptId_def)

interpretation mem: receipt_ingestion_store in_memory store_ok
proof
  fix s :: store and h sn
  assume "store_ok s" "op_getByReceiptHash in_memory s h = Some sn"
  then show "rr_receiptHash (sn_receipt sn) = h"
    using index_lookup_Some [OF _ store_ok_indexes(1), of s h sn] by (simp add: in_memory_def getByReceiptHash_def sn_hash_def)
next
  fix s s' :: store and sn
  assume a: "store_ok s" "unseen in_memory (rr_receipt (sn_receipt sn)) (rr_receiptHash (sn_receipt sn)) s"
    "rr_id (sn_receipt sn) = rc_receiptId (rr_receipt (sn_receipt sn))" "op_save in_memory sn s = (None, s')"
  then have "s' = save sn s" by (simp add: in_memory_def)
  then show "store_ok s' \<and> op_getByReceiptHash in_memory s' (rr_receiptHash (sn_receipt sn)) = Some sn"
    using save_ok [OF a(1)] unseen_fits [OF a(1-3)] by (simp add: in_memory_def getByReceiptHash_def save_maps sn_keys)
next
  fix s s' :: store and sn e
  assume "op_save in_memory sn s = (Some e, s')"
  then show "store_ok s' \<and> (e = Persistence_Conflict \<longrightarrow>
      \<not> unseen in_memory (rr_receipt (sn_receipt sn)) (rr_receiptHash (sn_receipt sn)) s')"
    by (simp add: in_memory_def)
qed

lemma conflict_names:
  assumes "store_ok s" "findConflict in_memory r hash s = Some (Conflict field i h)"
  shows "\<exists>sn. getByReceiptId s i = Some sn \<and>
    (case field of On_receiptId \<Rightarrow> i = rc_receiptId r | On_paymentId \<Rightarrow> sn_payment sn = rc_paymentId r
     | On_settlementTxSignature \<Rightarrow> sn_settlement sn = rc_settlementTxSignature r)"
proof -
  note F = assms(2) [unfolded findConflict_def in_memory_def receipt_store.simps]
  consider e where "getByReceiptId s (rc_receiptId r) = Some e" "field = On_receiptId" "i = sn_id e"
    | e where "getByPaymentId s (rc_paymentId r) = Some e" "field = On_paymentId" "i = sn_id e"
    | e where "getBySettlementTxSignature s (rc_settlementTxSignature r) = Some e" "field = On_settlementTxSignature" "i = sn_id e"
    using F unfolding sn_id_def by (auto split: option.splits)
  then show ?thesis
  proof cases
    case 1
    then show ?thesis using store_ok_id [OF assms(1)] by auto
  next
    case 2
    then show ?thesis using index_lookup_Some [OF assms(1) store_ok_indexes(2) [OF assms(1)]]
      by (auto simp: getByPaymentId_def)
  next
    case 3
    then show ?thesis using index_lookup_Some [OF assms(1) store_ok_indexes(3) [OF assms(1)]]
      by (auto simp: getBySettlementTxSignature_def)
  qed
qed

section \<open>Properties\<close>

text \<open>C19. A receipt that is accepted was checked and is booked exactly, whatever store it goes to: it
  passes the schema, it carries the signature of the merchant key that resolves for it, the commission
  formula holds on its amounts and the policy verifier agrees; an accrual is made exactly when it names
  a route and credits the referrer a positive amount, for that amount, pending chain verification; and
  its ledger transaction moves the commission from the merchant to the referrer and the protocol fee
  and sums to zero.\<close>

theorem accepted_receipt_is_booked:
  assumes "ingest env ops r source s = (Inr (Created sn), s')"
  shows "receipt_schema (ie_zod env) r \<and> rr_receipt (sn_receipt sn) = r \<and> receipt_sums_ok r \<and>
    (\<exists>key. ie_resolveMerchantPublicKey env r = Some key \<and> receipt_signed_by (ie_ed env) key r) \<and>
    (case ie_policyVerifier env of None \<Rightarrow> True | Some verify \<Rightarrow> vr_ok (verify r)) \<and>
    snapshot_books sn \<and> (\<forall>a. sn_accrual sn = Some a \<longrightarrow> ac_status a = Pending_chain_verification)"
proof -
  from ingest_created [OF assms] obtain hash where h: "receipt_schema (ie_zod env) r" "admitted env r"
    "snapshot_books sn" "rr_receipt (sn_receipt sn) = r"
    "\<forall>a. sn_accrual sn = Some a \<longrightarrow> ac_status a = Pending_chain_verification" by blast
  show ?thesis using h admitted_iff [OF h(1)] by blast
qed

text \<open>The sample receipt, a merchant key that signed it, and an empty store.\<close>

definition sample_env :: ingest_env where
  "sample_env = \<lparr>ie_sha256 = (\<lambda>bs. take 32 (bs @ replicate 32 0)), ie_ed = one_receipt_ed, ie_zod = any_zod, ie_issues = (\<lambda>_. []),
     ie_resolveMerchantPublicKey = (\<lambda>_. Some (base58Encode (replicate 32 7))), ie_policyVerifier = None,
     ie_now = ''Z'', ie_idFactory = None\<rparr>"

lemma sample_signed: "receipt_signed_by one_receipt_ed (base58Encode (replicate 32 7)) sample_receipt"
proof -
  obtain m where m: "buildReceiptSigningBytes sample_receipt = Inr m" using receipt_bytes_total by blast
  have "rc_signature sample_receipt = base64UrlEncode (replicate 64 7)" by (simp add: sample_receipt_def)
  then have "base64UrlDecode (rc_signature sample_receipt) = Inr (replicate 64 7)" by (simp only: base64url_decode_encode)
  moreover have "base58Decode (base58Encode (replicate 32 7)) = Inr (replicate 32 7)" by (rule base58_decode_encode) simp
  ultimately show ?thesis by (simp add: receipt_signed_by_def m safeVerify_iff one_receipt_ed_def)
qed

lemma sample_ingested: "\<exists>sn. ingest sample_env in_memory sample_receipt From_buyer empty_store = (Inr (Created sn), save sn empty_store)"
proof -
  have schema: "receipt_schema (ie_zod sample_env) sample_receipt" by (simp add: sample_env_def sample_receipt_schema)
  obtain hash where hash: "receipt_hash sample_env sample_receipt = Inr hash" using receipt_hash_total by blast
  have un: "unseen in_memory sample_receipt hash empty_store"
    unfolding unseen_in_memory [OF empty_store_ok] by (simp add: empty_store_def getByReceiptId_def)
  have "admitted sample_env sample_receipt"
    unfolding admitted_iff [OF schema] using sample_signed sample_receipt_sums by (simp add: sample_env_def)
  with ingest_unseen [OF schema hash un, of From_buyer] show ?thesis by (auto simp: in_memory_def)
qed

theorem accepted_receipt_is_booked_witness:
  "\<exists>sn s'. ingest sample_env in_memory sample_receipt From_buyer empty_store = (Inr (Created sn), s') \<and> snapshot_books sn"
proof -
  obtain sn where sn: "ingest sample_env in_memory sample_receipt From_buyer empty_store = (Inr (Created sn), save sn empty_store)"
    using sample_ingested by blast
  from accepted_receipt_is_booked [OF sn] sn show ?thesis by blast
qed

lemma ingest_answered:
  assumes "store_ok s"
  shows "\<exists>res s'. ingest env in_memory r source s = (Inr res, s') \<and> store_ok s' \<and>
    (case res of
       Created sn \<Rightarrow> s' = save sn s \<and> getByReceiptId s (rc_receiptId r) = None
     | Duplicate sn \<Rightarrow> s' = s \<and> receipt_hash env r = Inr (sn_hash sn) \<and> getByReceiptId s (sn_id sn) = Some sn
     | Conflict field i hash \<Rightarrow> s' = s \<and> (\<exists>sn. getByReceiptId s i = Some sn \<and>
         (case field of On_receiptId \<Rightarrow> i = rc_receiptId r | On_paymentId \<Rightarrow> sn_payment sn = rc_paymentId r
          | On_settlementTxSignature \<Rightarrow> sn_settlement sn = rc_settlementTxSignature r))
     | Not_admitted es \<Rightarrow> s' = s \<and> (\<not> receipt_schema (ie_zod env) r \<or> \<not> admitted env r))"
proof (cases "receipt_schema (ie_zod env) r")
  case True
  obtain hash where hash: "receipt_hash env r = Inr hash" using receipt_hash_total by blast
  note found = index_lookup_Some [OF assms]
  show ?thesis
  proof (cases "unseen in_memory r hash s")
    case un: True
    show ?thesis
    proof (cases "admitted env r")
      case adm: True
      with ingest_unseen [OF True hash un, of source] obtain sn where
        "ingest env in_memory r source s = (Inr (Created sn), save sn s)" by (auto simp: in_memory_def)
      then show ?thesis using mem.no_persistence_error [OF assms] unseen_in_memory [OF assms] un by fastforce
    next
      case False
      then show ?thesis using ingest_unseen [OF True hash un, of source] assms by fastforce
    qed
  next
    case False
    note known = ingest_known [OF True hash False, of source]
    show ?thesis
    proof (cases "op_getByReceiptHash in_memory s hash")
      case (Some d)
      then have "sn_hash d = hash \<and> getByReceiptId s (sn_id d) = Some d"
        using found [OF store_ok_indexes(1) [OF assms], of hash d] by (simp add: in_memory_def getByReceiptHash_def)
      then show ?thesis using known Some assms hash by simp
    next
      case None
      then obtain c where c: "findConflict in_memory r hash s = Some c" using False by (auto simp: unseen_def)
      then have "ingest env in_memory r source s = (Inr c, s)" using known None by simp
      then show ?thesis using assms findConflict_Some [OF c] conflict_names [OF assms] c by auto
    qed
  qed
qed (use assms in \<open>simp add: ingest_def\<close>)

text \<open>C20. Ingestion into the in-memory store never throws, and it changes the store only when it
  accepts: every receipt is answered; a duplicate is answered with the stored snapshot of the same
  hash, a conflict names a stored receipt with the same id, payment or settlement, and in these cases
  and when the receipt is rejected the store is as before.\<close>

theorem ingest_answers:
  assumes "store_ok s"
  shows "\<exists>res s'. ingest env in_memory r source s = (Inr res, s') \<and> store_ok s' \<and>
    (case res of
       Created sn \<Rightarrow> s' = save sn s \<and> getByReceiptId s (rc_receiptId r) = None
     | Duplicate sn \<Rightarrow> s' = s \<and> receipt_hash env r = Inr (sn_hash sn) \<and> getByReceiptId s (sn_id sn) = Some sn
     | Conflict field i hash \<Rightarrow> s' = s \<and> (\<exists>sn. getByReceiptId s i = Some sn \<and>
         (case field of On_receiptId \<Rightarrow> i = rc_receiptId r | On_paymentId \<Rightarrow> sn_payment sn = rc_paymentId r
          | On_settlementTxSignature \<Rightarrow> sn_settlement sn = rc_settlementTxSignature r))
     | Not_admitted es \<Rightarrow> s' = s \<and> (\<not> receipt_schema (ie_zod env) r \<or> \<not> admitted env r))"
  by (rule ingest_answered [OF assms])

theorem ingest_answers_witness:
  "\<exists>res. fst (ingest sample_env in_memory sample_receipt From_buyer empty_store) = Inr res"
  using ingest_answers [OF empty_store_ok, of sample_env sample_receipt From_buyer] by auto

text \<open>Ingestion is idempotent: once a receipt is accepted, sending it again is answered with the
  snapshot that was stored, and changes nothing, even if the key, the policy, the clock or the id
  factory have changed in between.\<close>

theorem ingest_twice:
  assumes "store_ok s" "ingest env in_memory r source s = (Inr (Created sn), s')"
    and "ie_sha256 env' = ie_sha256 env" "ie_zod env' = ie_zod env"
  shows "ingest env' in_memory r source' s' = (Inr (Duplicate sn), s')"
  by (rule mem.repeat_is_duplicate [OF assms])

theorem ingest_twice_witness:
  "\<exists>sn s'. ingest (sample_env\<lparr>ie_now := ''ZZ''\<rparr>) in_memory sample_receipt From_relay s' = (Inr (Duplicate sn), s') \<and>
     getByReceiptId s' (rc_receiptId sample_receipt) \<noteq> None"
proof -
  obtain sn where sn: "ingest sample_env in_memory sample_receipt From_buyer empty_store = (Inr (Created sn), save sn empty_store)"
    using sample_ingested by blast
  have "ingest (sample_env\<lparr>ie_now := ''ZZ''\<rparr>) in_memory sample_receipt From_relay (save sn empty_store) =
      (Inr (Duplicate sn), save sn empty_store)"
    by (rule ingest_twice [OF empty_store_ok sn]) simp_all
  moreover have "sn_id sn = rc_receiptId sample_receipt"
    using ingest_created [OF sn] by (auto simp: snapshot_books_def sn_id_def Let_def)
  ultimately show ?thesis by (metis get_save option.distinct(1))
qed

end
