(* ===== verification/Policy.thy ===== *)
theory Policy
  imports Routes Ingestion
begin

text \<open>
  \<^verbatim>\<open>packages/control-plane/src/index.ts\<close>, \<open>ControlPlaneReceiptPolicyVerifier\<close>: the campaign policy a receipt
  is checked against before ingestion books it. The three registries are an argument, the operations the
  verifier calls of their interfaces; an exception of a registry is one of the verifier. The laws it
  relies on are the locale below, interpreted on the in-memory registries.
\<close>

section \<open>Definitions\<close>

record policy_sources =
  ps_getMerchantProfile :: "string \<Rightarrow> merchant_profile option"
  ps_resolveKey :: "resolve_key_input \<Rightarrow> registry_error + merchant_key option"
  ps_getCampaign :: "string \<Rightarrow> registry_error + campaign_profile option"
  ps_getCampaignVersion :: "string \<Rightarrow> int \<Rightarrow> registry_error + campaign_version option"
  ps_getRoute :: "string \<Rightarrow> route option"
  ps_listRouteVersions :: "string \<Rightarrow> registry_error + route_version list"

definition expectReceiptField :: "string \<Rightarrow> 'a \<Rightarrow> 'a \<Rightarrow> string list" where
  "expectReceiptField label actual expected =
     error_if (actual \<noteq> expected) (label @ '' does not match campaign policy'')"

definition routeCoversOperation :: "string list \<Rightarrow> string \<Rightarrow> bool" where
  "routeCoversOperation operationIds operationId =
     list_ex (\<lambda>candidate. candidate = ''*'' \<or> candidate = operationId) operationIds"

definition receipt_key_query :: "receipt \<Rightarrow> resolve_key_input" where
  "receipt_key_query r = \<lparr>rk_merchantId = rc_merchantId r, rk_kid = rc_kid r, rk_purpose = Some Offer_receipt,
     rk_at = Some (rc_issuedAt r)\<rparr>"

definition merchant_errors :: "policy_sources \<Rightarrow> receipt \<Rightarrow> registry_error + string list" where
  "merchant_errors src r = (case ps_getMerchantProfile src (rc_merchantId r) of
       None \<Rightarrow> Inr [''merchant does not exist'']
     | Some m \<Rightarrow> and_then (ps_resolveKey src (receipt_key_query r)) (\<lambda>serviceKey. Inr (
         error_if (mr_status (mp_merchant m) \<noteq> M_active) ''merchant is not active'' @
         error_if (\<not> list_ex (\<lambda>origin. mo_origin origin = rc_merchantOrigin r \<and> mo_status origin = O_verified) (mp_origins m))
           ''merchant origin is not verified'' @
         error_if (serviceKey = None) ''merchant service key is not active for receipt kid'')))"

definition campaign_errors :: "campaign_profile option \<Rightarrow> receipt \<Rightarrow> string list" where
  "campaign_errors p r = (case p of
       None \<Rightarrow> [''campaign does not exist'']
     | Some c \<Rightarrow>
         error_if (cg_merchantId (cp_campaign c) \<noteq> rc_merchantId r) ''campaign merchantId does not match receipt merchantId'' @
         error_if (cg_status (cp_campaign c) \<noteq> C_active) ''campaign is not active'')"

definition version_errors :: "campaign_version option \<Rightarrow> receipt \<Rightarrow> string list" where
  "version_errors v r = (case v of
       None \<Rightarrow> [''campaign version does not exist'']
     | Some w \<Rightarrow> let t = cv_terms w in
         error_if (cv_termsHash w \<noteq> rc_campaignTermsHash r) ''campaign terms hash does not match receipt'' @
         error_if (\<not> list_ex (\<lambda>operation. op_operationId operation = rc_operationId r) (ct_operations t))
           ''operationId is not in campaign version terms'' @
         expectReceiptField ''merchantOrigin'' (rc_merchantOrigin r) (ct_resourceOrigin t) @
         expectReceiptField ''network'' (rc_network r) (ct_network t) @
         expectReceiptField ''asset'' (rc_asset r) (ct_asset t) @
         expectReceiptField ''payToWallet'' (rc_payToWallet r) (ct_payToWallet t) @
         expectReceiptField ''requiredAmountAtomic'' (rc_requiredAmountAtomic r) (ct_requiredAmountAtomic t) @
         expectReceiptField ''settlementMode'' (rc_settlementMode r) (ct_settlementMode t) @
         (if rc_routeId r = None then [] else
           expectReceiptField ''commissionBps'' (rc_commissionBps r) (ct_commissionBps t) @
           expectReceiptField ''protocolFeeBpsOfCommission'' (rc_protocolFeeBpsOfCommission r) (ct_protocolFeeBpsOfCommission t)))"

definition route_errors :: "host \<Rightarrow> route \<Rightarrow> receipt \<Rightarrow> string list" where
  "route_errors h rt r =
     error_if (rt_campaignId rt \<noteq> rc_campaignId r) ''route campaignId does not match receipt campaignId'' @
     error_if (rt_status rt \<noteq> R_active) ''route is not active'' @
     error_if (date_less h (rc_issuedAt r) (rt_activatedAt rt) \<or> date_less h (rc_issuedAt r) (rt_issuedAt rt) \<or>
         date_le h (rt_expiresAt rt) (rc_issuedAt r)) ''route is not active at receipt time'' @
     error_if (rt_resourceOrigin rt \<noteq> rc_merchantOrigin r) ''route resourceOrigin does not match receipt merchantOrigin'' @
     error_if (\<not> routeCoversOperation (rt_operationIds rt) (rc_operationId r)) ''route does not cover receipt operationId''"

definition route_version_errors :: "route_version list \<Rightarrow> receipt \<Rightarrow> string list" where
  "route_version_errors vs r = (case List.find (\<lambda>v. Some (rv_claimHash v) = rc_referralClaimHash r) vs of
       None \<Rightarrow> [''receipt referralClaimHash does not match route claim hash'']
     | Some v \<Rightarrow>
         error_if (rv_campaignVersionMin v > rc_campaignVersion r) ''route campaignVersionMin is greater than receipt campaignVersion'' @
         expectReceiptField ''payoutWallet'' (rc_payoutWallet r) (Some (rv_payoutWallet v)))"

definition self_referral_of :: "merchant_profile option \<Rightarrow> campaign_version \<Rightarrow> receipt \<Rightarrow> self_referral_input" where
  "self_referral_of m v r = \<lparr>sr_allowSelfReferral = ct_allowSelfReferral (cv_terms v), sr_payerWallet = rc_payerWallet r,
     sr_referrerWallet = rc_referrerWallet r, sr_payoutWallet = rc_payoutWallet r,
     sr_merchantOwnerWallet = map_option (\<lambda>p. mr_ownerWallet (mp_merchant p)) m\<rparr>"

definition self_referral_errors :: "merchant_profile option \<Rightarrow> campaign_version option \<Rightarrow> receipt \<Rightarrow> string list" where
  "self_referral_errors m v r = (case v of None \<Rightarrow> [] | Some w \<Rightarrow>
     (case evaluateSelfReferralPolicy (self_referral_of m w r) of None \<Rightarrow> []
      | Some reason \<Rightarrow> [''self-referral policy violation: '' @ show_reason reason]))"

definition policyVerify :: "host \<Rightarrow> policy_sources \<Rightarrow> receipt \<Rightarrow> registry_error + verification_result" where
  "policyVerify h src r =
     and_then (merchant_errors src r) (\<lambda>merchantErrors.
     and_then (ps_getCampaign src (rc_campaignId r)) (\<lambda>campaign.
     and_then (ps_getCampaignVersion src (rc_campaignId r) (rc_campaignVersion r)) (\<lambda>version.
     let errors = merchantErrors @ campaign_errors campaign r @ version_errors version r @
           error_if (length (rc_offerNonce r) = 0) ''offerNonce is empty''
     in case rc_routeId r of
       None \<Rightarrow> Inr (result_of (errors @
         error_if (rc_commissionAmountAtomic r \<noteq> ''0'' \<or> rc_protocolFeeAtomic r \<noteq> ''0'' \<or> rc_referrerCreditAtomic r \<noteq> ''0'')
           ''unattributed receipt must have zero commission amounts''))
     | Some routeId \<Rightarrow> (case ps_getRoute src routeId of
         None \<Rightarrow> Inr (result_of (errors @ [''route does not exist'']))
       | Some rt \<Rightarrow> and_then (ps_listRouteVersions src routeId) (\<lambda>vs.
           Inr (result_of (errors @ route_errors h rt r @ route_version_errors vs r @
             expectReceiptField ''referrerWallet'' (rc_referrerWallet r) (Some (rt_referrerWallet rt)) @
             self_referral_errors (ps_getMerchantProfile src (rc_merchantId r)) version r)))))))"

record registries =
  reg_merchants :: merchant_registry
  reg_campaigns :: campaign_registry
  reg_routes :: route_registry

definition registry_sources :: "registry_env \<Rightarrow> string \<Rightarrow> registries \<Rightarrow> policy_sources" where
  "registry_sources env clock g = \<lparr>ps_getMerchantProfile = getMerchantProfile (rg_host env) (reg_merchants g),
     ps_resolveKey = resolveKey (rg_host env) clock (reg_merchants g), ps_getCampaign = getCampaign (reg_campaigns g),
     ps_getCampaignVersion = getCampaignVersion (reg_campaigns g), ps_getRoute = getRoute (reg_routes g),
     ps_listRouteVersions = listRouteVersions (reg_routes g)\<rparr>"

section \<open>What the verifier relies on\<close>

definition terms_of_campaign :: "registry_env \<Rightarrow> campaign \<Rightarrow> int \<Rightarrow> campaign_version \<Rightarrow> bool" where
  "terms_of_campaign env c n v \<longleftrightarrow> ct_campaignId (cv_terms v) = cg_id c \<and> ct_campaignVersion (cv_terms v) = n \<and>
     ct_merchantId (cv_terms v) = cg_merchantId c \<and> terms_valid env (cv_terms v) \<and>
     hashProtocolObject (rg_sha256 env) (JObj (terms_members (cv_terms v))) = Inr (cv_termsHash v) \<and>
     (cg_currentVersion c = n \<and> cg_status c = C_active \<longrightarrow> version_signed (rg_ed env) v)"

definition version_backed :: "registry_env \<Rightarrow> route \<Rightarrow> route_version \<Rightarrow> bool" where
  "version_backed env rt v \<longleftrightarrow> (\<exists>c. claim_verified env c \<and> cl_routeId c = rt_id rt \<and> cl_campaignId c = rt_campaignId rt \<and>
     cl_campaignVersionMin c = rv_campaignVersionMin v \<and> cl_referrerWallet c = rt_referrerWallet rt \<and>
     cl_resourceOrigin c = rt_resourceOrigin rt \<and> cloneOperationScope (cl_operationIds c) = rt_operationIds rt \<and>
     cl_payoutWallet c = rv_payoutWallet v \<and>
     hashProtocolObject (rg_sha256 env) (JObj (claim_members c)) = Inr (rv_claimHash v))"

locale policy_registries =
  fixes env :: registry_env and src :: "'st \<Rightarrow> policy_sources" and ok :: "'st \<Rightarrow> bool"
  assumes resolved_key: "ok s \<Longrightarrow> ps_resolveKey (src s) q = Inr (Some key) \<Longrightarrow>
      mk_merchantId key = rk_merchantId q \<and> mk_kid key = rk_kid q"
    and campaign_total: "ok s \<Longrightarrow> \<exists>p. ps_getCampaign (src s) k = Inr p"
    and version_total: "ok s \<Longrightarrow> 0 < n \<Longrightarrow> \<exists>v. ps_getCampaignVersion (src s) k n = Inr v"
    and version_terms: "ok s \<Longrightarrow> ps_getCampaign (src s) k = Inr (Some p) \<Longrightarrow> ps_getCampaignVersion (src s) k n = Inr (Some w) \<Longrightarrow>
      cg_id (cp_campaign p) = k \<and> terms_of_campaign env (cp_campaign p) n w"
    and versions_total: "ok s \<Longrightarrow> id_regex k \<Longrightarrow> \<exists>vs. ps_listRouteVersions (src s) k = Inr vs"
    and route_backed: "ok s \<Longrightarrow> ps_getRoute (src s) k = Some rt \<Longrightarrow> ps_listRouteVersions (src s) k = Inr vs \<Longrightarrow>
      rv \<in> set vs \<Longrightarrow> rt_id rt = k \<and> version_backed env rt rv"
begin

lemma verdict_given:
  assumes "ok s" "receipt_schema z r" "\<exists>k. ps_resolveKey (src s) (receipt_key_query r) = Inr k"
  shows "\<exists>v. policyVerify h (src s) r = Inr v"
proof -
  obtain k where k: "ps_resolveKey (src s) (receipt_key_query r) = Inr k" using assms(3) by blast
  obtain p where p: "ps_getCampaign (src s) (rc_campaignId r) = Inr p" using campaign_total assms(1) by blast
  have n: "0 < rc_campaignVersion r" "\<forall>i. rc_routeId r = Some i \<longrightarrow> id_regex i"
    using assms(2) by (auto simp: receipt_schema_def)
  obtain v where v: "ps_getCampaignVersion (src s) (rc_campaignId r) (rc_campaignVersion r) = Inr v"
    using version_total [OF assms(1) n(1)] by blast
  have m: "\<exists>e. merchant_errors (src s) r = Inr e" using k by (auto simp: merchant_errors_def split: option.splits)
  then obtain e where e: "merchant_errors (src s) r = Inr e" by blast
  show ?thesis
  proof (cases "rc_routeId r")
    case None
    then show ?thesis using e p v by (simp add: policyVerify_def)
  next
    case (Some i)
    obtain vs where "ps_listRouteVersions (src s) i = Inr vs" using versions_total [OF assms(1)] n(2) Some by blast
    then show ?thesis using e p v Some by (cases "ps_getRoute (src s) i") (simp_all add: policyVerify_def)
  qed
qed

text \<open>What an accepted receipt with a route has behind it.\<close>

lemma attribution_backed:
  assumes "ok s" "policyVerify h (src s) r = Inr v" "vr_ok v" "rc_routeId r = Some k" "receipt_schema z r"
  shows "\<exists>m p w rt rv key. ps_getMerchantProfile (src s) (rc_merchantId r) = Some m \<and> mr_status (mp_merchant m) = M_active \<and>
    (\<exists>origin \<in> set (mp_origins m). mo_origin origin = rc_merchantOrigin r \<and> mo_status origin = O_verified) \<and>
    ps_resolveKey (src s) (receipt_key_query r) = Inr (Some key) \<and> mk_merchantId key = rc_merchantId r \<and> mk_kid key = rc_kid r \<and>
    ps_getCampaign (src s) (rc_campaignId r) = Inr (Some p) \<and> cg_status (cp_campaign p) = C_active \<and>
    cg_merchantId (cp_campaign p) = rc_merchantId r \<and>
    ps_getCampaignVersion (src s) (rc_campaignId r) (rc_campaignVersion r) = Inr (Some w) \<and>
    terms_of_campaign env (cp_campaign p) (rc_campaignVersion r) w \<and> cv_termsHash w = rc_campaignTermsHash r \<and>
    version_errors (Some w) r = [] \<and> evaluateSelfReferralPolicy (self_referral_of (Some m) w r) = None \<and>
    ps_getRoute (src s) k = Some rt \<and> route_errors h rt r = [] \<and> rc_referrerWallet r = Some (rt_referrerWallet rt) \<and>
    version_backed env rt rv \<and> rt_id rt = k \<and> rc_referralClaimHash r = Some (rv_claimHash rv) \<and>
    rc_payoutWallet r = Some (rv_payoutWallet rv) \<and> rv_campaignVersionMin rv \<le> rc_campaignVersion r"
proof -
  obtain me p vo where me: "merchant_errors (src s) r = Inr me" and p: "ps_getCampaign (src s) (rc_campaignId r) = Inr p"
    and vo: "ps_getCampaignVersion (src s) (rc_campaignId r) (rc_campaignVersion r) = Inr vo"
    using assms(2) by (auto simp: policyVerify_def and_then_Inr)
  have some: "ps_getRoute (src s) k \<noteq> None"
    using assms(2-4) me p vo by (cases "ps_getRoute (src s) k") (auto simp: policyVerify_def result_of_def Let_def)
  then obtain rt where rt: "ps_getRoute (src s) k = Some rt" by blast
  obtain vs where vs: "ps_listRouteVersions (src s) k = Inr vs"
    using assms(2,4) me p vo rt by (auto simp: policyVerify_def and_then_Inr Let_def)
  have none: "me = []" "campaign_errors p r = []" "version_errors vo r = []" "route_errors h rt r = []" "route_version_errors vs r = []"
    "expectReceiptField ''referrerWallet'' (rc_referrerWallet r) (Some (rt_referrerWallet rt)) = []"
    "self_referral_errors (ps_getMerchantProfile (src s) (rc_merchantId r)) vo r = []"
    using assms(2-4) me p vo rt vs by (auto simp: policyVerify_def result_of_def Let_def)
  obtain m key where m: "ps_getMerchantProfile (src s) (rc_merchantId r) = Some m" "mr_status (mp_merchant m) = M_active"
      "\<exists>origin \<in> set (mp_origins m). mo_origin origin = rc_merchantOrigin r \<and> mo_status origin = O_verified"
    and key: "ps_resolveKey (src s) (receipt_key_query r) = Inr (Some key)"
    using me none(1) by (auto simp: merchant_errors_def error_if_def and_then_Inr list_ex_iff split: option.splits if_splits)
  obtain c where c: "p = Some c" "cg_merchantId (cp_campaign c) = rc_merchantId r" "cg_status (cp_campaign c) = C_active"
    using none(2) by (auto simp: campaign_errors_def error_if_def split: option.splits if_splits)
  obtain w where w: "vo = Some w" "cv_termsHash w = rc_campaignTermsHash r"
    using none(3) by (auto simp: version_errors_def error_if_def Let_def split: option.splits if_splits)
  obtain rv where f: "List.find (\<lambda>v. Some (rv_claimHash v) = rc_referralClaimHash r) vs = Some rv"
    and rv: "rv_campaignVersionMin rv \<le> rc_campaignVersion r" "rc_payoutWallet r = Some (rv_payoutWallet rv)"
    using none(5) by (auto simp: route_version_errors_def error_if_def expectReceiptField_def split: option.splits if_splits)
  have rv': "rv \<in> set vs" "rc_referralClaimHash r = Some (rv_claimHash rv)"
    using f by (auto simp: find_Some_iff)
  note backed = route_backed [OF assms(1) rt vs rv'(1)]
  have self: "evaluateSelfReferralPolicy (self_referral_of (Some m) w r) = None"
    using none(7) by (simp add: self_referral_errors_def w(1) m(1) split: option.splits)
  have wallet: "rc_referrerWallet r = Some (rt_referrerWallet rt)"
    using none(6) by (simp add: expectReceiptField_def error_if_def split: if_splits)
  have terms: "terms_of_campaign env (cp_campaign c) (rc_campaignVersion r) w"
    using version_terms [OF assms(1)] p vo c(1) w(1) by blast
  have kf: "mk_merchantId key = rc_merchantId r" "mk_kid key = rc_kid r"
    using resolved_key [OF assms(1) key] by (simp_all add: receipt_key_query_def)
  show ?thesis
    using m key kf p vo c w terms none(3,4) self rt wallet backed rv rv'(2) by blast
qed

end

section \<open>The in-memory registries\<close>

definition registries_ok :: "registry_env \<Rightarrow> registries \<Rightarrow> bool" where
  "registries_ok env g \<longleftrightarrow> registry_ok (reg_merchants g) \<and> campaigns_ok env (reg_campaigns g) \<and> routes_ok env (reg_routes g)"

lemma campaign_found:
  assumes "campaigns_ok env s" "map_get (campaigns s) k = Some c"
  shows "\<exists>v. profile_of s c = Inr \<lparr>cp_campaign = c, cp_current = v\<rparr>" "cg_id c = k"
proof -
  have e: "entry_ok env k c (versions_of s k)" using assms by (simp add: campaigns_ok_def)
  show "cg_id c = k" using e by (simp add: entry_ok_def)
  then have "map_get (versions_of s (cg_id c)) (cg_currentVersion c) \<noteq> None" using e by (simp add: entry_ok_def)
  then show "\<exists>v. profile_of s c = Inr \<lparr>cp_campaign = c, cp_current = v\<rparr>" by (auto simp: profile_of_def)
qed

interpretation reg: policy_registries env "registry_sources env clock" "registries_ok env" for env clock
proof unfold_locales
  fix g q key
  assume "registries_ok env g" "ps_resolveKey (registry_sources env clock g) q = Inr (Some key)"
  then show "mk_merchantId key = rk_merchantId q \<and> mk_kid key = rk_kid q"
    unfolding registries_ok_def registry_ok_def registry_keyed_def by (auto simp: registry_sources_def resolveKey_Some dest: keyedD)
next
  fix g k
  assume ok: "registries_ok env g"
  show "\<exists>p. ps_getCampaign (registry_sources env clock g) k = Inr p"
  proof (cases "map_get (campaigns (reg_campaigns g)) k")
    case (Some c)
    then show ?thesis using campaign_found(1) [OF _ Some, of env] ok by (auto simp: registries_ok_def registry_sources_def getCampaign_def)
  qed (simp add: registry_sources_def getCampaign_def)
next
  fix g n k
  assume "registries_ok env g" "0 < (n :: int)"
  then show "\<exists>v. ps_getCampaignVersion (registry_sources env clock g) k n = Inr v"
    by (simp add: registry_sources_def getCampaignVersion_def assertPositiveVersion_def)
next
  fix g k p n v
  assume a: "registries_ok env g" "ps_getCampaign (registry_sources env clock g) k = Inr (Some p)"
    "ps_getCampaignVersion (registry_sources env clock g) k n = Inr (Some v)"
  let ?s = "reg_campaigns g"
  have ok: "campaigns_ok env ?s" using a(1) by (simp add: registries_ok_def)
  obtain c where c: "map_get (campaigns ?s) k = Some c"
    using a(2) by (auto simp: registry_sources_def getCampaign_def split: option.splits)
  obtain cur where "profile_of ?s c = Inr \<lparr>cp_campaign = c, cp_current = cur\<rparr>" using campaign_found(1) [OF ok c] by blast
  then have p: "cp_campaign p = c" using a(2) c by (auto simp: registry_sources_def getCampaign_def)
  have v: "map_get (versions_of ?s k) n = Some v" using a(3) by (auto simp: registry_sources_def getCampaignVersion_def err_simps registry_simps)
  have e: "entry_ok env k c (versions_of ?s k)" using ok c by (simp add: campaigns_ok_def)
  have vok: "version_ok env k (cg_merchantId c) n v" using e v unfolding entry_ok_def by blast
  have sig: "cg_currentVersion c = n \<and> cg_status c = C_active \<longrightarrow> cv_merchantSignature v \<noteq> None"
    using e v unfolding entry_ok_def by blast
  show "cg_id (cp_campaign p) = k \<and> terms_of_campaign env (cp_campaign p) n v"
    using vok sig campaign_found(2) [OF ok c] by (simp add: p terms_of_campaign_def version_ok_def)
next
  fix g k
  assume "registries_ok env g" "id_regex k"
  then show "\<exists>vs. ps_listRouteVersions (registry_sources env clock g) k = Inr vs"
    by (simp add: registry_sources_def listRouteVersions_def registryId_def)
next
  fix g k rt vs v
  assume a: "registries_ok env g" "ps_getRoute (registry_sources env clock g) k = Some rt"
    "ps_listRouteVersions (registry_sources env clock g) k = Inr vs" "v \<in> set vs"
  obtain q where q: "map_get (routesById (reg_routes g)) k = Some q" "rt = cloneRoute q"
    using a(2) by (auto simp: registry_sources_def getRoute_def)
  have ok: "route_ok env k q (route_versions (reg_routes g) k)" using a(1) q(1) by (simp add: registries_ok_def routes_ok_def)
  obtain w where w: "w \<in> set (route_versions (reg_routes g) k)" "v = cloneRouteVersion w"
    using a(3,4) by (auto simp: registry_sources_def listRouteVersions_def and_then_Inr)
  have "\<forall>v \<in> set (route_versions (reg_routes g) k). \<exists>c. claim_backs env q v c" using ok by (simp add: route_ok_def)
  then obtain c where c: "claim_backs env q w c" using w(1) by blast
  have "cloneOperationScope (cl_operationIds c) = rt_operationIds rt"
    using c by (simp add: q(2) cloneRoute_def claim_backs_def) (metis clone_scope_idem)
  then show "rt_id rt = k \<and> version_backed env rt v"
    using c ok by (auto simp: version_backed_def claim_backs_def q(2) cloneRoute_def w(2) cloneRouteVersion_def route_ok_def)
qed

section \<open>An accrual and what is behind it\<close>

lemma ingest_created_snapshot:
  assumes "ingest env ops r source s = (Inr (Created sn), s')"
  shows "\<exists>hash. createSnapshot env r hash source = Inr sn"
proof -
  have fail: "after_failed_save ops r h e t \<noteq> Inr (Created x)" for h e t x
    by (auto simp: after_failed_save_def findConflict_def split: option.splits)
  show ?thesis using assms fail unfolding ingest_def
    by (auto simp: findConflict_def split: if_splits sum.splits option.splits prod.splits)
qed

lemma no_self_referral:
  assumes "evaluateSelfReferralPolicy i = None" "sr_referrerWallet i = Some w" "sr_payoutWallet i = Some p"
    "sr_merchantOwnerWallet i = Some m"
  shows "sr_allowSelfReferral i \<or> (sr_payerWallet i \<notin> {w, p} \<and> m \<notin> {w, p})"
  using assms by (auto simp: evaluateSelfReferralPolicy_def split: if_splits)

lemma version_errors_None:
  assumes "version_errors (Some w) r = []" "rc_routeId r \<noteq> None"
  shows "rc_asset r = ct_asset (cv_terms w) \<and> rc_network r = ct_network (cv_terms w) \<and> rc_payToWallet r = ct_payToWallet (cv_terms w) \<and>
    rc_requiredAmountAtomic r = ct_requiredAmountAtomic (cv_terms w) \<and> rc_commissionBps r = ct_commissionBps (cv_terms w) \<and>
    rc_protocolFeeBpsOfCommission r = ct_protocolFeeBpsOfCommission (cv_terms w) \<and>
    (\<exists>operation \<in> set (ct_operations (cv_terms w)). op_operationId operation = rc_operationId r)"
  using assms by (auto simp: version_errors_def Let_def expectReceiptField_def error_if_def list_ex_iff split: if_splits)

definition commission_due :: "campaign_terms \<Rightarrow> int" where
  "commission_due t = (let com = (amount_of (ct_requiredAmountAtomic t) * ct_commissionBps t) div 10000
     in com - (com * ct_protocolFeeBpsOfCommission t) div 10000)"

text \<open>C35. Every accrual has its signatures behind it: when ingestion, wired to registries that can be
  reached, with their key resolver and the policy verifier, books an accrual, then the receipt is signed
  with a service key of the accrual's merchant, who is active with the receipt's origin verified; the
  campaign is active and belongs to that merchant, the amount is exactly what the hashed terms of the
  version named by the receipt give, which, if the version is the current one, carry the merchant's
  signature; the referrer signed a claim for this route, campaign and payout wallet; and unless the
  terms allow it, neither payer nor merchant owner is the referrer or the payout wallet.\<close>

theorem accrual_backed_by_signatures:
  assumes "(merchant_step renv)\<^sup>*\<^sup>* empty_merchants (reg_merchants g)" "(campaign_step renv)\<^sup>*\<^sup>* empty_campaigns (reg_campaigns g)"
    "(route_step renv issues)\<^sup>*\<^sup>* empty_routes (reg_routes g)"
    and "createMerchantReceiptKeyResolver (resolveKey (rg_host renv) clock (reg_merchants g)) r = Inr (ie_resolveMerchantPublicKey env r)"
    and "ie_policyVerifier env = Some verify" "policyVerify (rg_host renv) (registry_sources renv clock g) r = Inr (verify r)"
    and "ingest env ops r source s = (Inr (Created sn), s')" "sn_accrual sn = Some a"
  shows "\<exists>m key c w claim. getMerchantProfile (rg_host renv) (reg_merchants g) (ac_merchantId a) = Some m \<and>
    mr_status (mp_merchant m) = M_active \<and>
    (\<exists>origin \<in> set (mp_origins m). mo_origin origin = rc_merchantOrigin r \<and> mo_status origin = O_verified) \<and>
    map_get (keysByKid (reg_merchants g)) (rc_kid r) = Some key \<and> mk_merchantId key = ac_merchantId a \<and>
    receipt_signed_by (ie_ed env) (mk_publicKey key) r \<and>
    getCampaign (reg_campaigns g) (ac_campaignId a) = Inr (Some c) \<and> cg_status (cp_campaign c) = C_active \<and>
    cg_merchantId (cp_campaign c) = ac_merchantId a \<and>
    getCampaignVersion (reg_campaigns g) (ac_campaignId a) (rc_campaignVersion r) = Inr (Some w) \<and>
    hashProtocolObject (rg_sha256 renv) (JObj (terms_members (cv_terms w))) = Inr (rc_campaignTermsHash r) \<and>
    (cg_currentVersion (cp_campaign c) = rc_campaignVersion r \<longrightarrow> version_signed (rg_ed renv) w) \<and>
    ac_asset a = ct_asset (cv_terms w) \<and> accrual_amount a = commission_due (cv_terms w) \<and>
    claim_verified renv claim \<and> cl_routeId claim = ac_routeId a \<and> cl_campaignId claim = ac_campaignId a \<and>
    cl_referrerWallet claim = ac_referrerWallet a \<and> cl_payoutWallet claim = ac_payoutWallet a \<and>
    cl_campaignVersionMin claim \<le> rc_campaignVersion r \<and>
    (ct_allowSelfReferral (cv_terms w) \<or>
       (rc_payerWallet r \<notin> {ac_referrerWallet a, ac_payoutWallet a} \<and>
        mr_ownerWallet (mp_merchant m) \<notin> {ac_referrerWallet a, ac_payoutWallet a}))"
proof -
  have ok: "registries_ok renv g"
    using merchant_run_ok [OF assms(1) empty_registry_ok] campaign_run_ok [OF assms(2) empty_campaigns_ok]
      route_run_ok [OF assms(3) empty_routes_ok] by (simp add: registries_ok_def)
  from ingest_created [OF assms(7)] have schema: "receipt_schema (ie_zod env) r" and adm: "admitted env r" by blast+
  obtain key where key: "ie_resolveMerchantPublicKey env r = Some key" "receipt_signed_by (ie_ed env) key r"
    and sums: "receipt_sums_ok r" and v: "vr_ok (verify r)"
    using adm unfolding admitted_iff [OF schema] assms(5) by auto
  obtain hash where "createSnapshot env r hash source = Inr sn" using ingest_created_snapshot [OF assms(7)] by blast
  then have acc: "createAccrual env r (ie_now env) = Inr (Some a)" using assms(8) by (auto simp: createSnapshot_def and_then_Inr)
  obtain x where x: "createAccrual env r (ie_now env) = Inr x" "x = None \<longleftrightarrow> rc_routeId r = None \<or> amount_of (rc_referrerCreditAtomic r) = 0"
    "\<forall>b. x = Some b \<longrightarrow> ac_merchantId b = rc_merchantId r \<and> Some (ac_routeId b) = rc_routeId r \<and> Some (ac_referrerWallet b) = rc_referrerWallet r \<and>
       Some (ac_payoutWallet b) = rc_payoutWallet r \<and> ac_asset b = rc_asset r \<and> ac_amountAtomic b = rc_referrerCreditAtomic r"
    using createAccrual_facts [OF schema sums, of env "ie_now env"] by blast
  then have a: "ac_merchantId a = rc_merchantId r" "rc_routeId r = Some (ac_routeId a)" "rc_referrerWallet r = Some (ac_referrerWallet a)"
    "rc_payoutWallet r = Some (ac_payoutWallet a)" "ac_asset a = rc_asset r" "ac_amountAtomic a = rc_referrerCreditAtomic r" using acc by auto
  have camp: "ac_campaignId a = rc_campaignId r" using acc by (auto simp: createAccrual_def and_then_Inr split: option.splits if_splits)
  obtain m p w rt rv k where
    m: "getMerchantProfile (rg_host renv) (reg_merchants g) (rc_merchantId r) = Some m" "mr_status (mp_merchant m) = M_active"
      "\<exists>origin \<in> set (mp_origins m). mo_origin origin = rc_merchantOrigin r \<and> mo_status origin = O_verified"
    and k: "resolveKey (rg_host renv) clock (reg_merchants g) (receipt_key_query r) = Inr (Some k)"
    and p: "getCampaign (reg_campaigns g) (rc_campaignId r) = Inr (Some p)" "cg_status (cp_campaign p) = C_active"
      "cg_merchantId (cp_campaign p) = rc_merchantId r"
    and w: "getCampaignVersion (reg_campaigns g) (rc_campaignId r) (rc_campaignVersion r) = Inr (Some w)"
      "terms_of_campaign renv (cp_campaign p) (rc_campaignVersion r) w" "cv_termsHash w = rc_campaignTermsHash r"
      "version_errors (Some w) r = []" "evaluateSelfReferralPolicy (self_referral_of (Some m) w r) = None"
    and rt: "route_errors (rg_host renv) rt r = []" "rc_referrerWallet r = Some (rt_referrerWallet rt)" "rt_id rt = ac_routeId a"
    and rv: "version_backed renv rt rv" "rc_payoutWallet r = Some (rv_payoutWallet rv)" "rv_campaignVersionMin rv \<le> rc_campaignVersion r"
    using reg.attribution_backed [OF ok assms(6) v a(2) schema] unfolding registry_sources_def policy_sources.select_convs by blast
  have kk: "map_get (keysByKid (reg_merchants g)) (rc_kid r) = Some k" "mk_merchantId k = rc_merchantId r"
    using k by (simp_all add: resolveKey_Some receipt_key_query_def)
  have pk: "mk_publicKey k = key" using assms(4) key(1) k by (simp add: createMerchantReceiptKeyResolver_def receipt_key_query_def)
  have terms: "hashProtocolObject (rg_sha256 renv) (JObj (terms_members (cv_terms w))) = Inr (rc_campaignTermsHash r)"
    "cg_currentVersion (cp_campaign p) = rc_campaignVersion r \<longrightarrow> version_signed (rg_ed renv) w"
    using w(2,3) p(2) by (simp_all add: terms_of_campaign_def)
  note same = version_errors_None [OF w(4)]
  have amount: "accrual_amount a = commission_due (cv_terms w)"
    using sums same a(2,6) by (simp add: accrual_amount_def receipt_sums_ok_def commission_due_def Let_def)
  have campaign: "rt_campaignId rt = rc_campaignId r" using rt(1) by (auto simp: route_errors_def error_if_def split: if_splits)
  obtain c where c: "claim_verified renv c" "cl_routeId c = rt_id rt" "cl_campaignId c = rt_campaignId rt"
    "cl_campaignVersionMin c = rv_campaignVersionMin rv" "cl_referrerWallet c = rt_referrerWallet rt" "cl_payoutWallet c = rv_payoutWallet rv"
    using rv(1) unfolding version_backed_def by blast
  have self: "ct_allowSelfReferral (cv_terms w) \<or> (rc_payerWallet r \<notin> {ac_referrerWallet a, ac_payoutWallet a} \<and>
        mr_ownerWallet (mp_merchant m) \<notin> {ac_referrerWallet a, ac_payoutWallet a})"
    using no_self_referral [OF w(5), of "ac_referrerWallet a" "ac_payoutWallet a" "mr_ownerWallet (mp_merchant m)"] a(3,4)
    by (simp add: self_referral_of_def)
  have claim: "cl_routeId c = ac_routeId a" "cl_campaignId c = rc_campaignId r" "cl_referrerWallet c = ac_referrerWallet a"
    "cl_payoutWallet c = ac_payoutWallet a" "cl_campaignVersionMin c \<le> rc_campaignVersion r"
    using c rt rv campaign a(3,4) by simp_all
  show ?thesis unfolding a(1) camp
    by (rule exI [of _ m], rule exI [of _ k], rule exI [of _ p], rule exI [of _ w], rule exI [of _ c], intro conjI)
      (use m kk key(2) pk p w(1) terms amount self c(1) claim same a(2,5) in simp_all)
qed

text \<open>A shop with a verified origin and a service key, an active campaign, a route, and a receipt for it.\<close>

definition toy_shop :: merchant_registry where
  "toy_shop = toy_registry\<lparr>originsByMerchantId := [(''mrc_'' @ replicate 32 (CHR ''1''), [(''o'',
       \<lparr>mo_merchantId = ''mrc_'' @ replicate 32 (CHR ''1''), mo_origin = ''o'', mo_verificationMethod = Well_known,
        mo_status = O_verified, mo_verifiedAt = Some ''Z'', mo_createdAt = ''Z''\<rparr>)])],
     keysByKid := [(''k1'', toy_key\<lparr>mk_publicKey := toy_wallet\<rparr>)]\<rparr>"

definition toy_origin_input :: add_origin_input where
  "toy_origin_input = \<lparr>ao_merchantId = ''mrc_'' @ replicate 32 (CHR ''1''), ao_origin = ''o'', ao_verificationMethod = None,
     ao_status = Some O_verified, ao_verifiedAt = Some ''Z''\<rparr>"

definition toy_receipt_base :: receipt where
  "toy_receipt_base = sample_receipt\<lparr>rc_merchantId := ''mrc_'' @ replicate 32 (CHR ''1''), rc_merchantOrigin := ''o'',
     rc_operationId := ''q'', rc_campaignId := ''cmp_'' @ replicate 32 (CHR ''1''),
     rc_routeId := Some (''rte_'' @ replicate 32 (CHR ''1'')),
     rc_referrerWallet := Some toy_wallet, rc_payoutWallet := Some toy_wallet, rc_network := ''n'',
     rc_asset := replicate 32 (CHR ''A''), rc_payToWallet := replicate 32 (CHR ''B''), rc_commissionBps := 100,
     rc_protocolFeeBpsOfCommission := 0, rc_commissionAmountAtomic := ''10'', rc_protocolFeeAtomic := ''0'',
     rc_referrerCreditAtomic := ''10'', rc_issuedAt := ''Z''\<rparr>"

definition toy_receipt :: "string \<Rightarrow> string \<Rightarrow> receipt" where
  "toy_receipt termsHash claimHash = toy_receipt_base\<lparr>rc_campaignTermsHash := termsHash, rc_referralClaimHash := Some claimHash\<rparr>"

lemma toy_shop_steps:
  "addOrigin toy_env ''Z'' toy_origin_input (toy_registry\<lparr>keysByKid := []\<rparr>) =
     Inr (\<lparr>mo_merchantId = ''mrc_'' @ replicate 32 (CHR ''1''), mo_origin = ''o'', mo_verificationMethod = Well_known,
        mo_status = O_verified, mo_verifiedAt = Some ''Z'', mo_createdAt = ''Z''\<rparr>, toy_shop\<lparr>keysByKid := []\<rparr>)"
  "addKey toy_host ''Z'' (toy_key_input\<lparr>ak_publicKey := toy_wallet\<rparr>) (toy_shop\<lparr>keysByKid := []\<rparr>) =
     Inr (toy_key\<lparr>mk_publicKey := toy_wallet\<rparr>, toy_shop)"
  by code_simp+

lemma route_env_like: "toy_like route_env"
  by (simp add: toy_like_def route_env_def toy_env_def)

lemma route_env_origin: "addOrigin route_env = addOrigin toy_env"
  by (simp add: addOrigin_def [abs_def] route_env_def assertUrlOrigin_def [abs_def])

lemma toy_shop_reached: "(merchant_step route_env)\<^sup>*\<^sup>* empty_merchants toy_shop"
proof -
  let ?s = "toy_registry\<lparr>keysByKid := []\<rparr>" and ?t = "toy_shop\<lparr>keysByKid := []\<rparr>"
  have "merchant_step route_env empty_merchants ?s" by (rule merchant_created [OF toy_created(1)])
  moreover have "merchant_step route_env ?s ?t"
    by (rule merchant_step.origin_added) (simp add: route_env_origin, rule toy_shop_steps(1))
  moreover have "merchant_step route_env ?t toy_shop"
    by (rule merchant_step.key_added) (simp, rule toy_shop_steps(2))
  ultimately show ?thesis by (meson converse_rtranclp_into_rtranclp r_into_rtranclp)
qed

lemma receipt_schema_hashes:
  assumes "receipt_schema z r" "rc_referralClaimHash r \<noteq> None" "sha256_regex h1" "sha256_regex h2"
  shows "receipt_schema z (r\<lparr>rc_campaignTermsHash := h1, rc_referralClaimHash := Some h2\<rparr>)"
proof -
  have together: "route_fields_together (r\<lparr>rc_campaignTermsHash := h1, rc_referralClaimHash := Some h2\<rparr>) = route_fields_together r"
    using assms(2) by (simp add: route_fields_together_def)
  show ?thesis
    using assms(1,3,4) unfolding receipt_schema_def together receipt.simps opt_all_simps by (elim conjE, intro conjI) (simp_all (no_asm_simp) del: insert_iff)
qed

lemma toy_receipt_schema:
  assumes "sha256_regex h1" "sha256_regex h2"
  shows "receipt_schema any_zod (toy_receipt h1 h2)"
proof -
  have ok: "receipt_schema any_zod toy_receipt_base" by code_simp
  have "rc_referralClaimHash toy_receipt_base \<noteq> None" by (simp add: toy_receipt_base_def sample_receipt_def)
  from receipt_schema_hashes [OF ok this assms] show ?thesis by (simp add: toy_receipt_def)
qed

lemma toy_receipt_sums: "receipt_sums_ok (toy_receipt h1 h2)"
  by code_simp

lemma toy_receipt_signed: "receipt_signed_by (rg_ed route_env) toy_wallet (toy_receipt h1 h2)"
proof -
  obtain m where m: "buildReceiptSigningBytes (toy_receipt h1 h2) = Inr m" using receipt_bytes_total by blast
  have "rc_signature (toy_receipt h1 h2) = sg_value toy_signature" "sg_publicKey toy_signature = toy_wallet"
    by (simp_all add: toy_receipt_def toy_receipt_base_def sample_receipt_def toy_signature_def)
  then show ?thesis using toy_accepts [of m] by (simp add: receipt_signed_by_def m)
qed

lemma toy_route_reached:
  "\<exists>s r v h. (route_step route_env (\<lambda>_. []))\<^sup>*\<^sup>* empty_routes s \<and> getRoute s (''rte_'' @ replicate 32 (CHR ''1'')) = Some r \<and>
     listRouteVersions s (''rte_'' @ replicate 32 (CHR ''1'')) = Inr [v] \<and> rv_claimHash v = h \<and> sha256_regex h \<and>
     rv_payoutWallet v = toy_wallet \<and> rv_campaignVersionMin v = 1 \<and> rt_referrerWallet r = toy_wallet \<and>
     route_errors toy_host r (toy_receipt t h) = []"
proof -
  let ?c = "toy_claim [''q'']" and ?k = "''rte_'' @ replicate 32 (CHR ''1'')"
  obtain m h where m: "buildReferralClaimSigningBytes ?c = Inr m"
    and h: "hashProtocolObject (rg_sha256 route_env) (JObj (claim_members ?c)) = Inr h"
    using claim_bytes_total claim_hash_total by blast
  have c: "cl_routeId ?c = ?k" "cl_payoutWallet ?c = toy_wallet" "cl_referrerWallet ?c = toy_wallet" "cl_campaignVersionMin ?c = 1"
    "cl_campaignId ?c = ''cmp_'' @ replicate 32 (CHR ''1'')" "cl_resourceOrigin ?c = ''o''" "cl_operationIds ?c = [''q'']"
    "cl_issuedAt ?c = ''Z''" "cl_expiresAt ?c = ''ZZ''"
    by (simp_all add: toy_claim_def signed_claim_def toy_unsigned_def)
  have e: "\<not> date_le (rg_host route_env) (cl_expiresAt ?c) ''Z''" unfolding c by (simp add: date_le_def toy_host_def)
  have n: "map_get (routesById empty_routes) (cl_routeId ?c) = None" "map_get (routeIdByClaimHash empty_routes) h = None"
    by (simp_all add: empty_routes_def)
  have ver: "claim_verified route_env ?c" by (rule toy_claim_verified) simp
  note a = activate_new [OF ver h e n m, where issues = "\<lambda>_. []" and now = "''Z''"]
  let ?r = "route_of_claim ?c h (bytesToHex m) ''Z''"
  let ?v = "createRouteVersionRecord ?r ?c 1 ''Z''"
  let ?s = "put_route (cl_routeId ?c) h ?r [?v] empty_routes"
  have run: "(route_step route_env (\<lambda>_. []))\<^sup>*\<^sup>* empty_routes ?s" by (rule r_into_rtranclp) (rule route_activated [OF a])
  have idk: "id_regex ?k" by code_simp
  have g: "getRoute ?s ?k = Some (cloneRoute ?r)" unfolding c(1) by (simp add: getRoute_def)
  have l: "listRouteVersions ?s ?k = Inr [cloneRouteVersion ?v]"
    unfolding listRouteVersions_def registryId_def using idk by (simp add: c(1))
  have v: "rv_claimHash (cloneRouteVersion ?v) = h" "rv_payoutWallet (cloneRouteVersion ?v) = toy_wallet"
    "rv_campaignVersionMin (cloneRouteVersion ?v) = 1"
    by (simp_all add: cloneRouteVersion_def createRouteVersionRecord_def route_of_claim_def c)
  have "rt_referrerWallet (cloneRoute ?r) = toy_wallet" by (simp add: cloneRoute_def route_of_claim_def c)
  moreover have "route_errors toy_host (cloneRoute ?r) (toy_receipt t h) = []"
    by (simp add: route_errors_def cloneRoute_def route_of_claim_def c error_if_def toy_receipt_def toy_receipt_base_def date_le_def date_less_def
        toy_host_def routeCoversOperation_def cloneOperationScope_def)
  moreover have "sha256_regex h" by (rule hash_regex [OF h]) (simp add: route_env_def toy_env_def)
  ultimately show ?thesis using run g l v by blast
qed

lemma toy_campaign_reached:
  "\<exists>s c v h. (campaign_step route_env)\<^sup>*\<^sup>* empty_campaigns s \<and>
     getCampaign s (''cmp_'' @ replicate 32 (CHR ''1'')) = Inr (Some \<lparr>cp_campaign = c, cp_current = v\<rparr>) \<and>
     cg_status c = C_active \<and> cg_merchantId c = ''mrc_'' @ replicate 32 (CHR ''1'') \<and>
     getCampaignVersion s (''cmp_'' @ replicate 32 (CHR ''1'')) 1 = Inr (Some v) \<and> cv_terms v = toy_terms \<and>
     cv_termsHash v = h \<and> sha256_regex h"
proof -
  let ?k = "''cmp_'' @ replicate 32 (CHR ''1'')"
  obtain m where m: "buildCampaignTermsSigningBytes toy_terms = Inr m"
    using terms_bytes_total(1) [of toy_terms] by (auto simp: toy_terms_def terms_of_input_def)
  have same: "ai_merchantPublicKey toy_activation = sg_publicKey toy_signature" "ai_merchantSignature toy_activation = sg_value toy_signature"
    by (simp_all add: toy_activation_def toy_signature_def toy_wallet_def)
  have "verifyCampaignTermsSignature (rg_ed route_env) toy_terms (ai_merchantPublicKey toy_activation) (ai_merchantSignature toy_activation)"
    using toy_accepts [of m] by (simp add: verifyCampaignTermsSignature_def m same safeVerify_def)
  from toy_campaign_runs [OF route_env_like this] obtain s c v where
    s: "(campaign_step route_env)\<^sup>*\<^sup>* empty_campaigns s" and c: "map_get (campaigns s) ?k = Some c" "cg_status c = C_active"
      "cg_currentVersion c = 1" "cg_merchantId c = ''mrc_'' @ replicate 32 (CHR ''1'')"
    and v: "map_get (versions_of s ?k) 1 = Some v" "cv_terms v = toy_terms" by (elim exE conjE)
  have ok: "campaigns_ok route_env s" by (rule campaign_run_ok [OF s empty_campaigns_ok])
  have id: "cg_id c = ?k" by (rule campaign_found(2) [OF ok c(1)])
  have g: "getCampaign s ?k = Inr (Some \<lparr>cp_campaign = c, cp_current = v\<rparr>)"
  proof -
    have "profile_of s c = Inr \<lparr>cp_campaign = c, cp_current = v\<rparr>" unfolding profile_of_def id c(3) v(1) by simp
    then show ?thesis unfolding getCampaign_def c(1) by simp
  qed
  have n: "getCampaignVersion s ?k 1 = Inr (Some v)"
    unfolding getCampaignVersion_def assertPositiveVersion_def v(1) by simp
  have "entry_ok route_env ?k c (versions_of s ?k)" using ok c(1) unfolding campaigns_ok_def by blast
  then have "version_ok route_env ?k (cg_merchantId c) 1 v" using v(1) unfolding entry_ok_def by blast
  then have "hashProtocolObject (rg_sha256 route_env) (JObj (terms_members (cv_terms v))) = Inr (cv_termsHash v)"
    unfolding version_ok_def by blast
  then have "sha256_regex (cv_termsHash v)" by (rule hash_regex) (simp add: route_env_def toy_env_def)
  then show ?thesis using s g c n v(2) by blast
qed

lemma toy_shop_answers:
  "getMerchantProfile toy_host toy_shop (''mrc_'' @ replicate 32 (CHR ''1'')) = Some \<lparr>mp_merchant = toy_merchant,
     mp_origins = [\<lparr>mo_merchantId = ''mrc_'' @ replicate 32 (CHR ''1''), mo_origin = ''o'', mo_verificationMethod = Well_known,
        mo_status = O_verified, mo_verifiedAt = Some ''Z'', mo_createdAt = ''Z''\<rparr>],
     mp_keys = [toy_key\<lparr>mk_publicKey := toy_wallet\<rparr>], mp_payoutWallets = []\<rparr>"
  "resolveKey toy_host ''Z'' toy_shop \<lparr>rk_merchantId = ''mrc_'' @ replicate 32 (CHR ''1''), rk_kid = ''k1'',
     rk_purpose = Some Offer_receipt, rk_at = Some ''Z''\<rparr> = Inr (Some (toy_key\<lparr>mk_publicKey := toy_wallet\<rparr>))"
  by code_simp+

lemma toy_receipt_fields:
  "receipt_key_query (toy_receipt t h) = \<lparr>rk_merchantId = ''mrc_'' @ replicate 32 (CHR ''1''), rk_kid = ''k1'',
     rk_purpose = Some Offer_receipt, rk_at = Some ''Z''\<rparr>"
  "rc_merchantId (toy_receipt t h) = ''mrc_'' @ replicate 32 (CHR ''1'')" "rc_merchantOrigin (toy_receipt t h) = ''o''"
  "rc_campaignId (toy_receipt t h) = ''cmp_'' @ replicate 32 (CHR ''1'')" "rc_campaignVersion (toy_receipt t h) = 1"
  "rc_routeId (toy_receipt t h) = Some (''rte_'' @ replicate 32 (CHR ''1''))" "rc_referralClaimHash (toy_receipt t h) = Some h"
  "rc_referrerWallet (toy_receipt t h) = Some toy_wallet" "rc_payoutWallet (toy_receipt t h) = Some toy_wallet"
  "rc_campaignTermsHash (toy_receipt t h) = t" "rc_referrerCreditAtomic (toy_receipt t h) = ''10''"
  by (simp_all add: receipt_key_query_def toy_receipt_def toy_receipt_base_def sample_receipt_def)

lemma toy_terms_match: "cv_terms v = toy_terms \<Longrightarrow> cv_termsHash v = t \<Longrightarrow> version_errors (Some v) (toy_receipt t h) = []"
  by (simp add: version_errors_def toy_terms_def terms_of_input_def toy_terms_input_def expectReceiptField_def error_if_def
      toy_receipt_def toy_receipt_base_def sample_receipt_def)

lemma toy_not_self: "cv_terms v = toy_terms \<Longrightarrow> mp_merchant m = toy_merchant \<Longrightarrow>
    evaluateSelfReferralPolicy (self_referral_of (Some m) v (toy_receipt t h)) = None"
proof -
  have ne: "replicate 32 (CHR ''D'') \<noteq> toy_wallet" "replicate 32 (CHR ''A'') \<noteq> toy_wallet" by code_simp+
  have f: "rc_payerWallet (toy_receipt t h) = replicate 32 (CHR ''D'')"
    by (simp add: toy_receipt_def toy_receipt_base_def sample_receipt_def)
  have o: "mr_ownerWallet toy_merchant = replicate 32 (CHR ''A'')" by (simp add: toy_merchant_def)
  show "cv_terms v = toy_terms \<Longrightarrow> mp_merchant m = toy_merchant \<Longrightarrow>
    evaluateSelfReferralPolicy (self_referral_of (Some m) v (toy_receipt t h)) = None"
    using ne by (simp add: evaluateSelfReferralPolicy_def self_referral_of_def f o toy_receipt_fields)
qed

lemma toy_policy_passes:
  "\<exists>g r. (merchant_step route_env)\<^sup>*\<^sup>* empty_merchants (reg_merchants g) \<and> (campaign_step route_env)\<^sup>*\<^sup>* empty_campaigns (reg_campaigns g) \<and>
     (route_step route_env (\<lambda>_. []))\<^sup>*\<^sup>* empty_routes (reg_routes g) \<and> reg_merchants g = toy_shop \<and>
     (\<exists>t h. r = toy_receipt t h) \<and> receipt_schema any_zod r \<and>
     policyVerify toy_host (registry_sources route_env ''Z'' g) r = Inr (result_of [])"
proof -
  obtain cs c v t where cs: "(campaign_step route_env)\<^sup>*\<^sup>* empty_campaigns cs"
    and c: "getCampaign cs (''cmp_'' @ replicate 32 (CHR ''1'')) = Inr (Some \<lparr>cp_campaign = c, cp_current = v\<rparr>)"
      "cg_status c = C_active" "cg_merchantId c = ''mrc_'' @ replicate 32 (CHR ''1'')"
    and v: "getCampaignVersion cs (''cmp_'' @ replicate 32 (CHR ''1'')) 1 = Inr (Some v)" "cv_terms v = toy_terms" "cv_termsHash v = t"
    and t: "sha256_regex t" using toy_campaign_reached by (elim exE conjE)
  obtain rs rt rv h where rs: "(route_step route_env (\<lambda>_. []))\<^sup>*\<^sup>* empty_routes rs"
    and rt: "getRoute rs (''rte_'' @ replicate 32 (CHR ''1'')) = Some rt" "rt_referrerWallet rt = toy_wallet"
      "route_errors toy_host rt (toy_receipt t h) = []"
    and rv: "listRouteVersions rs (''rte_'' @ replicate 32 (CHR ''1'')) = Inr [rv]" "rv_claimHash rv = h" "rv_payoutWallet rv = toy_wallet"
      "rv_campaignVersionMin rv = 1"
    and h: "sha256_regex h" using toy_route_reached [of t] by (elim exE conjE)
  let ?g = "\<lparr>reg_merchants = toy_shop, reg_campaigns = cs, reg_routes = rs\<rparr>" and ?r = "toy_receipt t h"
  let ?src = "registry_sources route_env ''Z'' ?g"
  have src: "ps_getMerchantProfile ?src = getMerchantProfile toy_host toy_shop" "ps_resolveKey ?src = resolveKey toy_host ''Z'' toy_shop"
    "ps_getCampaign ?src = getCampaign cs" "ps_getCampaignVersion ?src = getCampaignVersion cs" "ps_getRoute ?src = getRoute rs"
    "ps_listRouteVersions ?src = listRouteVersions rs" by (simp_all add: registry_sources_def)
  have me: "merchant_errors ?src ?r = Inr []"
    unfolding merchant_errors_def src toy_receipt_fields toy_shop_answers by (simp add: error_if_def toy_merchant_def)
  have ce: "campaign_errors (Some \<lparr>cp_campaign = c, cp_current = v\<rparr>) ?r = []"
    unfolding campaign_errors_def by (simp add: c(2,3) toy_receipt_fields error_if_def)
  have nonce: "rc_offerNonce ?r \<noteq> []" by (simp add: toy_receipt_def toy_receipt_base_def sample_receipt_def)
  have rve: "route_version_errors [rv] ?r = []"
    by (simp add: route_version_errors_def rv(2-4) toy_receipt_fields error_if_def expectReceiptField_def)
  have we: "expectReceiptField ''referrerWallet'' (Some toy_wallet) (Some (rt_referrerWallet rt)) = []"
    by (simp add: expectReceiptField_def error_if_def rt(2))
  have se: "self_referral_errors (getMerchantProfile toy_host toy_shop (''mrc_'' @ replicate 32 (CHR ''1''))) (Some v) ?r = []"
    unfolding toy_shop_answers self_referral_errors_def by (simp add: toy_not_self [OF v(2)])
  have "policyVerify toy_host ?src ?r = Inr (result_of [])"
    unfolding policyVerify_def me src toy_receipt_fields c(1) v(1)
    by (simp only: and_then.simps ce toy_terms_match [OF v(2,3)] nonce Let_def option.case rt(1,3) rv(1) rve we se length_0_conv
        error_if_def if_False append_Nil append_Nil2)
  moreover have "receipt_schema any_zod ?r" by (rule toy_receipt_schema [OF t h])
  ultimately show ?thesis using toy_shop_reached cs rs
    by (intro exI [of _ ?g] exI [of _ ?r]) auto
qed

theorem accrual_backed_by_signatures_witness:
  "\<exists>g r env sn s' a claim. ingest env in_memory r From_buyer empty_store = (Inr (Created sn), s') \<and> sn_accrual sn = Some a \<and>
     policyVerify toy_host (registry_sources route_env ''Z'' g) r = Inr (result_of []) \<and>
     claim_verified route_env claim \<and> cl_payoutWallet claim = ac_payoutWallet a \<and> accrual_amount a = 10"
proof -
  obtain g r t h where g: "(merchant_step route_env)\<^sup>*\<^sup>* empty_merchants (reg_merchants g)" "(campaign_step route_env)\<^sup>*\<^sup>* empty_campaigns (reg_campaigns g)"
     "(route_step route_env (\<lambda>_. []))\<^sup>*\<^sup>* empty_routes (reg_routes g)" "reg_merchants g = toy_shop"
    and r: "r = toy_receipt t h" "receipt_schema any_zod r"
    and pol: "policyVerify toy_host (registry_sources route_env ''Z'' g) r = Inr (result_of [])"
    using toy_policy_passes by (elim exE conjE)
  let ?env = "\<lparr>ie_sha256 = rg_sha256 route_env, ie_ed = rg_ed route_env, ie_zod = any_zod, ie_issues = (\<lambda>_. []),
     ie_resolveMerchantPublicKey = (\<lambda>_. Some toy_wallet), ie_policyVerifier = Some (\<lambda>_. result_of []), ie_now = ''Z'', ie_idFactory = None\<rparr>"
  have schema: "receipt_schema (ie_zod ?env) r" using r(2) by simp
  obtain hash where hash: "receipt_hash ?env r = Inr hash" using receipt_hash_total by blast
  have un: "unseen in_memory r hash empty_store"
    unfolding unseen_in_memory [OF empty_store_ok] by (simp add: empty_store_def getByReceiptId_def)
  have "admitted ?env r"
    unfolding admitted_iff [OF schema] using toy_receipt_signed toy_receipt_sums by (simp add: r(1) result_of_def)
  with ingest_unseen [OF schema hash un, of From_buyer] obtain sn where
    sn: "ingest ?env in_memory r From_buyer empty_store = (Inr (Created sn), save sn empty_store)" "snapshot_books sn" "rr_receipt (sn_receipt sn) = r"
    by (auto simp: in_memory_def)
  have credit: "amount_of (rc_referrerCreditAtomic r) = 10" unfolding r(1) toy_receipt_fields by code_simp
  have "rc_routeId r \<noteq> None" "amount_of (rc_referrerCreditAtomic r) \<noteq> 0" using credit by (simp_all add: r(1) toy_receipt_fields)
  then have "sn_accrual sn \<noteq> None" using sn(2) [unfolded snapshot_books_def Let_def sn(3), THEN conjunct2, THEN conjunct2, THEN conjunct1] by simp
  then obtain a where a: "sn_accrual sn = Some a" by blast
  then have amount: "accrual_amount a = 10" using sn(2) credit by (simp add: snapshot_books_def Let_def sn(3))
  have key: "createMerchantReceiptKeyResolver (resolveKey (rg_host route_env) ''Z'' (reg_merchants g)) r = Inr (ie_resolveMerchantPublicKey ?env r)"
    using toy_shop_answers(2) by (simp add: createMerchantReceiptKeyResolver_def g(4) r(1) toy_receipt_def toy_receipt_base_def sample_receipt_def)
  have "ie_policyVerifier ?env = Some (\<lambda>_. result_of [])" "policyVerify (rg_host route_env) (registry_sources route_env ''Z'' g) r = Inr (result_of [])"
    using pol by simp_all
  from accrual_backed_by_signatures [OF g(1-3) key this sn(1) a]
  have "\<exists>claim. claim_verified route_env claim \<and> cl_payoutWallet claim = ac_payoutWallet a" by blast
  then show ?thesis using sn(1) a pol amount by blast
qed

end
