(* ===== verification/Outbox.thy ===== *)
theory Outbox
  imports Canonical
begin

text \<open>
  The outbox of \<^verbatim>\<open>packages/control-plane/src\<close>: the records and the interface of \<^verbatim>\<open>index.ts\<close>
  (\<open>OutboxEventRecord\<close>, \<open>OutboxEventStore\<close>) and \<open>PostgresOutboxEventStore\<close> of \<^verbatim>\<open>postgres.ts\<close>. A
  \<open>timestamptz\<close> column is a time value in milliseconds, as the texts the code writes come from
  \<open>toISOString\<close>; a UUID is its text, which orders as its bytes do. Every method is one SQL statement,
  and one statement is one step. The rendering of a JSON value by the operator \<^verbatim>\<open>->>\<close> is a function
  of the database, \<open>jsonb_text\<close>. The interface is a locale, interpreted on these definitions.
\<close>

section \<open>Actions\<close>

text \<open>An \<open>async\<close> method works on the state of the stores and either throws or returns; what it did
  before it threw stays done.\<close>

type_synonym ('s, 'a) action = "'s \<Rightarrow> (string + 'a) \<times> 's"

definition returns :: "'a \<Rightarrow> ('s, 'a) action" where
  "returns x s = (Inr x, s)"

definition throws :: "string \<Rightarrow> ('s, 'a) action" where
  "throws e s = (Inl e, s)"

definition awaits :: "('s, 'a) action \<Rightarrow> ('a \<Rightarrow> ('s, 'b) action) \<Rightarrow> ('s, 'b) action" where
  "awaits f g s = (case f s of (Inl e, s') \<Rightarrow> (Inl e, s') | (Inr x, s') \<Rightarrow> g x s')"

named_theorems action_simps

lemma returns_simp [action_simps]: "returns x s = (Inr x, s)"
  by (simp add: returns_def)

lemma throws_simp [action_simps]: "throws e s = (Inl e, s)"
  by (simp add: throws_def)

lemma awaits_Inl [action_simps]: "f s = (Inl e, s') \<Longrightarrow> awaits f g s = (Inl e, s')"
  by (simp add: awaits_def)

lemma awaits_Inr [action_simps]: "f s = (Inr x, s') \<Longrightarrow> awaits f g s = g x s'"
  by (simp add: awaits_def)

lemma awaits_cases:
  assumes "awaits f g s = (r, s')"
  obtains (thrown) e where "f s = (Inl e, s')" "r = Inl e"
    | (went_on) x s1 where "f s = (Inr x, s1)" "g x s1 = (r, s')"
  using assms by (auto simp: awaits_def split: prod.splits sum.splits)

section \<open>Events and rows\<close>

datatype outbox_status = Pending_delivery | Processing | Delivered | Dead_letter

record outbox_event =
  oe_id :: string
  oe_eventType :: string
  oe_aggregateType :: string
  oe_aggregateId :: string
  oe_payload :: "(string \<times> json) list"
  oe_status :: outbox_status
  oe_attempts :: nat
  oe_availableAt :: string
  oe_lockedAt :: "string option"
  oe_lastError :: "string option"
  oe_createdAt :: string

record outbox_row =
  or_id :: string
  or_event_type :: string
  or_aggregate_type :: string
  or_aggregate_id :: string
  or_payload :: "(string \<times> json) list"
  or_status :: outbox_status
  or_attempts :: nat
  or_available_at :: int
  or_locked_at :: "int option"
  or_last_error :: "string option"
  or_created_at :: int

type_synonym outbox = "outbox_row list"

definition mapOutboxEvent :: "host \<Rightarrow> outbox_row \<Rightarrow> outbox_event" where
  "mapOutboxEvent h r = \<lparr>oe_id = or_id r, oe_eventType = or_event_type r,
     oe_aggregateType = or_aggregate_type r, oe_aggregateId = or_aggregate_id r, oe_payload = or_payload r,
     oe_status = or_status r, oe_attempts = or_attempts r, oe_availableAt = toISOString h (or_available_at r),
     oe_lockedAt = map_option (toISOString h) (or_locked_at r), oe_lastError = or_last_error r,
     oe_createdAt = toISOString h (or_created_at r)\<rparr>"

section \<open>The methods\<close>

text \<open>A text the database cannot read as a time fails the statement.\<close>

definition timestamptz :: "host \<Rightarrow> string \<Rightarrow> string + int" where
  "timestamptz h t = (case dateParse h t of
       None \<Rightarrow> Inl (''invalid input syntax for type timestamp with time zone: '' @ t) | Some n \<Rightarrow> Inr n)"

definition normalizeOutboxEventTypes :: "string list option \<Rightarrow> string + string list option" where
  "normalizeOutboxEventTypes types =
     (if types = Some [] then Inl ''eventTypes must not be empty'' else Inr types)"

definition assertOutboxListLimit :: "int \<Rightarrow> string + int" where
  "assertOutboxListLimit n =
     (if n \<le> 0 \<or> n > 100 then Inl ''limit must be an integer from 1 to 100'' else Inr n)"

definition of_types :: "string list option \<Rightarrow> outbox_row \<Rightarrow> bool" where
  "of_types types r = (case types of None \<Rightarrow> True | Some ts \<Rightarrow> or_event_type r \<in> set ts)"

text \<open>\<open>update \<dots> where \<dots> returning \<dots>\<close>: the first row returned and the table.\<close>

definition update_returning ::
  "host \<Rightarrow> (outbox_row \<Rightarrow> bool) \<Rightarrow> (outbox_row \<Rightarrow> outbox_row) \<Rightarrow> outbox \<Rightarrow> outbox_event option \<times> outbox" where
  "update_returning h P f rows =
     (map_option (\<lambda>r. mapOutboxEvent h (f r)) (find P rows), map (\<lambda>r. if P r then f r else r) rows)"

definition getEvent :: "host \<Rightarrow> outbox \<Rightarrow> string \<Rightarrow> outbox_event option" where
  "getEvent h rows i = map_option (mapOutboxEvent h) (find (\<lambda>r. or_id r = i) rows)"

definition compare_text :: "string \<Rightarrow> string \<Rightarrow> int" where
  "compare_text a b = (if map code a < map code b then - 1 else if map code a = map code b then 0 else 1)"

definition compare_claims :: "outbox_row \<Rightarrow> outbox_row \<Rightarrow> int" where
  "compare_claims a b = or_else (or_available_at a - or_available_at b)
     (or_else (or_created_at a - or_created_at b) (compare_text (or_id a) (or_id b)))"

definition claimable :: "int \<Rightarrow> string list option \<Rightarrow> outbox_row \<Rightarrow> bool" where
  "claimable now types r \<longleftrightarrow> or_status r = Pending_delivery \<and> or_available_at r \<le> now \<and> of_types types r"

definition claimed_row :: "int \<Rightarrow> outbox_row \<Rightarrow> outbox_row" where
  "claimed_row now r = r\<lparr>or_status := Processing, or_attempts := or_attempts r + 1,
     or_locked_at := Some now, or_last_error := None\<rparr>"

definition claimNext :: "host \<Rightarrow> string \<Rightarrow> string list option \<Rightarrow> (outbox, outbox_event option) action" where
  "claimNext h now types rows = (case normalizeOutboxEventTypes types of
       Inl e \<Rightarrow> (Inl e, rows)
     | Inr ts \<Rightarrow> (case timestamptz h now of
         Inl e \<Rightarrow> (Inl e, rows)
       | Inr n \<Rightarrow> (case sort_by compare_claims (filter (claimable n ts) rows) of
           [] \<Rightarrow> (Inr None, rows)
         | r # _ \<Rightarrow> (let (v, rows') = update_returning h (\<lambda>x. or_id x = or_id r) (claimed_row n) rows
                     in (Inr v, rows')))))"

definition delivered_row :: "outbox_row \<Rightarrow> outbox_row" where
  "delivered_row r = r\<lparr>or_status := Delivered, or_locked_at := None, or_last_error := None\<rparr>"

definition markDelivered :: "host \<Rightarrow> string \<Rightarrow> (outbox, outbox_event option) action" where
  "markDelivered h eventId rows =
     (let (v, rows') = update_returning h (\<lambda>r. or_id r = eventId \<and> or_status r = Processing) delivered_row rows
      in (Inr v, rows'))"

definition failed_row :: "string \<Rightarrow> int \<Rightarrow> bool \<Rightarrow> outbox_row \<Rightarrow> outbox_row" where
  "failed_row lastError availableAt deadLetter r =
     r\<lparr>or_status := (if deadLetter then Dead_letter else Pending_delivery), or_available_at := availableAt,
       or_locked_at := None, or_last_error := Some lastError\<rparr>"

definition markFailed :: "host \<Rightarrow> string \<Rightarrow> string \<Rightarrow> string \<Rightarrow> bool \<Rightarrow> (outbox, outbox_event option) action" where
  "markFailed h eventId lastError availableAt deadLetter rows = (case timestamptz h availableAt of
       Inl e \<Rightarrow> (Inl e, rows)
     | Inr n \<Rightarrow> (let (v, rows') = update_returning h (\<lambda>r. or_id r = eventId \<and> or_status r = Processing)
                                   (failed_row lastError n deadLetter) rows
                 in (Inr v, rows')))"

fun outbox_status_text :: "outbox_status \<Rightarrow> string" where
  "outbox_status_text Pending_delivery = ''pending''"
| "outbox_status_text Processing = ''processing''"
| "outbox_status_text Delivered = ''delivered''"
| "outbox_status_text Dead_letter = ''dead_letter''"

text \<open>\<open>payload ->> 'merchantId'\<close>: \<open>None\<close> is SQL's null.\<close>

definition payload_text :: "(json \<Rightarrow> string) \<Rightarrow> string \<Rightarrow> (string \<times> json) list \<Rightarrow> string option" where
  "payload_text jsonb_text k payload = (case map_of payload k of
       None \<Rightarrow> None | Some JNull \<Rightarrow> None | Some (JStr t) \<Rightarrow> Some t | Some v \<Rightarrow> Some (jsonb_text v))"

definition outboxNonEmpty :: "string \<Rightarrow> string \<Rightarrow> string + string" where
  "outboxNonEmpty v label = (if js_trim v = [] then Inl (label @ '' must be a non-empty string'') else Inr v)"

text \<open>The listing is \<open>order by created_at desc, id desc\<close>.\<close>

definition compare_newest :: "outbox_row \<Rightarrow> outbox_row \<Rightarrow> int" where
  "compare_newest a b = or_else (or_created_at b - or_created_at a) (compare_text (or_id b) (or_id a))"

definition listWebhookEvents ::
  "host \<Rightarrow> (json \<Rightarrow> string) \<Rightarrow> string \<Rightarrow> string list option \<Rightarrow> outbox_status option \<Rightarrow> int option \<Rightarrow> outbox \<Rightarrow>
   string + outbox_event list" where
  "listWebhookEvents h jsonb_text merchantId types status limit rows =
     and_then (outboxNonEmpty merchantId ''merchantId'') (\<lambda>m.
     and_then (assertOutboxListLimit (case limit of None \<Rightarrow> 50 | Some n \<Rightarrow> n)) (\<lambda>n.
     and_then (normalizeOutboxEventTypes types) (\<lambda>ts.
     Inr (map (mapOutboxEvent h) (take (nat n) (sort_by compare_newest
       (filter (\<lambda>r. payload_text jsonb_text ''merchantId'' (or_payload r) = Some m \<and> of_types ts r \<and>
          (case status of None \<Rightarrow> True | Some st \<Rightarrow> or_status r = st)) rows)))))))"

definition requeued_row :: "int \<Rightarrow> outbox_row \<Rightarrow> outbox_row" where
  "requeued_row now r = r\<lparr>or_status := Pending_delivery, or_attempts := 0, or_available_at := now,
     or_locked_at := None, or_last_error := None\<rparr>"

definition requeueDeadLetterWebhookEvent ::
  "host \<Rightarrow> (json \<Rightarrow> string) \<Rightarrow> string \<Rightarrow> string \<Rightarrow> string \<Rightarrow> (outbox, outbox_event option) action" where
  "requeueDeadLetterWebhookEvent h jsonb_text merchantId eventId now rows =
     (case and_then (outboxNonEmpty merchantId ''merchantId'') (\<lambda>m.
           and_then (outboxNonEmpty eventId ''eventId'') (\<lambda>i.
           and_then (timestamptz h now) (\<lambda>n. Inr (m, i, n)))) of
        Inl e \<Rightarrow> (Inl e, rows)
      | Inr (m, i, n) \<Rightarrow>
         let owned = (\<lambda>r. or_id r = i \<and> payload_text jsonb_text ''merchantId'' (or_payload r) = Some m)
         in (case update_returning h (\<lambda>r. owned r \<and> or_status r = Dead_letter) (requeued_row n) rows of
              (Some v, rows') \<Rightarrow> (Inr (Some v), rows')
            | (None, _) \<Rightarrow> (case find owned rows of
                None \<Rightarrow> (Inr None, rows)
              | Some r \<Rightarrow> (Inl (''webhook event is '' @ outbox_status_text (or_status r) @
                             ''; only dead_letter events can be requeued''), rows))))"

text \<open>\<open>insertOutboxEvent\<close>: the primary key and the unique index over type and aggregate refuse a second row.\<close>

definition row_of_event :: "host \<Rightarrow> outbox_event \<Rightarrow> string + outbox_row" where
  "row_of_event h e =
     and_then (timestamptz h (oe_availableAt e)) (\<lambda>av.
     and_then (map_opt_err (timestamptz h) (oe_lockedAt e)) (\<lambda>lk.
     and_then (timestamptz h (oe_createdAt e)) (\<lambda>cr.
     Inr \<lparr>or_id = oe_id e, or_event_type = oe_eventType e, or_aggregate_type = oe_aggregateType e,
       or_aggregate_id = oe_aggregateId e, or_payload = oe_payload e, or_status = oe_status e,
       or_attempts = oe_attempts e, or_available_at = av, or_locked_at = lk, or_last_error = oe_lastError e,
       or_created_at = cr\<rparr>)))"

definition same_aggregate :: "outbox_row \<Rightarrow> outbox_row \<Rightarrow> bool" where
  "same_aggregate a b \<longleftrightarrow> or_event_type a = or_event_type b \<and> or_aggregate_type a = or_aggregate_type b \<and>
     or_aggregate_id a = or_aggregate_id b"

definition insertOutboxEvent :: "host \<Rightarrow> outbox_event \<Rightarrow> (outbox, unit) action" where
  "insertOutboxEvent h e rows = (case row_of_event h e of
       Inl m \<Rightarrow> (Inl m, rows)
     | Inr r \<Rightarrow> if list_ex (\<lambda>x. or_id x = or_id r \<or> same_aggregate x r) rows
               then (Inl ''duplicate key value violates unique constraint'', rows) else (Inr (), rows @ [r]))"

text \<open>\<open>on conflict (event_type, aggregate_type, aggregate_id) do nothing\<close>\<close>

definition insertOutboxEventOnce :: "host \<Rightarrow> outbox_event \<Rightarrow> (outbox, unit) action" where
  "insertOutboxEventOnce h e rows = (case row_of_event h e of
       Inl m \<Rightarrow> (Inl m, rows)
     | Inr r \<Rightarrow> if list_ex (same_aggregate r) rows then (Inr (), rows)
               else if list_ex (\<lambda>x. or_id x = or_id r) rows
               then (Inl ''duplicate key value violates unique constraint'', rows) else (Inr (), rows @ [r]))"

section \<open>The interface\<close>

text \<open>What the workers rely on, over any store: \<open>lookup\<close> is what \<open>getEvent\<close> answers, \<open>due\<close> says which
  events a claim may take at a time. A claim takes one due event, counts the attempt and locks it; an
  event that is locked can be delivered or failed, and nothing else changes.\<close>

definition same_event :: "outbox_event \<Rightarrow> outbox_event \<Rightarrow> bool" where
  "same_event a b \<longleftrightarrow> oe_id a = oe_id b \<and> oe_eventType a = oe_eventType b \<and> oe_aggregateType a = oe_aggregateType b \<and>
     oe_aggregateId a = oe_aggregateId b \<and> oe_payload a = oe_payload b \<and> oe_createdAt a = oe_createdAt b"

locale outbox_contract =
  fixes ok :: "'o \<Rightarrow> bool"
    and lookup :: "'o \<Rightarrow> string \<Rightarrow> outbox_event option"
    and avail :: "'o \<Rightarrow> string \<Rightarrow> int option"
    and due :: "'o \<Rightarrow> string \<Rightarrow> string list \<Rightarrow> string \<Rightarrow> bool"
    and time :: "string \<Rightarrow> int option"
    and claim :: "string \<Rightarrow> string list option \<Rightarrow> ('o, outbox_event option) action"
    and deliver :: "string \<Rightarrow> ('o, outbox_event option) action"
    and fail :: "string \<Rightarrow> string \<Rightarrow> string \<Rightarrow> bool \<Rightarrow> ('o, outbox_event option) action"
  assumes finite_lookup: "finite (dom (lookup ob))"
    and lookup_id: "lookup ob i = Some e \<Longrightarrow> oe_id e = i"
    and due_iff: "ok ob \<Longrightarrow> due ob now ts i \<longleftrightarrow> (\<exists>e a n. lookup ob i = Some e \<and> oe_status e = Pending_delivery \<and>
      oe_eventType e \<in> set ts \<and> avail ob i = Some a \<and> time now = Some n \<and> a \<le> n)"
    and claim_answers: "time now \<noteq> None \<Longrightarrow> ts \<noteq> [] \<Longrightarrow> \<exists>v ob'. claim now (Some ts) ob = (Inr v, ob')"
    and claim_throws: "claim now (Some ts) ob = (Inl m, ob') \<Longrightarrow> ob' = ob"
    and claim_idle: "claim now (Some ts) ob = (Inr None, ob') \<Longrightarrow> ob' = ob \<and> \<not> due ob now ts i"
    and claim_takes: "ok ob \<Longrightarrow> claim now (Some ts) ob = (Inr (Some e), ob') \<Longrightarrow>
      ok ob' \<and> (\<exists>e0. lookup ob (oe_id e) = Some e0 \<and> due ob now ts (oe_id e) \<and> same_event e0 e \<and>
        oe_status e = Processing \<and> oe_attempts e = oe_attempts e0 + 1 \<and> lookup ob' = (lookup ob)(oe_id e \<mapsto> e) \<and>
        (\<forall>j. j \<noteq> oe_id e \<longrightarrow> avail ob' j = avail ob j))"
    and deliver_locked: "ok ob \<Longrightarrow> lookup ob i = Some e \<Longrightarrow> oe_status e = Processing \<Longrightarrow>
      \<exists>e' ob'. deliver i ob = (Inr (Some e'), ob') \<and> ok ob' \<and> same_event e e' \<and> oe_status e' = Delivered \<and>
        oe_attempts e' = oe_attempts e \<and> lookup ob' = (lookup ob)(i \<mapsto> e') \<and> (\<forall>j. j \<noteq> i \<longrightarrow> avail ob' j = avail ob j)"
    and fail_locked: "ok ob \<Longrightarrow> lookup ob i = Some e \<Longrightarrow> oe_status e = Processing \<Longrightarrow> time t \<noteq> None \<Longrightarrow>
      \<exists>e' ob'. fail i err t dead ob = (Inr (Some e'), ob') \<and> ok ob' \<and> same_event e e' \<and>
        oe_status e' = (if dead then Dead_letter else Pending_delivery) \<and> oe_lastError e' = Some err \<and>
        oe_attempts e' = oe_attempts e \<and> lookup ob' = (lookup ob)(i \<mapsto> e') \<and> (\<forall>j. j \<noteq> i \<longrightarrow> avail ob' j = avail ob j)"
    and fail_throws: "time t = None \<Longrightarrow> \<exists>m. fail i err t dead ob = (Inl m, ob)"

section \<open>The PostgreSQL store provides it\<close>

definition outbox_ok :: "outbox \<Rightarrow> bool" where
  "outbox_ok rows \<longleftrightarrow> distinct (map or_id rows)"

definition available_at :: "outbox \<Rightarrow> string \<Rightarrow> int option" where
  "available_at rows i = map_option or_available_at (find (\<lambda>r. or_id r = i) rows)"

definition due_row :: "host \<Rightarrow> outbox \<Rightarrow> string \<Rightarrow> string list \<Rightarrow> string \<Rightarrow> bool" where
  "due_row h rows now ts i \<longleftrightarrow> (\<exists>n. dateParse h now = Some n \<and> list_ex (\<lambda>r. or_id r = i \<and> claimable n (Some ts) r) rows)"

lemma timestamptz_Inr: "timestamptz h t = Inr n \<longleftrightarrow> dateParse h t = Some n"
  by (auto simp: timestamptz_def split: option.splits)

lemma timestamptz_readable: "dateParse h t \<noteq> None \<Longrightarrow> \<exists>n. timestamptz h t = Inr n" "dateParse h t = None \<Longrightarrow> \<exists>m. timestamptz h t = Inl m"
  by (auto simp: timestamptz_def)

lemma find_distinct:
  "distinct (map f rows) \<Longrightarrow> r \<in> set rows \<Longrightarrow> find (\<lambda>x. f x = f r) rows = Some r"
  by (induction rows) auto

lemma find_distinct_and:
  "distinct (map f rows) \<Longrightarrow> r \<in> set rows \<Longrightarrow> P r \<Longrightarrow> find (\<lambda>x. f x = f r \<and> P x) rows = Some r"
  by (induction rows) auto

lemma find_id: "find (\<lambda>r. or_id r = i) rows = Some r \<Longrightarrow> r \<in> set rows \<and> or_id r = i"
  by (induction rows) (auto split: if_splits)

lemma getEvent_row: "getEvent h rows i = Some e \<longleftrightarrow> (\<exists>r. find (\<lambda>r. or_id r = i) rows = Some r \<and> e = mapOutboxEvent h r)"
  by (auto simp: getEvent_def)

lemma map_id_row: "oe_id (mapOutboxEvent h r) = or_id r"
  by (simp add: mapOutboxEvent_def)

lemma find_map:
  assumes "\<And>x. or_id (g x) = or_id x"
  shows "find (\<lambda>r. or_id r = i) (map g rows) = map_option g (find (\<lambda>r. or_id r = i) rows)"
  by (induction rows) (auto simp: assms)

lemma getEvent_map:
  assumes "\<And>x. or_id (g x) = or_id x"
  shows "getEvent h (map g rows) i = map_option (\<lambda>r. mapOutboxEvent h (g r)) (find (\<lambda>r. or_id r = i) rows)"
  by (simp add: getEvent_def find_map [where g = g, OF assms] option.map_comp comp_def)

text \<open>An update of the one row with an id.\<close>

lemma update_one:
  assumes "outbox_ok rows" "r \<in> set rows" "P r" "\<And>x. or_id (f x) = or_id x"
  shows "\<exists>rows'. update_returning h (\<lambda>x. or_id x = or_id r \<and> P x) f rows = (Some (mapOutboxEvent h (f r)), rows') \<and> outbox_ok rows' \<and>
    getEvent h rows' = (getEvent h rows)(or_id r \<mapsto> mapOutboxEvent h (f r)) \<and>
    (\<forall>j. j \<noteq> or_id r \<longrightarrow> available_at rows' j = available_at rows j)"
proof -
  let ?g = "\<lambda>x. if or_id x = or_id r \<and> P x then f x else x"
  have d: "distinct (map or_id rows)" using assms(1) by (simp add: outbox_ok_def)
  have g: "or_id (?g x) = or_id x" for x using assms(4) by simp
  have ids: "map or_id (map ?g rows) = map or_id rows" using g by (induction rows) simp_all
  have "outbox_ok (map ?g rows)" unfolding outbox_ok_def ids by (rule d)
  moreover have "getEvent h (map ?g rows) i = ((getEvent h rows)(or_id r \<mapsto> mapOutboxEvent h (f r))) i" for i
  proof (cases "i = or_id r")
    case True
    then show ?thesis using find_distinct [OF d assms(2)] assms(3) by (simp add: getEvent_map [where g = ?g, OF g])
  next
    case False
    have "mapOutboxEvent h (?g x) = mapOutboxEvent h x" if "find (\<lambda>r. or_id r = i) rows = Some x" for x
      using find_id [OF that] False by simp
    then show ?thesis using False unfolding getEvent_map [where g = ?g, OF g]
      by (cases "find (\<lambda>r. or_id r = i) rows") (simp_all add: getEvent_def)
  qed
  moreover have "available_at (map ?g rows) j = available_at rows j" if j: "j \<noteq> or_id r" for j
  proof -
    have "?g x = x" if "find (\<lambda>r. or_id r = j) rows = Some x" for x using find_id [OF that] j by simp
    then show ?thesis
      by (cases "find (\<lambda>r. or_id r = j) rows") (simp_all add: available_at_def find_map [where g = ?g, OF g])
  qed
  moreover have "find (\<lambda>x. or_id x = or_id r \<and> P x) rows = Some r" by (rule find_distinct_and [where f = or_id and P = P, OF d assms(2,3)])
  ultimately show ?thesis by (auto simp: update_returning_def)
qed

interpretation claims: consistent_comparator compare_claims
proof
  show "compare_claims x y \<le> 0 \<or> compare_claims y x \<le> 0" for x y
    by (auto simp: compare_claims_def or_else_def compare_text_def)
  show "compare_claims x y \<le> 0 \<Longrightarrow> compare_claims y z \<le> 0 \<Longrightarrow> compare_claims x z \<le> 0" for x y z
    by (auto simp: compare_claims_def or_else_def compare_text_def split: if_splits)
qed

lemma claim_cases:
  assumes "claimNext h now types rows = (v, rows')"
  obtains (bad) m where "v = Inl m" "rows' = rows"
    | (none) n where "v = Inr None" "rows' = rows" "dateParse h now = Some n" "\<forall>r \<in> set rows. \<not> claimable n types r"
    | (took) n r where "dateParse h now = Some n" "r \<in> set rows" "claimable n types r"
        "\<forall>x \<in> set rows. claimable n types x \<longrightarrow> compare_claims r x \<le> 0"
        "update_returning h (\<lambda>x. or_id x = or_id r) (claimed_row n) rows = (projr v, rows')" "isl v = False"
proof (cases "normalizeOutboxEventTypes types")
  case (Inl m)
  then show ?thesis using assms bad [of m] by (auto simp: claimNext_def)
next
  case (Inr ts)
  then have ts: "ts = types" by (simp add: normalizeOutboxEventTypes_def split: if_splits)
  show ?thesis
  proof (cases "timestamptz h now")
    case (Inl m)
    then show ?thesis using assms bad [of m] Inr by (auto simp: claimNext_def)
  next
    case t: (Inr n)
    then have n: "dateParse h now = Some n" by (simp add: timestamptz_Inr)
    show ?thesis
    proof (cases "sort_by compare_claims (filter (claimable n types) rows)")
      case Nil
      then have "filter (claimable n types) rows = []" by (metis sort_by_length length_0_conv list.size(3))
      then show ?thesis using none [OF _ _ n] assms Inr t ts Nil by (auto simp: claimNext_def filter_empty_conv)
    next
      case (Cons r rs)
      have "set (r # rs) = set (filter (claimable n types) rows)" using sort_by_set [of compare_claims] Cons by metis
      moreover have "sorted_wrt (\<lambda>x y. compare_claims x y \<le> 0) (r # rs)" using claims.sorted_sort_by Cons by metis
      moreover have "compare_claims r r \<le> 0" using claims.total by blast
      ultimately have "r \<in> set rows" "claimable n types r" "\<forall>x \<in> set rows. claimable n types x \<longrightarrow> compare_claims r x \<le> 0"
        by (auto simp: set_eq_iff)
      then show ?thesis using took [OF n] assms Inr t ts Cons by (auto simp: claimNext_def split: prod.splits)
    qed
  qed
qed

lemma claimed_same: "same_event (mapOutboxEvent h r) (mapOutboxEvent h (claimed_row n r))"
  "same_event (mapOutboxEvent h r) (mapOutboxEvent h (delivered_row r))"
  "same_event (mapOutboxEvent h r) (mapOutboxEvent h (failed_row err m dead r))"
  by (simp_all add: same_event_def mapOutboxEvent_def claimed_row_def delivered_row_def failed_row_def)

lemma locked_row:
  assumes "getEvent h rows i = Some e" "oe_status e = Processing"
  obtains r where "r \<in> set rows" "or_id r = i" "or_status r = Processing" "e = mapOutboxEvent h r"
proof -
  obtain r where r: "find (\<lambda>r. or_id r = i) rows = Some r" "e = mapOutboxEvent h r" using assms(1) by (auto simp: getEvent_row)
  moreover from this have "or_status r = Processing" using assms(2) by (simp add: mapOutboxEvent_def)
  ultimately show thesis using find_id [OF r(1)] that by blast
qed

lemma update_none_keeps: "\<forall>x \<in> set rows. \<not> P x \<Longrightarrow> update_returning h P f rows = (None, rows)"
proof -
  assume "\<forall>x \<in> set rows. \<not> P x"
  then have "find P rows = None" "map (\<lambda>r. if P r then f r else r) rows = rows" by (auto simp: find_None_iff intro: map_idI)
  then show ?thesis by (simp add: update_returning_def)
qed

interpretation po: outbox_contract outbox_ok "getEvent h" available_at "due_row h" "dateParse h" "claimNext h" "markDelivered h" "markFailed h"
  for h
proof
  show "finite (dom (getEvent h ob))" for ob
  proof (rule finite_subset)
    show "dom (getEvent h ob) \<subseteq> set (map or_id ob)" using find_id by (fastforce simp: getEvent_row)
  qed simp
  show "getEvent h ob i = Some e \<Longrightarrow> oe_id e = i" for ob i e
    by (auto simp: getEvent_row map_id_row dest: find_id)
  show "due_row h ob now ts i \<longleftrightarrow> (\<exists>e a n. getEvent h ob i = Some e \<and> oe_status e = Pending_delivery \<and>
      oe_eventType e \<in> set ts \<and> available_at ob i = Some a \<and> dateParse h now = Some n \<and> a \<le> n)"
    if ok: "outbox_ok ob" for ob now ts i
  proof -
    have f: "find (\<lambda>x. or_id x = i) ob = Some r" if "r \<in> set ob" "or_id r = i" for r
      using find_distinct [of or_id ob r] ok that by (simp add: outbox_ok_def)
    have "due_row h ob now ts i \<longleftrightarrow> (\<exists>n r. dateParse h now = Some n \<and> find (\<lambda>x. or_id x = i) ob = Some r \<and> claimable n (Some ts) r)"
      unfolding due_row_def list_ex_iff using f find_id by blast
    then show ?thesis by (auto simp: getEvent_def available_at_def mapOutboxEvent_def claimable_def of_types_def)
  qed
  show "\<exists>v ob'. claimNext h now (Some ts) ob = (Inr v, ob')" if "dateParse h now \<noteq> None" "ts \<noteq> []" for now ts ob
    using timestamptz_readable(1) [OF that(1)] that(2)
    by (auto simp: claimNext_def normalizeOutboxEventTypes_def split: list.splits prod.splits)
  show "ob' = ob" if "claimNext h now (Some ts) ob = (Inl m, ob')" for now ts ob m ob'
    using that by (rule claim_cases) auto
  show "ob' = ob \<and> \<not> due_row h ob now ts i" if c: "claimNext h now (Some ts) ob = (Inr None, ob')" for now ts ob ob' i
    using c
  proof (cases rule: claim_cases)
    case (took n r)
    then have "find (\<lambda>x. or_id x = or_id r) ob \<noteq> None" by (auto simp: find_None_iff)
    then show ?thesis using took(5) by (simp add: update_returning_def)
  qed (auto simp: due_row_def list_ex_iff)
  show "outbox_ok ob' \<and> (\<exists>e0. getEvent h ob (oe_id e) = Some e0 \<and> due_row h ob now ts (oe_id e) \<and> same_event e0 e \<and>
        oe_status e = Processing \<and> oe_attempts e = oe_attempts e0 + 1 \<and> getEvent h ob' = (getEvent h ob)(oe_id e \<mapsto> e) \<and>
        (\<forall>j. j \<noteq> oe_id e \<longrightarrow> available_at ob' j = available_at ob j))"
    if ok: "outbox_ok ob" and c: "claimNext h now (Some ts) ob = (Inr (Some e), ob')" for now ts ob e ob'
    using c
  proof (cases rule: claim_cases)
    case (took n r)
    have "\<And>x. or_id (claimed_row n x) = or_id x" by (simp add: claimed_row_def)
    with update_one [OF ok took(2), of "\<lambda>_. True" "claimed_row n" h] took(5)
    have u: "e = mapOutboxEvent h (claimed_row n r)" "outbox_ok ob'"
      "getEvent h ob' = (getEvent h ob)(or_id r \<mapsto> mapOutboxEvent h (claimed_row n r))"
      "\<forall>j. j \<noteq> or_id r \<longrightarrow> available_at ob' j = available_at ob j" by auto
    have "getEvent h ob (or_id r) = Some (mapOutboxEvent h r)"
      using find_distinct [of or_id ob r] ok took(2) by (simp add: outbox_ok_def getEvent_def)
    moreover have "due_row h ob now ts (or_id r)" using took by (auto simp: due_row_def list_ex_iff)
    moreover have "oe_id e = or_id r" "oe_status e = Processing" "oe_attempts e = oe_attempts (mapOutboxEvent h r) + 1"
      by (simp_all add: u(1) mapOutboxEvent_def claimed_row_def)
    ultimately show ?thesis using u claimed_same(1) [of h r n] by simp
  qed auto
  show "\<exists>e' ob'. markDelivered h i ob = (Inr (Some e'), ob') \<and> outbox_ok ob' \<and> same_event e e' \<and> oe_status e' = Delivered \<and>
        oe_attempts e' = oe_attempts e \<and> getEvent h ob' = (getEvent h ob)(i \<mapsto> e') \<and>
        (\<forall>j. j \<noteq> i \<longrightarrow> available_at ob' j = available_at ob j)"
    if ok: "outbox_ok ob" and e: "getEvent h ob i = Some e" "oe_status e = Processing" for ob i e
  proof -
    obtain r where r: "r \<in> set ob" "or_id r = i" "or_status r = Processing" "e = mapOutboxEvent h r" by (rule locked_row [OF e])
    have "\<And>x. or_id (delivered_row x) = or_id x" by (simp add: delivered_row_def)
    with update_one [OF ok r(1), of "\<lambda>x. or_status x = Processing" delivered_row h] r
    show ?thesis using claimed_same(2) [of h r]
      by (auto simp: markDelivered_def mapOutboxEvent_def delivered_row_def)
  qed
  show "\<exists>e' ob'. markFailed h i err t dead ob = (Inr (Some e'), ob') \<and> outbox_ok ob' \<and> same_event e e' \<and>
        oe_status e' = (if dead then Dead_letter else Pending_delivery) \<and> oe_lastError e' = Some err \<and>
        oe_attempts e' = oe_attempts e \<and> getEvent h ob' = (getEvent h ob)(i \<mapsto> e') \<and>
        (\<forall>j. j \<noteq> i \<longrightarrow> available_at ob' j = available_at ob j)"
    if ok: "outbox_ok ob" and e: "getEvent h ob i = Some e" "oe_status e = Processing" and t: "dateParse h t \<noteq> None" for ob i e t err dead
  proof -
    obtain r where r: "r \<in> set ob" "or_id r = i" "or_status r = Processing" "e = mapOutboxEvent h r" by (rule locked_row [OF e])
    obtain n where n: "timestamptz h t = Inr n" using timestamptz_readable(1) [OF t] by blast
    have "\<And>x. or_id (failed_row err n dead x) = or_id x" by (simp add: failed_row_def)
    with update_one [OF ok r(1), of "\<lambda>x. or_status x = Processing" "failed_row err n dead" h] r n
    show ?thesis using claimed_same(3) [of h r err n dead]
      by (auto simp: markFailed_def mapOutboxEvent_def failed_row_def)
  qed
  show "\<exists>m. markFailed h i err t dead ob = (Inl m, ob)" if "dateParse h t = None" for t i err dead ob
    using timestamptz_readable(2) [OF that] by (auto simp: markFailed_def)
qed

end
