(* ===== verification/Store_Runs.thy ===== *)
theory Store_Runs
  imports Ingestion
begin

text \<open>
  The control plane as a transition system: one step is one call on the in-memory receipt store, an
  ingestion or one of the payout operations, with any arguments. The invariants hold in every store
  that can be reached from the empty one: the indexes agree with the receipts, every receipt keeps the
  books it was accepted with, closing ledger transactions balance, attempts are unique. Between two
  stores of a run a receipt only moves along the life cycle of its accrual.
\<close>

section \<open>Steps\<close>

inductive store_step :: "host \<Rightarrow> store \<Rightarrow> store \<Rightarrow> bool" for h where
  ingested: "ingest env in_memory r source s = (res, s') \<Longrightarrow> store_step h s s'"
| verified: "markReceiptChainVerified i at' s = (v, s') \<Longrightarrow> store_step h s s'"
| rejected: "markReceiptChainRejected i reason s = (v, s') \<Longrightarrow> store_step h s s'"
| batch_created: "createPayoutBatch h clock newId newItemId i s = Inr (b, s') \<Longrightarrow> store_step h s s'"
| batch_created_from_available:
    "createPayoutBatchFromAvailableAccruals h clock newId newItemId i s = Inr (b, s') \<Longrightarrow> store_step h s s'"
| released: "releasePayoutBatchAllocations h clock i s = Inr (v, s') \<Longrightarrow> store_step h s s'"
| signed_saved: "saveSignedPayoutTransactions h clock newId i s = Inr (ts, s') \<Longrightarrow> store_step h s s'"
| submitted: "markPayoutTransactionSubmitted h clock i at' sig s = Inr (v, s') \<Longrightarrow> store_step h s s'"
| finality_marked: "markPayoutTransactionFinality h clock i s = Inr (v, s') \<Longrightarrow> store_step h s s'"
| ledger_closed: "closeFinalizedPayoutBatchLedger h clock verify i now txId entryId s = Inr (v, s') \<Longrightarrow> store_step h s s'"

definition reachable :: "host \<Rightarrow> store \<Rightarrow> bool" where
  "reachable h s \<longleftrightarrow> (store_step h)\<^sup>*\<^sup>* empty_store s"

section \<open>Receipts along a step\<close>

text \<open>The life cycle of an accrual, one operation at a time.\<close>

definition accrual_move :: "accrual_status \<Rightarrow> accrual_status \<Rightarrow> bool" where
  "accrual_move a b \<longleftrightarrow> a = b \<or> (a, b) \<in> {(Pending_chain_verification, Available),
     (Pending_chain_verification, Rejected), (Available, Allocated), (Allocated, Available), (Allocated, Paid)}"

definition accrual_step :: "accrual \<Rightarrow> accrual \<Rightarrow> bool" where
  "accrual_step a b \<longleftrightarrow> (\<exists>st at'. b = a\<lparr>ac_status := st, ac_availableAt := at'\<rparr> \<and> accrual_move (ac_status a) st)"

definition verification_move :: "verification_state \<Rightarrow> verification_state \<Rightarrow> bool" where
  "verification_move a b \<longleftrightarrow> a = b \<or> a = Pending_verification"

definition snapshot_step :: "snapshot \<Rightarrow> snapshot \<Rightarrow> bool" where
  "snapshot_step a b \<longleftrightarrow> same_keys a b \<and> rr_receipt (sn_receipt a) = rr_receipt (sn_receipt b) \<and>
     sn_ledgerTransaction a = sn_ledgerTransaction b \<and> rel_option accrual_step (sn_accrual a) (sn_accrual b) \<and>
     verification_move (rr_verificationState (sn_receipt a)) (rr_verificationState (sn_receipt b))"

lemma accrual_step_refl [simp]: "accrual_step a a"
  unfolding accrual_step_def by (rule exI [of _ "ac_status a"], rule exI [of _ "ac_availableAt a"]) (simp add: accrual_move_def)

lemma snapshot_step_refl [simp]: "snapshot_step a a"
  by (simp add: snapshot_step_def same_keys_def verification_move_def option.rel_refl)

lemma accrual_stepI: "accrual_move (ac_status a) st \<Longrightarrow> accrual_step a (a\<lparr>ac_status := st\<rparr>)"
  unfolding accrual_step_def by (rule exI [of _ st], rule exI [of _ "ac_availableAt a"]) simp

lemma status_snapshot_step:
  assumes "has_status from sn" "accrual_move from st"
  shows "snapshot_step sn (with_accrual_status st sn)"
proof -
  obtain a where a: "sn_accrual sn = Some a" "ac_status a = from" using assms(1) by (auto simp: has_status_def)
  have "accrual_step a (a\<lparr>ac_status := st\<rparr>)" using assms(2) a(2) by (intro accrual_stepI) simp
  then show ?thesis using a(1)
    by (simp add: snapshot_step_def verification_move_def with_accrual_status_def same_keys_def sn_keys)
qed

lemma moved_step: "accrual_move old new \<Longrightarrow> snapshot_step sn (moved old new ids sn)"
  by (auto simp: moved_def intro: status_snapshot_step)

lemma verified_snapshot_step: "snapshot_step sn (verified_snapshot at' sn)"
proof -
  have "accrual_step a (if ac_status a = Pending_chain_verification
      then a\<lparr>ac_status := Available, ac_availableAt := Some at'\<rparr> else a)" for a
  proof (cases "ac_status a = Pending_chain_verification")
    case True
    then show ?thesis unfolding accrual_step_def
      by (auto simp: accrual_move_def)
  qed simp
  then show ?thesis
    by (cases "sn_accrual sn") (auto simp: snapshot_step_def verification_move_def verified_snapshot_def same_keys_def sn_keys)
qed

lemma rejected_snapshot_step: "snapshot_step sn (rejected_snapshot reason sn)"
proof -
  have "accrual_step a (if ac_status a = Pending_chain_verification then a\<lparr>ac_status := Rejected\<rparr> else a)" for a
    by (simp add: accrual_stepI accrual_move_def)
  then show ?thesis
    by (cases "sn_accrual sn") (auto simp: snapshot_step_def verification_move_def rejected_snapshot_def same_keys_def sn_keys)
qed

lemma snapshot_step_books: "snapshot_step a b \<Longrightarrow> snapshot_books a \<Longrightarrow> snapshot_books b"
proof -
  assume st: "snapshot_step a b" and books: "snapshot_books a"
  have eqs: "rr_receipt (sn_receipt b) = rr_receipt (sn_receipt a)" "rr_id (sn_receipt b) = rr_id (sn_receipt a)"
    "sn_ledgerTransaction b = sn_ledgerTransaction a"
    using st by (simp_all add: snapshot_step_def same_keys_def sn_keys)
  show "snapshot_books b"
  proof (cases "sn_accrual a")
    case None
    then have "sn_accrual b = None" using st by (simp add: snapshot_step_def)
    then show ?thesis using books None eqs by (simp add: snapshot_books_def Let_def)
  next
    case (Some x)
    then obtain y where y: "sn_accrual b = Some y" "accrual_step x y" using st by (auto simp: snapshot_step_def option_rel_Some1)
    obtain s at' where "y = x\<lparr>ac_status := s, ac_availableAt := at'\<rparr>" using y(2) unfolding accrual_step_def by blast
    then have eqy: "ac_id y = ac_id x" "ac_receiptId y = ac_receiptId x" "ac_merchantId y = ac_merchantId x"
        "ac_payoutWallet y = ac_payoutWallet x" "ac_asset y = ac_asset x" "accrual_amount y = accrual_amount x"
      by (simp_all add: accrual_amount_def)
    have "snapshot_books b \<longleftrightarrow> snapshot_books a"
      unfolding snapshot_books_def Let_def Some y(1) eqs by (simp add: eqy)
    then show ?thesis using books by blast
  qed
qed

text \<open>Every receipt of the old store is still there, one life cycle step further; a new receipt has
  books and a pending accrual.\<close>

definition receipts_evolve :: "store \<Rightarrow> store \<Rightarrow> bool" where
  "receipts_evolve s s' \<longleftrightarrow> store_ok s' \<and>
     (\<forall>k sn. getByReceiptId s k = Some sn \<longrightarrow> (\<exists>sn'. getByReceiptId s' k = Some sn' \<and> snapshot_step sn sn')) \<and>
     (\<forall>k sn'. getByReceiptId s k = None \<longrightarrow> getByReceiptId s' k = Some sn' \<longrightarrow>
        snapshot_books sn' \<and> (\<forall>a. sn_accrual sn' = Some a \<longrightarrow> ac_status a = Pending_chain_verification))"

lemma become_evolve:
  assumes "receipts_become f s s'" "\<And>k sn. getByReceiptId s k = Some sn \<Longrightarrow> snapshot_step sn (f sn)"
  shows "receipts_evolve s s'"
  using assms by (auto simp: receipts_become_def receipts_evolve_def)

lemma evolve_refl: "store_ok s \<Longrightarrow> receipts_evolve s s"
  by (auto simp: receipts_evolve_def intro: snapshot_step_refl)

lemma evolve_same_receipts:
  "store_ok s \<Longrightarrow> receiptsById s' = receiptsById s \<Longrightarrow> receiptIdByHash s' = receiptIdByHash s \<Longrightarrow>
   receiptIdByPaymentId s' = receiptIdByPaymentId s \<Longrightarrow> receiptIdBySettlementTx s' = receiptIdBySettlementTx s \<Longrightarrow>
   receipts_evolve s s'"
  by (auto simp: receipts_evolve_def store_ok_def getByReceiptId_def intro: snapshot_step_refl)

lemma ingest_effect:
  assumes "store_ok s" "ingest env in_memory r source s = (res, s')"
  shows "s' = s \<or> (\<exists>sn. res = Inr (Created sn) \<and> s' = save sn s)"
proof -
  from ingest_answered [OF assms(1), of env r source] assms(2) obtain v where v: "res = Inr v"
    "case v of Created sn \<Rightarrow> s' = save sn s | _ \<Rightarrow> s' = s" by (fastforce split: ingest_result.splits)
  then show ?thesis by (cases v) simp_all
qed

lemma ingest_evolve:
  assumes "store_ok s" "ingest env in_memory r source s = (res, s')"
  shows "receipts_evolve s s'"
proof (cases "\<exists>sn. res = Inr (Created sn)")
  case True
  then obtain sn where c: "ingest env in_memory r source s = (Inr (Created sn), s')" using assms(2) by blast
  from ingest_created [OF c] obtain hash where h: "unseen in_memory r hash s" "snapshot_books sn" "rr_receipt (sn_receipt sn) = r"
    "rr_receiptHash (sn_receipt sn) = hash" "\<forall>a. sn_accrual sn = Some a \<longrightarrow> ac_status a = Pending_chain_verification"
    "op_save in_memory sn s = (None, s')" by blast
  have s': "s' = save sn s" using h(6) by (simp add: in_memory_def)
  have "rr_id (sn_receipt sn) = rc_receiptId (rr_receipt (sn_receipt sn))" using h(2) by (simp add: snapshot_books_def Let_def)
  with unseen_fits [OF assms(1)] h have F: "fits_all sn s" "getByReceiptId s (sn_id sn) = None" by auto
  show ?thesis unfolding receipts_evolve_def s'
    using save_ok [OF assms(1) F(1)] F(2) h by (auto simp: get_save)
next
  case False
  have "s' = s" using ingest_effect [OF assms] False by blast
  then show ?thesis using evolve_refl [OF assms(1)] by simp
qed

lemma release_none: "releasePayoutBatchAllocations h clock i s = Inr (None, s') \<Longrightarrow> s' = s"
  by (auto simp: releasePayoutBatchAllocations_def Let_def and_then_Inr split: option.splits)

lemma put_transaction_maps:
  "receiptsById (put_transaction t s) = receiptsById s" "receiptIdByHash (put_transaction t s) = receiptIdByHash s"
  "receiptIdByPaymentId (put_transaction t s) = receiptIdByPaymentId s"
  "receiptIdBySettlementTx (put_transaction t s) = receiptIdBySettlementTx s"
  "payoutBatchesById (put_transaction t s) = payoutBatchesById s"
  "payoutTransactionsById (put_transaction t s) = map_set (tx_id t) t (payoutTransactionsById s)"
  "payoutLedgerTransactionsByBatchId (put_transaction t s) = payoutLedgerTransactionsByBatchId s"
  by (simp_all add: put_transaction_def)

text \<open>The operations on transactions leave the receipts alone.\<close>

definition same_receipts :: "store \<Rightarrow> store \<Rightarrow> bool" where
  "same_receipts s s' \<longleftrightarrow> receiptsById s' = receiptsById s \<and> receiptIdByHash s' = receiptIdByHash s \<and>
     receiptIdByPaymentId s' = receiptIdByPaymentId s \<and> receiptIdBySettlementTx s' = receiptIdBySettlementTx s"

lemma same_receipts_evolve: "same_receipts s s' \<Longrightarrow> store_ok s \<Longrightarrow> receipts_evolve s s'"
  by (rule evolve_same_receipts) (simp_all add: same_receipts_def)

lemma put_all_maps:
  "same_receipts s (fold put_transaction ts s) \<and> payoutBatchesById (fold put_transaction ts s) = payoutBatchesById s \<and>
   payoutLedgerTransactionsByBatchId (fold put_transaction ts s) = payoutLedgerTransactionsByBatchId s \<and>
   payoutTransactionsById (fold put_transaction ts s) = fold (\<lambda>t. map_set (tx_id t) t) ts (payoutTransactionsById s)"
  by (induction ts arbitrary: s) (simp_all add: same_receipts_def put_transaction_maps)

lemma save_signed_same:
  "saveSignedPayoutTransactions h clock newId i s = Inr (ts, s') \<Longrightarrow> same_receipts s s'"
  by (auto simp: saveSignedPayoutTransactions_def and_then_Inr put_all_maps split: option.splits)

lemma submitted_same:
  "markPayoutTransactionSubmitted h clock i at' sig s = Inr (v, s') \<Longrightarrow> same_receipts s s'"
  by (auto simp: markPayoutTransactionSubmitted_def and_then_Inr Let_def same_receipts_def put_transaction_maps split: option.splits)

lemma roll_up_same: "same_receipts s (rollUpPayoutBatchFinality h k at' s)"
  by (auto simp: rollUpPayoutBatchFinality_def same_receipts_def split: option.splits)

lemma finality_same:
  "markPayoutTransactionFinality h clock i s = Inr (v, s') \<Longrightarrow> same_receipts s s'"
  using roll_up_same [of "put_transaction _ s"]
  by (auto simp: markPayoutTransactionFinality_def and_then_Inr Let_def same_receipts_def put_transaction_maps
      split: option.splits if_splits)

lemma close_cases:
  assumes "closeFinalizedPayoutBatchLedger h clock verify i now txId entryId s = Inr (v, s')"
  shows "s' = s \<or> (\<exists>b t. map_get (payoutLedgerTransactionsByBatchId s) i = None \<and> map_get (payoutBatchesById s) i = Some b \<and>
    fst (verify b (listPayoutTransactions h s (pb_id b))) \<and> v = Some t \<and>
    finish_closing h clock i now txId entryId b s = Inr (t, s'))"
  using assms by (auto simp: closeFinalizedPayoutBatchLedger_def and_then_Inr
      verifyPayoutFinalizedTransfersBeforeLedgerClosure_def ensure_Inr split: option.splits)

lemma from_available:
  "createPayoutBatchFromAvailableAccruals h clock newId newItemId i s = Inr (b, s') \<Longrightarrow>
   \<exists>j as. createPayoutBatch h clock newId newItemId j s = Inr (b, s') \<and> bi_accruals j = as \<and>
     listPayoutEligibleAccruals h \<lparr>ei_merchantId = ab_merchantId i, ei_asset = Some (ab_asset i),
       ei_campaignId = ab_campaignId i, ei_routeId = ab_routeId i, ei_now = ab_now i, ei_limit = ab_limit i\<rparr> s = Inr as"
  by (fastforce simp: createPayoutBatchFromAvailableAccruals_def and_then_Inr)

lemma create_evolve:
  assumes "createPayoutBatch h clock newId newItemId i s = Inr (b, s')" "store_ok s"
  shows "receipts_evolve s s'"
  by (rule become_evolve [OF createPayoutBatch_facts(2) [OF assms]]) (simp add: moved_step accrual_move_def)

lemma step_evolves: "store_step h s s' \<Longrightarrow> store_ok s \<Longrightarrow> receipts_evolve s s'"
proof (induction rule: store_step.induct)
  case (ingested env r source s res s')
  then show ?case by (rule ingest_evolve [rotated])
next
  case (verified i at' s v s')
  show ?case by (rule become_evolve [OF mark_verified_become [OF verified, THEN conjunct1]]) (simp add: verified_snapshot_step)
next
  case (rejected i reason s v s')
  show ?case by (rule become_evolve [OF mark_rejected_become [OF rejected, THEN conjunct1]]) (simp add: rejected_snapshot_step)
next
  case (batch_created clock newId newItemId i s b s')
  then show ?case by (rule create_evolve)
next
  case (batch_created_from_available clock newId newItemId i s b s')
  then show ?case using from_available create_evolve by blast
next
  case (released clock i s v s')
  show ?case
  proof (cases v)
    case None
    then show ?thesis using released release_none evolve_refl by blast
  next
    case (Some r)
    from release_facts [OF released(1) [unfolded Some] released(2)]
    obtain ids where "receipts_become (moved Allocated Available ids) s s'" by blast
    then show ?thesis by (rule become_evolve) (simp add: moved_step accrual_move_def)
  qed
next
  case (signed_saved clock newId i s ts s')
  then show ?case using save_signed_same same_receipts_evolve by blast
next
  case (submitted clock i at' sig s v s')
  then show ?case using submitted_same same_receipts_evolve by blast
next
  case (finality_marked clock i s v s')
  then show ?case using finality_same same_receipts_evolve by blast
next
  case (ledger_closed clock verify i now txId entryId s v s')
  show ?case
  proof (cases "s' = s")
    case False
    then obtain b t where f: "finish_closing h clock i now txId entryId b s = Inr (t, s')"
      using close_cases [OF ledger_closed(1)] by blast
    obtain ids where "receipts_become (moved Allocated Paid ids) s s'" using closing_facts [OF f ledger_closed(2)] by blast
    then show ?thesis by (rule become_evolve) (simp add: moved_step accrual_move_def)
  qed (use ledger_closed evolve_refl in simp)
qed

section \<open>Payouts along a step\<close>

definition same_attempt :: "payout_transaction \<Rightarrow> payout_transaction \<Rightarrow> bool" where
  "same_attempt a b \<longleftrightarrow> tx_payoutBatchId a = tx_payoutBatchId b \<and> tx_sequence a = tx_sequence b \<and> tx_attempt a = tx_attempt b"

definition attempts_unique :: "payout_transaction set \<Rightarrow> bool" where
  "attempts_unique T \<longleftrightarrow> (\<forall>a \<in> T. \<forall>b \<in> T. same_attempt a b \<longrightarrow> a = b)"

definition transactions_ok :: "(string, payout_transaction) js_map \<Rightarrow> bool" where
  "transactions_ok m \<longleftrightarrow> keyed tx_id m \<and> attempts_unique (set (map_values m))"

definition batches_ok :: "(string, payout_batch) js_map \<Rightarrow> bool" where
  "batches_ok m \<longleftrightarrow> keyed pb_id m"

definition closings_ok :: "(string, ledger_transaction) js_map \<Rightarrow> bool" where
  "closings_ok m \<longleftrightarrow> keyed lt_sourceId m \<and> (\<forall>t \<in> set (map_values m). lt_sourceType t = Payout_batch \<and>
     (\<forall>asset. asset_sum asset (lt_entries t) = 0))"

definition payouts_ok :: "store \<Rightarrow> bool" where
  "payouts_ok s \<longleftrightarrow> batches_ok (payoutBatchesById s) \<and> transactions_ok (payoutTransactionsById s) \<and>
     closings_ok (payoutLedgerTransactionsByBatchId s)"

lemma payouts_ok_cong:
  "same_payouts s s' \<Longrightarrow> payouts_ok s \<Longrightarrow> payouts_ok s'"
  by (simp add: payouts_ok_def same_payouts_def)

lemma batches_put: "batches_ok m \<Longrightarrow> batches_ok (map_set (pb_id b) b m)"
  by (simp add: batches_ok_def keyed_put)

lemma attempts_unique_replace:
  assumes "attempts_unique T" "e \<in> T" "same_attempt t e" "U \<subseteq> insert t (T - {e})"
  shows "attempts_unique U"
proof -
  have no: "\<not> same_attempt t x \<and> \<not> same_attempt x t" if "x \<in> T - {e}" for x
    using assms(1-3) that unfolding attempts_unique_def same_attempt_def by (metis DiffD1 DiffD2 insertI1)
  show ?thesis using assms(1,4) no unfolding attempts_unique_def by blast
qed

lemma transactions_replace:
  assumes "transactions_ok m" "map_get m (tx_id t) = Some e" "same_attempt t e"
  shows "transactions_ok (map_set (tx_id t) t m)"
proof -
  have k: "keyed tx_id m" and u: "attempts_unique (set (map_values m))" using assms(1) by (simp_all add: transactions_ok_def)
  have id: "tx_id e = tx_id t" by (rule keyedD [OF k assms(2)])
  have e: "e \<in> set (map_values m)" unfolding keyed_values [OF k] id by (rule assms(2))
  have "set (map_values (map_set (tx_id t) t m)) \<subseteq> insert t (set (map_values m) - {e})"
    using id by (auto simp: keyed_put_values [OF k])
  then show ?thesis unfolding transactions_ok_def
    using keyed_put [OF k refl] attempts_unique_replace [OF u e assms(3)] by blast
qed

lemma put_many_values:
  assumes "keyed tx_id m"
  shows "keyed tx_id (fold (\<lambda>t. map_set (tx_id t) t) ts m) \<and>
    set (map_values (fold (\<lambda>t. map_set (tx_id t) t) ts m)) \<subseteq> set (map_values m) \<union> set ts"
  using assms
proof (induction ts arbitrary: m)
  case (Cons t ts)
  have "set (map_values (map_set (tx_id t) t m)) \<subseteq> insert t (set (map_values m))"
    using keyed_put_values [OF Cons.prems] by blast
  then show ?case using Cons.IH [OF keyed_put [OF Cons.prems refl], of t] by auto
qed simp

lemma attached_same_attempts:
  assumes "createSignedPayoutTransactionRecords h clock newId i = Inr raw"
    and "attachPayoutTransactionItemMappings raw b = Inr ts"
  shows "(\<forall>t \<in> set ts. tx_payoutBatchId t = ss_payoutBatchId i \<and> attached_ok b t \<and> tx_status t = T_signed) \<and>
    attempts_unique (set ts)"
proof -
  note c = createSigned_facts [OF assms(1)]
  from attach_facts [OF assms(2)]
  have a: "list_all2 (\<lambda>t t'. (\<exists>items. t' = t\<lparr>tx_items := items\<rparr>) \<and> attached_ok b t') raw ts" by blast
  have keys: "map attempt_key ts = map attempt_key raw"
    using a by (induction rule: list_all2_induct) (auto simp: attempt_key_def)
  have "tx_payoutBatchId t = ss_payoutBatchId i \<and> attached_ok b t \<and> tx_status t = T_signed" if "t \<in> set ts" for t
    using list_all2_right [OF a that] c by auto
  moreover have "a = b" if "a \<in> set ts" "b \<in> set ts" "same_attempt a b" for a b
  proof -
    have "inj_on attempt_key (set ts)" using c keys by (metis distinct_map)
    then show ?thesis using that by (auto simp: inj_on_def same_attempt_def attempt_key_def)
  qed
  ultimately show ?thesis by (auto simp: attempts_unique_def)
qed

lemma save_signed_facts:
  assumes "saveSignedPayoutTransactions h clock newId i s = Inr (ts, s')"
  shows "\<exists>b raw. map_get (payoutBatchesById s) (ss_payoutBatchId i) = Some b \<and>
    createSignedPayoutTransactionRecords h clock newId i = Inr raw \<and>
    attachPayoutTransactionItemMappings raw b = Inr ts \<and> (\<forall>r \<in> set ts. insertable h s r = Inr ()) \<and>
    s' = fold put_transaction ts s"
proof -
  from assms obtain b raw us where r: "map_get (payoutBatchesById s) (ss_payoutBatchId i) = Some b"
    "createSignedPayoutTransactionRecords h clock newId i = Inr raw" "attachPayoutTransactionItemMappings raw b = Inr ts"
    "map_err (insertable h s) ts = Inr us" "s' = fold put_transaction ts s"
    by (auto simp: saveSignedPayoutTransactions_def and_then_Inr split: option.splits)
  have "list_all2 (\<lambda>x y. insertable h s x = Inr y) ts us" using r(4) by (simp add: map_err_Inr)
  then have "\<forall>r \<in> set ts. insertable h s r = Inr ()" using list_all2_left by fastforce
  then show ?thesis using r by blast
qed

lemma insertable_facts:
  assumes "insertable h s r = Inr ()"
  shows "map_get (payoutTransactionsById s) (tx_id r) = None \<and>
    (\<forall>e \<in> set (map_values (payoutTransactionsById s)). \<not> same_attempt e r \<and>
      (tx_expectedSignature r \<noteq> None \<longrightarrow> tx_expectedSignature e \<noteq> tx_expectedSignature r))"
proof -
  have "find (\<lambda>e. tx_sequence e = tx_sequence r \<and> tx_attempt e = tx_attempt r)
      (listPayoutTransactions h s (tx_payoutBatchId r)) = None"
    "map_get (payoutTransactionsById s) (tx_id r) = None"
    "opt_all (\<lambda>g. \<not> list_ex (\<lambda>e. tx_expectedSignature e = Some g) (map_values (payoutTransactionsById s))) (tx_expectedSignature r)"
    using assms by (auto simp: insertable_def and_then_Inr ensure_Inr)
  then show ?thesis
    by (auto simp: find_None_iff listPayoutTransactions_def same_attempt_def opt_all_def list_ex_iff split: option.splits)
qed

lemma save_signed_payouts:
  assumes "saveSignedPayoutTransactions h clock newId i s = Inr (ts, s')" "payouts_ok s"
  shows "payouts_ok s'"
proof -
  from save_signed_facts [OF assms(1)] obtain b raw where r:
    "createSignedPayoutTransactionRecords h clock newId i = Inr raw" "attachPayoutTransactionItemMappings raw b = Inr ts"
    "\<forall>r \<in> set ts. insertable h s r = Inr ()" "s' = fold put_transaction ts s" by blast
  let ?m = "payoutTransactionsById s"
  have ok: "transactions_ok ?m" using assms(2) by (simp add: payouts_ok_def)
  have P: "keyed tx_id (fold (\<lambda>t. map_set (tx_id t) t) ts ?m)"
    and sub: "set (map_values (fold (\<lambda>t. map_set (tx_id t) t) ts ?m)) \<subseteq> set (map_values ?m) \<union> set ts"
    using put_many_values [of ?m ts] ok by (simp_all add: transactions_ok_def)
  have no: "\<not> same_attempt e r" "\<not> same_attempt r e" if "r \<in> set ts" "e \<in> set (map_values ?m)" for r e
    using insertable_facts [of h s r] r(3) that by (auto simp: same_attempt_def)
  have "attempts_unique (set (map_values ?m) \<union> set ts)"
    using attached_same_attempts [OF r(1,2)] ok no unfolding transactions_ok_def attempts_unique_def by blast
  then have "attempts_unique (set (map_values (fold (\<lambda>t. map_set (tx_id t) t) ts ?m)))"
    using sub unfolding attempts_unique_def by blast
  then have "transactions_ok (payoutTransactionsById s')"
    using P put_all_maps [of s ts] by (simp add: transactions_ok_def r(4))
  then show ?thesis using assms(2) put_all_maps [of s ts] by (simp add: payouts_ok_def r(4))
qed

lemma put_payouts:
  assumes "payouts_ok s" "map_get (payoutTransactionsById s) k = Some e" "tx_id t = tx_id e" "same_attempt t e"
  shows "payouts_ok (put_transaction t s)"
proof -
  have "tx_id e = k" using assms(1,2) by (auto simp: payouts_ok_def transactions_ok_def dest: keyedD)
  then show ?thesis using assms transactions_replace [of "payoutTransactionsById s" t e]
    by (simp add: payouts_ok_def put_transaction_maps)
qed

lemma roll_up_payouts: "payouts_ok s \<Longrightarrow> payouts_ok (rollUpPayoutBatchFinality h k at' s)"
proof -
  assume s: "payouts_ok s"
  have "batches_ok (map_set k (rolled_batch r at' b) (payoutBatchesById s))"
    if "map_get (payoutBatchesById s) k = Some b" for r b
  proof -
    have "pb_id b = k" using s that by (auto simp: payouts_ok_def batches_ok_def dest: keyedD)
    then have "pb_id (rolled_batch r at' b) = k" by (simp add: rolled_batch_def Let_def)
    then show ?thesis using batches_put [of "payoutBatchesById s" "rolled_batch r at' b"] s by (simp add: payouts_ok_def)
  qed
  then show ?thesis using s by (auto simp: rollUpPayoutBatchFinality_def payouts_ok_def split: option.splits)
qed

lemma submitted_payouts:
  assumes "markPayoutTransactionSubmitted h clock i at' sig s = Inr (v, s')" "payouts_ok s"
  shows "payouts_ok s'"
proof -
  show ?thesis
  proof (cases "map_get (payoutTransactionsById s) i")
    case None
    then show ?thesis using assms by (simp add: markPayoutTransactionSubmitted_def)
  next
    case (Some e)
    with assms(1) obtain t where t: "s' = put_transaction t s" "tx_id t = tx_id e" "same_attempt t e"
      by (auto simp: markPayoutTransactionSubmitted_def and_then_Inr Let_def same_attempt_def)
    then show ?thesis using put_payouts [OF assms(2) Some t(2,3)] by simp
  qed
qed

lemma finality_payouts:
  assumes "markPayoutTransactionFinality h clock i s = Inr (v, s')" "payouts_ok s"
  shows "payouts_ok s'"
proof -
  show ?thesis
  proof (cases "map_get (payoutTransactionsById s) (fi_id i)")
    case None
    then show ?thesis using assms by (simp add: markPayoutTransactionFinality_def)
  next
    case (Some e)
    show ?thesis
    proof (cases "opt_all (\<lambda>st. tx_status e = st) (fi_expectedStatus i)")
      case True
      with assms(1) Some obtain at' where s': "s' = rollUpPayoutBatchFinality h
          (tx_payoutBatchId (finality_update i at' e)) at' (put_transaction (finality_update i at' e) s)"
        by (auto simp: markPayoutTransactionFinality_def and_then_Inr Let_def)
      have "tx_id (finality_update i at' e) = tx_id e \<and> same_attempt (finality_update i at' e) e"
        by (simp add: finality_update_def same_attempt_def)
      then show ?thesis unfolding s' using roll_up_payouts put_payouts [OF assms(2) Some] by blast
    next
      case False
      then show ?thesis using assms Some by (simp add: markPayoutTransactionFinality_def)
    qed
  qed
qed

lemma closing_balanced:
  assumes "createPayoutFinalizationLedgerTransaction h clock b now txId newEntryId = Inr t"
  shows "lt_sourceType t = Payout_batch \<and> lt_sourceId t = pb_id b \<and> asset_sum asset (lt_entries t) = 0"
  using assms by (auto simp: createPayoutFinalizationLedgerTransaction_def Let_def and_then_Inr
      intro: payout_ledger_balanced split: if_splits)

lemma close_payouts:
  assumes "closeFinalizedPayoutBatchLedger h clock verify i now txId entryId s = Inr (v, s')" "payouts_ok s" "store_ok s"
  shows "payouts_ok s'"
proof (cases "s' = s")
  case False
  then obtain b t where b: "map_get (payoutBatchesById s) i = Some b" and f: "finish_closing h clock i now txId entryId b s = Inr (t, s')"
    using close_cases [OF assms(1)] by blast
  note F = closing_facts [OF f assms(3)]
  have id: "pb_id b = i" using b assms(2) by (auto simp: payouts_ok_def batches_ok_def dest: keyedD)
  let ?m = "payoutLedgerTransactionsByBatchId s"
  have t: "lt_sourceId t = i" "lt_sourceType t = Payout_batch" "\<And>asset. asset_sum asset (lt_entries t) = 0"
    using F closing_balanced [of h clock b now txId entryId t] id by auto
  have k: "keyed lt_sourceId ?m" and old: "\<forall>t \<in> set (map_values ?m). lt_sourceType t = Payout_batch \<and>
     (\<forall>asset. asset_sum asset (lt_entries t) = 0)" using assms(2) by (simp_all add: payouts_ok_def closings_ok_def)
  have "closings_ok (map_set i t ?m)"
    unfolding closings_ok_def using keyed_put [OF k t(1)] old
    by (auto simp: keyed_put_values [OF k, of _ t, unfolded t(1)] t)
  then show ?thesis using F assms(2) by (simp add: payouts_ok_def)
qed (use assms in simp)

section \<open>Invariants of runs\<close>

definition receipts_booked :: "store \<Rightarrow> bool" where
  "receipts_booked s \<longleftrightarrow> (\<forall>k sn. getByReceiptId s k = Some sn \<longrightarrow> snapshot_books sn)"

definition run_ok :: "store \<Rightarrow> bool" where
  "run_ok s \<longleftrightarrow> store_ok s \<and> payouts_ok s \<and> receipts_booked s"

lemma empty_run_ok: "run_ok empty_store"
  by (simp add: run_ok_def payouts_ok_def batches_ok_def transactions_ok_def closings_ok_def attempts_unique_def
      empty_store_def getByReceiptId_def store_ok_def index_right_def receipts_booked_def)

lemma evolve_books:
  assumes "receipts_evolve s s'" "receipts_booked s"
  shows "receipts_booked s'"
  unfolding receipts_booked_def
proof (intro allI impI)
  fix k sn' assume get: "getByReceiptId s' k = Some sn'"
  show "snapshot_books sn'"
  proof (cases "getByReceiptId s k")
    case None
    then show ?thesis using assms(1) get by (simp add: receipts_evolve_def)
  next
    case (Some sn)
    then obtain sn'' where "getByReceiptId s' k = Some sn''" "snapshot_step sn sn''"
      using assms(1) unfolding receipts_evolve_def by blast
    then have "snapshot_step sn sn'" using get by simp
    then show ?thesis using snapshot_step_books assms(2) Some unfolding receipts_booked_def by blast
  qed
qed

lemma ingest_payouts: "store_ok s \<Longrightarrow> ingest env in_memory r source s = (res, s') \<Longrightarrow> same_payouts s s'"
  using ingest_effect by (fastforce simp: same_payouts_def save_maps)

lemma step_payouts: "store_step h s s' \<Longrightarrow> store_ok s \<Longrightarrow> payouts_ok s \<Longrightarrow> payouts_ok s'"
proof (induction rule: store_step.induct)
  case (ingested env r source s res s')
  then show ?case using ingest_payouts payouts_ok_cong by blast
next
  case (verified i at' s v s')
  then show ?case using mark_verified_become payouts_ok_cong by blast
next
  case (rejected i reason s v s')
  then show ?case using mark_rejected_become payouts_ok_cong by blast
next
  case (batch_created clock newId newItemId i s b s')
  then show ?case using createPayoutBatch_facts(5-7) [OF batch_created(1,2)] by (simp add: payouts_ok_def batches_put)
next
  case (batch_created_from_available clock newId newItemId i s b s')
  then obtain j where j: "createPayoutBatch h clock newId newItemId j s = Inr (b, s')" using from_available by blast
  then show ?case using createPayoutBatch_facts(5-7) [OF j] batch_created_from_available by (simp add: payouts_ok_def batches_put)
next
  case (released clock i s v s')
  show ?case
  proof (cases v)
    case None
    then show ?thesis using released release_none by blast
  next
    case (Some r)
    from release_facts [OF released(1) [unfolded Some] released(2)]
    have "payoutBatchesById s' = map_set (pb_id r) r (payoutBatchesById s) \<and>
      payoutTransactionsById s' = payoutTransactionsById s \<and>
      payoutLedgerTransactionsByBatchId s' = payoutLedgerTransactionsByBatchId s" by (elim exE conjE) simp
    then show ?thesis using released(3) batches_put [of "payoutBatchesById s" r] by (simp add: payouts_ok_def)
  qed
next
  case (signed_saved clock newId i s ts s')
  then show ?case using save_signed_payouts by blast
next
  case (submitted clock i at' sig s v s')
  then show ?case using submitted_payouts by blast
next
  case (finality_marked clock i s v s')
  then show ?case using finality_payouts by blast
next
  case (ledger_closed clock verify i now txId entryId s v s')
  then show ?case using close_payouts by blast
qed

lemma step_run_ok: "store_step h s s' \<Longrightarrow> run_ok s \<Longrightarrow> run_ok s'"
proof -
  assume st: "store_step h s s'" and ok: "run_ok s"
  have ev: "receipts_evolve s s'" using step_evolves [OF st] ok by (simp add: run_ok_def)
  then have "store_ok s'" by (simp add: receipts_evolve_def)
  then show "run_ok s'" using step_payouts [OF st] evolve_books [OF ev] ok by (simp add: run_ok_def)
qed

lemma reachable_run_ok: "reachable h s \<Longrightarrow> run_ok s"
  unfolding reachable_def by (induction rule: rtranclp_induct) (simp_all add: empty_run_ok step_run_ok)

text \<open>All ledger entries of a store: those of the accruals and those that closed payout batches.\<close>

definition all_entries :: "store \<Rightarrow> ledger_entry list" where
  "all_entries s = concat (map (\<lambda>sn. case sn_ledgerTransaction sn of None \<Rightarrow> [] | Some t \<Rightarrow> lt_entries t)
     (map_values (receiptsById s))) @ concat (map lt_entries (map_values (payoutLedgerTransactionsByBatchId s)))"

lemma asset_sum_append [simp]: "asset_sum asset (xs @ ys) = asset_sum asset xs + asset_sum asset ys"
  by (simp add: asset_sum_def)

lemma asset_sum_concat_zero: "\<forall>es \<in> set ess. asset_sum asset es = 0 \<Longrightarrow> asset_sum asset (concat ess) = 0"
  by (induction ess) (simp_all add: asset_sum_def)

lemma snapshot_books_balanced:
  assumes "snapshot_books sn"
  shows "asset_sum asset (case sn_ledgerTransaction sn of None \<Rightarrow> [] | Some t \<Rightarrow> lt_entries t) = 0"
proof (cases "sn_accrual sn")
  case None
  then have "sn_ledgerTransaction sn = None" using assms by (simp add: snapshot_books_def Let_def)
  then show ?thesis by (simp add: asset_sum_def)
next
  case (Some a)
  then have "\<exists>t e1 e2 e3. sn_ledgerTransaction sn = Some t \<and> lt_entries t = [e1, e2, e3] \<and>
      (\<forall>e \<in> {e1, e2, e3}. le_asset e = rc_asset (rr_receipt (sn_receipt sn))) \<and>
      entry_value e1 + entry_value e2 + entry_value e3 = 0"
    using assms unfolding snapshot_books_def Let_def by blast
  then obtain t e1 e2 e3 where "sn_ledgerTransaction sn = Some t" "lt_entries t = [e1, e2, e3]"
      "\<forall>e \<in> {e1, e2, e3}. le_asset e = rc_asset (rr_receipt (sn_receipt sn))"
      "entry_value e1 + entry_value e2 + entry_value e3 = 0" by blast
  then show ?thesis by (simp add: asset_sum_def)
qed

lemma run_balances: "run_ok s \<Longrightarrow> asset_sum asset (all_entries s) = 0"
proof -
  assume ok: "run_ok s"
  have "asset_sum asset (case sn_ledgerTransaction sn of None \<Rightarrow> [] | Some t \<Rightarrow> lt_entries t) = 0"
    if "sn \<in> set (map_values (receiptsById s))" for sn
  proof (rule snapshot_books_balanced)
    show "snapshot_books sn" using ok that values_id(1) [of s sn] unfolding run_ok_def receipts_booked_def by blast
  qed
  moreover have "asset_sum asset (lt_entries t) = 0" if "t \<in> set (map_values (payoutLedgerTransactionsByBatchId s))" for t
    using ok that by (simp add: run_ok_def payouts_ok_def closings_ok_def)
  ultimately show ?thesis unfolding all_entries_def asset_sum_append
    using asset_sum_concat_zero [of "map (\<lambda>sn. case sn_ledgerTransaction sn of None \<Rightarrow> [] | Some t \<Rightarrow> lt_entries t)
       (map_values (receiptsById s))" asset]
      asset_sum_concat_zero [of "map lt_entries (map_values (payoutLedgerTransactionsByBatchId s))" asset] by simp
qed

lemma sample_reachable:
  "\<exists>sn. reachable h (save sn empty_store) \<and> sn_id sn = rc_receiptId sample_receipt \<and> receipts_evolve empty_store (save sn empty_store)"
proof -
  obtain sn where sn: "ingest sample_env in_memory sample_receipt From_buyer empty_store = (Inr (Created sn), save sn empty_store)"
    using sample_ingested by blast
  then have st: "store_step h empty_store (save sn empty_store)" by (rule store_step.ingested)
  have "sn_id sn = rc_receiptId sample_receipt"
    using ingest_created [OF sn] by (auto simp: snapshot_books_def sn_id_def Let_def)
  then show ?thesis using st step_evolves [OF st empty_store_ok] unfolding reachable_def by blast
qed

section \<open>Properties of runs\<close>

text \<open>C21. The books of the control plane always balance: in every store that any sequence of
  ingestions, chain verdicts, batches, releases, transactions, finality marks and ledger closures can
  reach, the ledger entries of each asset sum to zero, every stored receipt carries the accrual and
  the ledger transaction that its amounts demand, and a batch has at most one closing transaction,
  which is its own.\<close>

theorem books_always_balance:
  assumes "reachable h s"
  shows "(\<forall>asset. asset_sum asset (all_entries s) = 0) \<and>
    (\<forall>k sn. getByReceiptId s k = Some sn \<longrightarrow> snapshot_books sn) \<and>
    (\<forall>k t. map_get (payoutLedgerTransactionsByBatchId s) k = Some t \<longrightarrow> lt_sourceId t = k \<and>
       (\<forall>asset. asset_sum asset (lt_entries t) = 0))"
proof -
  have ok: "run_ok s" by (rule reachable_run_ok [OF assms])
  have c: "closings_ok (payoutLedgerTransactionsByBatchId s)" using ok by (simp add: run_ok_def payouts_ok_def)
  have "lt_sourceId t = k \<and> (\<forall>asset. asset_sum asset (lt_entries t) = 0)"
    if "map_get (payoutLedgerTransactionsByBatchId s) k = Some t" for k t
  proof -
    have k: "keyed lt_sourceId (payoutLedgerTransactionsByBatchId s)" using c by (simp add: closings_ok_def)
    then have "lt_sourceId t = k" using that by (rule keyedD)
    then show ?thesis using c that keyed_values [OF k, of t] unfolding closings_ok_def by blast
  qed
  then show ?thesis using run_balances [OF ok] ok unfolding run_ok_def receipts_booked_def by blast
qed

theorem books_always_balance_witness:
  "\<exists>s. reachable toy_host s \<and> getByReceiptId s (rc_receiptId sample_receipt) \<noteq> None \<and>
     (\<forall>asset. asset_sum asset (all_entries s) = 0)"
proof -
  obtain sn where sn: "reachable toy_host (save sn empty_store)" "sn_id sn = rc_receiptId sample_receipt"
    using sample_reachable by blast
  show ?thesis using books_always_balance [OF sn(1)] sn by (metis get_save option.distinct(1))
qed

text \<open>A receipt and its accrual, any number of steps later.\<close>

definition accrual_later :: "accrual \<Rightarrow> accrual \<Rightarrow> bool" where
  "accrual_later a b \<longleftrightarrow> (\<exists>st at'. b = a\<lparr>ac_status := st, ac_availableAt := at'\<rparr>) \<and>
     accrual_move\<^sup>*\<^sup>* (ac_status a) (ac_status b)"

definition snapshot_later :: "snapshot \<Rightarrow> snapshot \<Rightarrow> bool" where
  "snapshot_later a b \<longleftrightarrow> sn_id a = sn_id b \<and> sn_hash a = sn_hash b \<and>
     rr_receipt (sn_receipt a) = rr_receipt (sn_receipt b) \<and> sn_ledgerTransaction a = sn_ledgerTransaction b \<and>
     rel_option accrual_later (sn_accrual a) (sn_accrual b)"

lemma accrual_later_refl: "accrual_later a a"
  unfolding accrual_later_def by (intro conjI exI [of _ "ac_status a"] exI [of _ "ac_availableAt a"]) simp_all

lemma accrual_later_step: "accrual_later a b \<Longrightarrow> accrual_step b c \<Longrightarrow> accrual_later a c"
proof -
  assume ab: "accrual_later a b" and bc: "accrual_step b c"
  obtain st at' where b: "b = a\<lparr>ac_status := st, ac_availableAt := at'\<rparr>" using ab unfolding accrual_later_def by blast
  obtain st2 at2 where c: "c = b\<lparr>ac_status := st2, ac_availableAt := at2\<rparr>" "accrual_move (ac_status b) st2"
    using bc unfolding accrual_step_def by blast
  have "c = a\<lparr>ac_status := st2, ac_availableAt := at2\<rparr>" unfolding c(1) b by simp
  moreover have "accrual_move\<^sup>*\<^sup>* (ac_status a) (ac_status c)"
  proof (rule rtranclp.rtrancl_into_rtrancl)
    show "accrual_move\<^sup>*\<^sup>* (ac_status a) (ac_status b)" using ab unfolding accrual_later_def by blast
    show "accrual_move (ac_status b) (ac_status c)" using c(2) by (simp add: c(1))
  qed
  ultimately show ?thesis unfolding accrual_later_def by blast
qed

lemma snapshot_later_step: "snapshot_later a b \<Longrightarrow> snapshot_step b c \<Longrightarrow> snapshot_later a c"
  using accrual_later_step
  by (cases "sn_accrual a"; cases "sn_accrual b"; cases "sn_accrual c")
     (auto simp: snapshot_later_def snapshot_step_def same_keys_def)

lemma move_final: "accrual_move\<^sup>*\<^sup>* a b \<Longrightarrow> a \<in> {Paid, Rejected, Held, Reversed} \<Longrightarrow> b = a"
  by (induction rule: rtranclp_induct) (auto simp: accrual_move_def)

lemma run_later:
  assumes "(store_step h)\<^sup>*\<^sup>* s s'" "store_ok s" "getByReceiptId s k = Some sn"
  shows "\<exists>sn'. getByReceiptId s' k = Some sn' \<and> snapshot_later sn sn' \<and> store_ok s'"
  using assms(1)
proof (induction rule: rtranclp_induct)
  case base
  have "snapshot_later sn sn" by (cases "sn_accrual sn") (simp_all add: snapshot_later_def accrual_later_refl)
  then show ?case using assms(2,3) by blast
next
  case (step t u)
  then obtain sn1 where sn1: "getByReceiptId t k = Some sn1" "snapshot_later sn sn1" "store_ok t" by blast
  have ev: "receipts_evolve t u" by (rule step_evolves [OF step.hyps(2) sn1(3)])
  then obtain sn2 where "getByReceiptId u k = Some sn2" "snapshot_step sn1 sn2"
    using sn1(1) unfolding receipts_evolve_def by blast
  then show ?case using snapshot_later_step [OF sn1(2)] ev unfolding receipts_evolve_def by blast
qed

text \<open>C22. The life of a receipt: whatever happens later, a stored receipt stays stored with the same
  content and ledger transaction; its accrual keeps its id, amount, asset, merchant and wallet, and
  its status only moves from pending to available or rejected, between available and allocated, and
  from allocated to paid; what is paid or rejected stays so.\<close>

theorem receipt_life_cycle:
  assumes "reachable h s" "(store_step h)\<^sup>*\<^sup>* s s'" "getByReceiptId s k = Some sn"
  shows "\<exists>sn'. getByReceiptId s' k = Some sn' \<and> snapshot_later sn sn' \<and>
    (\<forall>a \<in> set_option (sn_accrual sn). ac_status a \<in> {Paid, Rejected} \<longrightarrow>
       (\<exists>b. sn_accrual sn' = Some b \<and> ac_status b = ac_status a))"
proof -
  have "store_ok s" using reachable_run_ok [OF assms(1)] by (simp add: run_ok_def)
  from run_later [OF assms(2) this assms(3)] obtain sn' where sn': "getByReceiptId s' k = Some sn'" "snapshot_later sn sn'"
    by blast
  have "\<exists>b. sn_accrual sn' = Some b \<and> ac_status b = ac_status a"
    if acc: "sn_accrual sn = Some a" and final: "ac_status a \<in> {Paid, Rejected}" for a
  proof -
    obtain b where b: "sn_accrual sn' = Some b" "accrual_later a b"
      using sn'(2) acc by (cases "sn_accrual sn'") (auto simp: snapshot_later_def)
    then show ?thesis using move_final [of "ac_status a" "ac_status b"] final by (auto simp: accrual_later_def)
  qed
  then show ?thesis using sn' by auto
qed

theorem receipt_life_cycle_witness:
  "\<exists>s sn sn'. getByReceiptId s (rc_receiptId sample_receipt) = Some sn' \<and> snapshot_later sn sn' \<and>
     sn' = verified_snapshot ''Z'' sn"
proof -
  obtain sn where sn: "reachable toy_host (save sn empty_store)" "sn_id sn = rc_receiptId sample_receipt"
    "receipts_evolve empty_store (save sn empty_store)" using sample_reachable by blast
  let ?s = "save sn empty_store" and ?k = "rc_receiptId sample_receipt"
  have get: "getByReceiptId ?s ?k = Some sn" by (simp add: get_save sn(2))
  have ok: "store_ok ?s" using sn(3) by (simp add: receipts_evolve_def)
  obtain v2 s2 where s2: "markReceiptChainVerified ?k ''Z'' ?s = (v2, s2)" by fastforce
  have run: "(store_step toy_host)\<^sup>*\<^sup>* ?s s2" using store_step.verified [OF s2] by blast
  from receipt_life_cycle [OF sn(1) run get] obtain sn' where sn': "getByReceiptId s2 ?k = Some sn'" "snapshot_later sn sn'" by blast
  have "sn' = verified_snapshot ''Z'' sn"
    using mark_verified_become [OF s2 ok] get sn(2) sn'(1) by (simp add: receipts_become_def)
  then show ?thesis using sn' by blast
qed

lemma index_rightD: "index_right key rs ix \<Longrightarrow> map_get rs (sn_id a) = Some a \<Longrightarrow> map_get ix (key a) = Some (sn_id a)"
  by (simp add: index_right_def)

lemma index_unique:
  assumes "index_right key rs ix" "map_get rs (sn_id a) = Some a" "map_get rs (sn_id b) = Some b" "key a = key b"
  shows "sn_id a = sn_id b"
  using index_rightD [OF assms(1,2)] index_rightD [OF assms(1,3)] assms(4) by simp

text \<open>C23. One receipt per payment: in every reachable store two receipts with the same hash, the same
  payment or the same settlement transaction are one receipt, and each of the three lookups finds a
  stored receipt under its own key.\<close>

theorem one_receipt_per_payment:
  assumes "reachable h s" "getByReceiptId s k = Some a" "getByReceiptId s k' = Some b"
  shows "(sn_payment a = sn_payment b \<longrightarrow> a = b) \<and> (sn_settlement a = sn_settlement b \<longrightarrow> a = b) \<and>
    (sn_hash a = sn_hash b \<longrightarrow> a = b) \<and>
    getByPaymentId s (sn_payment a) = Some a \<and> getBySettlementTxSignature s (sn_settlement a) = Some a \<and>
    getByReceiptHash s (sn_hash a) = Some a"
proof -
  have ok: "store_ok s" using reachable_run_ok [OF assms(1)] by (simp add: run_ok_def)
  note ix = store_ok_indexes [OF ok]
  have ids: "sn_id a = k" "sn_id b = k'" by (rule store_ok_id [OF ok assms(2)], rule store_ok_id [OF ok assms(3)])
  have ab: "map_get (receiptsById s) (sn_id a) = Some a" "map_get (receiptsById s) (sn_id b) = Some b"
    unfolding ids using assms(2,3) by (simp_all only: getByReceiptId_def)
  have same: "a = b" if "sn_id a = sn_id b"
  proof -
    have "Some a = Some b" unfolding ab [symmetric] that by (rule refl)
    then show ?thesis by simp
  qed
  have look: "map_get (receiptIdByHash s) (sn_hash a) = Some (sn_id a)" "map_get (receiptIdByPaymentId s) (sn_payment a) = Some (sn_id a)"
    "map_get (receiptIdBySettlementTx s) (sn_settlement a) = Some (sn_id a)"
    by (rule index_rightD [OF ix(1) ab(1)], rule index_rightD [OF ix(2) ab(1)], rule index_rightD [OF ix(3) ab(1)])
  have "sn_payment a = sn_payment b \<longrightarrow> a = b" using same index_unique [OF ix(2) ab] by blast
  moreover have "sn_settlement a = sn_settlement b \<longrightarrow> a = b" using same index_unique [OF ix(3) ab] by blast
  moreover have "sn_hash a = sn_hash b \<longrightarrow> a = b" using same index_unique [OF ix(1) ab] by blast
  moreover have "getByPaymentId s (sn_payment a) = Some a" "getBySettlementTxSignature s (sn_settlement a) = Some a"
    "getByReceiptHash s (sn_hash a) = Some a"
    unfolding getByPaymentId_def getBySettlementTxSignature_def getByReceiptHash_def look by (simp_all add: ab(1))
  ultimately show ?thesis by blast
qed

theorem one_receipt_per_payment_witness:
  "\<exists>s sn. getByPaymentId s (sn_payment sn) = Some sn \<and> sn_id sn = rc_receiptId sample_receipt"
proof -
  obtain sn where sn: "reachable toy_host (save sn empty_store)" "sn_id sn = rc_receiptId sample_receipt"
    using sample_reachable by blast
  have get: "getByReceiptId (save sn empty_store) (sn_id sn) = Some sn" by (simp add: get_save)
  show ?thesis using one_receipt_per_payment [OF sn(1) get get] sn(2) by blast
qed

end
