(* ===== verification/Store_Refinement.thy ===== *)
theory Store_Refinement
  imports Store_Runs
begin

text \<open>
  What the payout operations of the receipt store promise, as an abstract state machine, and the
  simulation by the in-memory store. The abstract state knows the status of each accrual, the accruals
  each batch holds, and which batches are cancelled and which are closed. Its invariant says that no
  accrual is held by two batches that still count. The store refines it on runs in which new ids are
  fresh, a batch is released at most once, and no finality is recorded for a cancelled batch; the last
  section shows on a concrete run that the store itself does not enforce the second condition.
\<close>

section \<open>The abstract machine\<close>

record payout_view =
  v_status :: "string \<Rightarrow> accrual_status option"
  v_holds :: "string \<Rightarrow> string set option"
  v_cancelled :: "string set"
  v_closed :: "string set"

definition relabel ::
  "string set \<Rightarrow> accrual_status \<Rightarrow> accrual_status \<Rightarrow> (string \<Rightarrow> accrual_status option) \<Rightarrow> string \<Rightarrow> accrual_status option" where
  "relabel ids old new f i = (if i \<in> ids \<and> f i = Some old then Some new else f i)"

inductive view_step :: "payout_view \<Rightarrow> payout_view \<Rightarrow> bool" where
  idle: "view_step v v"
| admit: "v_status v i = None \<Longrightarrow> view_step v (v\<lparr>v_status := (v_status v)(i \<mapsto> Pending_chain_verification)\<rparr>)"
| decide: "v_status v i = Some Pending_chain_verification \<Longrightarrow> st \<in> {Available, Rejected} \<Longrightarrow>
    view_step v (v\<lparr>v_status := (v_status v)(i \<mapsto> st)\<rparr>)"
| allocate: "v_holds v b = None \<Longrightarrow> \<forall>i \<in> ids. v_status v i = Some Available \<Longrightarrow>
    view_step v (v\<lparr>v_status := relabel ids Available Allocated (v_status v), v_holds := (v_holds v)(b \<mapsto> ids)\<rparr>)"
| release: "v_holds v b = Some ids \<Longrightarrow> b \<notin> v_cancelled v \<Longrightarrow>
    view_step v (v\<lparr>v_status := relabel ids Allocated Available (v_status v), v_cancelled := insert b (v_cancelled v)\<rparr>)"
| close: "v_holds v b = Some ids \<Longrightarrow> b \<notin> v_cancelled v \<Longrightarrow> b \<notin> v_closed v \<Longrightarrow>
    view_step v (v\<lparr>v_status := relabel ids Allocated Paid (v_status v), v_closed := insert b (v_closed v)\<rparr>)"

text \<open>A batch counts when its ledger is closed or it is not cancelled.\<close>

definition counts :: "payout_view \<Rightarrow> string \<Rightarrow> bool" where
  "counts v b \<longleftrightarrow> b \<in> v_closed v \<or> b \<notin> v_cancelled v"

definition held_status :: "payout_view \<Rightarrow> string \<Rightarrow> accrual_status" where
  "held_status v b = (if b \<in> v_closed v then Paid else Allocated)"

definition view_ok :: "payout_view \<Rightarrow> bool" where
  "view_ok v \<longleftrightarrow>
     (\<forall>b ids i. v_holds v b = Some ids \<longrightarrow> counts v b \<longrightarrow> i \<in> ids \<longrightarrow> v_status v i = Some (held_status v b)) \<and>
     (\<forall>b c ids jds i. v_holds v b = Some ids \<longrightarrow> v_holds v c = Some jds \<longrightarrow> counts v b \<longrightarrow> counts v c \<longrightarrow>
        i \<in> ids \<longrightarrow> i \<in> jds \<longrightarrow> b = c) \<and>
     (\<forall>i st. v_status v i = Some st \<longrightarrow> st = Allocated \<or> st = Paid \<longrightarrow>
        (\<exists>b ids. v_holds v b = Some ids \<and> counts v b \<and> i \<in> ids \<and> st = held_status v b)) \<and>
     v_cancelled v \<union> v_closed v \<subseteq> {b. v_holds v b \<noteq> None}"

lemma view_okD:
  assumes "view_ok v"
  shows view_held: "\<And>b ids i. v_holds v b = Some ids \<Longrightarrow> counts v b \<Longrightarrow> i \<in> ids \<Longrightarrow> v_status v i = Some (held_status v b)"
    and view_disjoint: "\<And>b c ids jds i. v_holds v b = Some ids \<Longrightarrow> v_holds v c = Some jds \<Longrightarrow> counts v b \<Longrightarrow> counts v c \<Longrightarrow>
        i \<in> ids \<Longrightarrow> i \<in> jds \<Longrightarrow> b = c"
    and view_covered: "\<And>i st. v_status v i = Some st \<Longrightarrow> st = Allocated \<or> st = Paid \<Longrightarrow>
        \<exists>b ids. v_holds v b = Some ids \<and> counts v b \<and> i \<in> ids \<and> st = held_status v b"
    and view_marks: "\<And>b. b \<in> v_cancelled v \<union> v_closed v \<Longrightarrow> v_holds v b \<noteq> None"
  using assms unfolding view_ok_def by (blast, blast, blast, blast)

lemma held_status_cases: "held_status v b = Allocated \<or> held_status v b = Paid"
  by (simp add: held_status_def)

text \<open>Changing the status of accruals that no counting batch holds, within the other statuses.\<close>

lemma view_ok_status:
  assumes "view_ok v" "v_status v i \<notin> {Some Allocated, Some Paid}" "st \<notin> {Allocated, Paid}"
  shows "view_ok (v\<lparr>v_status := (v_status v)(i \<mapsto> st)\<rparr>)" (is "view_ok ?w")
proof -
  have free: "v_holds v b = Some ids \<Longrightarrow> counts v b \<Longrightarrow> i \<notin> ids" for b ids
    using view_held [OF assms(1), of b ids i] assms(2) held_status_cases [of v b] by auto
  have eq: "counts ?w = counts v" "held_status ?w = held_status v" "v_holds ?w = v_holds v"
    "v_cancelled ?w = v_cancelled v" "v_closed ?w = v_closed v" "v_status ?w = (v_status v)(i \<mapsto> st)"
    by (simp_all add: counts_def held_status_def fun_eq_iff)
  show ?thesis unfolding view_ok_def eq
  proof (intro conjI allI impI)
    fix b ids j assume "v_holds v b = Some ids" "counts v b" "j \<in> ids"
    then show "((v_status v)(i \<mapsto> st)) j = Some (held_status v b)"
      using view_held [OF assms(1)] free [of b ids] by auto
  next
    fix j s assume "((v_status v)(i \<mapsto> st)) j = Some s" "s = Allocated \<or> s = Paid"
    then have "v_status v j = Some s" using assms(3) by (auto split: if_splits)
    then show "\<exists>b ids. v_holds v b = Some ids \<and> counts v b \<and> j \<in> ids \<and> s = held_status v b"
      using view_covered [OF assms(1)] \<open>s = Allocated \<or> s = Paid\<close> by blast
  next
    show "v_cancelled v \<union> v_closed v \<subseteq> {b. v_holds v b \<noteq> None}" using view_marks [OF assms(1)] by blast
  qed (use view_disjoint [OF assms(1)] in blast)
qed

lemma view_ok_allocate:
  assumes ok: "view_ok v" and new: "v_holds v b = None" and free: "\<forall>i \<in> ids. v_status v i = Some Available"
  shows "view_ok (v\<lparr>v_status := relabel ids Available Allocated (v_status v), v_holds := (v_holds v)(b \<mapsto> ids)\<rparr>)" (is "view_ok ?w")
proof -
  have fresh: "b \<notin> v_cancelled v" "b \<notin> v_closed v" using view_marks [OF ok, of b] new by auto
  have eq: "counts ?w = counts v" "held_status ?w = held_status v" "v_holds ?w = (v_holds v)(b \<mapsto> ids)"
    "v_cancelled ?w = v_cancelled v" "v_closed ?w = v_closed v" "v_status ?w = relabel ids Available Allocated (v_status v)"
    by (simp_all add: counts_def held_status_def fun_eq_iff)
  have b: "counts v b" "held_status v b = Allocated" using fresh by (simp_all add: counts_def held_status_def)
  have apart: "j \<notin> ids" if "v_holds v c = Some jds" "counts v c" "j \<in> jds" for c jds j
    using view_held [OF ok that] free held_status_cases [of v c] by auto
  have out: "relabel ids Available Allocated (v_status v) j = v_status v j" if "j \<notin> ids" for j
    using that by (simp add: relabel_def)
  have inn: "relabel ids Available Allocated (v_status v) j = Some Allocated" if "j \<in> ids" for j
    using that free by (simp add: relabel_def)
  show ?thesis unfolding view_ok_def eq
  proof (intro conjI allI impI)
    fix c jds j assume c: "((v_holds v)(b \<mapsto> ids)) c = Some jds" "counts v c" "j \<in> jds"
    show "relabel ids Available Allocated (v_status v) j = Some (held_status v c)"
    proof (cases "c = b")
      case True
      then show ?thesis using c inn b by simp
    next
      case False
      then have "v_holds v c = Some jds" using c(1) by simp
      then show ?thesis using out [OF apart] view_held [OF ok] c by simp
    qed
  next
    fix c d jds kds j
    assume "((v_holds v)(b \<mapsto> ids)) c = Some jds" "((v_holds v)(b \<mapsto> ids)) d = Some kds" "counts v c" "counts v d" "j \<in> jds" "j \<in> kds"
    then show "c = d" using apart [of c jds j] apart [of d kds j] view_disjoint [OF ok, of c jds d kds j]
      by (auto split: if_splits)
  next
    fix j s assume s: "relabel ids Available Allocated (v_status v) j = Some s" "s = Allocated \<or> s = Paid"
    show "\<exists>c jds. ((v_holds v)(b \<mapsto> ids)) c = Some jds \<and> counts v c \<and> j \<in> jds \<and> s = held_status v c"
    proof (cases "j \<in> ids")
      case True
      then show ?thesis using inn s(1) b by (intro exI [of _ b] exI [of _ ids]) simp
    next
      case False
      then obtain c jds where "v_holds v c = Some jds" "counts v c" "j \<in> jds" "s = held_status v c"
        using view_covered [OF ok _ s(2), of j] out s(1) by auto
      moreover have "c \<noteq> b" using calculation(1) new by auto
      ultimately show ?thesis by (intro exI [of _ c] exI [of _ jds]) simp
    qed
  next
    show "v_cancelled v \<union> v_closed v \<subseteq> {c. ((v_holds v)(b \<mapsto> ids)) c \<noteq> None}" using view_marks [OF ok] by auto
  qed
qed

lemma view_ok_release:
  assumes ok: "view_ok v" and b: "v_holds v b = Some ids" "b \<notin> v_cancelled v"
  shows "view_ok (v\<lparr>v_status := relabel ids Allocated Available (v_status v), v_cancelled := insert b (v_cancelled v)\<rparr>)" (is "view_ok ?w")
proof -
  have eq: "held_status ?w = held_status v" "v_holds ?w = v_holds v" "v_cancelled ?w = insert b (v_cancelled v)"
    "v_closed ?w = v_closed v" "v_status ?w = relabel ids Allocated Available (v_status v)"
    "counts ?w c \<longleftrightarrow> counts v c \<and> (c = b \<longrightarrow> b \<in> v_closed v)" for c
    using b(2) by (auto simp: counts_def held_status_def fun_eq_iff)
  have cb: "counts v b" using b(2) by (simp add: counts_def)
  have keep: "relabel ids Allocated Available (v_status v) j = v_status v j"
    if "v_holds v c = Some jds" "counts v c" "c = b \<longrightarrow> b \<in> v_closed v" "j \<in> jds" for c jds j
  proof (cases "c = b")
    case True
    then show ?thesis using view_held [OF ok that(1,2,4)] that(3) by (simp add: relabel_def held_status_def)
  next
    case False
    then have "j \<notin> ids" using view_disjoint [OF ok that(1) b(1) that(2) cb that(4)] by blast
    then show ?thesis by (simp add: relabel_def)
  qed
  show ?thesis unfolding view_ok_def eq
  proof (intro conjI allI impI)
    fix c jds j assume c: "v_holds v c = Some jds" "counts v c \<and> (c = b \<longrightarrow> b \<in> v_closed v)" "j \<in> jds"
    then show "relabel ids Allocated Available (v_status v) j = Some (held_status v c)"
      using keep [of c jds j] view_held [OF ok, of c jds j] by simp
  next
    fix c d jds kds j
    assume "v_holds v c = Some jds" "v_holds v d = Some kds" "counts v c \<and> (c = b \<longrightarrow> b \<in> v_closed v)"
      "counts v d \<and> (d = b \<longrightarrow> b \<in> v_closed v)" "j \<in> jds" "j \<in> kds"
    then show "c = d" using view_disjoint [OF ok] by blast
  next
    fix j s assume s: "relabel ids Allocated Available (v_status v) j = Some s" "s = Allocated \<or> s = Paid"
    then have old: "v_status v j = Some s" "\<not> (j \<in> ids \<and> s = Allocated)" by (auto simp: relabel_def split: if_splits)
    obtain c jds where c: "v_holds v c = Some jds" "counts v c" "j \<in> jds" "s = held_status v c"
      using view_covered [OF ok old(1) s(2)] by blast
    have "c = b \<longrightarrow> b \<in> v_closed v" using old(2) c b(1) by (auto simp: held_status_def split: if_splits)
    then show "\<exists>c jds. v_holds v c = Some jds \<and> (counts v c \<and> (c = b \<longrightarrow> b \<in> v_closed v)) \<and> j \<in> jds \<and> s = held_status v c"
      using c by blast
  next
    show "insert b (v_cancelled v) \<union> v_closed v \<subseteq> {c. v_holds v c \<noteq> None}" using view_marks [OF ok] b(1) by auto
  qed
qed

lemma view_ok_close:
  assumes ok: "view_ok v" and b: "v_holds v b = Some ids" "b \<notin> v_cancelled v" "b \<notin> v_closed v"
  shows "view_ok (v\<lparr>v_status := relabel ids Allocated Paid (v_status v), v_closed := insert b (v_closed v)\<rparr>)" (is "view_ok ?w")
proof -
  have eq: "held_status ?w = (held_status v)(b := Paid)" "v_holds ?w = v_holds v" "v_cancelled ?w = v_cancelled v"
    "v_closed ?w = insert b (v_closed v)" "v_status ?w = relabel ids Allocated Paid (v_status v)" "counts ?w = counts v"
    using b(2) by (auto simp: counts_def held_status_def fun_eq_iff)
  have cb: "counts v b" "held_status v b = Allocated" using b(2,3) by (simp_all add: counts_def held_status_def)
  have own: "relabel ids Allocated Paid (v_status v) j = Some Paid" if "j \<in> ids" for j
    using view_held [OF ok b(1) cb(1) that] that cb(2) by (simp add: relabel_def)
  have other: "relabel ids Allocated Paid (v_status v) j = v_status v j \<and> j \<notin> ids"
    if "v_holds v c = Some jds" "counts v c" "c \<noteq> b" "j \<in> jds" for c jds j
    using view_disjoint [OF ok that(1) b(1) that(2) cb(1) that(4)] that(3) by (auto simp: relabel_def)
  show ?thesis unfolding view_ok_def eq
  proof (intro conjI allI impI)
    fix c jds j assume c: "v_holds v c = Some jds" "counts v c" "j \<in> jds"
    show "relabel ids Allocated Paid (v_status v) j = Some (((held_status v)(b := Paid)) c)"
    proof (cases "c = b")
      case True
      then show ?thesis using own c(1,3) b(1) by simp
    next
      case False
      then show ?thesis using other [OF c(1,2) False c(3)] view_held [OF ok c] by simp
    qed
  next
    fix c d jds kds j
    assume "v_holds v c = Some jds" "v_holds v d = Some kds" "counts v c" "counts v d" "j \<in> jds" "j \<in> kds"
    then show "c = d" using view_disjoint [OF ok] by blast
  next
    fix j s assume s: "relabel ids Allocated Paid (v_status v) j = Some s" "s = Allocated \<or> s = Paid"
    show "\<exists>c jds. v_holds v c = Some jds \<and> counts v c \<and> j \<in> jds \<and> s = ((held_status v)(b := Paid)) c"
    proof (cases "j \<in> ids")
      case True
      then show ?thesis using own s(1) b(1) cb(1) by (intro exI [of _ b] exI [of _ ids]) simp
    next
      case False
      then have "v_status v j = Some s" using s(1) by (simp add: relabel_def)
      then obtain c jds where c: "v_holds v c = Some jds" "counts v c" "j \<in> jds" "s = held_status v c"
        using view_covered [OF ok _ s(2)] by blast
      then have "c \<noteq> b" using False b(1) by auto
      then show ?thesis using c by (intro exI [of _ c] exI [of _ jds]) simp
    qed
  next
    show "v_cancelled v \<union> insert b (v_closed v) \<subseteq> {c. v_holds v c \<noteq> None}" using view_marks [OF ok] b(1) by auto
  qed
qed

lemma view_step_ok: "view_step v w \<Longrightarrow> view_ok v \<Longrightarrow> view_ok w"
proof (induction rule: view_step.induct)
  case (allocate v b ids)
  then show ?case by (intro view_ok_allocate) auto
next
  case (release v b ids)
  then show ?case by (intro view_ok_release) auto
next
  case (close v b ids)
  then show ?case by (intro view_ok_close) auto
qed (auto intro!: view_ok_status)

section \<open>The store as an abstract machine\<close>

definition view_of :: "store \<Rightarrow> payout_view" where
  "view_of s = \<lparr>v_status = map_of (map (\<lambda>a. (ac_id a, ac_status a)) (listAccruals s)),
     v_holds = (\<lambda>b. map_option (\<lambda>x. set (item_accrual_ids (pb_items x))) (map_get (payoutBatchesById s) b)),
     v_cancelled = {b. \<exists>x. map_get (payoutBatchesById s) b = Some x \<and> pb_status x = B_cancelled},
     v_closed = {b. map_get (payoutLedgerTransactionsByBatchId s) b \<noteq> None}\<rparr>"

definition accrual_at :: "store \<Rightarrow> string \<Rightarrow> accrual \<Rightarrow> bool" where
  "accrual_at s k a \<longleftrightarrow> (\<exists>sn. getByReceiptId s k = Some sn \<and> sn_accrual sn = Some a)"

definition ids_unique :: "store \<Rightarrow> bool" where
  "ids_unique s \<longleftrightarrow> (\<forall>k l a b. accrual_at s k a \<longrightarrow> accrual_at s l b \<longrightarrow> ac_id a = ac_id b \<longrightarrow> k = l)"

lemma accrual_at_fun: "accrual_at s k a \<Longrightarrow> accrual_at s k b \<Longrightarrow> a = b"
  by (auto simp: accrual_at_def)

lemma ids_uniqueD: "ids_unique s \<Longrightarrow> accrual_at s k a \<Longrightarrow> accrual_at s l b \<Longrightarrow> ac_id a = ac_id b \<Longrightarrow> a = b"
  using accrual_at_fun unfolding ids_unique_def by metis

lemma map_filter_set: "set (List.map_filter f xs) = {y. \<exists>x \<in> set xs. f x = Some y}"
  by (force simp: List.map_filter_def)

lemma listAccruals_set:
  assumes "store_ok s"
  shows "a \<in> set (listAccruals s) \<longleftrightarrow> (\<exists>k. accrual_at s k a)"
proof -
  have "a \<in> set (listAccruals s) \<longleftrightarrow> (\<exists>sn \<in> set (map_values (receiptsById s)). sn_accrual sn = Some a)"
    by (simp add: listAccruals_def map_filter_set)
  also have "\<dots> \<longleftrightarrow> (\<exists>k. accrual_at s k a)"
  proof
    assume "\<exists>sn \<in> set (map_values (receiptsById s)). sn_accrual sn = Some a"
    then show "\<exists>k. accrual_at s k a" using values_id(1) [OF assms] unfolding accrual_at_def by blast
  next
    assume "\<exists>k. accrual_at s k a"
    then obtain k sn where sn: "getByReceiptId s k = Some sn" "sn_accrual sn = Some a" unfolding accrual_at_def by blast
    have "sn_id sn = k" by (rule store_ok_id [OF assms sn(1)])
    then have "sn \<in> set (map_values (receiptsById s))" using values_id(1) [OF assms, of sn] sn(1) by simp
    then show "\<exists>sn \<in> set (map_values (receiptsById s)). sn_accrual sn = Some a" using sn(2) by blast
  qed
  finally show ?thesis .
qed

lemma listAccruals_distinct:
  assumes "store_ok s" "ids_unique s"
  shows "distinct (map ac_id (listAccruals s))"
proof -
  have "distinct (map ac_id (List.map_filter sn_accrual xs))"
    if "distinct (map sn_id xs)" "set xs \<subseteq> set (map_values (receiptsById s))" for xs
    using that
  proof (induction xs)
    case (Cons x xs)
    have IH: "distinct (map ac_id (List.map_filter sn_accrual xs))" using Cons by simp
    have at': "accrual_at s (sn_id sn) a" if "sn \<in> set (x # xs)" "sn_accrual sn = Some a" for sn a
    proof -
      have "getByReceiptId s (sn_id sn) = Some sn" using that(1) Cons.prems(2) values_id(1) [OF assms(1), of sn] by blast
      then show ?thesis using that(2) unfolding accrual_at_def by blast
    qed
    show ?case
    proof (cases "sn_accrual x")
      case (Some a)
      have "ac_id a \<notin> ac_id ` set (List.map_filter sn_accrual xs)"
      proof
        assume "ac_id a \<in> ac_id ` set (List.map_filter sn_accrual xs)"
        then obtain sn b where sn: "sn \<in> set xs" "sn_accrual sn = Some b" "ac_id a = ac_id b" by (auto simp: map_filter_set)
        have "sn_id x = sn_id sn" using assms(2) at' [of x a] at' [of sn b] Some sn unfolding ids_unique_def by simp
        then show False using Cons.prems(1) sn(1) by auto
      qed
      then show ?thesis using IH Some by (simp add: List.map_filter_simps)
    qed (use IH in \<open>simp add: List.map_filter_simps\<close>)
  qed (simp add: List.map_filter_simps)
  then show ?thesis using values_id(2) [OF assms(1)] by (simp add: listAccruals_def)
qed

lemma view_status:
  assumes "store_ok s" "ids_unique s"
  shows "v_status (view_of s) i = Some st \<longleftrightarrow> (\<exists>k a. accrual_at s k a \<and> ac_id a = i \<and> ac_status a = st)"
proof -
  have d: "distinct (map fst (map (\<lambda>a. (ac_id a, ac_status a)) (listAccruals s)))"
    using listAccruals_distinct [OF assms] by (simp add: comp_def)
  have "v_status (view_of s) i = Some st \<longleftrightarrow> (i, st) \<in> set (map (\<lambda>a. (ac_id a, ac_status a)) (listAccruals s))"
    using map_of_eq_Some_iff [OF d, of i st] by (simp add: view_of_def)
  also have "\<dots> \<longleftrightarrow> (\<exists>a. a \<in> set (listAccruals s) \<and> ac_id a = i \<and> ac_status a = st)" by (auto simp: image_iff)
  finally show ?thesis unfolding listAccruals_set [OF assms(1)] by blast
qed

lemma view_status_eqI:
  assumes "\<And>st. f = Some st \<longleftrightarrow> g = Some st"
  shows "f = g"
proof (cases f)
  case None
  then show ?thesis using assms [of "the g"] by (cases g) auto
next
  case (Some x)
  then show ?thesis using assms [of x] by simp
qed

text \<open>The accruals move with the receipts.\<close>

definition shift :: "accrual_status \<Rightarrow> accrual_status \<Rightarrow> string list \<Rightarrow> accrual \<Rightarrow> accrual" where
  "shift old new ids a = (if ac_id a \<in> set ids \<and> ac_status a = old then a\<lparr>ac_status := new\<rparr> else a)"

lemma moved_accrual: "sn_accrual (moved old new ids sn) = map_option (shift old new ids) (sn_accrual sn)"
  by (cases "sn_accrual sn") (auto simp: moved_def shift_def takes_def has_status_def with_accrual_status_def)

lemma become_accrual_at:
  assumes "receipts_become f s s'" "\<And>sn. sn_accrual (f sn) = map_option (g (sn_id sn)) (sn_accrual sn)" "store_ok s"
  shows "accrual_at s' k a' \<longleftrightarrow> (\<exists>a. accrual_at s k a \<and> a' = g k a)"
proof (cases "getByReceiptId s k")
  case None
  then show ?thesis using assms(1) by (simp add: receipts_become_def accrual_at_def)
next
  case (Some sn)
  have "sn_id sn = k" by (rule store_ok_id [OF assms(3) Some])
  then show ?thesis using Some assms(1,2) by (auto simp: receipts_become_def accrual_at_def)
qed

lemma become_view:
  assumes "receipts_become f s s'" "\<And>sn. sn_accrual (f sn) = map_option (g (sn_id sn)) (sn_accrual sn)"
    and "store_ok s" "ids_unique s" "\<And>k a. ac_id (g k a) = ac_id a"
  shows "ids_unique s'" "v_status (view_of s') i = Some st \<longleftrightarrow> (\<exists>k a. accrual_at s k a \<and> ac_id a = i \<and> ac_status (g k a) = st)"
proof -
  note A = become_accrual_at [OF assms(1-3)]
  show u: "ids_unique s'" using assms(4) unfolding ids_unique_def A by (auto simp: assms(5))
  have "store_ok s'" using assms(1) by (simp add: receipts_become_def)
  from view_status [OF this u, of i st]
  have "v_status (view_of s') i = Some st \<longleftrightarrow> (\<exists>k a. accrual_at s k a \<and> ac_id (g k a) = i \<and> ac_status (g k a) = st)"
    unfolding A by blast
  then show "v_status (view_of s') i = Some st \<longleftrightarrow> (\<exists>k a. accrual_at s k a \<and> ac_id a = i \<and> ac_status (g k a) = st)"
    by (simp only: assms(5))
qed

lemma view_moved:
  assumes "receipts_become (moved old new ids) s s'" "store_ok s" "ids_unique s"
  shows "ids_unique s' \<and> v_status (view_of s') = relabel (set ids) old new (v_status (view_of s))"
proof
  note B = become_view [OF assms(1), of "\<lambda>k. shift old new ids", OF moved_accrual assms(2,3)]
  have id: "ac_id (shift old new ids a) = ac_id a" for a by (simp add: shift_def)
  show "ids_unique s'" by (rule B(1)) (simp add: id)
  show "v_status (view_of s') = relabel (set ids) old new (v_status (view_of s))"
  proof
    fix i
    note V = view_status [OF assms(2,3), of i]
    show "v_status (view_of s') i = relabel (set ids) old new (v_status (view_of s)) i"
    proof (rule view_status_eqI)
      fix st
      have "v_status (view_of s') i = Some st \<longleftrightarrow> (\<exists>k a. accrual_at s k a \<and> ac_id a = i \<and> ac_status (shift old new ids a) = st)"
        by (rule B(2)) (simp add: id)
      also have "\<dots> \<longleftrightarrow> (\<exists>k a. accrual_at s k a \<and> ac_id a = i \<and> (if i \<in> set ids \<and> ac_status a = old then new else ac_status a) = st)"
        by (auto simp: shift_def)
      also have "\<dots> \<longleftrightarrow> (\<exists>st0. v_status (view_of s) i = Some st0 \<and> (if i \<in> set ids \<and> st0 = old then new else st0) = st)"
        unfolding V by blast
      also have "\<dots> \<longleftrightarrow> relabel (set ids) old new (v_status (view_of s)) i = Some st"
        by (auto simp: relabel_def)
      finally show "v_status (view_of s') i = Some st \<longleftrightarrow> relabel (set ids) old new (v_status (view_of s)) i = Some st" .
    qed
  qed
qed

text \<open>A single receipt changes the status of its accrual.\<close>

lemma view_one:
  assumes "receipts_become (\<lambda>sn. if sn_id sn = k then f sn else sn) s s'" "\<And>sn. sn_accrual (f sn) = map_option g (sn_accrual sn)"
    and "store_ok s" "ids_unique s" "\<And>a. ac_id (g a) = ac_id a"
  shows "ids_unique s' \<and> v_status (view_of s') = (if \<exists>a. accrual_at s k a
      then (v_status (view_of s))(ac_id (THE a. accrual_at s k a) \<mapsto> ac_status (g (THE a. accrual_at s k a)))
      else v_status (view_of s))"
proof -
  have acc: "sn_accrual (if sn_id sn = k then f sn else sn) = map_option ((\<lambda>l. if l = k then g else id) (sn_id sn)) (sn_accrual sn)" for sn
    using assms(2) by (simp add: option.map_id0)
  note B = become_view [OF assms(1), of "\<lambda>l. if l = k then g else id", OF acc assms(3,4)]
  have u: "ids_unique s'" by (rule B(1)) (simp add: assms(5))
  have S: "v_status (view_of s') i = Some st \<longleftrightarrow>
      (\<exists>l a. accrual_at s l a \<and> ac_id a = i \<and> ac_status ((if l = k then g else id) a) = st)" for i st
    by (rule B(2)) (simp add: assms(5))
  note V = view_status [OF assms(3,4)]
  show ?thesis
  proof (cases "\<exists>a. accrual_at s k a")
    case False
    have "v_status (view_of s') = v_status (view_of s)"
    proof (rule ext, rule view_status_eqI)
      fix i st show "v_status (view_of s') i = Some st \<longleftrightarrow> v_status (view_of s) i = Some st"
      proof -
        have "accrual_at s l b \<and> ac_id b = i \<and> ac_status ((if l = k then g else id) b) = st \<longleftrightarrow>
            accrual_at s l b \<and> ac_id b = i \<and> ac_status b = st" for l b using False by auto
        then show ?thesis unfolding S V by simp
      qed
    qed
    then show ?thesis using u False by simp
  next
    case True
    then obtain a where a: "accrual_at s k a" by blast
    have the: "(THE a. accrual_at s k a) = a"
    proof (rule the_equality)
      show "\<And>b. accrual_at s k b \<Longrightarrow> b = a" using a by (rule accrual_at_fun [rotated])
    qed (rule a)
    have "v_status (view_of s') = (v_status (view_of s))(ac_id a \<mapsto> ac_status (g a))"
    proof (rule ext, rule view_status_eqI)
      fix i st
      show "v_status (view_of s') i = Some st \<longleftrightarrow> ((v_status (view_of s))(ac_id a \<mapsto> ac_status (g a))) i = Some st"
      proof (cases "i = ac_id a")
        case True
        have only: "accrual_at s l b \<and> ac_id b = i \<longleftrightarrow> l = k \<and> b = a" for l b
        proof
          assume b: "accrual_at s l b \<and> ac_id b = i"
          then have "l = k" using assms(4) a True unfolding ids_unique_def by blast
          then show "l = k \<and> b = a" using accrual_at_fun [OF _ a] b by simp
        qed (use a True in simp)
        have "(\<exists>l b. accrual_at s l b \<and> ac_id b = i \<and> ac_status ((if l = k then g else id) b) = st) \<longleftrightarrow> ac_status (g a) = st"
          unfolding conj_assoc [symmetric] only by simp
        then have "v_status (view_of s') i = Some st \<longleftrightarrow> ac_status (g a) = st" unfolding S by simp
        then show ?thesis using True by simp
      next
        case False
        have "l \<noteq> k" if "accrual_at s l b" "ac_id b = i" for l b using False a that accrual_at_fun by blast
        then have "accrual_at s l b \<and> ac_id b = i \<and> ac_status ((if l = k then g else id) b) = st \<longleftrightarrow>
            accrual_at s l b \<and> ac_id b = i \<and> ac_status b = st" for l b by auto
        then have "v_status (view_of s') i = Some st \<longleftrightarrow> v_status (view_of s) i = Some st" unfolding S V by simp
        then show ?thesis using False by simp
      qed
    qed
    then show ?thesis using u True by (simp add: the)
  qed
qed

section \<open>Runs that use the store as it asks to be used\<close>

text \<open>Ids are fresh, the accruals of a batch are accruals of the store, a batch is released only while
  it is not cancelled, and no finality is recorded for a transaction of a cancelled batch.\<close>

inductive careful_step :: "host \<Rightarrow> store \<Rightarrow> store \<Rightarrow> bool" for h where
  c_ingested: "ingest env in_memory r source s = (res, s') \<Longrightarrow>
    \<forall>sn a. res = Inr (Created sn) \<longrightarrow> sn_accrual sn = Some a \<longrightarrow> ac_id a \<notin> ac_id ` set (listAccruals s) \<Longrightarrow>
    careful_step h s s'"
| c_verified: "markReceiptChainVerified i at' s = (v, s') \<Longrightarrow> careful_step h s s'"
| c_rejected: "markReceiptChainRejected i reason s = (v, s') \<Longrightarrow> careful_step h s s'"
| c_created: "createPayoutBatch h clock newId newItemId i s = Inr (b, s') \<Longrightarrow>
    map_get (payoutBatchesById s) (pb_id b) = None \<Longrightarrow> distinct (map ac_id (bi_accruals i)) \<Longrightarrow>
    set (bi_accruals i) \<subseteq> set (listAccruals s) \<Longrightarrow> careful_step h s s'"
| c_created_from_available:
    "createPayoutBatchFromAvailableAccruals h clock newId newItemId i s = Inr (b, s') \<Longrightarrow>
    map_get (payoutBatchesById s) (pb_id b) = None \<Longrightarrow> careful_step h s s'"
| c_released: "releasePayoutBatchAllocations h clock i s = Inr (v, s') \<Longrightarrow>
    opt_all (\<lambda>b. pb_status b \<noteq> B_cancelled) (map_get (payoutBatchesById s) (re_payoutBatchId i)) \<Longrightarrow> careful_step h s s'"
| c_signed: "saveSignedPayoutTransactions h clock newId i s = Inr (ts, s') \<Longrightarrow> careful_step h s s'"
| c_submitted: "markPayoutTransactionSubmitted h clock i at' sig s = Inr (v, s') \<Longrightarrow> careful_step h s s'"
| c_finality: "markPayoutTransactionFinality h clock i s = Inr (v, s') \<Longrightarrow>
    \<forall>t. map_get (payoutTransactionsById s) (fi_id i) = Some t \<longrightarrow>
      opt_all (\<lambda>b. pb_status b \<noteq> B_cancelled) (map_get (payoutBatchesById s) (tx_payoutBatchId t)) \<Longrightarrow> careful_step h s s'"
| c_closed: "closeFinalizedPayoutBatchLedger h clock verify i now txId entryId s = Inr (v, s') \<Longrightarrow> careful_step h s s'"

lemma careful_is_step: "careful_step h s s' \<Longrightarrow> store_step h s s'"
  by (induction rule: careful_step.induct) (blast intro: store_step.intros)+

lemma view_eqI:
  assumes "v_status v = v_status w" "v_holds v = v_holds w" "v_cancelled v = v_cancelled w" "v_closed v = v_closed w"
  shows "v = (w :: payout_view)"
  using assms by (cases v; cases w) simp

lemma same_payouts_view:
  "same_payouts s s' \<Longrightarrow> v_holds (view_of s') = v_holds (view_of s) \<and> v_cancelled (view_of s') = v_cancelled (view_of s) \<and>
   v_closed (view_of s') = v_closed (view_of s)"
  by (simp add: view_of_def same_payouts_def)

lemma same_receipts_view:
  "same_receipts s s' \<Longrightarrow> v_status (view_of s') = v_status (view_of s) \<and> (ids_unique s \<longrightarrow> ids_unique s')"
  by (simp add: view_of_def same_receipts_def listAccruals_def ids_unique_def accrual_at_def getByReceiptId_def)

lemma simulate_ingest:
  assumes "ingest env in_memory r source s = (res, s')" "store_ok s" "ids_unique s"
    and fresh: "\<forall>sn a. res = Inr (Created sn) \<longrightarrow> sn_accrual sn = Some a \<longrightarrow> ac_id a \<notin> ac_id ` set (listAccruals s)"
  shows "ids_unique s' \<and> view_step (view_of s) (view_of s')"
proof (cases "s' = s")
  case False
  then obtain sn where res: "res = Inr (Created sn)" and s': "s' = save sn s" using ingest_effect [OF assms(2,1)] by blast
  from ingest_created [OF assms(1) [unfolded res]] have new: "getByReceiptId s (sn_id sn) = None"
    "\<forall>a. sn_accrual sn = Some a \<longrightarrow> ac_status a = Pending_chain_verification"
    using unseen_in_memory [OF assms(2)] by (auto simp: snapshot_books_def Let_def sn_id_def)
  have ok': "store_ok s'" using ingest_evolve [OF assms(2,1)] by (simp add: receipts_evolve_def)
  have at': "accrual_at s' k a \<longleftrightarrow> (if k = sn_id sn then sn_accrual sn = Some a else accrual_at s k a)" for k a
    by (simp add: accrual_at_def s' get_save)
  have no: "\<not> accrual_at s (sn_id sn) a" for a using new(1) by (simp add: accrual_at_def)
  have apart: "ac_id b \<noteq> ac_id a" if "sn_accrual sn = Some a" "accrual_at s k b" for a b k
    using fresh res that listAccruals_set [OF assms(2), of b] by (metis imageI)
  have u: "ids_unique s'" unfolding ids_unique_def at'
    using assms(3) apart unfolding ids_unique_def by (metis option.inject)
  note V = view_status [OF assms(2,3)] and V' = view_status [OF ok' u]
  have pay: "same_payouts s s'" by (rule ingest_payouts [OF assms(2,1)])
  show ?thesis
  proof (cases "sn_accrual sn")
    case None
    have "v_status (view_of s') = v_status (view_of s)"
    proof (rule ext, rule view_status_eqI)
      fix i st
      have "accrual_at s' k a \<longleftrightarrow> accrual_at s k a" for k a using None no by (auto simp: at')
      then show "v_status (view_of s') i = Some st \<longleftrightarrow> v_status (view_of s) i = Some st" unfolding V V' by simp
    qed
    then have "view_of s' = view_of s" using same_payouts_view [OF pay] by (simp add: view_eqI)
    then show ?thesis using u view_step.idle by simp
  next
    case (Some a)
    have pend: "ac_status a = Pending_chain_verification" using new(2) Some by simp
    have "v_status (view_of s') = (v_status (view_of s))(ac_id a \<mapsto> Pending_chain_verification)"
    proof (rule ext, rule view_status_eqI)
      fix i st
      have A: "accrual_at s' k b \<longleftrightarrow> k = sn_id sn \<and> b = a \<or> accrual_at s k b" for k b using Some no by (auto simp: at')
      have "v_status (view_of s') i = Some st \<longleftrightarrow> i = ac_id a \<and> st = ac_status a \<or> v_status (view_of s) i = Some st"
        unfolding V V' A by auto
      moreover have "v_status (view_of s) i = Some st \<longrightarrow> i \<noteq> ac_id a" unfolding V using apart [OF Some] by blast
      ultimately show "v_status (view_of s') i = Some st \<longleftrightarrow>
          ((v_status (view_of s))(ac_id a \<mapsto> Pending_chain_verification)) i = Some st" using pend by auto
    qed
    then have eq: "view_of s' = view_of s\<lparr>v_status := (v_status (view_of s))(ac_id a \<mapsto> Pending_chain_verification)\<rparr>"
      using same_payouts_view [OF pay] by (simp add: view_eqI)
    have "v_status (view_of s) (ac_id a) = None"
    proof (rule ccontr)
      assume "v_status (view_of s) (ac_id a) \<noteq> None"
      then obtain st where "v_status (view_of s) (ac_id a) = Some st" by blast
      then show False unfolding V using apart [OF Some] by blast
    qed
    then show ?thesis using u unfolding eq by (simp add: view_step.admit)
  qed
qed (use assms view_step.idle in simp)

lemma simulate_decide:
  assumes "receipts_become (\<lambda>sn. if sn_id sn = k then f sn else sn) s s'" "same_payouts s s'" "store_ok s" "ids_unique s"
    and "\<And>sn. sn_accrual (f sn) = map_option g (sn_accrual sn)" "\<And>a. ac_id (g a) = ac_id a"
    and "\<And>a. ac_status (g a) = (if ac_status a = Pending_chain_verification then st else ac_status a)" "st \<in> {Available, Rejected}"
  shows "ids_unique s' \<and> view_step (view_of s) (view_of s')"
proof -
  note O = view_one [OF assms(1,5,3,4,6)]
  note P = same_payouts_view [OF assms(2)]
  show ?thesis
  proof (cases "\<exists>a. accrual_at s k a")
    case False
    then have "view_of s' = view_of s" using O P by (simp add: view_eqI)
    then show ?thesis using O view_step.idle by simp
  next
    case True
    then obtain a where a: "accrual_at s k a" by blast
    have the: "(THE a. accrual_at s k a) = a" using accrual_at_fun [OF _ a] a by (rule the_equality [rotated])
    have st: "v_status (view_of s) (ac_id a) = Some (ac_status a)" unfolding view_status [OF assms(3,4)] using a by blast
    have eq: "view_of s' = view_of s\<lparr>v_status := (v_status (view_of s))(ac_id a \<mapsto> ac_status (g a))\<rparr>"
      using O P True by (simp add: view_eqI the)
    show ?thesis
    proof (cases "ac_status a = Pending_chain_verification")
      case True
      then have "v_status (view_of s) (ac_id a) = Some Pending_chain_verification" "ac_status (g a) = st"
        using st assms(7) by simp_all
      then have "view_step (view_of s) (view_of s')" unfolding eq using view_step.decide [OF _ assms(8)] by simp
      then show ?thesis using O by blast
    next
      case False
      then have "view_of s' = view_of s" unfolding eq using st assms(7) by (simp add: fun_upd_idem)
      then show ?thesis using O view_step.idle by simp
    qed
  qed
qed

lemma eligible_from_store:
  assumes "listPayoutEligibleAccruals h i s = Inr as" "store_ok s" "ids_unique s"
  shows "distinct (map ac_id as) \<and> set as \<subseteq> set (listAccruals s)"
proof -
  from assms(1) obtain kept sorted n l where kept: "filter_err (eligible_verdict h i n) (listAccruals s) = Inr kept"
    and sorted: "sort_err (compareAccrualsForPayout h) kept = Inr sorted"
    and cut: "Inr (case l of None \<Rightarrow> sorted | Some n \<Rightarrow> take (nat n) sorted) = (Inr as :: cp_error + accrual list)"
    unfolding listPayoutEligibleAccruals_def filterPayoutEligibleAccruals_def and_then_Inr by blast
  have as: "\<exists>n. as = take n sorted \<or> as = sorted" using cut by (cases l) auto
  have "distinct (map ac_id kept)" "set kept \<subseteq> set (listAccruals s)"
    unfolding filter_err_Inr [OF kept] using listAccruals_distinct [OF assms(2,3)] by (auto simp: distinct_map_filter)
  then have d: "distinct (map ac_id sorted)" "set sorted \<subseteq> set (listAccruals s)"
    using sort_err_mset [OF sorted] sort_err_set [OF sorted] by (metis mset_map mset_eq_imp_distinct_iff, simp)
  then show ?thesis using as by (auto simp: take_map [symmetric] dest: in_set_takeD)
qed

lemma createPayoutBatchPlan_planned:
  assumes "createPayoutBatchPlan h clock newId newItemId i = Inr b"
  shows "pb_status b = B_planned"
  using assms by (rule createPayoutBatchPlan_facts)

lemma simulate_create:
  assumes run: "createPayoutBatch h clock newId newItemId i s = Inr (b, s')" and "run_ok s" "ids_unique s"
    and new: "map_get (payoutBatchesById s) (pb_id b) = None"
    and ins: "distinct (map ac_id (bi_accruals i))" "set (bi_accruals i) \<subseteq> set (listAccruals s)"
  shows "ids_unique s' \<and> view_step (view_of s) (view_of s')"
proof -
  have ok: "store_ok s" using assms(2) by (simp add: run_ok_def)
  let ?ids = "item_accrual_ids (pb_items b)"
  note F = createPayoutBatch_facts [OF run ok]
  note M = view_moved [OF F(2) ok assms(3)]
  have ids: "?ids = allocated_ids b" by (simp add: item_accrual_ids_def allocated_ids_def)
  have sub: "set ?ids \<subseteq> ac_id ` set (bi_accruals i)" using payout_plan_sound [OF F(1) ins(1)] unfolding ids by blast
  have planned: "pb_status b = B_planned" by (rule createPayoutBatchPlan_planned [OF F(1)])
  have avail: "\<forall>j \<in> set ?ids. v_status (view_of s) j = Some Available"
  proof
    fix j assume j: "j \<in> set ?ids"
    then obtain a where a: "a \<in> set (listAccruals s)" "ac_id a = j" using sub ins(2) by auto
    then obtain k sn where k: "getByReceiptId s k = Some sn" "sn_accrual sn = Some a"
      using listAccruals_set [OF ok] unfolding accrual_at_def by blast
    then have "takes ?ids sn" using j a(2) by (auto simp: takes_def)
    then have "has_status Available sn" using F(3) k(1) by blast
    then have "ac_status a = Available" using k(2) by (auto simp: has_status_def)
    then show "v_status (view_of s) j = Some Available"
      unfolding view_status [OF ok assms(3)] using k a(2) by (auto simp: accrual_at_def)
  qed
  have holds: "v_holds (view_of s) (pb_id b) = None" using new by (simp add: view_of_def)
  have "view_of s' = view_of s\<lparr>v_status := relabel (set ?ids) Available Allocated (v_status (view_of s)),
      v_holds := (v_holds (view_of s))(pb_id b \<mapsto> set ?ids)\<rparr>"
    using M F(5,7) new planned by (intro view_eqI) (auto simp: view_of_def fun_eq_iff)
  then show ?thesis using M view_step.allocate [OF holds avail] by simp
qed

lemma simulate_release:
  assumes run: "releasePayoutBatchAllocations h clock i s = Inr (v, s')" and "run_ok s" "ids_unique s"
    and live: "opt_all (\<lambda>b. pb_status b \<noteq> B_cancelled) (map_get (payoutBatchesById s) (re_payoutBatchId i))"
  shows "ids_unique s' \<and> view_step (view_of s) (view_of s')"
proof (cases v)
  case None
  then have "s' = s" using run release_none by blast
  then show ?thesis using assms(3) view_step.idle by simp
next
  case (Some r)
  have ok: "store_ok s" using assms(2) by (simp add: run_ok_def)
  from release_facts [OF run [unfolded Some] ok] obtain b where b: "map_get (payoutBatchesById s) (re_payoutBatchId i) = Some b"
    and r: "pb_id r = pb_id b" "pb_status r = B_cancelled" "pb_items r = map (\<lambda>it. it\<lparr>it_status := I_released\<rparr>) (pb_items b)"
    and mv: "receipts_become (moved Allocated Available (item_accrual_ids (pb_items b))) s s'"
    and maps: "payoutBatchesById s' = map_set (pb_id b) r (payoutBatchesById s)"
      "payoutLedgerTransactionsByBatchId s' = payoutLedgerTransactionsByBatchId s" by (elim exE conjE) simp
  have id: "pb_id b = re_payoutBatchId i" using assms(2) b by (auto simp: run_ok_def payouts_ok_def batches_ok_def dest: keyedD)
  have items: "item_accrual_ids (pb_items r) = item_accrual_ids (pb_items b)" using r(3) by (simp add: item_accrual_ids_status)
  note M = view_moved [OF mv ok assms(3)]
  have b': "map_get (payoutBatchesById s) (pb_id b) = Some b" using b id by simp
  have holds: "v_holds (view_of s) (pb_id b) = Some (set (item_accrual_ids (pb_items b)))" using b' by (simp add: view_of_def)
  have open': "pb_id b \<notin> v_cancelled (view_of s)" using live b id by (simp add: view_of_def)
  have "view_of s' = view_of s\<lparr>v_status := relabel (set (item_accrual_ids (pb_items b))) Allocated Available (v_status (view_of s)),
      v_cancelled := insert (pb_id b) (v_cancelled (view_of s))\<rparr>"
    using M maps r(2) items b' by (intro view_eqI) (auto simp: view_of_def fun_eq_iff)
  then show ?thesis using M view_step.release [OF holds open'] by simp
qed

lemma simulate_close:
  assumes run: "closeFinalizedPayoutBatchLedger h clock verify i now txId entryId s = Inr (v, s')" and "run_ok s" "ids_unique s"
  shows "ids_unique s' \<and> view_step (view_of s) (view_of s')"
proof (cases "s' = s")
  case True
  then show ?thesis using assms(3) view_step.idle by simp
next
  case False
  have ok: "store_ok s" using assms(2) by (simp add: run_ok_def)
  obtain b t where b: "map_get (payoutLedgerTransactionsByBatchId s) i = None" "map_get (payoutBatchesById s) i = Some b"
    and f: "finish_closing h clock i now txId entryId b s = Inr (t, s')" using close_cases [OF run] False by blast
  note F = closing_facts [OF f ok]
  note M = view_moved [OF _ ok assms(3), of Allocated Paid "item_accrual_ids (pb_items b)" s'] F
  have final: "pb_status b = B_finalized"
    using F by (auto simp: createPayoutFinalizationLedgerTransaction_def split: if_splits)
  have holds: "v_holds (view_of s) i = Some (set (item_accrual_ids (pb_items b)))" using b by (simp add: view_of_def)
  have live: "i \<notin> v_cancelled (view_of s)" "i \<notin> v_closed (view_of s)" using b final by (simp_all add: view_of_def)
  have "view_of s' = view_of s\<lparr>v_status := relabel (set (item_accrual_ids (pb_items b))) Allocated Paid (v_status (view_of s)),
      v_closed := insert i (v_closed (view_of s))\<rparr>"
    using M by (intro view_eqI) (auto simp: view_of_def)
  then show ?thesis using M view_step.close [OF holds live] by simp
qed

lemma simulate_same:
  assumes "same_receipts s s'" "payoutBatchesById s' = payoutBatchesById s"
    "payoutLedgerTransactionsByBatchId s' = payoutLedgerTransactionsByBatchId s" "ids_unique s"
  shows "ids_unique s' \<and> view_step (view_of s) (view_of s')"
proof -
  note R = same_receipts_view [OF assms(1)]
  have "view_of s' = view_of s" using R assms(2,3) by (intro view_eqI) (simp_all add: view_of_def)
  then show ?thesis using R assms(4) view_step.idle by simp
qed

text \<open>The roll-up of finality keeps what a batch holds and never cancels a batch.\<close>

lemma rolled_batch_view:
  "item_accrual_ids (pb_items (rolled_batch r at' b)) = item_accrual_ids (pb_items b)"
  "pb_status (rolled_batch r at' b) = ir_batchStatus r"
  by (simp_all add: rolled_batch_def Let_def item_accrual_ids_def comp_def)

lemma rollup_not_cancelled: "rollup_status ts next \<noteq> B_cancelled"
  by (simp add: rollup_status_def split: option.split)

lemma roll_up_view:
  assumes "opt_all (\<lambda>b. pb_status b \<noteq> B_cancelled) (map_get (payoutBatchesById s) k)"
  shows "v_holds (view_of (rollUpPayoutBatchFinality h k at' s)) = v_holds (view_of s) \<and>
    v_cancelled (view_of (rollUpPayoutBatchFinality h k at' s)) = v_cancelled (view_of s) \<and>
    v_closed (view_of (rollUpPayoutBatchFinality h k at' s)) = v_closed (view_of s)"
proof (cases "rollUpPayoutBatchFinality h k at' s = s")
  case False
  then obtain b r where b: "map_get (payoutBatchesById s) k = Some b"
    and r: "summarizePayoutBatchTransactionItemFinality h b (listPayoutTransactions h s k) = Some r"
    and s': "rollUpPayoutBatchFinality h k at' s = s\<lparr>payoutBatchesById := map_set k (rolled_batch r at' b) (payoutBatchesById s)\<rparr>"
    by (auto simp: rollUpPayoutBatchFinality_def split: option.splits)
  have st: "ir_batchStatus r \<noteq> B_cancelled"
    using r rollup_not_cancelled by (auto simp: summarizePayoutBatchTransactionItemFinality_def Let_def split: if_splits)
  have h: "v_holds (view_of (s\<lparr>payoutBatchesById := map_set k (rolled_batch r at' b) (payoutBatchesById s)\<rparr>)) = v_holds (view_of s)"
    using b by (auto simp: view_of_def rolled_batch_view fun_eq_iff)
  have c: "v_cancelled (view_of (s\<lparr>payoutBatchesById := map_set k (rolled_batch r at' b) (payoutBatchesById s)\<rparr>)) = v_cancelled (view_of s)"
    using b st assms by (auto simp: view_of_def rolled_batch_view split: if_splits)
  show ?thesis unfolding s' using h c by (simp add: view_of_def)
qed simp

lemma simulate_finality:
  assumes run: "markPayoutTransactionFinality h clock i s = Inr (v, s')" and "ids_unique s"
    and live: "\<forall>t. map_get (payoutTransactionsById s) (fi_id i) = Some t \<longrightarrow>
      opt_all (\<lambda>b. pb_status b \<noteq> B_cancelled) (map_get (payoutBatchesById s) (tx_payoutBatchId t))"
  shows "ids_unique s' \<and> view_step (view_of s) (view_of s')"
proof -
  note R = same_receipts_view [OF finality_same [OF run]]
  have "v_holds (view_of s') = v_holds (view_of s) \<and> v_cancelled (view_of s') = v_cancelled (view_of s) \<and>
      v_closed (view_of s') = v_closed (view_of s)"
  proof (cases "s' = s")
    case False
    then obtain t at' where t: "map_get (payoutTransactionsById s) (fi_id i) = Some t"
      and s': "s' = rollUpPayoutBatchFinality h (tx_payoutBatchId t) at' (put_transaction (finality_update i at' t) s)"
      using run by (auto simp: markPayoutTransactionFinality_def and_then_Inr Let_def finality_update_def
          split: option.splits if_splits)
    let ?p = "put_transaction (finality_update i at' t) s"
    have keep: "payoutBatchesById ?p = payoutBatchesById s"
      "payoutLedgerTransactionsByBatchId ?p = payoutLedgerTransactionsByBatchId s" by (simp_all add: put_transaction_maps)
    have "v_holds (view_of ?p) = v_holds (view_of s)" "v_cancelled (view_of ?p) = v_cancelled (view_of s)"
      "v_closed (view_of ?p) = v_closed (view_of s)" by (simp_all add: view_of_def keep)
    then show ?thesis unfolding s' using roll_up_view [of ?p "tx_payoutBatchId t" h at'] live t keep by simp
  qed simp
  then have "view_of s' = view_of s" using R by (simp add: view_eqI)
  then show ?thesis using R assms(2) view_step.idle by simp
qed

lemma simulate:
  assumes "careful_step h s s'" "run_ok s" "ids_unique s"
  shows "ids_unique s' \<and> view_step (view_of s) (view_of s')"
  using assms
proof (induction rule: careful_step.induct)
  case (c_ingested env r source s res s')
  then show ?case using simulate_ingest by (simp add: run_ok_def)
next
  case (c_verified i at' s v s')
  have ok: "store_ok s" using c_verified by (simp add: run_ok_def)
  note M = mark_verified_become [OF c_verified(1) ok]
  show ?case
    by (rule simulate_decide [OF M [THEN conjunct1] M [THEN conjunct2] ok c_verified(3), where st = Available
          and g = "\<lambda>a. if ac_status a = Pending_chain_verification then a\<lparr>ac_status := Available, ac_availableAt := Some at'\<rparr> else a"])
       (simp_all add: verified_snapshot_def)
next
  case (c_rejected i reason s v s')
  have ok: "store_ok s" using c_rejected by (simp add: run_ok_def)
  note M = mark_rejected_become [OF c_rejected(1) ok]
  show ?case
    by (rule simulate_decide [OF M [THEN conjunct1] M [THEN conjunct2] ok c_rejected(3), where st = Rejected
          and g = "\<lambda>a. if ac_status a = Pending_chain_verification then a\<lparr>ac_status := Rejected\<rparr> else a"])
       (simp_all add: rejected_snapshot_def)
next
  case (c_created clock newId newItemId i s b s')
  then show ?case by (intro simulate_create)
next
  case (c_created_from_available clock newId newItemId i s b s')
  then obtain j q where j: "createPayoutBatch h clock newId newItemId j s = Inr (b, s')"
    and q: "listPayoutEligibleAccruals h q s = Inr (bi_accruals j)" using from_available by blast
  have "store_ok s" using c_created_from_available by (simp add: run_ok_def)
  then show ?case using simulate_create [OF j] eligible_from_store [OF q] c_created_from_available by blast
next
  case (c_released clock i s v s')
  then show ?case by (intro simulate_release)
next
  case (c_signed clock newId i s ts s')
  have "payoutBatchesById s' = payoutBatchesById s \<and> payoutLedgerTransactionsByBatchId s' = payoutLedgerTransactionsByBatchId s"
    using c_signed(1) by (auto simp: saveSignedPayoutTransactions_def and_then_Inr put_all_maps split: option.splits)
  then show ?case using simulate_same [OF save_signed_same [OF c_signed(1)]] c_signed(3) by blast
next
  case (c_submitted clock i at' sig s v s')
  have "payoutBatchesById s' = payoutBatchesById s \<and> payoutLedgerTransactionsByBatchId s' = payoutLedgerTransactionsByBatchId s"
    using c_submitted(1)
    by (auto simp: markPayoutTransactionSubmitted_def and_then_Inr Let_def put_transaction_maps split: option.splits)
  then show ?case using simulate_same [OF submitted_same [OF c_submitted(1)]] c_submitted(3) by blast
next
  case (c_finality clock i s v s')
  then show ?case by (intro simulate_finality)
next
  case (c_closed clock verify i now txId entryId s v s')
  then show ?case by (intro simulate_close)
qed

lemma careful_run:
  assumes "(careful_step h)\<^sup>*\<^sup>* empty_store s"
  shows "run_ok s \<and> ids_unique s \<and> view_step\<^sup>*\<^sup>* (view_of empty_store) (view_of s) \<and> view_ok (view_of s)"
  using assms
proof (induction rule: rtranclp_induct)
  case base
  have "ids_unique empty_store" by (simp add: ids_unique_def accrual_at_def getByReceiptId_def empty_store_def)
  moreover have "view_ok (view_of empty_store)"
    by (simp add: view_ok_def view_of_def empty_store_def listAccruals_def List.map_filter_def counts_def)
  ultimately show ?case using empty_run_ok by simp
next
  case (step s s')
  then have v: "ids_unique s'" "view_step (view_of s) (view_of s')" using simulate [OF step.hyps(2)] by blast+
  then have "view_ok (view_of s')" using view_step_ok step.IH by blast
  then show ?case using v step.IH step_run_ok [OF careful_is_step [OF step.hyps(2)]]
    rtranclp.rtrancl_into_rtrancl [of view_step _ "view_of s"] by blast
qed

end
