(* ===== verification/Double_Release.thy ===== *)
theory Double_Release
  imports Store_Refinement
begin

text \<open>
  Runs of the receipt store from the empty store, step by step on one accrual: a batch is created, it is
  released, the accrual goes into a second batch. The first run is one the abstract machine allows and
  serves as the example of its properties. In the second the first batch is released again, which the
  store permits because a cancelled batch is one whose allocations may be released and still lists
  them; the accrual of the second batch becomes available and a third batch takes it as well.
\<close>

section \<open>One accrual in the store\<close>

definition demo_accrual :: "string \<Rightarrow> accrual_status \<Rightarrow> string option \<Rightarrow> accrual" where
  "demo_accrual i st at' = \<lparr>ac_id = i, ac_receiptId = rc_receiptId sample_receipt, ac_merchantId = rc_merchantId sample_receipt,
     ac_campaignId = rc_campaignId sample_receipt, ac_routeId = ''rte_'' @ replicate 32 (CHR ''4''),
     ac_referrerWallet = replicate 32 (CHR ''A''), ac_payoutWallet = replicate 32 (CHR ''B''),
     ac_asset = replicate 32 (CHR ''C''), ac_amountAtomic = ''95'', ac_status = st,
     ac_availableAt = at', ac_createdAt = ''Z''\<rparr>"

definition demo_input :: available_batch_input where
  "demo_input = \<lparr>ab_merchantId = ''mer_'' @ replicate 32 (CHR ''2''), ab_payoutWalletId = toy_id ''mpw'' (CHR ''1''),
     ab_network = ''solana'', ab_asset = replicate 32 (CHR ''C''), ab_campaignId = None, ab_routeId = None,
     ab_now = Some ''ZZZ'', ab_limit = None, ab_batchId = None, ab_minimumPayoutAmountAtomic = None, ab_maxRecipients = None\<rparr>"

definition demo_batch :: "string \<Rightarrow> char \<Rightarrow> payout_batch" where
  "demo_batch i c = \<lparr>pb_id = toy_id ''pbt'' c, pb_merchantId = ''mer_'' @ replicate 32 (CHR ''2''),
     pb_payoutWalletId = toy_id ''mpw'' (CHR ''1''), pb_network = ''solana'', pb_asset = replicate 32 (CHR ''C''),
     pb_status = B_planned, pb_totalAmountAtomic = ''95'', pb_itemCount = 1, pb_accrualCount = 1,
     pb_failureCode = None, pb_failureMessage = None, pb_createdAt = ''ZZZ'', pb_updatedAt = ''ZZZ'',
     pb_items = [\<lparr>it_id = toy_id ''pit'' (CHR ''3''), it_payoutBatchId = toy_id ''pbt'' c,
       it_destinationWallet = replicate 32 (CHR ''B''), it_destinationTokenAccount = None, it_amountAtomic = ''95'',
       it_status = I_allocated, it_createdAt = ''ZZZ'',
       it_allocations = [\<lparr>al_payoutItemId = toy_id ''pit'' (CHR ''3''), al_accrualId = i, al_amountAtomic = ''95''\<rparr>]\<rparr>]\<rparr>"

definition demo_plan_input :: "string \<Rightarrow> batch_input" where
  "demo_plan_input i = \<lparr>bi_merchantId = ab_merchantId demo_input, bi_payoutWalletId = ab_payoutWalletId demo_input,
     bi_network = ab_network demo_input, bi_asset = ab_asset demo_input,
     bi_accruals = [demo_accrual i Available (Some ''ZZ'')], bi_now = ab_now demo_input, bi_batchId = ab_batchId demo_input,
     bi_minimumPayoutAmountAtomic = ab_minimumPayoutAmountAtomic demo_input,
     bi_maxRecipients = ab_maxRecipients demo_input\<rparr>"

lemma demo_eligible:
  "filterPayoutEligibleAccruals toy_host [demo_accrual i Available (Some ''ZZ'')]
     \<lparr>ei_merchantId = ab_merchantId demo_input, ei_asset = Some (ab_asset demo_input),
      ei_campaignId = ab_campaignId demo_input, ei_routeId = ab_routeId demo_input, ei_now = ab_now demo_input,
      ei_limit = ab_limit demo_input\<rparr> = Inr [demo_accrual i Available (Some ''ZZ'')]"
  by code_simp

lemma demo_plan:
  assumes "c \<in> {CHR ''5'', CHR ''6'', CHR ''7''}"
  shows "createPayoutBatchPlan toy_host ''Z'' (toy_id ''pbt'' c) (\<lambda>n. toy_id ''pit'' (CHR ''3'')) (demo_plan_input i) = Inr (demo_batch i c)"
proof -
  have "createPayoutBatchPlan toy_host ''Z'' (toy_id ''pbt'' (CHR ''5'')) (\<lambda>n. toy_id ''pit'' (CHR ''3'')) (demo_plan_input i) = Inr (demo_batch i (CHR ''5''))"
    by code_simp
  moreover have "createPayoutBatchPlan toy_host ''Z'' (toy_id ''pbt'' (CHR ''6'')) (\<lambda>n. toy_id ''pit'' (CHR ''3'')) (demo_plan_input i) = Inr (demo_batch i (CHR ''6''))"
    by code_simp
  moreover have "createPayoutBatchPlan toy_host ''Z'' (toy_id ''pbt'' (CHR ''7'')) (\<lambda>n. toy_id ''pit'' (CHR ''3'')) (demo_plan_input i) = Inr (demo_batch i (CHR ''7''))"
    by code_simp
  ultimately show ?thesis using assms by blast
qed

text \<open>The store holds one receipt, its accrual has the given status, and there are no transactions.\<close>

definition demo_state :: "string \<Rightarrow> accrual_status \<Rightarrow> (string, payout_batch) js_map \<Rightarrow> store \<Rightarrow> bool" where
  "demo_state i st bs s \<longleftrightarrow> (\<exists>k sn. receiptsById s = [(k, sn)] \<and> sn_id sn = k \<and>
     sn_accrual sn = Some (demo_accrual i st (Some ''ZZ'')) \<and> payoutBatchesById s = bs \<and> payoutTransactionsById s = [] \<and>
     payoutLedgerTransactionsByBatchId s = [])"

lemma demo_move:
  assumes "receiptsById s = [(k, sn)]" "sn_id sn = k" "sn_accrual sn = Some (demo_accrual i st (Some ''ZZ''))"
    "payoutBatchesById s = bs" "payoutTransactionsById s = []" "payoutLedgerTransactionsByBatchId s = []"
  shows "demo_state i new bs (save (with_accrual_status new sn) s)"
  using assms unfolding demo_state_def
  by (intro exI [of _ k] exI [of _ "with_accrual_status new sn"])
     (simp add: save_def Let_def with_accrual_status_def demo_accrual_def map_set_def sn_id_def)

lemma demo_batches: "demo_state i st bs s \<Longrightarrow> demo_state i st bs' (s\<lparr>payoutBatchesById := bs'\<rparr>)"
  by (auto simp: demo_state_def)

lemma demo_create:
  assumes s: "demo_state i Available bs s" and c: "c \<in> {CHR ''5'', CHR ''6'', CHR ''7''}"
  shows "\<exists>s'. createPayoutBatchFromAvailableAccruals toy_host ''Z'' (toy_id ''pbt'' c) (\<lambda>n. toy_id ''pit'' (CHR ''3'')) demo_input s =
      Inr (demo_batch i c, s') \<and> demo_state i Allocated (map_set (toy_id ''pbt'' c) (demo_batch i c) bs) s'"
proof -
  obtain k sn where k: "receiptsById s = [(k, sn)]" "sn_id sn = k" "sn_accrual sn = Some (demo_accrual i Available (Some ''ZZ''))"
    "payoutBatchesById s = bs" "payoutTransactionsById s = []" "payoutLedgerTransactionsByBatchId s = []" using s unfolding demo_state_def by blast
  have all: "listAccruals s = [demo_accrual i Available (Some ''ZZ'')]"
    using k by (simp add: listAccruals_def map_values_def List.map_filter_def)
  let ?s = "save (with_accrual_status Allocated sn) s"
  let ?s' = "?s\<lparr>payoutBatchesById := map_set (toy_id ''pbt'' c) (demo_batch i c) (payoutBatchesById ?s)\<rparr>"
  have keep: "payoutBatchesById ?s = bs" using k(4) by (simp add: save_maps)
  have ids: "item_accrual_ids (pb_items (demo_batch i c)) = [i]" "pb_id (demo_batch i c) = toy_id ''pbt'' c"
    by (simp_all add: demo_batch_def item_accrual_ids_def)
  have collect: "fold_err (collect_step [i]) [sn] [] = Inr [sn]"
    using k by (simp add: collect_step_def demo_accrual_def)
  have "createPayoutBatch toy_host ''Z'' (toy_id ''pbt'' c) (\<lambda>n. toy_id ''pit'' (CHR ''3'')) (demo_plan_input i) s = Inr (demo_batch i c, ?s')"
    using k(1) collect by (simp add: createPayoutBatch_def demo_plan [OF c] ids Let_def map_values_def)
  then have run: "createPayoutBatchFromAvailableAccruals toy_host ''Z'' (toy_id ''pbt'' c) (\<lambda>n. toy_id ''pit'' (CHR ''3'')) demo_input s =
      Inr (demo_batch i c, ?s')"
    by (simp add: createPayoutBatchFromAvailableAccruals_def listPayoutEligibleAccruals_def all demo_eligible demo_plan_input_def)
  have "demo_state i Allocated bs ?s" by (rule demo_move [OF k])
  then have "demo_state i Allocated (map_set (toy_id ''pbt'' c) (demo_batch i c) bs) ?s'"
    unfolding keep by (rule demo_batches)
  then show ?thesis using run by blast
qed

definition demo_released :: "string \<Rightarrow> char \<Rightarrow> payout_batch" where
  "demo_released i c = (demo_batch i c)\<lparr>pb_status := B_cancelled, pb_failureCode := Some ''allocations_released'',
     pb_failureMessage := Some ''stuck'', pb_items := map (\<lambda>it. it\<lparr>it_status := I_released\<rparr>) (pb_items (demo_batch i c))\<rparr>"

definition demo_release :: "char \<Rightarrow> release_input" where
  "demo_release c = \<lparr>re_payoutBatchId = toy_id ''pbt'' c, re_reason = ''stuck'', re_now = Some ''ZZZ'', re_override = None,
     re_chainChecks = []\<rparr>"

lemma demo_released_again:
  "b \<in> {demo_batch i c, demo_released i c} \<Longrightarrow>
   releasePayoutBatchAllocationsForBatch toy_host ''Z'' b ''stuck'' (Some ''ZZZ'') None False = Inr (demo_released i c)"
proof -
  have t: "normalizeTimestamp toy_host ''ZZZ'' ''now'' = Inr ''ZZZ''" "assertNonEmptyString ''stuck'' ''reason'' = Inr ''stuck''"
    by code_simp+
  assume "b \<in> {demo_batch i c, demo_released i c}"
  then show ?thesis
    by (auto simp: demo_released_def demo_batch_def releasePayoutBatchAllocationsForBatch_def t now_or_def
      isPayoutBatchAllocationReleaseAllowed_def)
qed

lemma demo_freed:
  assumes s: "demo_state i Allocated bs s" and b: "map_get bs (toy_id ''pbt'' c) = Some b" "b \<in> {demo_batch i c, demo_released i c}"
  shows "\<exists>s'. releasePayoutBatchAllocations toy_host ''Z'' (demo_release c) s = Inr (Some (demo_released i c), s') \<and>
    demo_state i Available (map_set (toy_id ''pbt'' c) (demo_released i c) bs) s'"
proof -
  obtain k sn where k: "receiptsById s = [(k, sn)]" "sn_id sn = k" "sn_accrual sn = Some (demo_accrual i Allocated (Some ''ZZ''))"
    "payoutBatchesById s = bs" "payoutTransactionsById s = []" "payoutLedgerTransactionsByBatchId s = []" using s unfolding demo_state_def by blast
  let ?s = "s\<lparr>payoutBatchesById := map_set (toy_id ''pbt'' c) (demo_released i c) bs\<rparr>"
  have st: "pb_status b \<noteq> B_outcome_unknown" using b(2) by (auto simp: demo_batch_def demo_released_def)
  have ids: "item_accrual_ids (pb_items (demo_released i c)) = [i]" "pb_id (demo_released i c) = toy_id ''pbt'' c"
    by (simp_all add: demo_released_def demo_batch_def item_accrual_ids_def)
  have settle: "settle_accruals Available [i] ?s = save (with_accrual_status Available sn) ?s"
    using k by (simp add: settle_accruals_def settle_step_def map_values_def demo_accrual_def)
  have none: "listPayoutTransactions toy_host s x = []" for x using k by (simp add: listPayoutTransactions_def map_values_def sort_by_def)
  have "releasePayoutBatchAllocations toy_host ''Z'' (demo_release c) s = Inr (Some (demo_released i c), save (with_accrual_status Available sn) ?s)"
    using st b(1) k(4) settle demo_released_again [OF b(2)]
    by (simp add: releasePayoutBatchAllocations_def demo_release_def none ids Let_def assertPayoutBatchAllocationsReleasable_def
        listPayoutBatchAllocationReleaseHazards_def)
  moreover have "demo_state i Available (map_set (toy_id ''pbt'' c) (demo_released i c) bs) (save (with_accrual_status Available sn) ?s)"
    by (rule demo_move [of _ k _ _ Allocated]) (use k in simp_all)
  ultimately show ?thesis by blast
qed

section \<open>The runs\<close>

lemma demo_ingested:
  "\<exists>i sn. ingest sample_env in_memory sample_receipt From_buyer empty_store = (Inr (Created sn), save sn empty_store) \<and>
     sn_id sn = rc_receiptId sample_receipt \<and> sn_accrual sn = Some (demo_accrual i Pending_chain_verification None)"
proof -
  have schema: "receipt_schema (ie_zod sample_env) sample_receipt" by (simp add: sample_env_def sample_receipt_schema)
  obtain hash where hash: "receipt_hash sample_env sample_receipt = Inr hash" using receipt_hash_total by blast
  have un: "unseen in_memory sample_receipt hash empty_store"
    unfolding unseen_in_memory [OF empty_store_ok] by (simp add: empty_store_def getByReceiptId_def)
  have "admitted sample_env sample_receipt"
    unfolding admitted_iff [OF schema] using sample_signed sample_receipt_sums by (simp add: sample_env_def)
  with ingest_unseen [OF schema hash un, of From_buyer] obtain sn where
    sn: "createSnapshot sample_env sample_receipt hash From_buyer = Inr sn"
    and run: "ingest sample_env in_memory sample_receipt From_buyer empty_store = (Inr (Created sn), save sn empty_store)"
    by (auto simp: in_memory_def)
  let ?i = "nextId sample_env 0 ''acr'' (rc_receiptId sample_receipt) ''accrual''"
  have n: "bigint_of ''95'' = Inr 95" by code_simp
  have f: "rc_routeId sample_receipt = Some (''rte_'' @ replicate 32 (CHR ''4''))"
    "rc_referrerWallet sample_receipt = Some (replicate 32 (CHR ''A''))" "rc_payoutWallet sample_receipt = Some (replicate 32 (CHR ''B''))"
    "rc_asset sample_receipt = replicate 32 (CHR ''C'')" "rc_referrerCreditAtomic sample_receipt = ''95''" "ie_now sample_env = ''Z''"
    by (simp_all add: sample_receipt_def sample_env_def)
  have "createAccrual sample_env sample_receipt (ie_now sample_env) = Inr (Some (demo_accrual ?i Pending_chain_verification None))"
    unfolding createAccrual_def f option.case prod.case demo_accrual_def by (simp add: n)
  then have "sn_accrual sn = Some (demo_accrual ?i Pending_chain_verification None) \<and> sn_id sn = rc_receiptId sample_receipt"
    using sn unfolding createSnapshot_def and_then_Inr by (auto simp: sn_id_def)
  then show ?thesis using run by blast
qed

lemma demo_start: "\<exists>i s. (careful_step toy_host)\<^sup>*\<^sup>* empty_store s \<and> demo_state i Available [] s"
proof -
  obtain i sn where run: "ingest sample_env in_memory sample_receipt From_buyer empty_store = (Inr (Created sn), save sn empty_store)"
    and sn: "sn_id sn = rc_receiptId sample_receipt" "sn_accrual sn = Some (demo_accrual i Pending_chain_verification None)"
    using demo_ingested by blast
  let ?s = "save sn empty_store" and ?v = "verified_snapshot ''ZZ'' sn"
  have "listAccruals empty_store = []" by (simp add: listAccruals_def empty_store_def List.map_filter_def)
  then have one: "careful_step toy_host empty_store ?s" using careful_step.c_ingested [OF run, of toy_host] by simp
  have verify: "markReceiptChainVerified (sn_id sn) ''ZZ'' ?s = (Some ?v, save ?v ?s)"
    by (simp add: markReceiptChainVerified_def get_save Let_def)
  have "receiptsById (save ?v ?s) = [(sn_id sn, ?v)]" "sn_id ?v = sn_id sn"
    by (simp_all add: save_maps empty_store_def map_set_def verified_snapshot_def sn_id_def)
  then have "demo_state i Available [] (save ?v ?s)"
    unfolding demo_state_def using sn(2)
    by (intro exI [of _ "sn_id sn"] exI [of _ ?v]) (simp add: save_maps empty_store_def verified_snapshot_def demo_accrual_def)
  moreover have "(careful_step toy_host)\<^sup>*\<^sup>* empty_store (save ?v ?s)"
    by (rule rtranclp.rtrancl_into_rtrancl [OF r_into_rtranclp [of "careful_step toy_host", OF one] careful_step.c_verified [OF verify]])
  ultimately show ?thesis by blast
qed

text \<open>The first batch is created and released, and the accrual goes into the second.\<close>

lemma demo_second_batch:
  "\<exists>i s. (careful_step toy_host)\<^sup>*\<^sup>* empty_store s \<and> demo_state i Allocated
     (map_set (toy_id ''pbt'' (CHR ''6'')) (demo_batch i (CHR ''6''))
       (map_set (toy_id ''pbt'' (CHR ''5'')) (demo_released i (CHR ''5'')) [])) s"
proof -
  obtain i s where s: "(careful_step toy_host)\<^sup>*\<^sup>* empty_store s" "demo_state i Available [] s" using demo_start by blast
  let ?a = "toy_id ''pbt'' (CHR ''5'')" and ?b = "toy_id ''pbt'' (CHR ''6'')"
  have ids: "pb_id (demo_batch i c) = toy_id ''pbt'' c" "pb_status (demo_batch i c) = B_planned" for c by (simp_all add: demo_batch_def)
  have ne: "?a \<noteq> ?b" by (simp add: toy_id_def)
  obtain s1 where s1: "createPayoutBatchFromAvailableAccruals toy_host ''Z'' ?a (\<lambda>n. toy_id ''pit'' (CHR ''3'')) demo_input s =
      Inr (demo_batch i (CHR ''5''), s1)" "demo_state i Allocated (map_set ?a (demo_batch i (CHR ''5'')) []) s1"
    using demo_create [OF s(2), of "CHR ''5''"] by blast
  have "payoutBatchesById s = []" using s(2) by (auto simp: demo_state_def)
  then have r1: "careful_step toy_host s s1" using careful_step.c_created_from_available [OF s1(1)] by (simp add: ids)
  have get: "map_get (map_set ?a (demo_batch i (CHR ''5'')) []) ?a = Some (demo_batch i (CHR ''5''))" by simp
  obtain s2 where s2: "releasePayoutBatchAllocations toy_host ''Z'' (demo_release (CHR ''5'')) s1 = Inr (Some (demo_released i (CHR ''5'')), s2)"
    "demo_state i Available (map_set ?a (demo_released i (CHR ''5'')) (map_set ?a (demo_batch i (CHR ''5'')) [])) s2"
    using demo_freed [OF s1(2) get] by blast
  have bs1: "payoutBatchesById s1 = map_set ?a (demo_batch i (CHR ''5'')) []" using s1(2) by (auto simp: demo_state_def)
  have r2: "careful_step toy_host s1 s2" by (rule careful_step.c_released [OF s2(1)]) (simp add: bs1 demo_release_def ids)
  have bs: "map_set ?a (demo_released i (CHR ''5'')) (map_set ?a (demo_batch i (CHR ''5'')) []) = map_set ?a (demo_released i (CHR ''5'')) []"
    by (simp add: map_set_def)
  obtain s3 where s3: "createPayoutBatchFromAvailableAccruals toy_host ''Z'' ?b (\<lambda>n. toy_id ''pit'' (CHR ''3'')) demo_input s2 =
      Inr (demo_batch i (CHR ''6''), s3)" "demo_state i Allocated (map_set ?b (demo_batch i (CHR ''6'')) (map_set ?a (demo_released i (CHR ''5'')) [])) s3"
    using demo_create [OF s2(2) [unfolded bs], of "CHR ''6''"] by blast
  have bs2: "payoutBatchesById s2 = map_set ?a (demo_released i (CHR ''5'')) []" using s2(2) [unfolded bs] by (auto simp: demo_state_def)
  have r3: "careful_step toy_host s2 s3"
    by (rule careful_step.c_created_from_available [OF s3(1)]) (use ne in \<open>simp add: bs2 ids\<close>)
  have "(careful_step toy_host)\<^sup>*\<^sup>* empty_store s3"
    using s(1) r1 r2 r3 by (meson rtranclp.rtrancl_into_rtrancl)
  then show ?thesis using s3(2) by blast
qed

section \<open>Properties\<close>

text \<open>C24. The store refines the abstract payout machine: from the empty store, along any sequence of
  calls that use fresh ids, release a batch only while it is not cancelled and record no finality for a
  cancelled batch, every call is one abstract step. It admits an accrual, decides it, allocates a set
  of available accruals to a new batch, gives all accruals of a batch back, pays all of them, or
  changes nothing of the statuses, the holdings, the cancelled and the closed batches.\<close>

theorem store_refines_payout_machine:
  assumes "(careful_step h)\<^sup>*\<^sup>* empty_store s" "careful_step h s s'"
  shows "view_of empty_store = \<lparr>v_status = (\<lambda>_. None), v_holds = (\<lambda>_. None), v_cancelled = {}, v_closed = {}\<rparr> \<and>
    view_step (view_of s) (view_of s')"
proof
  show "view_of empty_store = \<lparr>v_status = (\<lambda>_. None), v_holds = (\<lambda>_. None), v_cancelled = {}, v_closed = {}\<rparr>"
    by (simp add: view_of_def empty_store_def listAccruals_def List.map_filter_def map_get_def)
  show "view_step (view_of s) (view_of s')" using simulate [OF assms(2)] careful_run [OF assms(1)] by blast
qed

theorem store_refines_payout_machine_witness:
  "\<exists>s. view_step (view_of empty_store) (view_of s) \<and> getByReceiptId s (rc_receiptId sample_receipt) \<noteq> None"
proof -
  obtain i sn where run: "ingest sample_env in_memory sample_receipt From_buyer empty_store = (Inr (Created sn), save sn empty_store)"
    and sn: "sn_id sn = rc_receiptId sample_receipt" using demo_ingested by blast
  have "listAccruals empty_store = []" by (simp add: listAccruals_def empty_store_def List.map_filter_def)
  then have one: "careful_step toy_host empty_store (save sn empty_store)"
    using careful_step.c_ingested [OF run, of toy_host] by simp
  from store_refines_payout_machine [OF rtranclp.rtrancl_refl one] sn show ?thesis by (metis get_save option.distinct(1))
qed

text \<open>A batch counts while its ledger is closed or it is not cancelled.\<close>

definition closed_batch :: "store \<Rightarrow> string \<Rightarrow> bool" where
  "closed_batch s b \<longleftrightarrow> map_get (payoutLedgerTransactionsByBatchId s) b \<noteq> None"

definition open_batch :: "store \<Rightarrow> string \<Rightarrow> bool" where
  "open_batch s b \<longleftrightarrow> \<not> closed_batch s b \<and> (\<exists>x. getPayoutBatch s b = Some x \<and> pb_status x \<noteq> B_cancelled)"

definition holds_accrual :: "store \<Rightarrow> string \<Rightarrow> string \<Rightarrow> bool" where
  "holds_accrual s b i \<longleftrightarrow> (\<exists>x. getPayoutBatch s b = Some x \<and> i \<in> set (item_accrual_ids (pb_items x)))"

lemma view_of_batches:
  "counts (view_of s) b \<and> v_holds (view_of s) b = Some ids \<longleftrightarrow>
     (closed_batch s b \<or> open_batch s b) \<and> (\<exists>x. getPayoutBatch s b = Some x \<and> ids = set (item_accrual_ids (pb_items x)))"
  "held_status (view_of s) b = (if closed_batch s b then Paid else Allocated)"
  by (auto simp: counts_def held_status_def view_of_def closed_batch_def open_batch_def getPayoutBatch_def)

lemma accrual_view_status:
  assumes "store_ok s" "ids_unique s" "a \<in> set (listAccruals s)"
  shows "v_status (view_of s) (ac_id a) = Some (ac_status a)"
  using view_status [OF assms(1,2), of "ac_id a" "ac_status a"] listAccruals_set [OF assms(1), of a] assms(3) by blast

text \<open>C25. No accrual is paid twice: along such runs two batches that count (not cancelled, or with a
  closed ledger) never hold the same accrual; an accrual is allocated exactly when an open batch holds
  it, and paid exactly when a batch whose ledger is closed holds it.\<close>

theorem accrual_held_by_one_batch:
  assumes "(careful_step h)\<^sup>*\<^sup>* empty_store s"
  shows "(\<forall>b c i. (closed_batch s b \<or> open_batch s b) \<and> (closed_batch s c \<or> open_batch s c) \<and>
       holds_accrual s b i \<and> holds_accrual s c i \<longrightarrow> b = c) \<and>
    (\<forall>a \<in> set (listAccruals s).
       (ac_status a = Allocated \<longleftrightarrow> (\<exists>b. open_batch s b \<and> holds_accrual s b (ac_id a))) \<and>
       (ac_status a = Paid \<longleftrightarrow> (\<exists>b. closed_batch s b \<and> holds_accrual s b (ac_id a))))"
proof -
  note R = careful_run [OF assms]
  have ok: "view_ok (view_of s)" and st: "store_ok s" "ids_unique s" using R by (auto simp: run_ok_def)
  let ?on = "\<lambda>b. closed_batch s b \<or> open_batch s b"
  have holding: "\<exists>ids. v_holds (view_of s) b = Some ids \<and> counts (view_of s) b \<and> i \<in> ids" if "?on b" "holds_accrual s b i" for b i
    using that view_of_batches(1) [of s b] by (auto simp: holds_accrual_def)
  have one: "b = c" if "?on b" "?on c" "holds_accrual s b i" "holds_accrual s c i" for b c i
    using holding [OF that(1,3)] holding [OF that(2,4)] view_disjoint [OF ok] by blast
  have status: "ac_status a = (if closed_batch s b then Paid else Allocated)"
    if a: "a \<in> set (listAccruals s)" "?on b" "holds_accrual s b (ac_id a)" for a b
  proof -
    obtain ids where "v_holds (view_of s) b = Some ids" "counts (view_of s) b" "ac_id a \<in> ids"
      using holding [OF a(2,3)] by blast
    then show ?thesis using view_held [OF ok] accrual_view_status [OF st a(1)] view_of_batches(2) [of s b] by simp
  qed
  have conv: "\<exists>b. ?on b \<and> holds_accrual s b (ac_id a) \<and> ac_status a = (if closed_batch s b then Paid else Allocated)"
    if a: "a \<in> set (listAccruals s)" "ac_status a = Allocated \<or> ac_status a = Paid" for a
  proof -
    obtain b ids where b: "v_holds (view_of s) b = Some ids" "counts (view_of s) b" "ac_id a \<in> ids" "ac_status a = held_status (view_of s) b"
      using view_covered [OF ok accrual_view_status [OF st a(1)] a(2)] by blast
    have "?on b \<and> (\<exists>x. getPayoutBatch s b = Some x \<and> ids = set (item_accrual_ids (pb_items x)))"
      using b(1,2) view_of_batches(1) [of s b ids] by blast
    then have "?on b \<and> holds_accrual s b (ac_id a)" using b(3) by (auto simp: holds_accrual_def)
    then show ?thesis using b(4) view_of_batches(2) [of s b] by auto
  qed
  have each: "(ac_status a = Allocated \<longleftrightarrow> (\<exists>b. open_batch s b \<and> holds_accrual s b (ac_id a))) \<and>
       (ac_status a = Paid \<longleftrightarrow> (\<exists>b. closed_batch s b \<and> holds_accrual s b (ac_id a)))" if "a \<in> set (listAccruals s)" for a
  proof -
    have closed: "ac_status a = Paid" if "closed_batch s b" "holds_accrual s b (ac_id a)" for b
      using status [OF \<open>a \<in> set (listAccruals s)\<close>, of b] that by simp
    have still: "ac_status a = Allocated" if "open_batch s b" "holds_accrual s b (ac_id a)" for b
      using status [OF \<open>a \<in> set (listAccruals s)\<close>, of b] that by (simp add: open_batch_def)
    have "\<exists>b. open_batch s b \<and> holds_accrual s b (ac_id a)" if "ac_status a = Allocated"
      using conv [OF \<open>a \<in> set (listAccruals s)\<close>] that closed by fastforce
    moreover have "\<exists>b. closed_batch s b \<and> holds_accrual s b (ac_id a)" if "ac_status a = Paid"
      using conv [OF \<open>a \<in> set (listAccruals s)\<close>] that still by fastforce
    ultimately show ?thesis using closed still by blast
  qed
  show ?thesis using one each by blast
qed

theorem accrual_held_by_one_batch_witness:
  "\<exists>s i. open_batch s (toy_id ''pbt'' (CHR ''6'')) \<and> holds_accrual s (toy_id ''pbt'' (CHR ''6'')) i \<and>
     holds_accrual s (toy_id ''pbt'' (CHR ''5'')) i \<and> \<not> open_batch s (toy_id ''pbt'' (CHR ''5''))"
proof -
  obtain i s where s: "(careful_step toy_host)\<^sup>*\<^sup>* empty_store s" "demo_state i Allocated
     (map_set (toy_id ''pbt'' (CHR ''6'')) (demo_batch i (CHR ''6'')) (map_set (toy_id ''pbt'' (CHR ''5'')) (demo_released i (CHR ''5'')) [])) s"
    using demo_second_batch by blast
  let ?a = "toy_id ''pbt'' (CHR ''5'')" and ?b = "toy_id ''pbt'' (CHR ''6'')"
  have bs: "getPayoutBatch s ?a = Some (demo_released i (CHR ''5''))" "getPayoutBatch s ?b = Some (demo_batch i (CHR ''6''))"
    using s(2) by (auto simp: demo_state_def getPayoutBatch_def toy_id_def)
  then have held: "holds_accrual s ?a i" "holds_accrual s ?b i"
    by (simp_all add: holds_accrual_def demo_released_def demo_batch_def item_accrual_ids_def)
  obtain k sn where k: "receiptsById s = [(k, sn)]" "sn_accrual sn = Some (demo_accrual i Allocated (Some ''ZZ''))"
    using s(2) unfolding demo_state_def by blast
  then have acc: "listAccruals s = [demo_accrual i Allocated (Some ''ZZ'')]"
    by (simp add: listAccruals_def map_values_def List.map_filter_def)
  note P = accrual_held_by_one_batch [OF s(1), THEN conjunct2, unfolded acc]
  have "\<not> closed_batch s ?b" using P held(2) by (auto simp: demo_accrual_def)
  then have "open_batch s ?b" using bs(2) by (simp add: open_batch_def demo_batch_def)
  moreover have "\<not> open_batch s ?a" using bs(1) by (simp add: open_batch_def demo_released_def)
  ultimately show ?thesis using held by blast
qed

text \<open>C26. The store does not itself keep the second rule: after such a run, in which a first batch was
  released and its accrual went into a second batch, the release of the first batch is accepted once
  more, the accrual of the second batch becomes available, and a third batch takes it: two planned
  batches then hold the same accrual and both would pay it.\<close>

theorem second_release_allocates_twice:
  "\<exists>s s1 s2 i b c x y r. (careful_step toy_host)\<^sup>*\<^sup>* empty_store s \<and>
     releasePayoutBatchAllocations toy_host ''Z'' r s = Inr (Some x, s1) \<and>
     createPayoutBatchFromAvailableAccruals toy_host ''Z'' c (\<lambda>n. toy_id ''pit'' (CHR ''3'')) demo_input s1 = Inr (y, s2) \<and>
     b \<noteq> c \<and> open_batch s2 b \<and> open_batch s2 c \<and> holds_accrual s2 b i \<and> holds_accrual s2 c i"
proof -
  obtain i s where s: "(careful_step toy_host)\<^sup>*\<^sup>* empty_store s" "demo_state i Allocated
     (map_set (toy_id ''pbt'' (CHR ''6'')) (demo_batch i (CHR ''6'')) (map_set (toy_id ''pbt'' (CHR ''5'')) (demo_released i (CHR ''5'')) [])) s"
    using demo_second_batch by blast
  let ?a = "toy_id ''pbt'' (CHR ''5'')" and ?b = "toy_id ''pbt'' (CHR ''6'')" and ?c = "toy_id ''pbt'' (CHR ''7'')"
  let ?bs = "map_set ?b (demo_batch i (CHR ''6'')) (map_set ?a (demo_released i (CHR ''5'')) [])"
  have ne: "?a \<noteq> ?b" "?b \<noteq> ?c" "?b \<noteq> ?a" by (simp_all add: toy_id_def)
  have "map_get ?bs ?a = Some (demo_released i (CHR ''5''))" using ne by simp
  then obtain s1 where s1: "releasePayoutBatchAllocations toy_host ''Z'' (demo_release (CHR ''5'')) s = Inr (Some (demo_released i (CHR ''5'')), s1)"
    "demo_state i Available (map_set ?a (demo_released i (CHR ''5'')) ?bs) s1" using demo_freed [OF s(2)] by blast
  obtain s2 where s2: "createPayoutBatchFromAvailableAccruals toy_host ''Z'' ?c (\<lambda>n. toy_id ''pit'' (CHR ''3'')) demo_input s1 =
      Inr (demo_batch i (CHR ''7''), s2)"
    "demo_state i Allocated (map_set ?c (demo_batch i (CHR ''7'')) (map_set ?a (demo_released i (CHR ''5'')) ?bs)) s2"
    using demo_create [OF s1(2), of "CHR ''7''"] by blast
  have bs: "getPayoutBatch s2 ?b = Some (demo_batch i (CHR ''6''))" "getPayoutBatch s2 ?c = Some (demo_batch i (CHR ''7''))"
    using s2(2) ne by (auto simp: demo_state_def getPayoutBatch_def)
  then have "holds_accrual s2 ?b i" "holds_accrual s2 ?c i"
    by (simp_all add: holds_accrual_def demo_batch_def item_accrual_ids_def)
  moreover have "payoutLedgerTransactionsByBatchId s2 = []" using s2(2) by (auto simp: demo_state_def)
  moreover from this have "open_batch s2 ?b" "open_batch s2 ?c" using bs by (simp_all add: open_batch_def demo_batch_def closed_batch_def)
  ultimately show ?thesis using s(1) s1(1) s2(1) ne(2) by blast
qed

end
