(* ===== verification/Workers.thy ===== *)
theory Workers
  imports Outbox Double_Release
begin

text \<open>
  \<^verbatim>\<open>packages/control-plane/src/workers.ts\<close>: the loop that drives a background worker, the worker that
  checks accepted receipts against the chain, and the worker that follows submitted payout
  transactions to finality and closes the ledgers of finalized batches. The workers run over the
  in-memory receipt store and over any outbox. While a worker awaits the chain, a callback or a timer,
  others may work on the stores: these are actions on the whole state, parameters of the model.
\<close>

section \<open>The loop\<close>

datatype stopped_by = Aborted | Max_iterations

record ('w, 'r) worker_loop =
  wl_processNext :: "('w, 'r) action"
  wl_shouldSleepAfter :: "'r \<Rightarrow> bool"
  wl_aborted :: "'w \<Rightarrow> bool"
  wl_onResult :: "'r \<Rightarrow> ('w, unit) action"
  wl_onError :: "string \<Rightarrow> ('w, unit) action"
  wl_sleep :: "int \<Rightarrow> ('w, unit) action"
  wl_maxIterations :: "int option"
  wl_pollIntervalMs :: "int option"
  wl_errorDelayMs :: "int option"
  wl_stopOnError :: bool

definition assertValidMaxIterations :: "int option \<Rightarrow> string + unit" where
  "assertValidMaxIterations m = (case m of
       Some n \<Rightarrow> if n < 1 then Inl ''maxIterations must be a positive integer'' else Inr ()
     | None \<Rightarrow> Inr ())"

definition hasReachedMaxIterations :: "nat \<Rightarrow> int option \<Rightarrow> bool" where
  "hasReachedMaxIterations iterations m = (case m of None \<Rightarrow> False | Some n \<Rightarrow> n \<le> int iterations)"

definition shouldStop :: "nat \<Rightarrow> ('w, 'r) worker_loop \<Rightarrow> 'w \<Rightarrow> bool" where
  "shouldStop iterations l w \<longleftrightarrow> wl_aborted l w \<or> hasReachedMaxIterations iterations (wl_maxIterations l)"

definition DEFAULT_POLL_INTERVAL_MS :: int where
  "DEFAULT_POLL_INTERVAL_MS = 5000"

definition poll_delay :: "('w, 'r) worker_loop \<Rightarrow> int" where
  "poll_delay l = (case wl_pollIntervalMs l of Some n \<Rightarrow> n | None \<Rightarrow> DEFAULT_POLL_INTERVAL_MS)"

definition error_delay :: "('w, 'r) worker_loop \<Rightarrow> int" where
  "error_delay l = (case wl_errorDelayMs l of Some n \<Rightarrow> n | None \<Rightarrow> poll_delay l)"

text \<open>The body of the \<open>catch\<close> and of the \<open>try\<close>: a pass returns the new count of iterations, or throws out
  of the loop. A throw of \<open>onResult\<close> or of the sleep is caught with the pass counted already.\<close>

definition after_error :: "('w, 'r) worker_loop \<Rightarrow> string \<Rightarrow> nat \<Rightarrow> ('w, nat) action" where
  "after_error l e iterations =
     awaits (wl_onError l e) (\<lambda>_ w.
       if wl_stopOnError l then throws e w
       else if \<not> shouldStop iterations l w
       then awaits (wl_sleep l (error_delay l)) (\<lambda>_. returns iterations) w
       else returns iterations w)"

definition after_result :: "('w, 'r) worker_loop \<Rightarrow> 'r \<Rightarrow> nat \<Rightarrow> ('w, unit) action" where
  "after_result l r iterations =
     awaits (wl_onResult l r) (\<lambda>_ w.
       if wl_shouldSleepAfter l r \<and> \<not> shouldStop iterations l w
       then wl_sleep l (poll_delay l) w else returns () w)"

definition worker_pass :: "('w, 'r) worker_loop \<Rightarrow> nat \<Rightarrow> ('w, nat) action" where
  "worker_pass l iterations w = (case wl_processNext l w of
       (Inl e, w1) \<Rightarrow> after_error l e (iterations + 1) w1
     | (Inr r, w1) \<Rightarrow> (case after_result l r (iterations + 1) w1 of
         (Inl e, w2) \<Rightarrow> after_error l e (iterations + 2) w2
       | (Inr _, w2) \<Rightarrow> (Inr (iterations + 1), w2)))"

text \<open>The \<open>while\<close> may run forever, which is the value \<open>None\<close>.\<close>

partial_function (option) worker_while ::
  "('w, 'r) worker_loop \<Rightarrow> nat \<Rightarrow> 'w \<Rightarrow> ((string + nat \<times> stopped_by) \<times> 'w) option" where
  "worker_while l iterations w =
     (if wl_aborted l w then Some (Inr (iterations, Aborted), w)
      else if hasReachedMaxIterations iterations (wl_maxIterations l) then Some (Inr (iterations, Max_iterations), w)
      else (case worker_pass l iterations w of
          (Inl e, w') \<Rightarrow> Some (Inl e, w')
        | (Inr n, w') \<Rightarrow> worker_while l n w'))"

declare worker_while.simps [code]

definition runWorkerLoop :: "('w, 'r) worker_loop \<Rightarrow> 'w \<Rightarrow> ((string + nat \<times> stopped_by) \<times> 'w) option" where
  "runWorkerLoop l w = (case assertValidMaxIterations (wl_maxIterations l) of
       Inl e \<Rightarrow> Some (Inl e, w) | Inr _ \<Rightarrow> worker_while l 0 w)"

section \<open>What the loop guarantees\<close>

text \<open>One pass, whatever the count.\<close>

definition passes :: "('w, 'r) worker_loop \<Rightarrow> 'w \<Rightarrow> 'w \<Rightarrow> bool" where
  "passes l w w' \<longleftrightarrow> (\<exists>n. snd (worker_pass l n w) = w')"

lemma after_error_count: "after_error l e n w = (Inr k, w') \<Longrightarrow> k = n"
  by (auto simp: after_error_def action_simps awaits_def split: prod.splits sum.splits if_splits)

lemma pass_counts:
  assumes "worker_pass l n w = (Inr k, w')"
  shows "n < k \<and> k \<le> n + 2"
  using assms after_error_count by (fastforce simp: worker_pass_def split: prod.splits sum.splits)

lemma while_returns:
  assumes "wl_maxIterations l = Some m" "nat m - n = d" "n \<le> nat m + 1"
  shows "\<exists>out w' j. worker_while l n w = Some (out, w') \<and> j \<le> d \<and> (passes l ^^ j) w w' \<and>
    (\<forall>k. out = Inr (k, Max_iterations) \<longrightarrow> nat m \<le> k \<and> k \<le> nat m + 1) \<and> (\<forall>k. out = Inr (k, Aborted) \<longrightarrow> wl_aborted l w')"
  using assms(2,3)
proof (induction d arbitrary: n w rule: less_induct)
  case (less d)
  consider (aborted) "wl_aborted l w" | (reached) "\<not> wl_aborted l w" "m \<le> int n"
    | (goes_on) "\<not> wl_aborted l w" "\<not> m \<le> int n" by blast
  then show ?case
  proof cases
    case aborted
    then show ?thesis by (intro exI [of _ "Inr (n, Aborted)"] exI [of _ w] exI [of _ 0]) (simp add: worker_while.simps)
  next
    case reached
    then have "worker_while l n w = Some (Inr (n, Max_iterations), w)"
      by (simp add: worker_while.simps hasReachedMaxIterations_def assms(1))
    then show ?thesis using reached less.prems
      by (intro exI [of _ "Inr (n, Max_iterations)"] exI [of _ w] exI [of _ 0]) (auto simp: nat_le_iff)
  next
    case goes_on
    then have step: "worker_while l n w = (case worker_pass l n w of (Inl e, w') \<Rightarrow> Some (Inl e, w') | (Inr k, w') \<Rightarrow> worker_while l k w')"
      by (simp add: worker_while.simps [of l n w] hasReachedMaxIterations_def assms(1))
    obtain r w1 where p: "worker_pass l n w = (r, w1)" by (cases "worker_pass l n w")
    then have one: "passes l w w1" unfolding passes_def by (metis snd_conv)
    show ?thesis
    proof (cases r)
      case (Inl e)
      have "worker_while l n w = Some (Inl e, w1)" using step p Inl by simp
      moreover have "(passes l ^^ 1) w w1" using one by (auto simp: OO_def)
      moreover have "1 \<le> d" using goes_on less.prems by linarith
      ultimately show ?thesis using Inl by (intro exI [of _ "Inl e"] exI [of _ w1] exI [of _ 1] conjI) simp_all
    next
      case (Inr k)
      then have "worker_pass l n w = (Inr k, w1)" using p by simp
      then have k: "n < k" "k \<le> n + 2" using pass_counts [of l n w k w1] by simp_all
      have d: "nat m - k < d" "k \<le> nat m + 1" using k goes_on less.prems by linarith+
      from less.IH [OF d(1) refl d(2), of w1] obtain out w' j where
        ih: "worker_while l k w1 = Some (out, w')" "j \<le> nat m - k" "(passes l ^^ j) w1 w'"
        and ends: "\<forall>k. out = Inr (k, Max_iterations) \<longrightarrow> nat m \<le> k \<and> k \<le> nat m + 1" "\<forall>k. out = Inr (k, Aborted) \<longrightarrow> wl_aborted l w'"
        by (elim exE conjE)
      have "worker_while l n w = Some (out, w')" using step p Inr ih(1) by simp
      moreover have "(passes l ^^ Suc j) w w'" using one ih(3) by (rule relpowp_Suc_I2)
      moreover have "Suc j \<le> d" using d(1) ih(2) by linarith
      ultimately show ?thesis using ends by blast
    qed
  qed
qed

lemma loop_returns:
  assumes "wl_maxIterations l = Some m"
  shows "\<exists>out w' j. runWorkerLoop l w = Some (out, w') \<and> int j \<le> max m 0 \<and> (passes l ^^ j) w w' \<and>
    (\<forall>k. out = Inr (k, Max_iterations) \<longrightarrow> m \<le> int k \<and> int k \<le> m + 1) \<and> (\<forall>k. out = Inr (k, Aborted) \<longrightarrow> wl_aborted l w')"
proof (cases "m < 1")
  case True
  then show ?thesis
    by (intro exI [of _ "Inl ''maxIterations must be a positive integer''"] exI [of _ w] exI [of _ 0])
      (simp add: runWorkerLoop_def assertValidMaxIterations_def assms)
next
  case False
  obtain out w' j where w: "worker_while l 0 w = Some (out, w')" "j \<le> nat m" "(passes l ^^ j) w w'"
    "\<forall>k. out = Inr (k, Max_iterations) \<longrightarrow> nat m \<le> k \<and> k \<le> nat m + 1" "\<forall>k. out = Inr (k, Aborted) \<longrightarrow> wl_aborted l w'"
    using while_returns [OF assms, of 0 "nat m" w] by auto
  moreover have "runWorkerLoop l w = worker_while l 0 w"
    using False by (simp add: runWorkerLoop_def assertValidMaxIterations_def assms)
  ultimately show ?thesis using False
    by (intro exI [of _ out] exI [of _ w'] exI [of _ j]) (auto simp: nat_le_iff)
qed

text \<open>Without a bound, a loop that is never aborted and throws nothing out does not return.\<close>

lemma while_endless:
  assumes "wl_maxIterations l = None" "\<And>w. \<not> wl_aborted l w" "\<And>n w. \<exists>k w'. worker_pass l n w = (Inr k, w')"
  shows "worker_while l n w = None"
proof -
  have "worker_while l n w = Some y \<Longrightarrow> wl_maxIterations l = None \<longrightarrow> (\<forall>w. \<not> wl_aborted l w) \<longrightarrow>
      (\<forall>n w. \<exists>k w'. worker_pass l n w = (Inr k, w')) \<longrightarrow> False" for y
  proof (erule worker_while.raw_induct [rotated 1], intro impI)
    fix f and l :: "('a, 'b) worker_loop" and n w y
    assume ih: "\<And>l n w y. f l n w = Some y \<Longrightarrow> wl_maxIterations l = None \<longrightarrow> (\<forall>w. \<not> wl_aborted l w) \<longrightarrow>
        (\<forall>n w. \<exists>k w'. worker_pass l n w = (Inr k, w')) \<longrightarrow> False"
      and eq: "(if wl_aborted l w then Some (Inr (n, Aborted), w)
        else if hasReachedMaxIterations n (wl_maxIterations l) then Some (Inr (n, Max_iterations), w)
        else (case worker_pass l n w of (Inl e, w') \<Rightarrow> Some (Inl e, w') | (Inr n, w') \<Rightarrow> f l n w')) = Some y"
      and a: "wl_maxIterations l = None" "\<forall>w. \<not> wl_aborted l w" "\<forall>n w. \<exists>k w'. worker_pass l n w = (Inr k, w')"
    obtain k w' where p: "worker_pass l n w = (Inr k, w')" using a(3) by blast
    have "f l k w' = Some y" using eq a p by (simp add: hasReachedMaxIterations_def)
    then show False using ih a by blast
  qed
  then show ?thesis using assms by (cases "worker_while l n w") blast+
qed

text \<open>What every hook of a loop keeps, the loop keeps.\<close>

definition keeps :: "('w \<Rightarrow> 'w \<Rightarrow> bool) \<Rightarrow> ('w, 'a) action \<Rightarrow> bool" where
  "keeps R f \<longleftrightarrow> (\<forall>w. R w (snd (f w)))"

lemma keepsD: "keeps R f \<Longrightarrow> f w = (r, w') \<Longrightarrow> R w w'"
  by (metis keeps_def snd_conv)

lemma keeps_awaits: "transp R \<Longrightarrow> keeps R f \<Longrightarrow> (\<And>x. keeps R (g x)) \<Longrightarrow> keeps R (awaits f g)"
  unfolding keeps_def by (auto simp: awaits_def split: prod.splits sum.splits) (metis snd_conv transpE)+

lemma keeps_returns: "reflp R \<Longrightarrow> keeps R (returns x)" "reflp R \<Longrightarrow> keeps R (throws e)"
  by (simp_all add: keeps_def action_simps reflpD)

definition hooks_keep :: "('w \<Rightarrow> 'w \<Rightarrow> bool) \<Rightarrow> ('w, 'r) worker_loop \<Rightarrow> bool" where
  "hooks_keep R l \<longleftrightarrow> (\<forall>r. keeps R (wl_onResult l r)) \<and> (\<forall>e. keeps R (wl_onError l e)) \<and> (\<forall>d. keeps R (wl_sleep l d))"

lemma pass_keeps:
  assumes "transp R" "reflp R" "hooks_keep R l" "keeps R (wl_processNext l)"
  shows "keeps R (worker_pass l n)"
proof -
  have c: "keeps R (\<lambda>w. if b w then f w else g w)" if "keeps R f" "keeps R g" for b and f g :: "('a, 'c) action"
    using that by (simp add: keeps_def)
  have e: "keeps R (after_error l e k)" for e k unfolding after_error_def
    using assms by (intro keeps_awaits c keeps_returns) (auto simp: hooks_keep_def)
  have r: "keeps R (after_result l r k)" for r k unfolding after_result_def
    using assms by (intro keeps_awaits c keeps_returns) (auto simp: hooks_keep_def)
  show ?thesis unfolding keeps_def
  proof
    fix w
    obtain r w1 where p: "wl_processNext l w = (r, w1)" by (cases "wl_processNext l w")
    then have R1: "R w w1" using keepsD [OF assms(4)] by blast
    show "R w (snd (worker_pass l n w))"
    proof (cases r)
      case (Inl m)
      then have "R w1 (snd (worker_pass l n w))" using p e by (simp add: worker_pass_def keeps_def)
      then show ?thesis by (rule transpE [OF assms(1) R1])
    next
      case (Inr v)
      obtain r2 w2 where q: "after_result l v (n + 1) w1 = (r2, w2)" by (cases "after_result l v (n + 1) w1")
      then have R2: "R w w2" using keepsD [OF r q] R1 assms(1) by (blast elim: transpE)
      have "R w2 (snd (worker_pass l n w))"
        using p q Inr e assms(2) by (cases r2) (simp_all add: worker_pass_def keeps_def reflpD)
      then show ?thesis by (rule transpE [OF assms(1) R2])
    qed
  qed
qed

lemma passes_keep:
  assumes "transp R" "reflp R" "hooks_keep R l" "keeps R (wl_processNext l)"
  shows "(passes l ^^ j) w w' \<Longrightarrow> R w w'"
proof (induction j arbitrary: w')
  case (Suc j)
  then obtain w1 where w1: "(passes l ^^ j) w w1" "passes l w1 w'" by auto
  then obtain n where "snd (worker_pass l n w1) = w'" by (auto simp: passes_def)
  then have "R w1 w'" using pass_keeps [OF assms, of n] by (auto simp: keeps_def)
  with Suc.IH [OF w1(1)] show ?case by (rule transpE [OF assms(1)])
qed (simp add: assms(2) reflpD)

section \<open>Chain verification of receipts\<close>

text \<open>The methods of an outbox the workers call.\<close>

record 'o outbox_ops =
  ob_claimNext :: "string \<Rightarrow> string list option \<Rightarrow> ('o, outbox_event option) action"
  ob_markDelivered :: "string \<Rightarrow> ('o, outbox_event option) action"
  ob_markFailed :: "string \<Rightarrow> string \<Rightarrow> string \<Rightarrow> bool \<Rightarrow> ('o, outbox_event option) action"

definition postgres_outbox :: "host \<Rightarrow> outbox outbox_ops" where
  "postgres_outbox h = \<lparr>ob_claimNext = claimNext h, ob_markDelivered = markDelivered h, ob_markFailed = markFailed h\<rparr>"

lemma postgres_outbox_simps [simp]:
  "ob_claimNext (postgres_outbox h) = claimNext h" "ob_markDelivered (postgres_outbox h) = markDelivered h"
  "ob_markFailed (postgres_outbox h) = markFailed h"
  by (simp_all add: postgres_outbox_def)

definition RECEIPT_ACCEPTED_EVENT_TYPE :: string where
  "RECEIPT_ACCEPTED_EVENT_TYPE = ''receipt.accepted.v1''"

datatype chain_verification =
  Chain_confirmed "string option" | Chain_retry string "string option" | Chain_rejected string

datatype receipt_worker_result =
  Receipt_idle
  | Receipt_verified outbox_event snapshot
  | Receipt_retry_scheduled outbox_event string string
  | Receipt_dead_letter outbox_event string

definition readReceiptId :: "outbox_event \<Rightarrow> string option" where
  "readReceiptId e = (case map_of (oe_payload e) ''receiptId'' of
       Some (JStr t) \<Rightarrow> if js_trim t = [] then None else Some t
     | _ \<Rightarrow> None)"

text \<open>\<open>new Date(Date.parse(now) + delay).toISOString()\<close>\<close>

definition nextRetryAt :: "host \<Rightarrow> int option \<Rightarrow> string \<Rightarrow> string + string" where
  "nextRetryAt h retryDelayMs now = (case dateParse h now of
       None \<Rightarrow> Inl ''Invalid time value''
     | Some n \<Rightarrow> Inr (toISOString h (n + (case retryDelayMs of None \<Rightarrow> 60000 | Some d \<Rightarrow> d))))"

definition on_outbox :: "('o, 'a) action \<Rightarrow> ('o \<times> store, 'a) action" where
  "on_outbox f w = (case f (fst w) of (r, ob) \<Rightarrow> (r, (ob, snd w)))"

definition on_receipts :: "(store \<Rightarrow> 'a \<times> store) \<Rightarrow> ('o \<times> store, 'a) action" where
  "on_receipts f w = (case f (snd w) of (r, s) \<Rightarrow> (Inr r, (fst w, s)))"

definition receipt_dead_letter ::
  "'o outbox_ops \<Rightarrow> string \<Rightarrow> outbox_event \<Rightarrow> string \<Rightarrow> ('o \<times> store, receipt_worker_result) action" where
  "receipt_dead_letter ob now e lastError =
     awaits (on_outbox (ob_markFailed ob (oe_id e) lastError now True)) (\<lambda>_.
     returns (Receipt_dead_letter e lastError))"

definition receipt_verdict ::
  "host \<Rightarrow> 'o outbox_ops \<Rightarrow> int option \<Rightarrow> string \<Rightarrow> string \<Rightarrow> outbox_event \<Rightarrow> string \<Rightarrow> chain_verification \<Rightarrow>
   ('o \<times> store, receipt_worker_result) action" where
  "receipt_verdict h ob retryDelayMs now laterNow e receiptId v = (case v of
       Chain_confirmed verifiedAt \<Rightarrow>
         awaits (on_receipts (markReceiptChainVerified receiptId (now_or verifiedAt now))) (\<lambda>verified.
         case verified of
           None \<Rightarrow> receipt_dead_letter ob laterNow e (''receipt disappeared during chain verification: '' @ receiptId)
         | Some sn \<Rightarrow> awaits (on_outbox (ob_markDelivered ob (oe_id e))) (\<lambda>_. returns (Receipt_verified e sn)))
     | Chain_retry error availableAt \<Rightarrow>
         (case (case availableAt of Some t \<Rightarrow> Inr t | None \<Rightarrow> nextRetryAt h retryDelayMs now) of
            Inl m \<Rightarrow> throws m
          | Inr t \<Rightarrow> awaits (on_outbox (ob_markFailed ob (oe_id e) error t False)) (\<lambda>_.
              returns (Receipt_retry_scheduled e error t)))
     | Chain_rejected error \<Rightarrow>
         awaits (on_receipts (markReceiptChainRejected receiptId error)) (\<lambda>rejected.
         case rejected of
           None \<Rightarrow> receipt_dead_letter ob laterNow e (''receipt disappeared during chain rejection: '' @ receiptId)
         | Some _ \<Rightarrow> receipt_dead_letter ob laterNow e error))"

definition receipt_event ::
  "host \<Rightarrow> 'o outbox_ops \<Rightarrow> int option \<Rightarrow> (receipt \<Rightarrow> string + chain_verification) \<Rightarrow> string \<Rightarrow> string \<Rightarrow> outbox_event \<Rightarrow>
   ('o \<times> store, receipt_worker_result) action" where
  "receipt_event h ob retryDelayMs verify now laterNow e w =
     (if oe_eventType e \<noteq> RECEIPT_ACCEPTED_EVENT_TYPE
      then receipt_dead_letter ob laterNow e (''unsupported outbox event type: '' @ oe_eventType e) w
      else (case readReceiptId e of
          None \<Rightarrow> receipt_dead_letter ob laterNow e ''receipt.accepted.v1 payload is missing receiptId'' w
        | Some receiptId \<Rightarrow> (case getByReceiptId (snd w) receiptId of
            None \<Rightarrow> receipt_dead_letter ob laterNow e (''receipt not found: '' @ receiptId) w
          | Some sn \<Rightarrow> (case verify (rr_receipt (sn_receipt sn)) of
              Inl m \<Rightarrow> throws m w
            | Inr v \<Rightarrow> receipt_verdict h ob retryDelayMs now laterNow e receiptId v w))))"

definition receipt_processNext ::
  "host \<Rightarrow> 'o outbox_ops \<Rightarrow> int option \<Rightarrow> (receipt \<Rightarrow> string + chain_verification) \<Rightarrow> string \<Rightarrow> string \<Rightarrow>
   ('o \<times> store, receipt_worker_result) action" where
  "receipt_processNext h ob retryDelayMs verify now laterNow =
     awaits (on_outbox (ob_claimNext ob now (Some [RECEIPT_ACCEPTED_EVENT_TYPE]))) (\<lambda>event.
     case event of None \<Rightarrow> returns Receipt_idle
     | Some e \<Rightarrow> receipt_event h ob retryDelayMs verify now laterNow e)"

section \<open>Finality of payout transactions\<close>

datatype monitor_status = Monitor_retry | Monitor_finality finality_status

record monitor_result =
  mr_status :: monitor_status
  mr_signature :: "string option"
  mr_error :: "string option"

record sweep_error =
  se_payoutBatchId :: "string option"
  se_transactionId :: "string option"
  se_error :: cp_error

text \<open>The state is the store and whatever else the pass can see: the chain, the clock, the signal.
  A closing draws its ids from the host, functions of the batch here.\<close>

record ledger_closure =
  lc_verifier :: transfer_verifier
  lc_txId :: "string \<Rightarrow> string"
  lc_entryId :: "string \<Rightarrow> nat \<Rightarrow> string"

record 'x finality_worker =
  fw_host :: host
  fw_monitor :: "payout_transaction \<Rightarrow> (store \<times> 'x, monitor_result) action"
  fw_now :: "store \<times> 'x \<Rightarrow> string"
  fw_sweepLimit :: "int option"
  fw_closure :: "ledger_closure option"

record sweep =
  sw_updated :: "payout_transaction list"
  sw_pending :: "string list"
  sw_closed :: "ledger_transaction list"
  sw_errors :: "sweep_error list"

datatype finality_result = Finality_idle | Finality_swept nat sweep

fun finality_text :: "finality_status \<Rightarrow> string" where
  "finality_text F_confirmed = ''confirmed''"
| "finality_text F_finalized = ''finalized''"
| "finality_text F_failed = ''failed''"
| "finality_text F_expired = ''expired''"
| "finality_text F_outcome_unknown = ''outcome_unknown''"

definition createPayoutFinalitySweepErrorDetail :: "finality_status \<Rightarrow> monitor_result \<Rightarrow> (string \<times> json) list" where
  "createPayoutFinalitySweepErrorDetail st r =
     [(''message'', case mr_error r of None \<Rightarrow> JUndefined | Some m \<Rightarrow> JStr m), (''status'', JStr (finality_text st))] @
     (case mr_signature r of None \<Rightarrow> [] | Some sig \<Rightarrow> [(''signature'', JStr sig)])"

definition finality_mark :: "string \<Rightarrow> payout_transaction \<Rightarrow> finality_status \<Rightarrow> monitor_result \<Rightarrow> finality_input" where
  "finality_mark observedAt t st r = \<lparr>fi_id = tx_id t, fi_status = st, fi_observedAt = Some observedAt,
     fi_error = (if mr_error r = None then None else Some (createPayoutFinalitySweepErrorDetail st r)),
     fi_expectedStatus = Some (tx_status t)\<rparr>"

definition sweep_transaction ::
  "'x finality_worker \<Rightarrow> string \<Rightarrow> payout_transaction \<Rightarrow> sweep \<times> (store \<times> 'x) \<Rightarrow> sweep \<times> (store \<times> 'x)" where
  "sweep_transaction fw observedAt t acc = (case acc of (sw, w) \<Rightarrow> (case fw_monitor fw t w of
       (Inl m, w1) \<Rightarrow> (sw\<lparr>sw_errors := sw_errors sw @ [\<lparr>se_payoutBatchId = None, se_transactionId = Some (tx_id t), se_error = Host_Error m\<rparr>]\<rparr>, w1)
     | (Inr r, w1) \<Rightarrow>
         (case mr_status r of
            Monitor_retry \<Rightarrow> (sw\<lparr>sw_pending := sw_pending sw @ [tx_id t]\<rparr>, w1)
          | Monitor_finality st \<Rightarrow>
              if finality_tx_status st = tx_status t then (sw\<lparr>sw_pending := sw_pending sw @ [tx_id t]\<rparr>, w1)
              else (case markPayoutTransactionFinality (fw_host fw) observedAt (finality_mark observedAt t st r) (fst w1) of
                  Inl e \<Rightarrow> (sw\<lparr>sw_errors := sw_errors sw @ [\<lparr>se_payoutBatchId = None, se_transactionId = Some (tx_id t), se_error = e\<rparr>]\<rparr>, w1)
                | Inr (None, s) \<Rightarrow> (sw\<lparr>sw_pending := sw_pending sw @ [tx_id t]\<rparr>, (s, snd w1))
                | Inr (Some u, s) \<Rightarrow> (sw\<lparr>sw_updated := sw_updated sw @ [u]\<rparr>, (s, snd w1))))))"

definition sweep_batch ::
  "'x finality_worker \<Rightarrow> ledger_closure \<Rightarrow> payout_batch \<Rightarrow> sweep \<times> (store \<times> 'x) \<Rightarrow> sweep \<times> (store \<times> 'x)" where
  "sweep_batch fw c b acc = (case acc of (sw, w) \<Rightarrow>
     (case closeFinalizedPayoutBatchLedger (fw_host fw) (fw_now fw w) (lc_verifier c) (pb_id b) (Some (fw_now fw w))
             (lc_txId c (pb_id b)) (lc_entryId c (pb_id b)) (fst w) of
        Inl e \<Rightarrow> (sw\<lparr>sw_errors := sw_errors sw @ [\<lparr>se_payoutBatchId = Some (pb_id b), se_transactionId = None, se_error = e\<rparr>]\<rparr>, w)
      | Inr (None, s) \<Rightarrow> (sw, (s, snd w))
      | Inr (Some t, s) \<Rightarrow> (sw\<lparr>sw_closed := sw_closed sw @ [t]\<rparr>, (s, snd w))))"

definition closeFinalizedLedgers ::
  "'x finality_worker \<Rightarrow> sweep \<Rightarrow> store \<times> 'x \<Rightarrow> (cp_error + sweep) \<times> (store \<times> 'x)" where
  "closeFinalizedLedgers fw sw w = (case fw_closure fw of
       None \<Rightarrow> (Inr sw, w)
     | Some c \<Rightarrow> (case listFinalizedPayoutBatchesPendingLedgerClosure (fw_host fw) (fw_sweepLimit fw) (fst w) of
         Inl e \<Rightarrow> (Inl e, w)
       | Inr batches \<Rightarrow> (case fold (sweep_batch fw c) batches (sw, w) of (sw', w') \<Rightarrow> (Inr sw', w'))))"

definition empty_sweep :: sweep where
  "empty_sweep = \<lparr>sw_updated = [], sw_pending = [], sw_closed = [], sw_errors = []\<rparr>"

definition finality_sweep :: "'x finality_worker \<Rightarrow> store \<times> 'x \<Rightarrow> (cp_error + finality_result) \<times> (store \<times> 'x)" where
  "finality_sweep fw w = (case listPayoutTransactionsPendingFinality (fw_host fw) (fw_sweepLimit fw) (fst w) of
       Inl e \<Rightarrow> (Inl e, w)
     | Inr candidates \<Rightarrow> (case fold (sweep_transaction fw (fw_now fw w)) candidates (empty_sweep, w) of (sw, w1) \<Rightarrow>
         (case closeFinalizedLedgers fw sw w1 of
            (Inl e, w2) \<Rightarrow> (Inl e, w2)
          | (Inr sw', w2) \<Rightarrow>
              (Inr (if candidates = [] \<and> sw_closed sw' = [] \<and> sw_errors sw' = [] then Finality_idle
                    else Finality_swept (length candidates) sw'), w2))))"

text \<open>The message of an error is what the loop hands to \<open>onError\<close>.\<close>

fun cp_message :: "cp_error \<Rightarrow> string" where
  "cp_message (Preview_Invalid m) = m"
| "cp_message (Batch_Invalid m) = m"
| "cp_message (Batch_Conflict m) = m"
| "cp_message (Host_Error m) = m"
| "cp_message _ = []"

definition finality_processNext :: "'x finality_worker \<Rightarrow> (store \<times> 'x, finality_result) action" where
  "finality_processNext fw w = (case finality_sweep fw w of (Inl e, w') \<Rightarrow> (Inl (cp_message e), w') | (Inr r, w') \<Rightarrow> (Inr r, w'))"

text \<open>The loop of the sweep worker sleeps after every pass.\<close>

definition runPayoutFinalityWorkerLoop ::
  "'x finality_worker \<Rightarrow> (store \<times> 'x, finality_result) worker_loop \<Rightarrow> store \<times> 'x \<Rightarrow>
   ((string + nat \<times> stopped_by) \<times> (store \<times> 'x)) option" where
  "runPayoutFinalityWorkerLoop fw options =
     runWorkerLoop (options\<lparr>wl_processNext := finality_processNext fw, wl_shouldSleepAfter := (\<lambda>_. True)\<rparr>)"

section \<open>What a sweep does\<close>

text \<open>The store moves by steps of the control plane only.\<close>

definition store_runs :: "host \<Rightarrow> store \<times> 'x \<Rightarrow> store \<times> 'x \<Rightarrow> bool" where
  "store_runs h w w' \<longleftrightarrow> (store_step h)\<^sup>*\<^sup>* (fst w) (fst w')"

lemma store_runs_order: "transp (store_runs h)" "reflp (store_runs h)"
  by (auto simp: store_runs_def intro!: transpI reflpI)

lemmas store_runs_trans = transpE [OF store_runs_order(1)]

lemma store_runs_refl [simp]: "store_runs h w w"
  by (simp add: store_runs_def)

lemma store_runs_step: "store_step h s s' \<Longrightarrow> store_runs h (s, x) (s', y)"
  by (simp add: store_runs_def)

lemma reachable_runs: "reachable h (fst w) \<Longrightarrow> store_runs h w w' \<Longrightarrow> reachable h (fst w')"
  by (simp add: reachable_def store_runs_def)

definition monitor_keeps :: "'x finality_worker \<Rightarrow> bool" where
  "monitor_keeps fw \<longleftrightarrow> (\<forall>t. keeps (store_runs (fw_host fw)) (fw_monitor fw t))"

lemma monitor_runs: "monitor_keeps fw \<Longrightarrow> fw_monitor fw t w = (r, w1) \<Longrightarrow> store_runs (fw_host fw) w w1"
  using keepsD [of "store_runs (fw_host fw)" "fw_monitor fw t"] by (simp add: monitor_keeps_def)

lemma sweep_transaction_runs:
  assumes "monitor_keeps fw" "sweep_transaction fw at' t (sw, w) = (sw', w')"
  shows "store_runs (fw_host fw) w w'"
proof -
  obtain r w1 where m: "fw_monitor fw t w = (r, w1)" by (cases "fw_monitor fw t w")
  have one: "store_runs (fw_host fw) w w1" by (rule monitor_runs [OF assms(1) m])
  have "store_runs (fw_host fw) w1 (s, y)"
    if "markPayoutTransactionFinality (fw_host fw) at' i (fst w1) = Inr (u, s)" for i u s y
    unfolding store_runs_def using store_step.finality_marked [OF that] by simp
  then have "store_runs (fw_host fw) w1 w'"
    using assms(2) m by (auto simp: sweep_transaction_def split: sum.splits monitor_status.splits if_splits option.splits prod.splits)
  with one show ?thesis by (rule store_runs_trans)
qed

lemma sweep_batch_runs: "sweep_batch fw c b (sw, w) = (sw', w') \<Longrightarrow> store_runs (fw_host fw) w w'"
proof -
  assume b: "sweep_batch fw c b (sw, w) = (sw', w')"
  have "store_runs (fw_host fw) w (s, y)"
    if "closeFinalizedPayoutBatchLedger (fw_host fw) clock v i now x e (fst w) = Inr (u, s)" for clock v i now x e u s y
    unfolding store_runs_def using store_step.ledger_closed [OF that] by simp
  then show ?thesis using b by (auto simp: sweep_batch_def split: sum.splits option.splits prod.splits)
qed

lemma fold_runs:
  assumes "\<And>x sw w sw' w'. f x (sw, w) = (sw', w') \<Longrightarrow> store_runs h w w'"
  shows "fold f xs (sw, w) = (sw', w') \<Longrightarrow> store_runs h w w'"
proof (induction xs arbitrary: sw w)
  case (Cons x xs)
  obtain sw1 w1 where x: "f x (sw, w) = (sw1, w1)" by (cases "f x (sw, w)")
  then have "store_runs h w1 w'" using Cons by simp
  with assms [OF x] show ?case by (rule store_runs_trans)
qed simp

lemma close_runs: "closeFinalizedLedgers fw sw w = (r, w') \<Longrightarrow> store_runs (fw_host fw) w w'"
  using fold_runs [of "sweep_batch fw _" "fw_host fw", OF sweep_batch_runs]
  by (auto simp: closeFinalizedLedgers_def split: option.splits sum.splits prod.splits)

lemma sweep_runs:
  assumes "monitor_keeps fw" "finality_sweep fw w = (r, w')"
  shows "store_runs (fw_host fw) w w'"
proof (cases "listPayoutTransactionsPendingFinality (fw_host fw) (fw_sweepLimit fw) (fst w)")
  case (Inl e)
  then show ?thesis using assms(2) by (simp add: finality_sweep_def)
next
  case (Inr candidates)
  obtain sw w1 where f: "fold (sweep_transaction fw (fw_now fw w)) candidates (empty_sweep, w) = (sw, w1)"
    by (cases "fold (sweep_transaction fw (fw_now fw w)) candidates (empty_sweep, w)")
  have "store_runs (fw_host fw) w w1" using fold_runs [OF _ f] sweep_transaction_runs [OF assms(1)] by blast
  moreover obtain r2 where "closeFinalizedLedgers fw sw w1 = (r2, w')"
    using assms(2) Inr f by (auto simp: finality_sweep_def split: prod.splits sum.splits)
  then have "store_runs (fw_host fw) w1 w'" by (rule close_runs)
  ultimately show ?thesis by (rule store_runs_trans)
qed

lemma process_keeps: "monitor_keeps fw \<Longrightarrow> keeps (store_runs (fw_host fw)) (finality_processNext fw)"
  unfolding keeps_def using sweep_runs
  by (auto simp: finality_processNext_def split: prod.splits sum.splits)

text \<open>A change a sweep reports: the monitor answered for a listed transaction, and when the answer was
  written the stored transaction still had the status it was listed with.\<close>

definition marked_once :: "'x finality_worker \<Rightarrow> string \<Rightarrow> store \<times> 'x \<Rightarrow> payout_transaction set \<Rightarrow> payout_transaction \<Rightarrow> bool" where
  "marked_once fw at' w T u \<longleftrightarrow> (\<exists>t \<in> T. \<exists>w0 w1 r st at'' e. store_runs (fw_host fw) w w0 \<and> fw_monitor fw t w0 = (Inr r, w1) \<and>
     mr_status r = Monitor_finality st \<and> finality_tx_status st \<noteq> tx_status t \<and>
     map_get (payoutTransactionsById (fst w1)) (tx_id t) = Some e \<and> tx_status e = tx_status t \<and>
     u = finality_update (finality_mark at' t st r) at'' e)"

lemma marked_once_mono: "marked_once fw at' w T u \<Longrightarrow> T \<subseteq> T' \<Longrightarrow> marked_once fw at' w T' u"
  unfolding marked_once_def by blast

lemma mark_answers:
  assumes "markPayoutTransactionFinality h clock i s = Inr (Some u, s')"
  shows "\<exists>e at'. map_get (payoutTransactionsById s) (fi_id i) = Some e \<and> opt_all (\<lambda>st. tx_status e = st) (fi_expectedStatus i) \<and>
    u = finality_update i at' e"
  using assms by (auto simp: markPayoutTransactionFinality_def Let_def and_then_Inr split: option.splits if_splits)

definition error_ids :: "sweep_error list \<Rightarrow> string list" where
  "error_ids es = List.map_filter se_transactionId es"

lemma error_ids_simps [simp]:
  "error_ids [] = []" "error_ids (es @ es') = error_ids es @ error_ids es'"
  "error_ids [\<lparr>se_payoutBatchId = b, se_transactionId = Some i, se_error = e\<rparr>] = [i]"
  "error_ids [\<lparr>se_payoutBatchId = b, se_transactionId = None, se_error = e\<rparr>] = []"
  by (simp_all add: error_ids_def map_filter_def)

definition swept_ids :: "sweep \<Rightarrow> string multiset" where
  "swept_ids sw = mset (map tx_id (sw_updated sw)) + mset (sw_pending sw) + mset (error_ids (sw_errors sw))"

lemma sweep_transaction_exact:
  assumes "monitor_keeps fw" "reachable (fw_host fw) (fst w)" "sweep_transaction fw at' t (sw, w) = (sw', w')"
  shows "swept_ids sw' = swept_ids sw + {#tx_id t#} \<and> sw_closed sw' = sw_closed sw \<and>
    (\<forall>u \<in> set (sw_updated sw'). u \<in> set (sw_updated sw) \<or> marked_once fw at' w {t} u)"
proof -
  obtain a w1 where m: "fw_monitor fw t w = (a, w1)" by (cases "fw_monitor fw t w")
  then have "store_runs (fw_host fw) w w1" by (rule monitor_runs [OF assms(1)])
  then have "run_ok (fst w1)" using reachable_run_ok reachable_runs assms(2) by blast
  then have keyed: "keyed tx_id (payoutTransactionsById (fst w1))" by (simp add: run_ok_def payouts_ok_def transactions_ok_def)
  show ?thesis
  proof (cases a)
    case (Inl e)
    then show ?thesis using assms(3) m by (auto simp: sweep_transaction_def swept_ids_def)
  next
    case (Inr r)
    show ?thesis
    proof (cases "mr_status r")
      case Monitor_retry
      then show ?thesis using assms(3) m Inr by (auto simp: sweep_transaction_def swept_ids_def)
    next
      case (Monitor_finality st)
      show ?thesis
      proof (cases "finality_tx_status st = tx_status t")
        case True
        then show ?thesis using assms(3) m Inr Monitor_finality by (auto simp: sweep_transaction_def swept_ids_def)
      next
        case False
        have once: "marked_once fw at' w {t} u \<and> tx_id u = tx_id t"
          if mark: "markPayoutTransactionFinality (fw_host fw) at' (finality_mark at' t st r) (fst w1) = Inr (Some u, s)" for u s
        proof -
          obtain e at'' where e: "map_get (payoutTransactionsById (fst w1)) (tx_id t) = Some e" "tx_status e = tx_status t"
            "u = finality_update (finality_mark at' t st r) at'' e"
            using mark_answers [OF mark] by (auto simp: finality_mark_def opt_all_def)
          have "tx_id u = tx_id t" using keyedD [OF keyed e(1)] by (simp add: e(3) finality_update_def)
          then show ?thesis using m Inr Monitor_finality False e store_runs_refl unfolding marked_once_def by blast
        qed
        show ?thesis
        proof (cases "markPayoutTransactionFinality (fw_host fw) at' (finality_mark at' t st r) (fst w1)")
          case (Inl e)
          then show ?thesis using assms(3) m Inr Monitor_finality False by (auto simp: sweep_transaction_def swept_ids_def)
        next
          case (Inr v)
          obtain o' s where v: "v = (o', s)" by (cases v)
          show ?thesis
          proof (cases o')
            case None
            then show ?thesis using assms(3) m \<open>a = Inr r\<close> Monitor_finality False Inr v
              by (auto simp: sweep_transaction_def swept_ids_def)
          next
            case (Some u)
            then have "sw' = sw\<lparr>sw_updated := sw_updated sw @ [u]\<rparr>"
              using assms(3) m \<open>a = Inr r\<close> Monitor_finality False Inr v by (simp add: sweep_transaction_def)
            then show ?thesis using once [of u s] Inr v Some by (simp add: swept_ids_def)
          qed
        qed
      qed
    qed
  qed
qed

lemma sweep_fold_exact:
  assumes "monitor_keeps fw"
  shows "reachable (fw_host fw) (fst w) \<Longrightarrow> fold (sweep_transaction fw at') ts (sw, w) = (sw', w') \<Longrightarrow>
    swept_ids sw' = swept_ids sw + mset (map tx_id ts) \<and> sw_closed sw' = sw_closed sw \<and>
    (\<forall>u \<in> set (sw_updated sw'). u \<in> set (sw_updated sw) \<or> marked_once fw at' w (set ts) u)"
proof (induction ts arbitrary: sw w)
  case (Cons t ts)
  obtain sw1 w1 where x: "sweep_transaction fw at' t (sw, w) = (sw1, w1)" by (cases "sweep_transaction fw at' t (sw, w)")
  then have f: "fold (sweep_transaction fw at') ts (sw1, w1) = (sw', w')" using Cons.prems(2) by simp
  have run: "store_runs (fw_host fw) w w1" by (rule sweep_transaction_runs [OF assms x])
  note one = sweep_transaction_exact [OF assms Cons.prems(1) x]
  note rest = Cons.IH [OF reachable_runs [OF Cons.prems(1) run] f]
  have later: "marked_once fw at' w1 T u \<Longrightarrow> marked_once fw at' w T u" for T u
    using store_runs_trans [OF run] unfolding marked_once_def by blast
  have "swept_ids sw' = swept_ids sw + mset (map tx_id (t # ts))" using one rest by simp
  moreover have "\<forall>u \<in> set (sw_updated sw'). u \<in> set (sw_updated sw) \<or> marked_once fw at' w (set (t # ts)) u"
  proof
    fix u assume "u \<in> set (sw_updated sw')"
    then consider "u \<in> set (sw_updated sw)" | "marked_once fw at' w {t} u" | "marked_once fw at' w1 (set ts) u"
      using one rest by blast
    then show "u \<in> set (sw_updated sw) \<or> marked_once fw at' w (set (t # ts)) u"
      by cases (auto intro: marked_once_mono dest: later)
  qed
  ultimately show ?case using one rest by simp
qed simp

definition closing_of :: "store \<times> 'x \<Rightarrow> ledger_transaction \<Rightarrow> bool" where
  "closing_of w t \<longleftrightarrow> map_get (payoutLedgerTransactionsByBatchId (fst w)) (lt_sourceId t) = Some t"

lemma sweep_batch_exact:
  assumes "reachable (fw_host fw) (fst w)" "sweep_batch fw c b (sw, w) = (sw', w')" "\<forall>t \<in> set (sw_closed sw). closing_of w t"
  shows "swept_ids sw' = swept_ids sw \<and> sw_updated sw' = sw_updated sw \<and> (\<forall>t \<in> set (sw_closed sw'). closing_of w' t)"
proof (cases "closeFinalizedPayoutBatchLedger (fw_host fw) (fw_now fw w) (lc_verifier c) (pb_id b) (Some (fw_now fw w))
             (lc_txId c (pb_id b)) (lc_entryId c (pb_id b)) (fst w)")
  case (Inl e)
  then show ?thesis using assms(2,3) by (auto simp: sweep_batch_def swept_ids_def)
next
  case (Inr v)
  obtain u s where v: "v = (u, s)" by (cases v)
  have ok: "run_ok (fst w)" by (rule reachable_run_ok [OF assms(1)])
  have run: "store_runs (fw_host fw) w w'" by (rule sweep_batch_runs [OF assms(2)])
  have keyed: "keyed lt_sourceId (payoutLedgerTransactionsByBatchId (fst w'))"
    using reachable_run_ok [OF reachable_runs [OF assms(1) run]] by (simp add: run_ok_def payouts_ok_def closings_ok_def)
  have w': "w' = (s, snd w)" using assms(2) Inr v by (auto simp: sweep_batch_def split: option.splits)
  have grows: "map_get (payoutLedgerTransactionsByBatchId s) k = Some t"
    if "map_get (payoutLedgerTransactionsByBatchId (fst w)) k = Some t" for k t
    using close_cases [OF Inr [unfolded v]] closing_facts [of "fw_host fw" _ "pb_id b"] that ok
    by (fastforce simp: run_ok_def)
  have new: "map_get (payoutLedgerTransactionsByBatchId s) (pb_id b) = Some t" if "u = Some t" for t
  proof (cases "map_get (payoutLedgerTransactionsByBatchId (fst w)) (pb_id b)")
    case None
    then show ?thesis using Inr v that ok closing_facts [of "fw_host fw" _ "pb_id b"]
      by (fastforce simp: closeFinalizedPayoutBatchLedger_def and_then_Inr run_ok_def split: option.splits)
  next
    case (Some t')
    then show ?thesis using Inr v that by (simp add: closeFinalizedPayoutBatchLedger_def)
  qed
  have "\<forall>t \<in> set (sw_closed sw). closing_of w' t" using assms(3) grows by (simp add: closing_of_def w')
  moreover have "closing_of w' t" if "u = Some t" for t
    using new [OF that] keyedD [OF keyed] by (simp add: closing_of_def w')
  ultimately show ?thesis using assms(2) Inr v by (cases u) (auto simp: sweep_batch_def swept_ids_def)
qed

lemma batch_fold_exact:
  "reachable (fw_host fw) (fst w) \<Longrightarrow> fold (sweep_batch fw c) bs (sw, w) = (sw', w') \<Longrightarrow> \<forall>t \<in> set (sw_closed sw). closing_of w t \<Longrightarrow>
   swept_ids sw' = swept_ids sw \<and> sw_updated sw' = sw_updated sw \<and> (\<forall>t \<in> set (sw_closed sw'). closing_of w' t)"
proof (induction bs arbitrary: sw w)
  case (Cons b bs)
  obtain sw1 w1 where x: "sweep_batch fw c b (sw, w) = (sw1, w1)" by (cases "sweep_batch fw c b (sw, w)")
  then have f: "fold (sweep_batch fw c) bs (sw1, w1) = (sw', w')" using Cons.prems(2) by simp
  note one = sweep_batch_exact [OF Cons.prems(1) x Cons.prems(3)]
  have "reachable (fw_host fw) (fst w1)" by (rule reachable_runs [OF Cons.prems(1) sweep_batch_runs [OF x]])
  from Cons.IH [OF this f] one show ?case by simp
qed simp

section \<open>Properties of the payout finality worker\<close>

text \<open>C36. A sweep accounts for every transaction it was to check exactly once, as updated, still pending
  or failed with an error. Each update it reports is an answer of the monitor, written while the stored
  transaction still had the status it was listed with, whatever others did to the store in the
  meantime. Each closing it reports is the closing of its batch in the store, and the store is one the
  control plane can reach.\<close>

theorem finality_sweep_exact:
  assumes "reachable (fw_host fw) (fst w)" "monitor_keeps fw" "finality_sweep fw w = (Inr (Finality_swept n sw), w')"
  shows "\<exists>ts. listPayoutTransactionsPendingFinality (fw_host fw) (fw_sweepLimit fw) (fst w) = Inr ts \<and> n = length ts \<and>
    mset (map tx_id ts) = mset (map tx_id (sw_updated sw)) + mset (sw_pending sw) + mset (error_ids (sw_errors sw)) \<and>
    (\<forall>u \<in> set (sw_updated sw). marked_once fw (fw_now fw w) w (set ts) u) \<and>
    (\<forall>t \<in> set (sw_closed sw). closing_of w' t) \<and> reachable (fw_host fw) (fst w')"
proof -
  obtain ts sw1 w1 where ts: "listPayoutTransactionsPendingFinality (fw_host fw) (fw_sweepLimit fw) (fst w) = Inr ts" "n = length ts"
    and f: "fold (sweep_transaction fw (fw_now fw w)) ts (empty_sweep, w) = (sw1, w1)"
    and c: "closeFinalizedLedgers fw sw1 w1 = (Inr sw, w')"
    using assms(3) by (auto simp: finality_sweep_def split: sum.splits prod.splits if_splits)
  note F = sweep_fold_exact [OF assms(2,1) f]
  have r1: "reachable (fw_host fw) (fst w1)"
    using reachable_runs [OF assms(1) fold_runs [OF sweep_transaction_runs [OF assms(2)] f]] .
  have "\<forall>t \<in> set (sw_closed sw1). closing_of w1 t" using F by (simp add: empty_sweep_def)
  then have x: "swept_ids sw = swept_ids sw1 \<and> sw_updated sw = sw_updated sw1 \<and> (\<forall>t \<in> set (sw_closed sw). closing_of w' t)"
    using c batch_fold_exact [OF r1] by (auto simp: closeFinalizedLedgers_def split: option.splits sum.splits prod.splits)
  have "swept_ids empty_sweep = {#}" by (simp add: swept_ids_def empty_sweep_def)
  then have "mset (map tx_id ts) = swept_ids sw" using F x by simp
  moreover have "\<forall>u \<in> set (sw_updated sw). marked_once fw (fw_now fw w) w (set ts) u" using F x by (simp add: empty_sweep_def)
  moreover have "reachable (fw_host fw) (fst w')"
    using reachable_runs [OF assms(1) sweep_runs [OF assms(2,3)]] .
  ultimately show ?thesis using ts x unfolding swept_ids_def by blast
qed

text \<open>C37. The finality loop returns: with \<open>maxIterations = m\<close> it is done after at most \<open>m\<close> sweeps, whatever
  they return or throw, and leaves a store the control plane can reach, with balanced books, if what
  runs while it waits only works through the control plane. It reports that it reached the maximum with
  a count of \<open>m\<close> or \<open>m + 1\<close> (a sweep whose callback or sleep throws counts twice), and that it was
  aborted only when it was. Without a maximum, an unaborted loop that no error leaves runs forever.\<close>

theorem finality_loop_returns:
  assumes "reachable (fw_host fw) (fst w)" "monitor_keeps fw" "hooks_keep (store_runs (fw_host fw)) l" "wl_maxIterations l = Some m"
  shows "\<exists>out w' j. runPayoutFinalityWorkerLoop fw l w = Some (out, w') \<and> int j \<le> max m 0 \<and>
    (passes (l\<lparr>wl_processNext := finality_processNext fw, wl_shouldSleepAfter := (\<lambda>_. True)\<rparr>) ^^ j) w w' \<and>
    (\<forall>k. out = Inr (k, Max_iterations) \<longrightarrow> m \<le> int k \<and> int k \<le> m + 1) \<and> (\<forall>k. out = Inr (k, Aborted) \<longrightarrow> wl_aborted l w') \<and>
    reachable (fw_host fw) (fst w') \<and> (\<forall>asset. asset_sum asset (all_entries (fst w')) = 0)"
proof -
  let ?l = "l\<lparr>wl_processNext := finality_processNext fw, wl_shouldSleepAfter := (\<lambda>_. True)\<rparr>"
  obtain out w' j where r: "runWorkerLoop ?l w = Some (out, w')" "int j \<le> max m 0" "(passes ?l ^^ j) w w'"
    "\<forall>k. out = Inr (k, Max_iterations) \<longrightarrow> m \<le> int k \<and> int k \<le> m + 1" "\<forall>k. out = Inr (k, Aborted) \<longrightarrow> wl_aborted l w'"
    using loop_returns [of ?l m w] assms(4) by auto
  have "hooks_keep (store_runs (fw_host fw)) ?l" using assms(3) by (simp add: hooks_keep_def)
  then have "store_runs (fw_host fw) w w'"
    using passes_keep [OF store_runs_order _ _ r(3)] process_keeps [OF assms(2)] by simp
  then have "reachable (fw_host fw) (fst w')" by (rule reachable_runs [OF assms(1)])
  then show ?thesis using r run_balances [OF reachable_run_ok] unfolding runPayoutFinalityWorkerLoop_def by blast
qed

text \<open>A run for the examples: the batch of one accrual is signed and submitted, the chain answers that its
  transaction is final, the transfers verify.\<close>

definition watch_input :: save_signed_input where
  "watch_input = toy_signed_input\<lparr>ss_payoutBatchId := toy_id ''pbt'' (CHR ''5'')\<rparr>"

definition watch_signed :: "string \<Rightarrow> payout_transaction" where
  "watch_signed i = toy_signed\<lparr>tx_payoutBatchId := toy_id ''pbt'' (CHR ''5''),
     tx_items := default_mappings toy_signed (demo_batch i (CHR ''5''))\<rparr>"

definition watch_submitted :: "string \<Rightarrow> payout_transaction" where
  "watch_submitted i = (watch_signed i)\<lparr>tx_status := T_submitted, tx_submittedAt := Some ''ZZZ''\<rparr>"

definition watch_worker :: "unit finality_worker" where
  "watch_worker = \<lparr>fw_host = toy_host,
     fw_monitor = (\<lambda>t. returns \<lparr>mr_status = Monitor_finality F_finalized, mr_signature = tx_expectedSignature t, mr_error = None\<rparr>),
     fw_now = (\<lambda>_. ''ZZZZ''), fw_sweepLimit = None,
     fw_closure = Some \<lparr>lc_verifier = (\<lambda>b ts. (True, [])), lc_txId = (\<lambda>b. toy_id ''ldg'' (CHR ''8'')),
       lc_entryId = (\<lambda>b n. toy_id ''lde'' (CHR ''9''))\<rparr>\<rparr>"

definition watch_loop :: "(store \<times> unit, finality_result) worker_loop" where
  "watch_loop = \<lparr>wl_processNext = finality_processNext watch_worker, wl_shouldSleepAfter = (\<lambda>_. True), wl_aborted = (\<lambda>_. False),
     wl_onResult = (\<lambda>_. returns ()), wl_onError = (\<lambda>_. returns ()), wl_sleep = (\<lambda>_. throws ''timer''), wl_maxIterations = Some 2,
     wl_pollIntervalMs = None, wl_errorDelayMs = None, wl_stopOnError = True\<rparr>"

lemma watch_keeps: "monitor_keeps watch_worker" "hooks_keep (store_runs (fw_host watch_worker)) watch_loop"
  by (simp_all add: monitor_keeps_def hooks_keep_def watch_worker_def watch_loop_def keeps_returns store_runs_order)

lemma watch_saved:
  "createSignedPayoutTransactionRecords toy_host ''Z'' (\<lambda>n. toy_id ''ptx'' (CHR ''4'')) watch_input =
     Inr [toy_signed\<lparr>tx_payoutBatchId := toy_id ''pbt'' (CHR ''5'')\<rparr>]"
  "attachPayoutTransactionItemMappings [toy_signed\<lparr>tx_payoutBatchId := toy_id ''pbt'' (CHR ''5'')\<rparr>] (demo_batch i (CHR ''5'')) =
     Inr [watch_signed i]"
  by code_simp+

definition watch_final :: "string \<Rightarrow> payout_transaction" where
  "watch_final i = (watch_submitted i)\<lparr>tx_status := T_finalized, tx_confirmedAt := Some ''ZZZZ'', tx_finalizedAt := Some ''ZZZZ''\<rparr>"

definition watch_paid :: "string \<Rightarrow> payout_batch" where
  "watch_paid i = (demo_batch i (CHR ''5''))\<lparr>pb_status := B_finalized, pb_updatedAt := ''ZZZZ'',
     pb_items := map (\<lambda>it. it\<lparr>it_status := I_finalized\<rparr>) (pb_items (demo_batch i (CHR ''5'')))\<rparr>"

lemma watch_rolled:
  "map_option (\<lambda>r. rolled_batch r ''ZZZZ'' (demo_batch i (CHR ''5''))) (summarizePayoutBatchTransactionItemFinality toy_host (demo_batch i (CHR ''5'')) [watch_final i]) =
     Some (watch_paid i)"
  by code_simp

definition watch_closing :: ledger_transaction where
  "watch_closing = projr (createPayoutFinalizationLedgerTransaction toy_host ''ZZZZ'' (watch_paid []) (Some ''ZZZZ'')
     (toy_id ''ldg'' (CHR ''8'')) (\<lambda>n. toy_id ''lde'' (CHR ''9'')))"

lemma watch_closes:
  "createPayoutFinalizationLedgerTransaction toy_host ''ZZZZ'' (watch_paid i) (Some ''ZZZZ'')
     (toy_id ''ldg'' (CHR ''8'')) (\<lambda>n. toy_id ''lde'' (CHR ''9'')) = Inr watch_closing"
  by code_simp

definition watch_store :: "string \<Rightarrow> store \<Rightarrow> bool" where
  "watch_store i s \<longleftrightarrow> reachable toy_host s \<and> payoutBatchesById s = [(toy_id ''pbt'' (CHR ''5''), demo_batch i (CHR ''5''))] \<and>
     payoutTransactionsById s = [(toy_id ''ptx'' (CHR ''4''), watch_submitted i)] \<and> payoutLedgerTransactionsByBatchId s = []"

lemma watch_ids:
  "tx_id (watch_signed i) = toy_id ''ptx'' (CHR ''4'')" "tx_payoutBatchId (watch_signed i) = toy_id ''pbt'' (CHR ''5'')"
  "tx_id (watch_submitted i) = toy_id ''ptx'' (CHR ''4'')" "tx_payoutBatchId (watch_submitted i) = toy_id ''pbt'' (CHR ''5'')"
  "tx_id (watch_final i) = toy_id ''ptx'' (CHR ''4'')" "tx_payoutBatchId (watch_final i) = toy_id ''pbt'' (CHR ''5'')"
  "tx_expectedSignature (watch_signed i) = Some ''s1''" "tx_status (watch_submitted i) = T_submitted"
  "pb_id (demo_batch i (CHR ''5'')) = toy_id ''pbt'' (CHR ''5'')"
  "pb_id (watch_paid i) = toy_id ''pbt'' (CHR ''5'')" "pb_status (watch_paid i) = B_finalized"
  by (simp_all add: watch_signed_def watch_submitted_def watch_final_def toy_signed_def demo_batch_def watch_paid_def)

lemma one_transaction: "payoutTransactionsById s = [(k, t)] \<Longrightarrow> tx_payoutBatchId t = b \<Longrightarrow> listPayoutTransactions h s b = [t]"
  by (simp add: listPayoutTransactions_def map_values_def sort_by_def)

lemma watch_reached: "\<exists>i s. watch_store i s"
proof -
  let ?b = "toy_id ''pbt'' (CHR ''5'')" and ?x = "toy_id ''ptx'' (CHR ''4'')"
  obtain i s0 where s0: "(careful_step toy_host)\<^sup>*\<^sup>* empty_store s0" "demo_state i Available [] s0" using demo_start by blast
  obtain s1 where s1: "createPayoutBatchFromAvailableAccruals toy_host ''Z'' ?b (\<lambda>n. toy_id ''pit'' (CHR ''3'')) demo_input s0 =
      Inr (demo_batch i (CHR ''5''), s1)" "demo_state i Allocated (map_set ?b (demo_batch i (CHR ''5'')) []) s1"
    using demo_create [OF s0(2), of "CHR ''5''"] by blast
  have m1: "payoutBatchesById s1 = [(?b, demo_batch i (CHR ''5''))]" "payoutTransactionsById s1 = []" "payoutLedgerTransactionsByBatchId s1 = []"
    using s1(2) by (auto simp: demo_state_def map_set_def)
  let ?s2 = "put_transaction (watch_signed i) s1"
  have get: "map_get (payoutBatchesById s1) ?b = Some (demo_batch i (CHR ''5''))" by (simp add: m1 map_get_def)
  have none: "listPayoutTransactions toy_host s1 b = []" for b by (simp add: listPayoutTransactions_def m1 map_values_def)
  have "insertable toy_host s1 (watch_signed i) = Inr ()"
    by (simp add: insertable_def ensure_def m1 none watch_ids map_get_def map_values_def opt_all_def)
  then have s2: "saveSignedPayoutTransactions toy_host ''Z'' (\<lambda>n. ?x) watch_input s1 = Inr ([watch_signed i], ?s2)"
    using watch_saved(1) watch_saved(2) [of i] get by (simp add: saveSignedPayoutTransactions_def watch_input_def)
  have m2: "payoutTransactionsById ?s2 = [(?x, watch_signed i)]" "payoutBatchesById ?s2 = payoutBatchesById s1"
    "payoutLedgerTransactionsByBatchId ?s2 = []"
    by (simp_all add: put_transaction_def m1 map_set_def watch_ids)
  let ?s3 = "put_transaction (watch_submitted i) ?s2"
  have sub: "(watch_signed i)\<lparr>tx_expectedSignature := Some ''s1'', tx_status := T_submitted, tx_submittedAt := Some ''ZZZ''\<rparr> = watch_submitted i"
    by (simp add: watch_submitted_def watch_signed_def toy_signed_def)
  have s3: "markPayoutTransactionSubmitted toy_host ''ZZZ'' ?x None (Some ''s1'') ?s2 = Inr (Some (watch_submitted i), ?s3)"
    using sub by (simp add: markPayoutTransactionSubmitted_def m2 map_get_def watch_ids iso_of_def ensure_def Let_def)
  have "payoutTransactionsById ?s3 = [(?x, watch_submitted i)]"
    by (simp add: put_transaction_def [of "watch_submitted i"] m2 map_set_def watch_ids)
  moreover have "payoutBatchesById ?s3 = payoutBatchesById s1" "payoutLedgerTransactionsByBatchId ?s3 = []"
    by (simp_all add: put_transaction_def [of "watch_submitted i"] m2)
  moreover have "(store_step toy_host)\<^sup>*\<^sup>* empty_store s0"
    using s0(1) by (rule rtranclp_mono [THEN predicate2D, rotated]) (blast intro: careful_is_step)
  then have "reachable toy_host ?s3" unfolding reachable_def
    using store_step.batch_created_from_available [OF s1(1)] store_step.signed_saved [OF s2] store_step.submitted [OF s3]
    by (meson rtranclp.rtrancl_into_rtrancl)
  ultimately show ?thesis unfolding watch_store_def using m1(1) by metis
qed

lemma watch_sweeps:
  assumes "watch_store i s"
  shows "\<exists>s'. finality_sweep watch_worker (s, ()) = (Inr (Finality_swept 1
    \<lparr>sw_updated = [watch_final i], sw_pending = [], sw_closed = [watch_closing], sw_errors = []\<rparr>), (s', ()))"
proof -
  let ?b = "toy_id ''pbt'' (CHR ''5'')" and ?x = "toy_id ''ptx'' (CHR ''4'')"
  have m: "payoutBatchesById s = [(?b, demo_batch i (CHR ''5''))]" "payoutTransactionsById s = [(?x, watch_submitted i)]"
    "payoutLedgerTransactionsByBatchId s = []" using assms by (simp_all add: watch_store_def)
  have pend: "listPayoutTransactionsPendingFinality toy_host None s = Inr [watch_submitted i]"
    by (simp add: listPayoutTransactionsPendingFinality_def normalizePayoutPendingFinalityLimit_def m map_values_def
        isPayoutTransactionPendingFinality_def watch_submitted_def watch_signed_def toy_signed_def sort_by_def)
  let ?r = "\<lparr>mr_status = Monitor_finality F_finalized, mr_signature = tx_expectedSignature (watch_submitted i), mr_error = None\<rparr>"
  let ?s1 = "put_transaction (watch_final i) s"
  let ?s2 = "?s1\<lparr>payoutBatchesById := [(?b, watch_paid i)]\<rparr>"
  have m1: "payoutTransactionsById ?s1 = [(?x, watch_final i)]" "payoutBatchesById ?s1 = payoutBatchesById s"
    by (simp_all add: put_transaction_def m map_set_def watch_ids)
  obtain r where r: "summarizePayoutBatchTransactionItemFinality toy_host (demo_batch i (CHR ''5'')) [watch_final i] = Some r"
    "rolled_batch r ''ZZZZ'' (demo_batch i (CHR ''5'')) = watch_paid i"
    using watch_rolled [of i] by auto
  have upd: "finality_update (finality_mark ''ZZZZ'' (watch_submitted i) F_finalized ?r) ''ZZZZ'' (watch_submitted i) = watch_final i"
    by (simp add: finality_update_def finality_mark_def watch_final_def watch_submitted_def watch_signed_def toy_signed_def now_or_def)
  have iso: "normalizeOptionalTimestamp toy_host ''ZZZZ'' (Some ''ZZZZ'') = Inr ''ZZZZ''" by code_simp
  have "listPayoutTransactions toy_host ?s1 ?b = [watch_final i]" by (rule one_transaction [OF m1(1)]) (simp add: watch_ids)
  then have roll: "rollUpPayoutBatchFinality toy_host ?b ''ZZZZ'' ?s1 = ?s2"
    using r by (simp add: rollUpPayoutBatchFinality_def m1 m map_get_def map_set_def)
  have f: "fi_id (finality_mark ''ZZZZ'' (watch_submitted i) F_finalized ?r) = ?x"
    "fi_expectedStatus (finality_mark ''ZZZZ'' (watch_submitted i) F_finalized ?r) = Some T_submitted"
    "fi_observedAt (finality_mark ''ZZZZ'' (watch_submitted i) F_finalized ?r) = Some ''ZZZZ''"
    by (simp_all add: finality_mark_def watch_ids)
  have "markPayoutTransactionFinality toy_host ''ZZZZ'' (finality_mark ''ZZZZ'' (watch_submitted i) F_finalized ?r) s =
      Inr (Some (watch_final i), ?s2)"
    using upd roll iso by (simp add: markPayoutTransactionFinality_def f m map_get_def opt_all_def watch_ids Let_def)
  then have one: "sweep_transaction watch_worker ''ZZZZ'' (watch_submitted i) (empty_sweep, (s, ())) =
      (empty_sweep\<lparr>sw_updated := [watch_final i]\<rparr>, (?s2, ()))"
    by (simp add: sweep_transaction_def watch_worker_def action_simps watch_ids empty_sweep_def)
  have m2: "payoutBatchesById ?s2 = [(?b, watch_paid i)]" "payoutLedgerTransactionsByBatchId ?s2 = []"
    by (simp_all add: put_transaction_def m)
  have fin: "listFinalizedPayoutBatchesPendingLedgerClosure toy_host None ?s2 = Inr [watch_paid i]"
    by (simp add: listFinalizedPayoutBatchesPendingLedgerClosure_def normalizePayoutLedgerClosureLimit_def m2 map_values_def
        watch_ids map_get_def sort_by_def)
  obtain s3 where "finish_closing toy_host ''ZZZZ'' ?b (Some ''ZZZZ'') (toy_id ''ldg'' (CHR ''8'')) (\<lambda>n. toy_id ''lde'' (CHR ''9''))
      (watch_paid i) ?s2 = Inr (watch_closing, s3)"
    using watch_closes by (simp add: finish_closing_def Let_def)
  then have close: "closeFinalizedPayoutBatchLedger toy_host ''ZZZZ'' (\<lambda>b ts. (True, [])) ?b (Some ''ZZZZ'') (toy_id ''ldg'' (CHR ''8''))
      (\<lambda>n. toy_id ''lde'' (CHR ''9'')) ?s2 = Inr (Some watch_closing, s3)"
    by (simp add: closeFinalizedPayoutBatchLedger_def m2 map_get_def verifyPayoutFinalizedTransfersBeforeLedgerClosure_def ensure_def)
  have "closeFinalizedLedgers watch_worker (empty_sweep\<lparr>sw_updated := [watch_final i]\<rparr>) (?s2, ()) =
      (Inr \<lparr>sw_updated = [watch_final i], sw_pending = [], sw_closed = [watch_closing], sw_errors = []\<rparr>, (s3, ()))"
    using fin close by (simp add: closeFinalizedLedgers_def watch_worker_def sweep_batch_def empty_sweep_def watch_ids)
  moreover have "fw_host watch_worker = toy_host" "fw_sweepLimit watch_worker = None" "fw_now watch_worker w = ''ZZZZ''" for w
    by (simp_all add: watch_worker_def)
  ultimately have "finality_sweep watch_worker (s, ()) = (Inr (Finality_swept 1
    \<lparr>sw_updated = [watch_final i], sw_pending = [], sw_closed = [watch_closing], sw_errors = []\<rparr>), (s3, ()))"
    using pend one by (simp add: finality_sweep_def)
  then show ?thesis by blast
qed

theorem finality_sweep_exact_witness:
  "\<exists>i s s' sw. watch_store i s \<and> finality_sweep watch_worker (s, ()) = (Inr (Finality_swept 1 sw), (s', ())) \<and>
     map tx_id (sw_updated sw) = [toy_id ''ptx'' (CHR ''4'')] \<and> closing_of (s', ()) watch_closing \<and> reachable toy_host s'"
proof -
  obtain i s where s: "watch_store i s" using watch_reached by blast
  define sw where "sw = \<lparr>sw_updated = [watch_final i], sw_pending = [], sw_closed = [watch_closing], sw_errors = []\<rparr>"
  obtain s' where r: "finality_sweep watch_worker (s, ()) = (Inr (Finality_swept 1 sw), (s', ()))"
    using watch_sweeps [OF s] unfolding sw_def by blast
  have h: "fw_host watch_worker = toy_host" by (simp add: watch_worker_def)
  have "reachable (fw_host watch_worker) (fst (s, ()))" using s h by (simp add: watch_store_def)
  from finality_sweep_exact [OF this watch_keeps(1) r] have f: "closing_of (s', ()) watch_closing" "reachable toy_host s'"
    using h by (auto simp: sw_def)
  have "map tx_id (sw_updated sw) = [toy_id ''ptx'' (CHR ''4'')]" by (simp add: watch_ids sw_def)
  then show ?thesis using s r f
    by (intro exI [of _ i] exI [of _ s] exI [of _ s'] exI [of _ sw] conjI)
qed

theorem finality_loop_returns_witness:
  "\<exists>i s out s'. watch_store i s \<and> runPayoutFinalityWorkerLoop watch_worker watch_loop (s, ()) = Some (out, (s', ())) \<and>
     reachable toy_host s' \<and> (\<forall>asset. asset_sum asset (all_entries s') = 0)"
proof -
  obtain i s where s: "watch_store i s" using watch_reached by blast
  have h: "fw_host watch_worker = toy_host" by (simp add: watch_worker_def)
  have "reachable (fw_host watch_worker) (fst (s, ()))" "wl_maxIterations watch_loop = Some 2"
    using s h by (simp_all add: watch_store_def watch_loop_def)
  from finality_loop_returns [OF this(1) watch_keeps this(2)] show ?thesis using s h by (metis prod.collapse old.unit.exhaust)
qed

end
