(* ===== verification/Receipt_Worker.thy ===== *)
theory Receipt_Worker
  imports Workers
begin

text \<open>
  What a pass of the receipt chain worker of \<^verbatim>\<open>packages/control-plane/src/workers.ts\<close> does to the outbox
  and to the receipts: proved over the outbox interface, then stated for the PostgreSQL outbox. And what
  happens to an event whose verifier throws.
\<close>

section \<open>Over the interface\<close>

text \<open>An event that was due is now in the given status with one attempt more, the others are as before.\<close>

definition settled :: "('o \<Rightarrow> string \<Rightarrow> outbox_event option) \<Rightarrow> 'o \<Rightarrow> outbox_event \<Rightarrow> outbox_status \<Rightarrow> 'o \<Rightarrow> bool" where
  "settled lookup ob e st ob' \<longleftrightarrow> (\<exists>e0 e1. lookup ob (oe_id e) = Some e0 \<and> oe_status e0 = Pending_delivery \<and> same_event e0 e1 \<and>
     same_event e e1 \<and> oe_status e1 = st \<and> oe_attempts e = oe_attempts e0 + 1 \<and> oe_attempts e1 = oe_attempts e \<and>
     lookup ob' = (lookup ob)(oe_id e \<mapsto> e1))"

definition locked_to :: "('o \<Rightarrow> string \<Rightarrow> outbox_event option) \<Rightarrow> 'o \<Rightarrow> outbox_event \<Rightarrow> outbox_status \<Rightarrow> 'o \<Rightarrow> bool" where
  "locked_to lookup ob e st ob' \<longleftrightarrow> (\<exists>e1. same_event e e1 \<and> oe_status e1 = st \<and> oe_attempts e1 = oe_attempts e \<and>
     lookup ob' = (lookup ob)(oe_id e \<mapsto> e1))"

lemma locked_toI:
  "same_event e e1 \<Longrightarrow> oe_status e1 = st \<Longrightarrow> oe_attempts e1 = oe_attempts e \<Longrightarrow> lookup ob' = (lookup ob)(oe_id e \<mapsto> e1) \<Longrightarrow>
   locked_to lookup ob e st ob'"
  unfolding locked_to_def by blast

lemma same_event_trans: "same_event a b \<Longrightarrow> same_event b c \<Longrightarrow> same_event a c"
  by (simp add: same_event_def)

text \<open>The receipt an event is about, as the worker reads it.\<close>

definition event_receipt :: "store \<Rightarrow> outbox_event \<Rightarrow> snapshot option" where
  "event_receipt s e = Option.bind (readReceiptId e) (getByReceiptId s)"

definition verdict_is :: "(receipt \<Rightarrow> string + chain_verification) \<Rightarrow> store \<Rightarrow> outbox_event \<Rightarrow> snapshot \<Rightarrow> chain_verification \<Rightarrow> bool" where
  "verdict_is verify s e sn v \<longleftrightarrow> event_receipt s e = Some sn \<and> verify (rr_receipt (sn_receipt sn)) = Inr v"

definition receipt_outcome ::
  "(receipt \<Rightarrow> string + chain_verification) \<Rightarrow> string \<Rightarrow> store \<Rightarrow> outbox_event \<Rightarrow> receipt_worker_result \<Rightarrow> outbox_status \<Rightarrow> store \<Rightarrow> bool" where
  "receipt_outcome verify now s e r st s' \<longleftrightarrow> (case r of
       Receipt_idle \<Rightarrow> False
     | Receipt_verified e' sn \<Rightarrow> e' = e \<and> st = Delivered \<and> (\<exists>old at'. verdict_is verify s e old (Chain_confirmed at') \<and>
         sn = verified_snapshot (now_or at' now) old \<and> s' = save sn s)
     | Receipt_retry_scheduled e' m t \<Rightarrow> e' = e \<and> st = Pending_delivery \<and> s' = s \<and> (\<exists>old at'. verdict_is verify s e old (Chain_retry m at'))
     | Receipt_dead_letter e' m \<Rightarrow> e' = e \<and> st = Dead_letter \<and> (if oe_eventType e \<noteq> RECEIPT_ACCEPTED_EVENT_TYPE \<or> event_receipt s e = None then s' = s
         else \<exists>old. verdict_is verify s e old (Chain_rejected m) \<and> s' = save (rejected_snapshot m old) s))"

definition spares ::
  "('o \<Rightarrow> bool) \<Rightarrow> ('o \<Rightarrow> string \<Rightarrow> outbox_event option) \<Rightarrow> 'o \<Rightarrow> string \<Rightarrow> ('o \<times> store, 'a) action \<Rightarrow> bool" where
  "spares ok lookup ob i f \<longleftrightarrow> (\<forall>s. ok (fst (snd (f (ob, s)))) \<and> (\<forall>j. j \<noteq> i \<longrightarrow> lookup (fst (snd (f (ob, s)))) j = lookup ob j))"

lemma spares_throws: "ok ob \<Longrightarrow> spares ok lookup ob i (throws m)"
  by (simp add: spares_def action_simps)

lemma spares_then_returns: "spares ok lookup ob i f \<Longrightarrow> spares ok lookup ob i (awaits f (\<lambda>_. returns x))"
  by (auto simp: spares_def awaits_def action_simps split: prod.splits sum.splits) (metis fst_conv snd_conv)+

lemma spares_option:
  "spares ok lookup ob i a \<Longrightarrow> (\<And>x. spares ok lookup ob i (b x)) \<Longrightarrow> spares ok lookup ob i (case x of None \<Rightarrow> a | Some x \<Rightarrow> b x)"
  by (cases x) simp_all

lemma spares_after_receipts:
  "(\<And>x. spares ok lookup ob i (k x)) \<Longrightarrow> spares ok lookup ob i (awaits (on_receipts g) k)"
  by (auto simp: spares_def awaits_def on_receipts_def split: prod.splits)

context outbox_contract
begin

lemma fail_on_receipts:
  assumes "ok ob" "lookup ob (oe_id e) = Some e" "oe_status e = Processing"
    and "on_outbox (fail (oe_id e) m t dead) (ob, s) = (Inr v, w)"
  shows "\<exists>ob'. w = (ob', s) \<and> ok ob' \<and> locked_to lookup ob e (if dead then Dead_letter else Pending_delivery) ob'"
proof (cases "time t \<noteq> None")
  case True
  from fail_locked [OF assms(1-3) True, of m dead] obtain e1 ob' where
    f: "fail (oe_id e) m t dead ob = (Inr (Some e1), ob')" "ok ob'" and
    l: "same_event e e1" "oe_status e1 = (if dead then Dead_letter else Pending_delivery)" "oe_attempts e1 = oe_attempts e"
      "lookup ob' = (lookup ob)(oe_id e \<mapsto> e1)" by blast
  then show ?thesis using assms(4) locked_toI [where lookup = lookup, OF l] by (auto simp: on_outbox_def split: if_splits)
next
  case False
  then show ?thesis using fail_throws [of t "oe_id e" m dead ob] assms(4) by (auto simp: on_outbox_def)
qed

lemma dead_lettered:
  assumes "ok ob" "lookup ob (oe_id e) = Some e" "oe_status e = Processing"
    and "receipt_dead_letter \<lparr>ob_claimNext = claim, ob_markDelivered = deliver, ob_markFailed = fail\<rparr> later e m (ob, s) = (Inr r, w)"
  shows "r = Receipt_dead_letter e m \<and> (\<exists>ob'. w = (ob', s) \<and> ok ob' \<and> locked_to lookup ob e Dead_letter ob')"
  using assms(4) unfolding receipt_dead_letter_def
proof (rule awaits_cases)
  fix x w1
  assume f: "on_outbox (ob_markFailed \<lparr>ob_claimNext = claim, ob_markDelivered = deliver, ob_markFailed = fail\<rparr> (oe_id e) m later True) (ob, s) = (Inr x, w1)"
    and g: "returns (Receipt_dead_letter e m) w1 = (Inr r, w)"
  then show ?thesis using fail_on_receipts [OF assms(1-3), of m later True s x w1] by (simp add: action_simps)
qed auto

lemma delivered_on_receipts:
  assumes "ok ob" "lookup ob (oe_id e) = Some e" "oe_status e = Processing"
    and "on_outbox (deliver (oe_id e)) (ob, s) = (v, w)"
  shows "\<exists>ob'. w = (ob', s) \<and> ok ob' \<and> locked_to lookup ob e Delivered ob'"
proof -
  from deliver_locked [OF assms(1-3)] obtain e1 ob' where f: "deliver (oe_id e) ob = (Inr (Some e1), ob')" "ok ob'" and
    l: "same_event e e1" "oe_status e1 = Delivered" "oe_attempts e1 = oe_attempts e" "lookup ob' = (lookup ob)(oe_id e \<mapsto> e1)" by blast
  then show ?thesis using assms(4) locked_toI [where lookup = lookup, OF l] by (auto simp: on_outbox_def)
qed

lemma event_outcome:
  assumes "ok ob" "lookup ob (oe_id e) = Some e" "oe_status e = Processing"
    and "receipt_event h \<lparr>ob_claimNext = claim, ob_markDelivered = deliver, ob_markFailed = fail\<rparr> d verify now later e (ob, s) = (Inr r, w)"
  shows "\<exists>ob' s' st. w = (ob', s') \<and> ok ob' \<and> locked_to lookup ob e st ob' \<and> receipt_outcome verify now s e r st s'"
proof -
  let ?ops = "\<lparr>ob_claimNext = claim, ob_markDelivered = deliver, ob_markFailed = fail\<rparr>"
  have dead: "\<exists>ob' s' st. w = (ob', s') \<and> ok ob' \<and> locked_to lookup ob e st ob' \<and> receipt_outcome verify now s e r st s'"
    if dl: "receipt_dead_letter ?ops later e m (ob, s1) = (Inr r, w)"
      and effect: "if oe_eventType e \<noteq> RECEIPT_ACCEPTED_EVENT_TYPE \<or> event_receipt s e = None then s1 = s
         else \<exists>old. verdict_is verify s e old (Chain_rejected m) \<and> s1 = save (rejected_snapshot m old) s" for m s1
  proof -
    obtain ob' where "r = Receipt_dead_letter e m" "w = (ob', s1)" "ok ob'" "locked_to lookup ob e Dead_letter ob'"
      using dead_lettered [OF assms(1-3) dl] by blast
    then show ?thesis using effect by (intro exI [of _ ob'] exI [of _ s1] exI [of _ Dead_letter]) (simp add: receipt_outcome_def)
  qed
  consider (type) "oe_eventType e \<noteq> RECEIPT_ACCEPTED_EVENT_TYPE" | (payload) "oe_eventType e = RECEIPT_ACCEPTED_EVENT_TYPE" "readReceiptId e = None"
    | (missing) i where "oe_eventType e = RECEIPT_ACCEPTED_EVENT_TYPE" "readReceiptId e = Some i" "getByReceiptId s i = None"
    | (found) i sn where "oe_eventType e = RECEIPT_ACCEPTED_EVENT_TYPE" "readReceiptId e = Some i" "getByReceiptId s i = Some sn"
    by (cases "readReceiptId e"; cases "getByReceiptId s (the (readReceiptId e))") auto
  then show ?thesis
  proof cases
    case type
    then show ?thesis using assms(4) dead [of _ s] by (simp add: receipt_event_def)
  next
    case payload
    then show ?thesis using assms(4) dead [of _ s] by (simp add: receipt_event_def event_receipt_def)
  next
    case missing
    then show ?thesis using assms(4) dead [of _ s] by (simp add: receipt_event_def event_receipt_def)
  next
    case found
    have ev: "event_receipt s e = Some sn" using found by (simp add: event_receipt_def)
    obtain v where v: "verify (rr_receipt (sn_receipt sn)) = Inr v"
      and run: "receipt_verdict h ?ops d now later e i v (ob, s) = (Inr r, w)"
      using assms(4) found by (auto simp: receipt_event_def action_simps split: sum.splits)
    have says: "verdict_is verify s e sn v" using ev v by (simp add: verdict_is_def)
    show ?thesis
    proof (cases v)
      case (Chain_confirmed at')
      let ?sn = "verified_snapshot (now_or at' now) sn"
      have m: "on_receipts (markReceiptChainVerified i (now_or at' now)) (ob, s) = (Inr (Some ?sn), (ob, save ?sn s))"
        using found(3) by (simp add: on_receipts_def markReceiptChainVerified_def Let_def)
      have "awaits (on_outbox (deliver (oe_id e))) (\<lambda>_. returns (Receipt_verified e ?sn)) (ob, save ?sn s) = (Inr r, w)"
        using run m by (simp add: receipt_verdict_def Chain_confirmed awaits_Inr [where f = "on_receipts _"])
      then obtain x w1 where "on_outbox (deliver (oe_id e)) (ob, save ?sn s) = (Inr x, w1)" "r = Receipt_verified e ?sn" "w = w1"
        by (auto elim!: awaits_cases simp: action_simps)
      with delivered_on_receipts [OF assms(1-3)] obtain ob' where "w = (ob', save ?sn s)" "ok ob'" "locked_to lookup ob e Delivered ob'" by blast
      moreover have "receipt_outcome verify now s e r Delivered (save ?sn s)"
        using says \<open>r = Receipt_verified e ?sn\<close> Chain_confirmed by (auto simp: receipt_outcome_def)
      ultimately show ?thesis by blast
    next
      case (Chain_retry m at')
      obtain t where t: "(case at' of Some t \<Rightarrow> Inr t | None \<Rightarrow> nextRetryAt h d now) = Inr t"
        using run by (cases "case at' of Some t \<Rightarrow> Inr t | None \<Rightarrow> nextRetryAt h d now") (simp_all add: receipt_verdict_def Chain_retry action_simps)
      have "awaits (on_outbox (fail (oe_id e) m t False)) (\<lambda>_. returns (Receipt_retry_scheduled e m t)) (ob, s) = (Inr r, w)"
        using run by (simp add: receipt_verdict_def Chain_retry t)
      then obtain x w1 where "on_outbox (fail (oe_id e) m t False) (ob, s) = (Inr x, w1)" "r = Receipt_retry_scheduled e m t" "w = w1"
        by (auto elim!: awaits_cases simp: action_simps)
      with fail_on_receipts [OF assms(1-3)] obtain ob' where "w = (ob', s)" "ok ob'" "locked_to lookup ob e Pending_delivery ob'" by fastforce
      moreover have "receipt_outcome verify now s e r Pending_delivery s"
        using says \<open>r = Receipt_retry_scheduled e m t\<close> Chain_retry by (auto simp: receipt_outcome_def)
      ultimately show ?thesis by blast
    next
      case (Chain_rejected m)
      let ?sn = "rejected_snapshot m sn"
      have g: "on_receipts (markReceiptChainRejected i m) (ob, s) = (Inr (Some ?sn), (ob, save ?sn s))"
        using found(3) by (simp add: on_receipts_def markReceiptChainRejected_def Let_def)
      have "receipt_dead_letter ?ops later e m (ob, save ?sn s) = (Inr r, w)"
        using run g by (simp add: receipt_verdict_def Chain_rejected awaits_Inr [where f = "on_receipts _"])
      then show ?thesis using dead [of m "save ?sn s"] says ev found(1) Chain_rejected by auto
    qed
  qed
qed

lemma pass_outcome:
  assumes "ok ob" "receipt_processNext h \<lparr>ob_claimNext = claim, ob_markDelivered = deliver, ob_markFailed = fail\<rparr> d verify now later (ob, s) = (Inr r, w)"
  shows "r = Receipt_idle \<and> w = (ob, s) \<and> (\<forall>i. \<not> due ob now [RECEIPT_ACCEPTED_EVENT_TYPE] i) \<or>
    (\<exists>e ob' s' st. w = (ob', s') \<and> ok ob' \<and> due ob now [RECEIPT_ACCEPTED_EVENT_TYPE] (oe_id e) \<and> oe_eventType e = RECEIPT_ACCEPTED_EVENT_TYPE \<and>
      settled lookup ob e st ob' \<and> receipt_outcome verify now s e r st s')"
proof -
  let ?ops = "\<lparr>ob_claimNext = claim, ob_markDelivered = deliver, ob_markFailed = fail\<rparr>"
  obtain v ob1 where c: "claim now (Some [RECEIPT_ACCEPTED_EVENT_TYPE]) ob = (v, ob1)"
    by (cases "claim now (Some [RECEIPT_ACCEPTED_EVENT_TYPE]) ob")
  then have on: "on_outbox (claim now (Some [RECEIPT_ACCEPTED_EVENT_TYPE])) (ob, s) = (v, (ob1, s))" by (simp add: on_outbox_def)
  show ?thesis
  proof (cases v)
    case (Inl m)
    then show ?thesis using assms(2) on by (simp add: receipt_processNext_def awaits_def)
  next
    case (Inr o')
    show ?thesis
    proof (cases o')
      case None
      then have "ob1 = ob" "\<forall>i. \<not> due ob now [RECEIPT_ACCEPTED_EVENT_TYPE] i" using claim_idle c Inr by blast+
      then show ?thesis using assms(2) on Inr None by (simp add: receipt_processNext_def awaits_def action_simps)
    next
      case (Some e)
      with c Inr have c': "claim now (Some [RECEIPT_ACCEPTED_EVENT_TYPE]) ob = (Inr (Some e), ob1)" by simp
      from claim_takes [OF assms(1) this] obtain e0 where e0: "ok ob1" "lookup ob (oe_id e) = Some e0"
        "due ob now [RECEIPT_ACCEPTED_EVENT_TYPE] (oe_id e)" "same_event e0 e" "oe_status e = Processing"
        "oe_attempts e = oe_attempts e0 + 1" "lookup ob1 = (lookup ob)(oe_id e \<mapsto> e)" by blast
      have p: "oe_status e0 = Pending_delivery" "oe_eventType e0 = RECEIPT_ACCEPTED_EVENT_TYPE"
        using due_iff [OF assms(1)] e0(2,3) by auto
      have run: "receipt_event h ?ops d verify now later e (ob1, s) = (Inr r, w)"
        using assms(2) on Inr Some by (simp add: receipt_processNext_def awaits_def)
      have l: "lookup ob1 (oe_id e) = Some e" by (simp add: e0(7))
      obtain ob' s' st where o1: "w = (ob', s')" "ok ob'" "locked_to lookup ob1 e st ob'" "receipt_outcome verify now s e r st s'"
        using event_outcome [OF e0(1) l e0(5) run] by blast
      have "settled lookup ob e st ob'" using o1(3) e0 p same_event_trans
        unfolding settled_def locked_to_def by fastforce
      moreover have "oe_eventType e = RECEIPT_ACCEPTED_EVENT_TYPE" using e0(4) p by (simp add: same_event_def)
      ultimately show ?thesis using o1 e0(3) by blast
    qed
  qed
qed

text \<open>Whatever a pass returns or throws, it changes no event but the one it claimed.\<close>

lemma spares_fail:
  assumes "ok ob" "lookup ob (oe_id e) = Some e" "oe_status e = Processing"
  shows "spares ok lookup ob (oe_id e) (on_outbox (fail (oe_id e) m t dead))"
proof (cases "time t \<noteq> None")
  case True
  from fail_locked [OF assms True, of m dead] show ?thesis by (auto simp: spares_def on_outbox_def)
next
  case False
  then obtain x where "fail (oe_id e) m t dead ob = (Inl x, ob)" using fail_throws by blast
  then show ?thesis using assms(1) by (simp add: spares_def on_outbox_def)
qed

lemma spares_deliver:
  assumes "ok ob" "lookup ob (oe_id e) = Some e" "oe_status e = Processing"
  shows "spares ok lookup ob (oe_id e) (on_outbox (deliver (oe_id e)))"
  using deliver_locked [OF assms] by (auto simp: spares_def on_outbox_def)

lemma event_spares:
  assumes "ok ob" "lookup ob (oe_id e) = Some e" "oe_status e = Processing"
  shows "spares ok lookup ob (oe_id e) (receipt_event h \<lparr>ob_claimNext = claim, ob_markDelivered = deliver, ob_markFailed = fail\<rparr> d verify now later e)"
proof -
  let ?ops = "\<lparr>ob_claimNext = claim, ob_markDelivered = deliver, ob_markFailed = fail\<rparr>"
  have dead: "spares ok lookup ob (oe_id e) (receipt_dead_letter ?ops later e m)" for m
    unfolding receipt_dead_letter_def using spares_fail [OF assms] by (simp add: spares_then_returns)
  have verdict: "spares ok lookup ob (oe_id e) (receipt_verdict h ?ops d now later e i v)" for i v
  proof (cases v)
    case (Chain_confirmed at')
    show ?thesis unfolding receipt_verdict_def Chain_confirmed chain_verification.case
      using spares_deliver [OF assms] by (intro spares_after_receipts spares_option dead spares_then_returns) simp
  next
    case (Chain_retry m at')
    then show ?thesis using spares_fail [OF assms] assms(1)
      by (cases "case at' of Some t \<Rightarrow> Inr t | None \<Rightarrow> nextRetryAt h d now")
        (simp_all add: receipt_verdict_def spares_then_returns spares_throws)
  next
    case (Chain_rejected m)
    show ?thesis unfolding receipt_verdict_def Chain_rejected chain_verification.case
      by (intro spares_after_receipts spares_option dead)
  qed
  show ?thesis using dead verdict assms(1)
    by (auto simp: spares_def receipt_event_def action_simps split: option.splits sum.splits)
qed

lemma pass_spares_locked:
  assumes "ok ob" "lookup ob i = Some l" "oe_status l = Processing"
    and "receipt_processNext h \<lparr>ob_claimNext = claim, ob_markDelivered = deliver, ob_markFailed = fail\<rparr> d verify now later (ob, s) = (r, (ob', s'))"
  shows "ok ob' \<and> lookup ob' i = Some l"
proof -
  let ?ops = "\<lparr>ob_claimNext = claim, ob_markDelivered = deliver, ob_markFailed = fail\<rparr>"
  obtain v ob1 where c: "claim now (Some [RECEIPT_ACCEPTED_EVENT_TYPE]) ob = (v, ob1)"
    by (cases "claim now (Some [RECEIPT_ACCEPTED_EVENT_TYPE]) ob")
  then have on: "on_outbox (claim now (Some [RECEIPT_ACCEPTED_EVENT_TYPE])) (ob, s) = (v, (ob1, s))" by (simp add: on_outbox_def)
  consider (thrown) m where "v = Inl m" | (idle) "v = Inr None" | (took) e where "v = Inr (Some e)" by (cases v) auto
  then show ?thesis
  proof cases
    case thrown
    then have "ob1 = ob" using claim_throws c by blast
    then show ?thesis using assms on thrown by (auto simp: receipt_processNext_def awaits_def)
  next
    case idle
    then have "ob1 = ob" using claim_idle c by blast
    then show ?thesis using assms on idle by (auto simp: receipt_processNext_def awaits_def action_simps)
  next
    case took
    from claim_takes [OF assms(1)] c took obtain e0 where e0: "ok ob1" "lookup ob (oe_id e) = Some e0"
      "due ob now [RECEIPT_ACCEPTED_EVENT_TYPE] (oe_id e)" "oe_status e = Processing" "lookup ob1 = (lookup ob)(oe_id e \<mapsto> e)" by blast
    have "oe_status e0 = Pending_delivery" using due_iff [OF assms(1)] e0(2,3) by auto
    then have ne: "i \<noteq> oe_id e" using assms(2,3) e0(2) by auto
    have "receipt_event h ?ops d verify now later e (ob1, s) = (r, (ob', s'))"
      using assms(4) on took by (simp add: receipt_processNext_def awaits_def)
    moreover have "spares ok lookup ob1 (oe_id e) (receipt_event h ?ops d verify now later e)"
      by (rule event_spares [OF e0(1) _ e0(4)]) (simp add: e0(5))
    ultimately show ?thesis using ne assms(2) e0(5) unfolding spares_def by (metis fst_conv snd_conv fun_upd_other)
  qed
qed

end

section \<open>Over the PostgreSQL outbox\<close>

lemmas postgres_pass = po.pass_outcome [folded postgres_outbox_def]
lemmas postgres_spares = po.pass_spares_locked [folded postgres_outbox_def]

text \<open>What the control plane does to the outbox besides: new events, and an operator who puts a dead
  letter back.\<close>

inductive outbox_step :: "host \<Rightarrow> outbox \<times> store \<Rightarrow> outbox \<times> store \<Rightarrow> bool" for h where
  receipt_pass: "receipt_processNext h (postgres_outbox h) d verify now later w = (r, w') \<Longrightarrow> outbox_step h w w'"
| inserted: "insertOutboxEvent h e ob = (r, ob') \<Longrightarrow> outbox_step h (ob, s) (ob', s')"
| inserted_once: "insertOutboxEventOnce h e ob = (r, ob') \<Longrightarrow> outbox_step h (ob, s) (ob', s')"
| requeued: "requeueDeadLetterWebhookEvent h jsonb_text merchantId eventId now ob = (r, ob') \<Longrightarrow> outbox_step h (ob, s) (ob', s')"

inductive_cases outbox_stepE: "outbox_step h w w'"

lemma getEvent_append: "getEvent h rows i = Some l \<Longrightarrow> getEvent h (rows @ [r]) i = Some l"
  by (induction rows) (auto simp: getEvent_def split: if_splits)

lemma insert_keeps:
  assumes "outbox_ok rows" "getEvent h rows i = Some l"
    and "insertOutboxEvent h e rows = (r, rows') \<or> insertOutboxEventOnce h e rows = (r, rows')"
  shows "outbox_ok rows' \<and> getEvent h rows' i = Some l"
proof -
  have "rows' = rows \<or> (\<exists>x. rows' = rows @ [x] \<and> \<not> list_ex (\<lambda>y. or_id y = or_id x) rows)"
    using assms(3) by (auto simp: insertOutboxEvent_def insertOutboxEventOnce_def list_ex_iff split: sum.splits if_splits)
  then show ?thesis
  proof
    assume "\<exists>x. rows' = rows @ [x] \<and> \<not> list_ex (\<lambda>y. or_id y = or_id x) rows"
    then obtain x where "rows' = rows @ [x]" "\<not> list_ex (\<lambda>y. or_id y = or_id x) rows" by blast
    then have x: "rows' = rows @ [x]" "or_id x \<notin> set (map or_id rows)" unfolding list_ex_iff by auto
    then show ?thesis using assms(1) getEvent_append [OF assms(2)] by (simp add: outbox_ok_def)
  qed (use assms in simp)
qed

lemma requeue_keeps:
  assumes "outbox_ok rows" "getEvent h rows i = Some l" "oe_status l = Processing"
    and "requeueDeadLetterWebhookEvent h jsonb_text merchantId eventId now rows = (r, rows')"
  shows "outbox_ok rows' \<and> getEvent h rows' i = Some l"
proof -
  obtain x where x: "x \<in> set rows" "or_id x = i" "or_status x = Processing" "l = mapOutboxEvent h x" by (rule locked_row [OF assms(2,3)])
  let ?P = "\<lambda>m r. (or_id r = fst m \<and> payload_text jsonb_text ''merchantId'' (or_payload r) = Some (snd m)) \<and> or_status r = Dead_letter"
  have "rows' = rows \<or> (\<exists>n m. rows' = map (\<lambda>r. if ?P m r then requeued_row n r else r) rows)"
    using assms(4) by (fastforce simp: requeueDeadLetterWebhookEvent_def Let_def update_returning_def split: sum.splits prod.splits option.splits)
  then show ?thesis
  proof
    assume "\<exists>n m. rows' = map (\<lambda>r. if ?P m r then requeued_row n r else r) rows"
    then obtain n m where r: "rows' = map (\<lambda>r. if ?P m r then requeued_row n r else r) rows" by blast
    have g: "or_id (if ?P m y then requeued_row n y else y) = or_id y" for y by (simp add: requeued_row_def)
    have "map or_id rows' = map or_id rows" unfolding r using g by (induction rows) simp_all
    then have "outbox_ok rows'" using assms(1) unfolding outbox_ok_def by (simp only:)
    moreover have "find (\<lambda>r. or_id r = i) rows = Some x"
      using find_distinct [of or_id rows x] assms(1) x by (simp add: outbox_ok_def)
    then have "getEvent h rows' i = Some l" unfolding r getEvent_map [where g = "\<lambda>y. if ?P m y then requeued_row n y else y", OF g]
      using x by simp
    ultimately show ?thesis by blast
  qed (use assms in simp)
qed

lemma step_keeps_locked:
  assumes "outbox_step h w w'" "outbox_ok (fst w)" "getEvent h (fst w) i = Some l" "oe_status l = Processing"
  shows "outbox_ok (fst w') \<and> getEvent h (fst w') i = Some l"
  using assms(1)
proof cases
  case (receipt_pass d verify now later r)
  then have "receipt_processNext h (postgres_outbox h) d verify now later (fst w, snd w) = (r, (fst w', snd w'))" by simp
  from postgres_spares [OF assms(2-4) this] show ?thesis .
next
  case (requeued jsonb_text merchantId eventId now ob r ob' s s')
  then have k: "requeueDeadLetterWebhookEvent h jsonb_text merchantId eventId now (fst w) = (r, fst w')" by simp
  show ?thesis by (rule requeue_keeps [OF assms(2-4) k])
next
  case (inserted e ob r ob' s s')
  then have "insertOutboxEvent h e (fst w) = (r, fst w')" by simp
  then show ?thesis using insert_keeps [OF assms(2,3)] by blast
next
  case (inserted_once e ob r ob' s s')
  then have "insertOutboxEventOnce h e (fst w) = (r, fst w')" by simp
  then show ?thesis using insert_keeps [OF assms(2,3)] by blast
qed

section \<open>Properties of the receipt chain worker\<close>

text \<open>C38. A pass of the receipt worker that returns is idle and changes nothing, when no event of an
  accepted receipt is due, or it settles one due event and no other: delivered exactly when the chain
  confirmed the receipt the event names, whose accrual then became available, pending again when the
  verifier asked for a retry, and a dead letter when the chain rejected the receipt, which is then marked
  rejected, or when the event names no receipt of the store, which then stays as it is.\<close>

theorem receipt_worker_exact:
  assumes "outbox_ok ob" "receipt_processNext h (postgres_outbox h) d verify now later (ob, s) = (Inr r, w)"
  shows "r = Receipt_idle \<and> w = (ob, s) \<and> (\<forall>i. \<not> due_row h ob now [RECEIPT_ACCEPTED_EVENT_TYPE] i) \<or>
    (\<exists>e ob' s' st. w = (ob', s') \<and> outbox_ok ob' \<and> due_row h ob now [RECEIPT_ACCEPTED_EVENT_TYPE] (oe_id e) \<and>
      oe_eventType e = RECEIPT_ACCEPTED_EVENT_TYPE \<and> settled (getEvent h) ob e st ob' \<and> receipt_outcome verify now s e r st s')"
  by (rule postgres_pass [OF assms])


definition accepted_row :: outbox_row where
  "accepted_row = \<lparr>or_id = ''e1'', or_event_type = RECEIPT_ACCEPTED_EVENT_TYPE, or_aggregate_type = ''receipt'',
     or_aggregate_id = rc_receiptId sample_receipt, or_payload = [(''receiptId'', JStr (rc_receiptId sample_receipt))],
     or_status = Pending_delivery, or_attempts = 0, or_available_at = 1, or_locked_at = None, or_last_error = None, or_created_at = 1\<rparr>"

definition accepted_event :: outbox_event where
  "accepted_event = mapOutboxEvent toy_host (claimed_row 2 accepted_row)"

lemma accepted_claimed:
  "claimNext toy_host ''ZZ'' (Some [RECEIPT_ACCEPTED_EVENT_TYPE]) [accepted_row] = (Inr (Some accepted_event), [claimed_row 2 accepted_row])"
  by code_simp

lemma accepted_reads: "readReceiptId accepted_event = Some (rc_receiptId sample_receipt)"
  by code_simp

lemma accepted_receipt: "\<exists>s sn. event_receipt s accepted_event = Some sn"
proof -
  obtain i sn where "sn_id sn = rc_receiptId sample_receipt" using demo_ingested by blast
  then have "event_receipt (save sn empty_store) accepted_event = Some sn"
    by (simp add: event_receipt_def accepted_reads get_save)
  then show ?thesis by blast
qed

theorem receipt_worker_exact_witness:
  "\<exists>s sn e w. receipt_processNext toy_host (postgres_outbox toy_host) None (\<lambda>_. Inr (Chain_confirmed None)) ''ZZ'' ''ZZ''
       ([accepted_row], s) = (Inr (Receipt_verified e sn), w) \<and> settled (getEvent toy_host) [accepted_row] e Delivered (fst w)"
proof -
  obtain s sn where s: "event_receipt s accepted_event = Some sn" using accepted_receipt by blast
  then have g: "getByReceiptId s (rc_receiptId sample_receipt) = Some sn" by (simp add: event_receipt_def accepted_reads)
  let ?v = "verified_snapshot ''ZZ'' sn"
  have type: "oe_eventType accepted_event = RECEIPT_ACCEPTED_EVENT_TYPE" by code_simp
  have "markDelivered toy_host (oe_id accepted_event) [claimed_row 2 accepted_row] =
      (Inr (Some (mapOutboxEvent toy_host (delivered_row (claimed_row 2 accepted_row)))), [delivered_row (claimed_row 2 accepted_row)])"
    by code_simp
  then have run: "receipt_processNext toy_host (postgres_outbox toy_host) None (\<lambda>_. Inr (Chain_confirmed None)) ''ZZ'' ''ZZ'' ([accepted_row], s) =
      (Inr (Receipt_verified accepted_event ?v), ([delivered_row (claimed_row 2 accepted_row)], save ?v s))"
    using g by (simp add: receipt_processNext_def awaits_def on_outbox_def accepted_claimed receipt_event_def type accepted_reads
        receipt_verdict_def on_receipts_def markReceiptChainVerified_def Let_def now_or_def action_simps)
  have "outbox_ok [accepted_row]" by (simp add: outbox_ok_def)
  from receipt_worker_exact [OF this run] have
    "settled (getEvent toy_host) [accepted_row] accepted_event Delivered [delivered_row (claimed_row 2 accepted_row)]"
    by (auto simp: receipt_outcome_def)
  then show ?thesis using run by (metis fst_conv)
qed


end
