(* ===== verification/Webhooks.thy ===== *)
theory Webhooks
  imports Receipt_Worker
begin

text \<open>
  \<^verbatim>\<open>packages/control-plane/src/webhooks.ts\<close>: the worker that delivers webhook events of the outbox, the
  HTTP dispatcher with its envelope, signature and headers, and the loop, which is the one of
  \<^verbatim>\<open>workers.ts\<close> word for word. \<open>fetch\<close> and HMAC-SHA256 are parameters. The main result is that a queue
  drains whatever the endpoint answers: every event that is due is dispatched after a bounded number of
  passes, and no event is dispatched forever.
\<close>

section \<open>The worker\<close>

datatype webhook_delivery =
  Delivery_delivered "int option"
  | Delivery_retry string "string option" "int option"
  | Delivery_rejected string "int option"

datatype webhook_result =
  Webhook_idle
  | Webhook_delivered outbox_event "int option"
  | Webhook_retry_scheduled outbox_event string string "int option"
  | Webhook_dead_letter outbox_event string "int option"

record webhook_options =
  wo_eventTypes :: "string list option"
  wo_maxAttempts :: "int option"
  wo_retryDelayMs :: "int option"

definition DEFAULT_WEBHOOK_EVENT_TYPES :: "string list" where
  "DEFAULT_WEBHOOK_EVENT_TYPES = [''webhook.receipt.accepted.v1'', ''webhook.payout.submitted.v1'',
     ''webhook.payout.confirmed.v1'', ''webhook.payout.finalized.v1'', ''webhook.payout.failed.v1'',
     ''webhook.payout.outcome_unknown.v1'']"

definition webhookEventTypes :: "webhook_options \<Rightarrow> string list" where
  "webhookEventTypes opts = (case wo_eventTypes opts of None \<Rightarrow> DEFAULT_WEBHOOK_EVENT_TYPES | Some ts \<Rightarrow> ts)"

definition maxAttempts :: "webhook_options \<Rightarrow> int" where
  "maxAttempts opts = (case wo_maxAttempts opts of None \<Rightarrow> 10 | Some n \<Rightarrow> n)"

definition hasExhaustedAttempts :: "webhook_options \<Rightarrow> outbox_event \<Rightarrow> bool" where
  "hasExhaustedAttempts opts e \<longleftrightarrow> maxAttempts opts \<le> int (oe_attempts e)"

text \<open>A dispatcher that throws is one that asks for a retry.\<close>

definition delivery_of :: "string + webhook_delivery \<Rightarrow> webhook_delivery" where
  "delivery_of d = (case d of Inl m \<Rightarrow> Delivery_retry m None None | Inr v \<Rightarrow> v)"

definition webhook_dead_letter ::
  "'o outbox_ops \<Rightarrow> string \<Rightarrow> outbox_event \<Rightarrow> string \<Rightarrow> int option \<Rightarrow> ('o, webhook_result) action" where
  "webhook_dead_letter ob now e lastError statusCode =
     awaits (ob_markFailed ob (oe_id e) lastError now True) (\<lambda>_. returns (Webhook_dead_letter e lastError statusCode))"

definition webhook_settle ::
  "host \<Rightarrow> 'o outbox_ops \<Rightarrow> webhook_options \<Rightarrow> string \<Rightarrow> outbox_event \<Rightarrow> webhook_delivery \<Rightarrow> ('o, webhook_result) action" where
  "webhook_settle h ob opts now e d = (case d of
       Delivery_delivered statusCode \<Rightarrow>
         awaits (ob_markDelivered ob (oe_id e)) (\<lambda>_. returns (Webhook_delivered e statusCode))
     | Delivery_retry error availableAt statusCode \<Rightarrow>
         if \<not> hasExhaustedAttempts opts e
         then (case (case availableAt of Some t \<Rightarrow> Inr t | None \<Rightarrow> nextRetryAt h (wo_retryDelayMs opts) now) of
              Inl m \<Rightarrow> throws m
            | Inr t \<Rightarrow> awaits (ob_markFailed ob (oe_id e) error t False) (\<lambda>_.
                returns (Webhook_retry_scheduled e error t statusCode)))
         else webhook_dead_letter ob now e (''webhook delivery attempts exhausted: '' @ error) statusCode
     | Delivery_rejected error statusCode \<Rightarrow> webhook_dead_letter ob now e error statusCode)"

definition webhook_processNext ::
  "host \<Rightarrow> 'o outbox_ops \<Rightarrow> webhook_options \<Rightarrow> string \<Rightarrow> (outbox_event \<Rightarrow> string + webhook_delivery) \<Rightarrow> ('o, webhook_result) action" where
  "webhook_processNext h ob opts now dispatch =
     awaits (ob_claimNext ob now (Some (webhookEventTypes opts))) (\<lambda>event.
     case event of None \<Rightarrow> returns Webhook_idle
     | Some e \<Rightarrow> webhook_settle h ob opts now e (delivery_of (dispatch e)))"

definition runWebhookDispatchWorkerLoop ::
  "('w, webhook_result) worker_loop \<Rightarrow> 'w \<Rightarrow> ((string + nat \<times> stopped_by) \<times> 'w) option" where
  "runWebhookDispatchWorkerLoop options =
     runWorkerLoop (options\<lparr>wl_shouldSleepAfter := (\<lambda>r. r = Webhook_idle)\<rparr>)"

section \<open>The HTTP dispatcher\<close>

text \<open>\<open>JSON.stringify\<close> of values that were parsed from JSON, and of objects of such: members in their
  order, without those that are \<open>undefined\<close>.\<close>

lemma size_filter_member [termination_simp]:
  "(k, v) \<in> set es \<Longrightarrow> size v < Suc (size_list (\<lambda>x. Suc (size (snd x))) es)"
  by (induction es) auto

fun js_stringify :: "json \<Rightarrow> string + string" where
  "js_stringify JNull = Inr ''null''"
| "js_stringify (JStr s) = Inr (json_string s)"
| "js_stringify (JBool b) = Inr (if b then ''true'' else ''false'')"
| "js_stringify (JNum n) = Inr (case n of Fin s \<Rightarrow> s | NegZero \<Rightarrow> ''0'' | NonFinite \<Rightarrow> ''null'')"
| "js_stringify (JBigInt i) = Inl ''Do not know how to serialize a BigInt''"
| "js_stringify (JArr xs) = and_then (map_err (\<lambda>x. js_stringify x) xs) (\<lambda>ss. Inr (''['' @ join '','' ss @ '']''))"
| "js_stringify (JObj es) =
     and_then (map_err (\<lambda>(k, v). and_then (js_stringify v) (\<lambda>s. Inr (json_string k @ '':'' @ s)))
       (filter (\<lambda>(k, v). v \<noteq> JUndefined) es))
     (\<lambda>ss. Inr (''{'' @ join '','' ss @ ''}''))"
| "js_stringify JUndefined = Inr ''null''"
| "js_stringify JExotic = Inl ''not a JSON value''"
| "js_stringify (JOther t) = Inl ''not a JSON value''"

definition createWebhookEnvelope :: "outbox_event \<Rightarrow> json" where
  "createWebhookEnvelope e = JObj [(''id'', JStr (oe_id e)), (''type'', JStr (oe_eventType e)),
     (''aggregateType'', JStr (oe_aggregateType e)), (''aggregateId'', JStr (oe_aggregateId e)),
     (''createdAt'', JStr (oe_createdAt e)), (''payload'', JObj (oe_payload e))]"

record http_request =
  rq_url :: string
  rq_method :: string
  rq_headers :: "(string \<times> string) list"
  rq_body :: string

text \<open>The text of a response: \<open>None\<close> when it has no method \<open>text\<close>, which may throw as well.\<close>

record http_response =
  hr_status :: int
  hr_text :: "(string + string) option"

record http_dispatcher =
  hd_endpointUrl :: string
  hd_secret :: string
  hd_fetch :: "http_request \<Rightarrow> string + http_response"
  hd_now :: string
  hd_hmacSha256 :: "bytes \<Rightarrow> bytes \<Rightarrow> bytes"

definition createWebhookSignature :: "(bytes \<Rightarrow> bytes \<Rightarrow> bytes) \<Rightarrow> string \<Rightarrow> string \<Rightarrow> string \<Rightarrow> string" where
  "createWebhookSignature hmac secret timestamp body =
     ''sha256='' @ bytesToHex (hmac (utf8Bytes secret) (utf8Bytes (timestamp @ ''.'' @ body)))"

definition createWebhookHeaders ::
  "(bytes \<Rightarrow> bytes \<Rightarrow> bytes) \<Rightarrow> outbox_event \<Rightarrow> string \<Rightarrow> string \<Rightarrow> string \<Rightarrow> (string \<times> string) list" where
  "createWebhookHeaders hmac e timestamp body secret = [(''content-type'', ''application/json''),
     (''split402-event-id'', oe_id e), (''split402-event-type'', oe_eventType e),
     (''split402-event-timestamp'', timestamp),
     (''split402-webhook-signature'', createWebhookSignature hmac secret timestamp body)]"

definition readWebhookResponseError :: "http_response \<Rightarrow> string + string" where
  "readWebhookResponseError r = (case hr_text r of
       Some (Inl m) \<Rightarrow> Inl m
     | Some (Inr t) \<Rightarrow> Inr (''webhook returned '' @ show_int (hr_status r) @ (if js_trim t = [] then [] else '': '' @ take 200 t))
     | None \<Rightarrow> Inr (''webhook returned '' @ show_int (hr_status r)))"

definition isRetryableWebhookStatus :: "int \<Rightarrow> bool" where
  "isRetryableWebhookStatus st \<longleftrightarrow> st = 408 \<or> st = 409 \<or> st = 425 \<or> st = 429 \<or> 500 \<le> st"

definition read_response :: "http_response \<Rightarrow> string + webhook_delivery" where
  "read_response r =
     (if 200 \<le> hr_status r \<and> hr_status r < 300 then Inr (Delivery_delivered (Some (hr_status r)))
      else and_then (readWebhookResponseError r) (\<lambda>error.
        if isRetryableWebhookStatus (hr_status r) then Inr (Delivery_retry error None (Some (hr_status r)))
        else Inr (Delivery_rejected error (Some (hr_status r)))))"

text \<open>The body is made before the \<open>try\<close>; whatever throws inside asks for a retry.\<close>

definition http_dispatch :: "http_dispatcher \<Rightarrow> outbox_event \<Rightarrow> string + webhook_delivery" where
  "http_dispatch d e = and_then (js_stringify (createWebhookEnvelope e)) (\<lambda>body.
     Inr (delivery_of (and_then (hd_fetch d \<lparr>rq_url = hd_endpointUrl d, rq_method = ''POST'',
         rq_headers = createWebhookHeaders (hd_hmacSha256 d) e (hd_now d) body (hd_secret d), rq_body = body\<rparr>)
       read_response)))"

section \<open>A pass over the interface\<close>

text \<open>What a pass that claims an event \<open>e0\<close> leaves of it.\<close>

definition dispatched :: "webhook_options \<Rightarrow> outbox_event \<Rightarrow> outbox_event \<Rightarrow> bool" where
  "dispatched opts e0 e1 \<longleftrightarrow> same_event e0 e1 \<and> oe_attempts e1 = oe_attempts e0 + 1 \<and>
     (oe_status e1 = Pending_delivery \<longrightarrow> int (oe_attempts e1) < maxAttempts opts)"

definition delivery_readable :: "(string \<Rightarrow> int option) \<Rightarrow> host \<Rightarrow> webhook_options \<Rightarrow> string \<Rightarrow> webhook_delivery \<Rightarrow> bool" where
  "delivery_readable time h opts now d \<longleftrightarrow> (\<forall>m t c. d = Delivery_retry m t c \<longrightarrow>
     (\<exists>x. (case t of Some x \<Rightarrow> Inr x | None \<Rightarrow> nextRetryAt h (wo_retryDelayMs opts) now) = Inr x \<and> time x \<noteq> None))"

context outbox_contract
begin

lemma fail_settles:
  assumes "ok ob" "lookup ob (oe_id e) = Some e" "oe_status e = Processing" "time t \<noteq> None"
  shows "\<exists>e1 ob'. awaits (fail (oe_id e) m t dead) (\<lambda>_. returns x) ob = (Inr x, ob') \<and> ok ob' \<and> same_event e e1 \<and>
    oe_attempts e1 = oe_attempts e \<and> oe_status e1 = (if dead then Dead_letter else Pending_delivery) \<and>
    lookup ob' = (lookup ob)(oe_id e \<mapsto> e1) \<and> (\<forall>j. j \<noteq> oe_id e \<longrightarrow> avail ob' j = avail ob j)"
  using fail_locked [OF assms, of m dead] by (auto simp: awaits_def action_simps)

lemma deliver_settles:
  assumes "ok ob" "lookup ob (oe_id e) = Some e" "oe_status e = Processing"
  shows "\<exists>e1 ob'. awaits (deliver (oe_id e)) (\<lambda>_. returns x) ob = (Inr x, ob') \<and> ok ob' \<and> same_event e e1 \<and>
    oe_attempts e1 = oe_attempts e \<and> oe_status e1 = Delivered \<and>
    lookup ob' = (lookup ob)(oe_id e \<mapsto> e1) \<and> (\<forall>j. j \<noteq> oe_id e \<longrightarrow> avail ob' j = avail ob j)"
  using deliver_locked [OF assms] by (auto simp: awaits_def action_simps)

lemma settle_effect:
  assumes "ok ob" "lookup ob (oe_id e) = Some e" "oe_status e = Processing" "time now \<noteq> None" "delivery_readable time h opts now d"
  shows "\<exists>e1 ob' r. webhook_settle h \<lparr>ob_claimNext = claim, ob_markDelivered = deliver, ob_markFailed = fail\<rparr> opts now e d ob = (Inr r, ob') \<and>
    r \<noteq> Webhook_idle \<and> ok ob' \<and> same_event e e1 \<and> oe_attempts e1 = oe_attempts e \<and> oe_status e1 \<noteq> Processing \<and>
    (oe_status e1 = Pending_delivery \<longrightarrow> \<not> hasExhaustedAttempts opts e) \<and>
    lookup ob' = (lookup ob)(oe_id e \<mapsto> e1) \<and> (\<forall>j. j \<noteq> oe_id e \<longrightarrow> avail ob' j = avail ob j)"
proof -
  let ?ops = "\<lparr>ob_claimNext = claim, ob_markDelivered = deliver, ob_markFailed = fail\<rparr>"
  have dead: "\<exists>e1 ob' r. webhook_dead_letter ?ops now e m c ob = (Inr r, ob') \<and>
    r \<noteq> Webhook_idle \<and> ok ob' \<and> same_event e e1 \<and> oe_attempts e1 = oe_attempts e \<and> oe_status e1 \<noteq> Processing \<and>
    (oe_status e1 = Pending_delivery \<longrightarrow> \<not> hasExhaustedAttempts opts e) \<and>
    lookup ob' = (lookup ob)(oe_id e \<mapsto> e1) \<and> (\<forall>j. j \<noteq> oe_id e \<longrightarrow> avail ob' j = avail ob j)" for m c
    using fail_settles [OF assms(1-4), of m True "Webhook_dead_letter e m c"]
    by (elim exE conjE, intro exI conjI) (auto simp: webhook_dead_letter_def)
  show ?thesis
  proof (cases d)
    case (Delivery_delivered c)
    then show ?thesis using deliver_settles [OF assms(1-3), of "Webhook_delivered e c"]
      by (elim exE conjE, intro exI conjI) (auto simp: webhook_settle_def)
  next
    case (Delivery_retry m t c)
    show ?thesis
    proof (cases "hasExhaustedAttempts opts e")
      case True
      then show ?thesis using dead by (simp add: webhook_settle_def Delivery_retry)
    next
      case False
      obtain x where x: "(case t of Some x \<Rightarrow> Inr x | None \<Rightarrow> nextRetryAt h (wo_retryDelayMs opts) now) = Inr x" "time x \<noteq> None"
        using assms(5) Delivery_retry unfolding delivery_readable_def by blast
      show ?thesis using fail_settles [OF assms(1-3) x(2), of m False "Webhook_retry_scheduled e m x c"]
        by (elim exE conjE, intro exI conjI) (auto simp: webhook_settle_def Delivery_retry False x(1))
    qed
  next
    case (Delivery_rejected m c)
    then show ?thesis using dead by (simp add: webhook_settle_def)
  qed
qed

lemma webhook_pass:
  assumes "ok ob" "time now \<noteq> None" "webhookEventTypes opts \<noteq> []" "\<And>e. delivery_readable time h opts now (delivery_of (dispatch e))"
  shows "webhook_processNext h \<lparr>ob_claimNext = claim, ob_markDelivered = deliver, ob_markFailed = fail\<rparr> opts now dispatch ob = (Inr Webhook_idle, ob) \<and>
      (\<forall>i. \<not> due ob now (webhookEventTypes opts) i) \<or>
    (\<exists>i e0 e1 r ob'. webhook_processNext h \<lparr>ob_claimNext = claim, ob_markDelivered = deliver, ob_markFailed = fail\<rparr> opts now dispatch ob = (Inr r, ob') \<and>
      r \<noteq> Webhook_idle \<and> ok ob' \<and> due ob now (webhookEventTypes opts) i \<and> lookup ob i = Some e0 \<and> dispatched opts e0 e1 \<and>
      oe_status e1 \<noteq> Processing \<and> lookup ob' = (lookup ob)(i \<mapsto> e1) \<and> (\<forall>j. j \<noteq> i \<longrightarrow> avail ob' j = avail ob j))"
proof -
  let ?ops = "\<lparr>ob_claimNext = claim, ob_markDelivered = deliver, ob_markFailed = fail\<rparr>"
  obtain v ob1 where c: "claim now (Some (webhookEventTypes opts)) ob = (Inr v, ob1)" using claim_answers [OF assms(2,3)] by blast
  show ?thesis
  proof (cases v)
    case None
    with c have "ob1 = ob" "\<forall>i. \<not> due ob now (webhookEventTypes opts) i" using claim_idle by blast+
    then show ?thesis using c None by (simp add: webhook_processNext_def awaits_def action_simps)
  next
    case (Some e)
    from claim_takes [OF assms(1) c [unfolded Some]] obtain e0 where e0: "ok ob1" "lookup ob (oe_id e) = Some e0"
      "due ob now (webhookEventTypes opts) (oe_id e)" "same_event e0 e" "oe_status e = Processing" "oe_attempts e = oe_attempts e0 + 1"
      "lookup ob1 = (lookup ob)(oe_id e \<mapsto> e)" "\<forall>j. j \<noteq> oe_id e \<longrightarrow> avail ob1 j = avail ob j" by blast
    have l: "lookup ob1 (oe_id e) = Some e" by (simp add: e0(7))
    obtain e1 ob' r where f: "webhook_settle h ?ops opts now e (delivery_of (dispatch e)) ob1 = (Inr r, ob')" "r \<noteq> Webhook_idle" "ok ob'"
      and e1: "same_event e e1" "oe_attempts e1 = oe_attempts e" "oe_status e1 \<noteq> Processing"
      "oe_status e1 = Pending_delivery \<longrightarrow> \<not> hasExhaustedAttempts opts e"
      and l': "lookup ob' = (lookup ob1)(oe_id e \<mapsto> e1)" "\<forall>j. j \<noteq> oe_id e \<longrightarrow> avail ob' j = avail ob1 j"
      using settle_effect [OF e0(1) l e0(5) assms(2) assms(4) [of e]] by (elim exE conjE)
    have "webhook_processNext h ?ops opts now dispatch ob = (Inr r, ob')"
      using f c Some by (simp add: webhook_processNext_def awaits_def)
    moreover have "dispatched opts e0 e1" using e0(4,6) e1 same_event_trans [OF e0(4) e1(1)]
      by (auto simp: dispatched_def hasExhaustedAttempts_def)
    moreover have "lookup ob' = (lookup ob)(oe_id e \<mapsto> e1)" using l'(1) e0(7) by simp
    moreover have "\<forall>j. j \<noteq> oe_id e \<longrightarrow> avail ob' j = avail ob j" using l'(2) e0(8) by simp
    ultimately show ?thesis using f(2,3) e0(2,3) e1(3) by blast
  qed
qed

end

section \<open>The queue drains\<close>

text \<open>How many more passes an event can take: the attempts it has left, at least one when it waits.\<close>

definition event_weight :: "webhook_options \<Rightarrow> outbox_event \<Rightarrow> nat" where
  "event_weight opts e = (if oe_status e = Pending_delivery \<and> oe_eventType e \<in> set (webhookEventTypes opts)
     then max 1 (nat (maxAttempts opts - int (oe_attempts e))) else 0)"

definition queue_weight :: "webhook_options \<Rightarrow> (string \<Rightarrow> outbox_event option) \<Rightarrow> nat" where
  "queue_weight opts l = (\<Sum>i \<in> dom l. event_weight opts (the (l i)))"

lemma dispatched_lighter:
  assumes "dispatched opts e0 e1" "oe_status e0 = Pending_delivery" "oe_eventType e0 \<in> set (webhookEventTypes opts)"
  shows "event_weight opts e1 < event_weight opts e0"
  using assms by (auto simp: dispatched_def event_weight_def same_event_def)

lemma queue_lighter:
  assumes "finite (dom l)" "l i = Some e0" "event_weight opts e1 < event_weight opts e0"
  shows "queue_weight opts (l(i \<mapsto> e1)) < queue_weight opts l"
proof -
  have "dom (l(i \<mapsto> e1)) = dom l" using assms(2) by auto
  then have "queue_weight opts (l(i \<mapsto> e1)) = (\<Sum>j \<in> dom l. event_weight opts (the ((l(i \<mapsto> e1)) j)))" by (simp add: queue_weight_def)
  also have "\<dots> < queue_weight opts l" unfolding queue_weight_def
    by (rule sum_strict_mono_ex1) (use assms in \<open>auto intro!: bexI [of _ i]\<close>)
  finally show ?thesis .
qed

text \<open>Pass after pass, each with its clock and whatever the endpoint answers then.\<close>

primrec webhook_runs :: "(nat \<Rightarrow> ('o, webhook_result) action) \<Rightarrow> nat \<Rightarrow> 'o \<Rightarrow> 'o" where
  "webhook_runs f 0 ob = ob"
| "webhook_runs f (Suc k) ob = snd (f k (webhook_runs f k ob))"

context outbox_contract
begin

lemma run_pass:
  assumes "\<And>k. time (now k) \<noteq> None" "webhookEventTypes opts \<noteq> []"
    and "\<And>k e. delivery_readable time h opts (now k) (delivery_of (dispatch k e))"
    and f: "f = (\<lambda>k. webhook_processNext h \<lparr>ob_claimNext = claim, ob_markDelivered = deliver, ob_markFailed = fail\<rparr> opts (now k) (dispatch k))"
    and "ok q"
  shows "f n q = (Inr Webhook_idle, q) \<and> (\<forall>i. \<not> due q (now n) (webhookEventTypes opts) i) \<or>
    (\<exists>i e0 e1 r q'. f n q = (Inr r, q') \<and> r \<noteq> Webhook_idle \<and> ok q' \<and> due q (now n) (webhookEventTypes opts) i \<and>
      lookup q i = Some e0 \<and> dispatched opts e0 e1 \<and> oe_status e1 \<noteq> Processing \<and> lookup q' = (lookup q)(i \<mapsto> e1) \<and>
      (\<forall>j. j \<noteq> i \<longrightarrow> avail q' j = avail q j))"
  unfolding f by (rule webhook_pass) (use assms in auto)

lemma run_busy:
  assumes "\<And>k. time (now k) \<noteq> None" "webhookEventTypes opts \<noteq> []"
    and "\<And>k e. delivery_readable time h opts (now k) (delivery_of (dispatch k e))"
    and f: "f = (\<lambda>k. webhook_processNext h \<lparr>ob_claimNext = claim, ob_markDelivered = deliver, ob_markFailed = fail\<rparr> opts (now k) (dispatch k))"
    and "ok q" "fst (f n q) \<noteq> Inr Webhook_idle"
  shows "\<exists>i e0 e1 r q'. f n q = (Inr r, q') \<and> r \<noteq> Webhook_idle \<and> ok q' \<and> due q (now n) (webhookEventTypes opts) i \<and>
      lookup q i = Some e0 \<and> dispatched opts e0 e1 \<and> oe_status e1 \<noteq> Processing \<and> lookup q' = (lookup q)(i \<mapsto> e1) \<and>
      (\<forall>j. j \<noteq> i \<longrightarrow> avail q' j = avail q j)"
proof -
  have "f n q \<noteq> (Inr Webhook_idle, q)" using assms(6) by (metis fst_conv)
  then show ?thesis using run_pass [OF assms(1-5), of n] by (elim disjE) simp_all
qed

lemma runs_progress:
  assumes "ok ob" "\<And>k. time (now k) \<noteq> None" "webhookEventTypes opts \<noteq> []"
    and "\<And>k e. delivery_readable time h opts (now k) (delivery_of (dispatch k e))"
    and f: "f = (\<lambda>k. webhook_processNext h \<lparr>ob_claimNext = claim, ob_markDelivered = deliver, ob_markFailed = fail\<rparr> opts (now k) (dispatch k))"
  shows "(\<forall>k < n. fst (f k (webhook_runs f k ob)) \<noteq> Inr Webhook_idle) \<longrightarrow>
    ok (webhook_runs f n ob) \<and> queue_weight opts (lookup (webhook_runs f n ob)) + n \<le> queue_weight opts (lookup ob) \<and>
    (\<forall>i e. lookup ob i = Some e \<longrightarrow> (\<exists>e'. lookup (webhook_runs f n ob) i = Some e' \<and>
      (e' = e \<and> avail (webhook_runs f n ob) i = avail ob i \<or>
       oe_attempts e < oe_attempts e' \<and> oe_status e' \<noteq> Processing \<and> (oe_status e' = Pending_delivery \<longrightarrow> int (oe_attempts e') < maxAttempts opts))))"
proof (induction n)
  case 0
  then show ?case using assms(1) by auto
next
  case (Suc n)
  let ?o = "webhook_runs f n ob"
  show ?case
  proof
    assume busy: "\<forall>k < Suc n. fst (f k (webhook_runs f k ob)) \<noteq> Inr Webhook_idle"
    then have ih: "ok ?o" "queue_weight opts (lookup ?o) + n \<le> queue_weight opts (lookup ob)"
      and hist: "\<And>i e. lookup ob i = Some e \<Longrightarrow> \<exists>e'. lookup ?o i = Some e' \<and> (e' = e \<and> avail ?o i = avail ob i \<or>
       oe_attempts e < oe_attempts e' \<and> oe_status e' \<noteq> Processing \<and> (oe_status e' = Pending_delivery \<longrightarrow> int (oe_attempts e') < maxAttempts opts))"
      using Suc.IH by auto
    have "fst (f n ?o) \<noteq> Inr Webhook_idle" using busy by blast
    from run_busy [OF assms(2-4) f ih(1) this] obtain i e0 e1 r ob' where
      p: "f n ?o = (Inr r, ob')" "ok ob'" "due ?o (now n) (webhookEventTypes opts) i" "lookup ?o i = Some e0" "dispatched opts e0 e1"
        "oe_status e1 \<noteq> Processing" "lookup ob' = (lookup ?o)(i \<mapsto> e1)" "\<forall>j. j \<noteq> i \<longrightarrow> avail ob' j = avail ?o j"
      by (elim exE conjE)
    have o': "webhook_runs f (Suc n) ob = ob'" using p(1) by simp
    have "oe_status e0 = Pending_delivery" "oe_eventType e0 \<in> set (webhookEventTypes opts)"
      using due_iff [OF ih(1)] p(3,4) by auto
    then have "event_weight opts e1 < event_weight opts e0" by (rule dispatched_lighter [OF p(5)])
    then have "queue_weight opts (lookup ob') < queue_weight opts (lookup ?o)"
      unfolding p(7) by (rule queue_lighter [OF finite_lookup p(4)])
    then have "queue_weight opts (lookup ob') + Suc n \<le> queue_weight opts (lookup ob)" using ih(2) by simp
    moreover have "\<exists>e'. lookup ob' j = Some e' \<and> (e' = e \<and> avail ob' j = avail ob j \<or>
       oe_attempts e < oe_attempts e' \<and> oe_status e' \<noteq> Processing \<and> (oe_status e' = Pending_delivery \<longrightarrow> int (oe_attempts e') < maxAttempts opts))"
      if e: "lookup ob j = Some e" for j e
    proof (cases "j = i")
      case True
      then have "oe_attempts e \<le> oe_attempts e0" using hist [OF e] p(4) by auto
      then have "oe_attempts e < oe_attempts e1" using p(5) by (simp add: dispatched_def)
      then show ?thesis using True p(5,6,7) by (auto simp: dispatched_def)
    next
      case False
      then show ?thesis using hist [OF e] p(7,8) by simp
    qed
    ultimately show "ok (webhook_runs f (Suc n) ob) \<and> queue_weight opts (lookup (webhook_runs f (Suc n) ob)) + Suc n \<le> queue_weight opts (lookup ob) \<and>
      (\<forall>i e. lookup ob i = Some e \<longrightarrow> (\<exists>e'. lookup (webhook_runs f (Suc n) ob) i = Some e' \<and>
        (e' = e \<and> avail (webhook_runs f (Suc n) ob) i = avail ob i \<or>
         oe_attempts e < oe_attempts e' \<and> oe_status e' \<noteq> Processing \<and> (oe_status e' = Pending_delivery \<longrightarrow> int (oe_attempts e') < maxAttempts opts))))"
      unfolding o' using p(2) by blast
  qed
qed

lemma queue_drains:
  assumes "ok ob" "\<And>k. time (now k) \<noteq> None" "webhookEventTypes opts \<noteq> []"
    and "\<And>k e. delivery_readable time h opts (now k) (delivery_of (dispatch k e))"
    and "\<And>k. the (time (now 0)) \<le> the (time (now k))"
    and f: "f = (\<lambda>k. webhook_processNext h \<lparr>ob_claimNext = claim, ob_markDelivered = deliver, ob_markFailed = fail\<rparr> opts (now k) (dispatch k))"
  shows "\<exists>k \<le> queue_weight opts (lookup ob). fst (f k (webhook_runs f k ob)) = Inr Webhook_idle \<and>
    (\<forall>i. \<not> due (webhook_runs f k ob) (now k) (webhookEventTypes opts) i) \<and>
    (\<forall>i e. due ob (now 0) (webhookEventTypes opts) i \<longrightarrow> lookup ob i = Some e \<longrightarrow> (\<exists>e'. lookup (webhook_runs f k ob) i = Some e' \<and>
      oe_attempts e < oe_attempts e' \<and> oe_status e' \<noteq> Processing \<and> (oe_status e' = Pending_delivery \<longrightarrow> int (oe_attempts e') < maxAttempts opts)))"
proof -
  let ?W = "queue_weight opts (lookup ob)" and ?idle = "\<lambda>k. fst (f k (webhook_runs f k ob)) = Inr Webhook_idle"
  note prog = runs_progress [OF assms(1-4) f]
  have "\<exists>k \<le> ?W. ?idle k"
  proof (rule ccontr)
    assume "\<not> (\<exists>k \<le> ?W. ?idle k)"
    then have "\<forall>k < Suc ?W. \<not> ?idle k" by auto
    then have "queue_weight opts (lookup (webhook_runs f (Suc ?W) ob)) + Suc ?W \<le> ?W" using prog [of "Suc ?W"] by blast
    then show False by simp
  qed
  then obtain k0 where k0: "k0 \<le> ?W" "?idle k0" by blast
  obtain k where k: "k \<le> ?W" "?idle k" "\<forall>j < k. \<not> ?idle j"
    using LeastI [of ?idle, OF k0(2)] Least_le [of ?idle, OF k0(2)] not_less_Least [of _ ?idle] k0(1) by (meson le_trans)
  let ?o = "webhook_runs f k ob"
  have at: "ok ?o" and hist: "\<And>i e. lookup ob i = Some e \<Longrightarrow> \<exists>e'. lookup ?o i = Some e' \<and> (e' = e \<and> avail ?o i = avail ob i \<or>
       oe_attempts e < oe_attempts e' \<and> oe_status e' \<noteq> Processing \<and> (oe_status e' = Pending_delivery \<longrightarrow> int (oe_attempts e') < maxAttempts opts))"
    using prog [of k] k(3) by blast+
  have none: "\<not> due ?o (now k) (webhookEventTypes opts) i" for i
    using run_pass [OF assms(2-4) f at, of k] k(2) by (elim disjE exE conjE) auto
  have "\<exists>e'. lookup ?o i = Some e' \<and> oe_attempts e < oe_attempts e' \<and> oe_status e' \<noteq> Processing \<and>
      (oe_status e' = Pending_delivery \<longrightarrow> int (oe_attempts e') < maxAttempts opts)"
    if d: "due ob (now 0) (webhookEventTypes opts) i" and e: "lookup ob i = Some e" for i e
  proof (rule ccontr)
    assume "\<not> ?thesis"
    then have same: "lookup ?o i = Some e" "avail ?o i = avail ob i" using hist [OF e] by auto
    obtain a where a: "avail ob i = Some a" "a \<le> the (time (now 0))" "oe_status e = Pending_delivery" "oe_eventType e \<in> set (webhookEventTypes opts)"
      using d e by (auto simp: due_iff [OF assms(1)])
    obtain n where n: "time (now k) = Some n" using assms(2) [of k] by blast
    have "a \<le> n" using a(2) assms(5) [of k] n by simp
    then have "due ?o (now k) (webhookEventTypes opts) i" using same a n by (auto simp: due_iff [OF at])
    then show False using none by blast
  qed
  then show ?thesis using k(1,2) none by blast
qed

end

section \<open>Property\<close>

definition webhook_passes ::
  "host \<Rightarrow> webhook_options \<Rightarrow> (nat \<Rightarrow> string) \<Rightarrow> (nat \<Rightarrow> outbox_event \<Rightarrow> string + webhook_delivery) \<Rightarrow> nat \<Rightarrow> (outbox, webhook_result) action" where
  "webhook_passes h opts now dispatch k = webhook_processNext h (postgres_outbox h) opts (now k) (dispatch k)"

lemmas postgres_drains = po.queue_drains [folded postgres_outbox_def]

text \<open>C40. The webhook queue drains. Run pass after pass, with a clock that does not go back behind the
  first pass and any answers of the endpoint, including none: after at most as many passes as the
  waiting events have attempts left, a pass finds nothing due, and by then every event that was due at
  the start has been dispatched at least once and is delivered, a dead letter, or waits for a retry with
  attempts left. No event is dispatched forever and none starves behind the others.\<close>

theorem webhook_queue_drains:
  assumes "outbox_ok rows" "webhookEventTypes opts \<noteq> []"
    and clock: "\<forall>k. \<exists>n0 n. dateParse h (now 0) = Some n0 \<and> dateParse h (now k) = Some n \<and> n0 \<le> n"
    and answers: "\<forall>k e. delivery_readable (dateParse h) h opts (now k) (delivery_of (dispatch k e))"
  shows "\<exists>k \<le> queue_weight opts (getEvent h rows).
    fst (webhook_passes h opts now dispatch k (webhook_runs (webhook_passes h opts now dispatch) k rows)) = Inr Webhook_idle \<and>
    (\<forall>i. \<not> due_row h (webhook_runs (webhook_passes h opts now dispatch) k rows) (now k) (webhookEventTypes opts) i) \<and>
    (\<forall>i e. due_row h rows (now 0) (webhookEventTypes opts) i \<longrightarrow> getEvent h rows i = Some e \<longrightarrow>
      (\<exists>e'. getEvent h (webhook_runs (webhook_passes h opts now dispatch) k rows) i = Some e' \<and> oe_attempts e < oe_attempts e' \<and>
        oe_status e' \<noteq> Processing \<and> (oe_status e' = Pending_delivery \<longrightarrow> int (oe_attempts e') < maxAttempts opts)))"
proof (rule postgres_drains [OF assms(1) _ assms(2)])
  fix k e
  show "dateParse h (now k) \<noteq> None" using clock by (metis option.distinct(1))
  show "delivery_readable (dateParse h) h opts (now k) (delivery_of (dispatch k e))" using answers by blast
  show "the (dateParse h (now 0)) \<le> the (dateParse h (now k))" using clock by (metis option.sel)
  show "webhook_passes h opts now dispatch = (\<lambda>k. webhook_processNext h (postgres_outbox h) opts (now k) (dispatch k))"
    by (rule ext) (simp add: webhook_passes_def)
qed

definition webhook_row :: outbox_row where
  "webhook_row = accepted_row\<lparr>or_event_type := ''webhook.receipt.accepted.v1''\<rparr>"

definition webhook_toy :: webhook_options where
  "webhook_toy = \<lparr>wo_eventTypes = None, wo_maxAttempts = Some 2, wo_retryDelayMs = Some (-1)\<rparr>"

theorem webhook_queue_drains_witness:
  "\<exists>k e'. getEvent toy_host (webhook_runs (webhook_passes toy_host webhook_toy (\<lambda>_. ''ZZ'') (\<lambda>_ _. Inl ''down'')) k [webhook_row]) ''e1'' = Some e' \<and>
     k \<le> 2 \<and> 0 < oe_attempts e' \<and> oe_status e' \<noteq> Processing"
proof -
  have ok: "outbox_ok [webhook_row]" by (simp add: outbox_ok_def)
  have ts: "webhookEventTypes webhook_toy \<noteq> []" by code_simp
  have clock: "\<forall>k :: nat. \<exists>n0 n. dateParse toy_host ''ZZ'' = Some n0 \<and> dateParse toy_host ''ZZ'' = Some n \<and> n0 \<le> n"
    by (simp add: toy_host_def)
  have "dateParse toy_host ''ZZ'' = Some 2" "nextRetryAt toy_host (Some (-1)) ''ZZ'' = Inr ''Z''" "dateParse toy_host ''Z'' = Some 1" by code_simp+
  then have answers: "\<forall>(k :: nat) e :: outbox_event. delivery_readable (dateParse toy_host) toy_host webhook_toy ''ZZ'' (delivery_of (Inl ''down''))"
    by (simp add: delivery_readable_def delivery_of_def webhook_toy_def)
  have get: "getEvent toy_host [webhook_row] ''e1'' = Some (mapOutboxEvent toy_host webhook_row)" by code_simp
  have due: "due_row toy_host [webhook_row] ''ZZ'' (webhookEventTypes webhook_toy) ''e1''"
    unfolding due_row_def by (rule exI [of _ 2]) code_simp
  have "event_weight webhook_toy (mapOutboxEvent toy_host webhook_row) = 2" "or_id webhook_row = ''e1''" by code_simp+
  then have "queue_weight webhook_toy (getEvent toy_host [webhook_row]) = 2"
    by (simp add: queue_weight_def getEvent_def dom_def)
  with webhook_queue_drains [OF ok ts clock answers] get due show ?thesis by fastforce
qed

end
