(* ===== verification/Extension.thy ===== *)
theory Extension
  imports Ingestion Outbox
begin

text \<open>
  \<^verbatim>\<open>packages/x402-extension/src/index.ts\<close>, the merchant's server: it advertises a signed offer, checks
  the attribution a buyer sends with a payment, keeps it in a map by payment id, and signs a receipt when
  the payment is settled. What a buyer sends is parsed JSON, a \<open>json\<close> value without exotic objects.
  The members of the x402 library's payment requirements, settlement results and HTTP context the code
  reads are records. Zod's issues are parameters, a \<open>Date\<close> is its time value.
\<close>

section \<open>JSON values\<close>

definition member_of :: "(string \<times> json) list \<Rightarrow> string \<Rightarrow> json" where
  "member_of es k = (case map_of es k of None \<Rightarrow> JUndefined | Some v \<Rightarrow> v)"

fun getString :: "json \<Rightarrow> string option" where
  "getString (JStr s) = Some s"
| "getString _ = None"

fun asOptionalRecord :: "json \<Rightarrow> (string \<times> json) list option" where
  "asOptionalRecord (JObj es) = Some es"
| "asOptionalRecord _ = None"

definition asRecord :: "json \<Rightarrow> string + (string \<times> json) list" where
  "asRecord v = (case asOptionalRecord v of None \<Rightarrow> Inl ''expected object'' | Some es \<Rightarrow> Inr es)"

definition extractAdvertisedInfo :: "json \<Rightarrow> string + (string \<times> json) list" where
  "extractAdvertisedInfo v = and_then (asRecord v) (\<lambda>record.
     Inr (case asOptionalRecord (member_of record ''info'') of None \<Rightarrow> record | Some nested \<Rightarrow> nested))"

text \<open>What the schemas of \<^verbatim>\<open>schemas.ts\<close> read from an unknown value before they check its members.
  Zod's \<open>.int()\<close> accepts the safe integers, \<open>-0\<close> among them.\<close>

definition string_in :: "json \<Rightarrow> string" where
  "string_in v = (case getString v of None \<Rightarrow> [] | Some s \<Rightarrow> s)"

fun integer_in :: "json \<Rightarrow> int option" where
  "integer_in (JNum (Fin s)) = (case bigint_of_string s of None \<Rightarrow> None
     | Some i \<Rightarrow> if show_int i = s \<and> \<bar>i\<bar> < 2 ^ 53 then Some i else None)"
| "integer_in (JNum NegZero) = Some 0"
| "integer_in _ = None"

definition int_in :: "json \<Rightarrow> int" where
  "int_in v = (case integer_in v of None \<Rightarrow> 0 | Some i \<Rightarrow> i)"

fun strings_in :: "json \<Rightarrow> string list option" where
  "strings_in (JArr vs) = (if \<forall>v \<in> set vs. getString v \<noteq> None then Some (map string_in vs) else None)"
| "strings_in _ = None"

definition offer_string_keys :: "string list" where
  "offer_string_keys = [''protocolVersion'', ''campaignId'', ''campaignTermsHash'', ''merchantId'', ''resourceOrigin'',
     ''operationId'', ''network'', ''asset'', ''requiredAmountAtomic'', ''payToWallet'', ''commissionBase'',
     ''settlementMode'', ''offerNonce'', ''issuedAt'', ''validUntil'', ''kid'', ''signature'']"

definition offer_int_keys :: "string list" where
  "offer_int_keys = [''campaignVersion'', ''commissionBps'', ''protocolFeeBpsOfCommission'']"

definition offer_bool_keys :: "string list" where
  "offer_bool_keys = [''attributionRequired'', ''allowSelfReferral'']"

text \<open>The fields the server picks, and the reading of an object with exactly these fields.\<close>

definition pickOfferFields :: "(string \<times> json) list \<Rightarrow> (string \<times> json) list" where
  "pickOfferFields info = map (\<lambda>k. (k, member_of info k))
     [''protocolVersion'', ''campaignId'', ''campaignVersion'', ''campaignTermsHash'', ''merchantId'', ''resourceOrigin'',
      ''operationId'', ''network'', ''asset'', ''requiredAmountAtomic'', ''payToWallet'', ''commissionBps'',
      ''protocolFeeBpsOfCommission'', ''commissionBase'', ''settlementMode'', ''attributionRequired'',
      ''allowSelfReferral'', ''offerNonce'', ''issuedAt'', ''validUntil'', ''kid'', ''signature'']"

definition offer_typed :: "(string \<times> json) list \<Rightarrow> bool" where
  "offer_typed es \<longleftrightarrow> fst ` set es \<subseteq> set offer_string_keys \<union> set offer_int_keys \<union> set offer_bool_keys \<and>
     (\<forall>k \<in> set offer_string_keys. getString (member_of es k) \<noteq> None) \<and>
     (\<forall>k \<in> set offer_int_keys. integer_in (member_of es k) \<noteq> None) \<and>
     (\<forall>k \<in> set offer_bool_keys. member_of es k \<in> {JBool True, JBool False})"

definition offer_in :: "(string \<times> json) list \<Rightarrow> offer" where
  "offer_in es = (let str = \<lambda>k. string_in (member_of es k); num = \<lambda>k. int_in (member_of es k) in
     \<lparr>of_protocolVersion = str ''protocolVersion'', of_campaignId = str ''campaignId'',
      of_campaignVersion = num ''campaignVersion'', of_campaignTermsHash = str ''campaignTermsHash'',
      of_merchantId = str ''merchantId'', of_resourceOrigin = str ''resourceOrigin'',
      of_operationId = str ''operationId'', of_network = str ''network'', of_asset = str ''asset'',
      of_requiredAmountAtomic = str ''requiredAmountAtomic'', of_payToWallet = str ''payToWallet'',
      of_commissionBps = num ''commissionBps'',
      of_protocolFeeBpsOfCommission = num ''protocolFeeBpsOfCommission'',
      of_commissionBase = str ''commissionBase'', of_settlementMode = str ''settlementMode'',
      of_attributionRequired = (member_of es ''attributionRequired'' = JBool True),
      of_allowSelfReferral = (member_of es ''allowSelfReferral'' = JBool True),
      of_offerNonce = str ''offerNonce'', of_issuedAt = str ''issuedAt'', of_validUntil = str ''validUntil'',
      of_kid = str ''kid'', of_signature = str ''signature''\<rparr>)"

definition claim_string_keys :: "string list" where
  "claim_string_keys = [''version'', ''routeId'', ''campaignId'', ''referrerWallet'', ''payoutWallet'',
     ''resourceOrigin'', ''issuedAt'', ''expiresAt'', ''nonce'']"

definition signature_keys :: "string list" where
  "signature_keys = [''type'', ''publicKey'', ''value'']"

definition claim_typed :: "(string \<times> json) list \<Rightarrow> bool" where
  "claim_typed es \<longleftrightarrow>
     fst ` set es \<subseteq> set claim_string_keys \<union> {''campaignVersionMin'', ''operationIds'', ''metadataHash'', ''signature''} \<and>
     (\<forall>k \<in> set claim_string_keys. getString (member_of es k) \<noteq> None) \<and>
     integer_in (member_of es ''campaignVersionMin'') \<noteq> None \<and> strings_in (member_of es ''operationIds'') \<noteq> None \<and>
     (member_of es ''metadataHash'' = JUndefined \<or> getString (member_of es ''metadataHash'') \<noteq> None) \<and>
     (case asOptionalRecord (member_of es ''signature'') of None \<Rightarrow> False
      | Some g \<Rightarrow> fst ` set g \<subseteq> set signature_keys \<and> (\<forall>k \<in> set signature_keys. getString (member_of g k) \<noteq> None))"

definition claim_in :: "(string \<times> json) list \<Rightarrow> referral_claim" where
  "claim_in es = (let str = \<lambda>k. string_in (member_of es k);
       g = (case asOptionalRecord (member_of es ''signature'') of None \<Rightarrow> [] | Some g \<Rightarrow> g) in
     \<lparr>cl_version = str ''version'', cl_routeId = str ''routeId'', cl_campaignId = str ''campaignId'',
      cl_campaignVersionMin = int_in (member_of es ''campaignVersionMin''),
      cl_referrerWallet = str ''referrerWallet'', cl_payoutWallet = str ''payoutWallet'',
      cl_resourceOrigin = str ''resourceOrigin'',
      cl_operationIds = (case strings_in (member_of es ''operationIds'') of None \<Rightarrow> [] | Some ss \<Rightarrow> ss),
      cl_issuedAt = str ''issuedAt'', cl_expiresAt = str ''expiresAt'', cl_nonce = str ''nonce'',
      cl_metadataHash = getString (member_of es ''metadataHash''),
      cl_signature = \<lparr>sg_type = string_in (member_of g ''type''), sg_publicKey = string_in (member_of g ''publicKey''),
        sg_value = string_in (member_of g ''value'')\<rparr>\<rparr>)"

section \<open>Configuration and state\<close>

text \<open>\<open>xe_offerIssues\<close> and \<open>xe_claimIssues\<close> are the path, joined, and the message of each issue.\<close>

record extension_env =
  xe_host :: host
  xe_zod :: zod
  xe_ed :: ed25519
  xe_sha256 :: "bytes \<Rightarrow> bytes"
  xe_offerIssues :: "(string \<times> json) list \<Rightarrow> (string \<times> string) list"
  xe_claimIssues :: "json \<Rightarrow> (string \<times> string) list"

record campaign_config =
  ca_campaignId :: string
  ca_campaignVersion :: int
  ca_campaignTermsHash :: string
  ca_commissionBps :: int
  ca_protocolFeeBpsOfCommission :: int
  ca_attributionRequired :: bool
  ca_allowSelfReferral :: bool

record signing_key =
  sk_kid :: string
  sk_privateSeed :: bytes

record key_provider =
  kp_current :: "string + signing_key"
  kp_resolvePublicKey :: "string \<Rightarrow> string + string option"

record route_declaration =
  rd_campaignId :: string
  rd_operationId :: string

record server_options =
  so_merchantId :: string
  so_merchantOrigin :: string
  so_serviceKeys :: key_provider
  so_resolveCampaign :: "route_declaration \<Rightarrow> string + campaign_config"

record payment_requirements =
  pr_network :: string
  pr_asset :: string
  pr_amount :: string
  pr_payTo :: string

record transport_request =
  hr_method :: string
  hr_path :: string
  hr_routePattern :: "string option"
  hr_queryParams :: "(string \<times> json) list"
  hr_body :: json

text \<open>\<open>vc_http\<close> is \<open>None\<close> where \<open>asHttpTransportContext\<close> does not find an HTTP request.\<close>

record verify_context =
  vc_extension :: json
  vc_requirements :: payment_requirements
  vc_http :: "transport_request option"

record settlement =
  st_success :: bool
  st_payer :: "string option"
  st_transaction :: string
  st_network :: string
  st_amount :: "string option"

datatype claim_status = Claim_valid | Claim_missing | Claim_invalid

record validated_attribution =
  va_offer :: offer
  va_paymentId :: string
  va_requestDigest :: string
  va_referralClaim :: "referral_claim option"
  va_claimStatus :: claim_status
  va_claimErrors :: "string list"

type_synonym validated_map = "(string, validated_attribution) js_map"

definition createStaticSplit402ServiceKeyProvider :: "ed25519 \<Rightarrow> signing_key \<Rightarrow> string + key_provider" where
  "createStaticSplit402ServiceKeyProvider ed key =
     and_then (deriveEd25519PublicKey ed (sk_privateSeed key)) (\<lambda>publicKey.
     Inr \<lparr>kp_current = Inr key, kp_resolvePublicKey = (\<lambda>kid. Inr (if kid = sk_kid key then Some publicKey else None))\<rparr>)"

section \<open>Advertising an offer\<close>

text \<open>\<open>toISOString().replace(/\.\d{3}Z$/u, "Z")\<close>.\<close>

definition toRfc3339Utc :: "host \<Rightarrow> int \<Rightarrow> string" where
  "toRfc3339Utc h t = (let s = toISOString h t; n = length s - 5 in
     if 5 \<le> length s \<and> s ! n = CHR ''.'' \<and> (\<forall>c \<in> set (take 3 (drop (n + 1) s)). is_digit c) \<and> last s = CHR ''Z''
     then take n s @ ''Z'' else s)"

definition buildOffer ::
  "host \<Rightarrow> (nat \<Rightarrow> bytes) \<Rightarrow> campaign_config \<Rightarrow> string \<Rightarrow> string \<Rightarrow> string \<Rightarrow> payment_requirements \<Rightarrow> string \<Rightarrow> int \<Rightarrow> string + offer" where
  "buildOffer h rnd campaign merchantId merchantOrigin operationId requirement kid now =
     and_then (createPrefixedId ''ofn'' 16 rnd) (\<lambda>nonce.
     Inr \<lparr>of_protocolVersion = ''0.1'', of_campaignId = ca_campaignId campaign,
       of_campaignVersion = ca_campaignVersion campaign, of_campaignTermsHash = ca_campaignTermsHash campaign,
       of_merchantId = merchantId, of_resourceOrigin = merchantOrigin, of_operationId = operationId,
       of_network = pr_network requirement, of_asset = pr_asset requirement,
       of_requiredAmountAtomic = pr_amount requirement, of_payToWallet = pr_payTo requirement,
       of_commissionBps = ca_commissionBps campaign,
       of_protocolFeeBpsOfCommission = ca_protocolFeeBpsOfCommission campaign,
       of_commissionBase = ''required_amount'', of_settlementMode = ''accrual'',
       of_attributionRequired = ca_attributionRequired campaign, of_allowSelfReferral = ca_allowSelfReferral campaign,
       of_offerNonce = nonce, of_issuedAt = toRfc3339Utc h now, of_validUntil = toRfc3339Utc h (now + 90000),
       of_kid = kid, of_signature = []\<rparr>)"

definition signOffer :: "ed25519 \<Rightarrow> offer \<Rightarrow> bytes \<Rightarrow> string + offer" where
  "signOffer ed f privateSeed = and_then (buildOfferSigningBytes f) (\<lambda>m.
     and_then (signEd25519Message ed m privateSeed) (\<lambda>signature. Inr (f\<lparr>of_signature := ds_signature signature\<rparr>)))"

definition routeDeclarationRecord :: "json \<Rightarrow> string + (string \<times> json) list" where
  "routeDeclarationRecord v = and_then (asRecord v) (\<lambda>record.
     let candidate = (case asOptionalRecord (member_of record ''split402'') of None \<Rightarrow> record | Some nested \<Rightarrow> nested)
     in Inr (case asOptionalRecord (member_of candidate ''info'') of None \<Rightarrow> candidate | Some info \<Rightarrow> info))"

definition parseDeclaration :: "json \<Rightarrow> string + route_declaration" where
  "parseDeclaration v = and_then (routeDeclarationRecord v) (\<lambda>record.
     case (getString (member_of record ''campaignId''), getString (member_of record ''operationId'')) of
       (Some c, Some p) \<Rightarrow> Inr \<lparr>rd_campaignId = c, rd_operationId = p\<rparr>
     | _ \<Rightarrow> Inl ''Split402 route declaration requires campaignId and operationId'')"

definition optionalRouteDeclarationRecord :: "json \<Rightarrow> (string \<times> json) list option" where
  "optionalRouteDeclarationRecord v = (case asOptionalRecord v of None \<Rightarrow> None
     | Some record \<Rightarrow>
       let candidate = (case asOptionalRecord (member_of record ''split402'') of None \<Rightarrow> record | Some nested \<Rightarrow> nested)
       in Some (case asOptionalRecord (member_of candidate ''info'') of None \<Rightarrow> candidate | Some info \<Rightarrow> info))"

definition parseDeclarationOrOffer :: "json \<Rightarrow> offer \<Rightarrow> route_declaration" where
  "parseDeclarationOrOffer v f =
     (let str = \<lambda>k d. (case optionalRouteDeclarationRecord v of None \<Rightarrow> d
        | Some record \<Rightarrow> (case getString (member_of record k) of None \<Rightarrow> d | Some s \<Rightarrow> s))
      in \<lparr>rd_campaignId = str ''campaignId'' (of_campaignId f), rd_operationId = str ''operationId'' (of_operationId f)\<rparr>)"

definition firstRequirement :: "payment_requirements list \<Rightarrow> string + payment_requirements" where
  "firstRequirement rs = (case rs of [] \<Rightarrow> Inl ''Split402 requires at least one x402 payment requirement'' | r # _ \<Rightarrow> Inr r)"

definition enrichPaymentRequiredResponse ::
  "extension_env \<Rightarrow> server_options \<Rightarrow> (nat \<Rightarrow> bytes) \<Rightarrow> int \<Rightarrow> json \<Rightarrow> payment_requirements list \<Rightarrow> string + offer" where
  "enrichPaymentRequiredResponse env opts rnd now declaration requirements =
     and_then (parseDeclaration declaration) (\<lambda>route.
     and_then (firstRequirement requirements) (\<lambda>requirement.
     and_then (so_resolveCampaign opts route) (\<lambda>campaign.
     and_then (kp_current (so_serviceKeys opts)) (\<lambda>serviceKey.
     and_then (buildOffer (xe_host env) rnd campaign (so_merchantId opts) (so_merchantOrigin opts)
       (rd_operationId route) requirement (sk_kid serviceKey) now) (\<lambda>f.
     signOffer (xe_ed env) f (sk_privateSeed serviceKey))))))"

section \<open>Checking an attribution\<close>

definition parsedOffer :: "extension_env \<Rightarrow> (string \<times> json) list \<Rightarrow> string list + offer" where
  "parsedOffer env es = (if offer_typed es \<and> offer_schema (xe_zod env) (offer_in es) then Inr (offer_in es)
     else Inl (map (\<lambda>(path, message). ''offer '' @ path @ '': '' @ message) (xe_offerIssues env es)))"

definition parsedClaim :: "extension_env \<Rightarrow> json \<Rightarrow> string list + referral_claim" where
  "parsedClaim env v = (case asOptionalRecord v of
       Some es \<Rightarrow> (if claim_typed es \<and> claim_schema (xe_zod env) (claim_in es) then Inr (claim_in es)
         else Inl (map (\<lambda>(path, message). ''claim '' @ path @ '': '' @ message) (xe_claimIssues env v)))
     | None \<Rightarrow> Inl (map (\<lambda>(path, message). ''claim '' @ path @ '': '' @ message) (xe_claimIssues env v)))"

definition coversOperation :: "referral_claim \<Rightarrow> offer \<Rightarrow> bool" where
  "coversOperation c f \<longleftrightarrow> list_ex (\<lambda>p. p = ''*'' \<or> p = of_operationId f) (cl_operationIds c)"

definition validateClaimAgainstOffer :: "host \<Rightarrow> referral_claim \<Rightarrow> offer \<Rightarrow> string \<Rightarrow> int \<Rightarrow> string list" where
  "validateClaimAgainstOffer h c f merchantOrigin now =
     error_if (cl_campaignId c \<noteq> of_campaignId f) ''claim campaignId does not match offer'' @
     error_if (cl_campaignVersionMin c > of_campaignVersion f) ''claim requires a newer campaign version'' @
     error_if (cl_resourceOrigin c \<noteq> merchantOrigin) ''claim resourceOrigin does not match merchant origin'' @
     error_if (\<not> coversOperation c f) ''claim does not cover offer operationId'' @
     error_if (case dateParse h (cl_expiresAt c) of None \<Rightarrow> False | Some t \<Rightarrow> t < now) ''claim is expired''"

definition validateOfferAgainstRequirements :: "offer \<Rightarrow> payment_requirements \<Rightarrow> string list" where
  "validateOfferAgainstRequirements f r =
     error_if (of_network f \<noteq> pr_network r) ''offer network does not match x402 requirement'' @
     error_if (of_asset f \<noteq> pr_asset r) ''offer asset does not match x402 requirement'' @
     error_if (of_requiredAmountAtomic f \<noteq> pr_amount r) ''offer amount does not match x402 requirement'' @
     error_if (of_payToWallet f \<noteq> pr_payTo r) ''offer payToWallet does not match x402 requirement''"

definition validateOfferTiming :: "host \<Rightarrow> offer \<Rightarrow> int \<Rightarrow> string list" where
  "validateOfferTiming h f now = (case dateParse h (of_validUntil f) of
       None \<Rightarrow> [''offer validUntil is invalid'']
     | Some t \<Rightarrow> if t < now then [''offer is expired''] else [])"

definition calculateServerRequestDigest ::
  "extension_env \<Rightarrow> verify_context \<Rightarrow> offer \<Rightarrow> string \<Rightarrow> string + string option" where
  "calculateServerRequestDigest env ctx f paymentId = (case vc_http ctx of None \<Rightarrow> Inr None
     | Some http \<Rightarrow> and_then (calculateOperationDigest (xe_sha256 env)
         \<lparr>opi_merchantId = of_merchantId f, opi_operationId = of_operationId f, opi_method = hr_method http,
          opi_pathTemplate = (case hr_routePattern http of None \<Rightarrow> hr_path http | Some p \<Rightarrow> p),
          opi_pathParams = None, opi_query = Some (hr_queryParams http), opi_body = Some (hr_body http),
          opi_paymentId = paymentId, opi_offerNonce = of_offerNonce f\<rparr>) (\<lambda>d. Inr (Some d)))"

text \<open>The status, the errors and the claim.\<close>

definition parseReferralClaim ::
  "extension_env \<Rightarrow> json \<Rightarrow> offer \<Rightarrow> string \<Rightarrow> int \<Rightarrow> string + claim_status \<times> string list \<times> referral_claim option" where
  "parseReferralClaim env v f merchantOrigin now =
     (if v = JUndefined then Inr (Claim_missing, [], None)
      else case parsedClaim env v of Inl es \<Rightarrow> Inr (Claim_invalid, es, None)
      | Inr c \<Rightarrow> and_then (verifyReferralClaimSignature (xe_ed env) c) (\<lambda>verification.
        if \<not> vr_ok verification then Inr (Claim_invalid, vr_errors verification, None)
        else let semanticErrors = validateClaimAgainstOffer (xe_host env) c f merchantOrigin now in
          Inr (if semanticErrors \<noteq> [] then (Claim_invalid, semanticErrors, None) else (Claim_valid, [], Some c))))"

text \<open>The errors that are pushed before the result is decided.\<close>

definition attribution_errors ::
  "extension_env \<Rightarrow> key_provider \<Rightarrow> verify_context \<Rightarrow> (string \<times> json) list \<Rightarrow> offer \<Rightarrow> string \<Rightarrow> int \<Rightarrow> string + string list" where
  "attribution_errors env keys ctx info f merchantOrigin now =
     and_then (kp_resolvePublicKey keys (of_kid f)) (\<lambda>merchantPublicKey.
     and_then (case merchantPublicKey of None \<Rightarrow> Inr [''unknown merchant service key kid: '' @ of_kid f]
       | Some key \<Rightarrow> and_then (verifySplit402OfferSignature (xe_ed env) f key) (\<lambda>v. Inr (vr_errors v))) (\<lambda>keyErrors.
     let paymentId = getString (member_of info ''paymentId'');
         requestDigest = getString (member_of info ''requestDigest'') in
     and_then (case (paymentId, requestDigest) of
         (Some p, Some d) \<Rightarrow> and_then (calculateServerRequestDigest env ctx f p) (\<lambda>expected.
           Inr (error_if (expected \<noteq> None \<and> expected \<noteq> Some d) ''requestDigest does not match the HTTP request context''))
       | _ \<Rightarrow> Inr []) (\<lambda>digestErrors.
     Inr (keyErrors @ validateOfferAgainstRequirements f (vc_requirements ctx) @
       validateOfferTiming (xe_host env) f now @
       error_if (of_resourceOrigin f \<noteq> merchantOrigin) ''offer resourceOrigin does not match merchant origin'' @
       error_if (paymentId = None) ''missing paymentId'' @
       error_if (case requestDigest of None \<Rightarrow> True | Some d \<Rightarrow> take 7 d \<noteq> ''sha256:'') ''missing requestDigest'' @
       digestErrors))))"

definition validateAttributionPayload ::
  "extension_env \<Rightarrow> verify_context \<Rightarrow> string \<Rightarrow> key_provider \<Rightarrow> int \<Rightarrow> string + string list + validated_attribution" where
  "validateAttributionPayload env ctx merchantOrigin keys now =
     and_then (extractAdvertisedInfo (vc_extension ctx)) (\<lambda>info.
     case parsedOffer env (pickOfferFields info) of Inl issues \<Rightarrow> Inr (Inl issues) | Inr f \<Rightarrow>
     and_then (attribution_errors env keys ctx info f merchantOrigin now) (\<lambda>errors.
     case (getString (member_of info ''paymentId''), getString (member_of info ''requestDigest'')) of
       (Some paymentId, Some requestDigest) \<Rightarrow>
         if errors \<noteq> [] then Inr (Inl errors)
         else and_then (parseReferralClaim env (member_of info ''referralClaim'') f merchantOrigin now) (\<lambda>(status, es, claim).
           Inr (Inr \<lparr>va_offer = f, va_paymentId = paymentId, va_requestDigest = requestDigest,
             va_referralClaim = claim, va_claimStatus = status, va_claimErrors = es\<rparr>))
     | _ \<Rightarrow> Inr (Inl errors)))"

text \<open>The hook: what it aborts with, if it aborts, and the map afterwards.\<close>

definition onBeforeVerify ::
  "extension_env \<Rightarrow> server_options \<Rightarrow> int \<Rightarrow> verify_context \<Rightarrow> validated_map \<Rightarrow> (string + (string \<times> string) option) \<times> validated_map" where
  "onBeforeVerify env opts now ctx st =
     (case validateAttributionPayload env ctx (so_merchantOrigin opts) (so_serviceKeys opts) now of
        Inl e \<Rightarrow> (Inl e, st)
      | Inr (Inl errors) \<Rightarrow> (Inr (Some (''split402_invalid_attribution'', join ''; '' errors)), st)
      | Inr (Inr va) \<Rightarrow>
          if va_claimStatus va = Claim_invalid \<and> of_attributionRequired (va_offer va)
          then (Inr (Some (''split402_invalid_referral_claim'', join ''; '' (va_claimErrors va))), st)
          else (Inr None, map_set (va_paymentId va) va st))"

section \<open>Issuing a receipt\<close>

definition requiredString :: "string option \<Rightarrow> string \<Rightarrow> string + string" where
  "requiredString v label = (case v of None \<Rightarrow> Inl (''missing '' @ label)
     | Some s \<Rightarrow> if s = [] then Inl (''missing '' @ label) else Inr s)"

definition referral_of :: "validated_attribution \<Rightarrow> settlement \<Rightarrow> string + referral_claim option" where
  "referral_of va st = (case (va_claimStatus va, va_referralClaim va) of
       (Claim_valid, Some claim) \<Rightarrow> and_then (requiredString (st_payer st) ''settlement payer'') (\<lambda>payer.
         Inr (if evaluateSelfReferralPolicy \<lparr>sr_allowSelfReferral = of_allowSelfReferral (va_offer va), sr_payerWallet = payer,
             sr_referrerWallet = Some (cl_referrerWallet claim), sr_payoutWallet = Some (cl_payoutWallet claim),
             sr_merchantOwnerWallet = None\<rparr> = None then Some claim else None))
     | _ \<Rightarrow> Inr None)"

definition buildReceipt ::
  "extension_env \<Rightarrow> (nat \<Rightarrow> bytes) \<Rightarrow> validated_attribution \<Rightarrow> campaign_config \<Rightarrow> string \<Rightarrow> string \<Rightarrow> settlement \<Rightarrow> string \<Rightarrow> int \<Rightarrow> string + receipt" where
  "buildReceipt env rnd va campaign merchantId merchantOrigin st kid now =
     (let f = va_offer va in
      and_then (parseAtomicAmount (of_requiredAmountAtomic f)) (\<lambda>requiredAmount.
      and_then (referral_of va st) (\<lambda>referral.
      let bps = (if referral \<noteq> None then of_commissionBps f else 0);
          feeBps = (if referral \<noteq> None then of_protocolFeeBpsOfCommission f else 0) in
      and_then (calculateCommission requiredAmount bps feeBps) (\<lambda>split.
      let timestamp = toRfc3339Utc (xe_host env) now in
      and_then (createPrefixedId ''rcp'' 16 rnd) (\<lambda>receiptId.
      and_then (requiredString (st_payer st) ''settlement payer'') (\<lambda>payer.
      and_then (requiredString (Some (st_transaction st)) ''settlement transaction'') (\<lambda>transaction.
      and_then (serializeAtomicAmount (commission split)) (\<lambda>commissionAmount.
      and_then (serializeAtomicAmount (protocolFee split)) (\<lambda>fee.
      and_then (serializeAtomicAmount (referrerCredit split)) (\<lambda>credit.
      and_then (map_opt_err (\<lambda>c. hashProtocolObject (xe_sha256 env) (JObj (claim_members c))) referral) (\<lambda>claimHash.
      Inr \<lparr>rc_protocolVersion = ''0.1'', rc_receiptId = receiptId, rc_merchantId = merchantId,
        rc_merchantOrigin = merchantOrigin, rc_operationId = of_operationId f, rc_requestDigest = va_requestDigest va,
        rc_campaignId = of_campaignId f, rc_campaignVersion = of_campaignVersion f,
        rc_campaignTermsHash = ca_campaignTermsHash campaign,
        rc_routeId = map_option cl_routeId referral, rc_referralClaimHash = claimHash,
        rc_referrerWallet = map_option cl_referrerWallet referral, rc_payoutWallet = map_option cl_payoutWallet referral,
        rc_paymentId = va_paymentId va, rc_network = st_network st, rc_asset = of_asset f, rc_payerWallet = payer,
        rc_payToWallet = of_payToWallet f, rc_requiredAmountAtomic = of_requiredAmountAtomic f,
        rc_settledAmountAtomic = Some (case st_amount st of None \<Rightarrow> of_requiredAmountAtomic f | Some a \<Rightarrow> a),
        rc_settlementTxSignature = transaction, rc_commissionBps = bps, rc_protocolFeeBpsOfCommission = feeBps,
        rc_commissionBaseAtomic = of_requiredAmountAtomic f, rc_commissionAmountAtomic = commissionAmount,
        rc_protocolFeeAtomic = fee, rc_referrerCreditAtomic = credit, rc_settlementMode = ''accrual'',
        rc_offerNonce = of_offerNonce f, rc_settledAt = timestamp, rc_issuedAt = timestamp,
        rc_recordingStatus = ''accepted'', rc_eventId = None, rc_kid = kid, rc_signature = []\<rparr>)))))))))))"

definition signReceipt :: "ed25519 \<Rightarrow> receipt \<Rightarrow> bytes \<Rightarrow> string + receipt" where
  "signReceipt ed r privateSeed = and_then (buildReceiptSigningBytes r) (\<lambda>m.
     and_then (signEd25519Message ed m privateSeed) (\<lambda>signature. Inr (r\<lparr>rc_signature := ds_signature signature\<rparr>)))"

definition getValidatedAttribution :: "json \<Rightarrow> validated_map \<Rightarrow> string + validated_attribution option" where
  "getValidatedAttribution extension st = and_then (extractAdvertisedInfo extension) (\<lambda>info.
     Inr (case getString (member_of info ''paymentId'') of None \<Rightarrow> None | Some p \<Rightarrow> map_get st p))"

text \<open>The receipt a settlement gives, \<open>None\<close> for \<open>{}\<close>, before it is handed to the sink.\<close>

definition settledReceipt ::
  "extension_env \<Rightarrow> server_options \<Rightarrow> (nat \<Rightarrow> bytes) \<Rightarrow> int \<Rightarrow> json \<Rightarrow> json \<Rightarrow> settlement \<Rightarrow> validated_map \<Rightarrow> string + receipt option" where
  "settledReceipt env opts rnd now declaration extension result st =
     and_then (getValidatedAttribution extension st) (\<lambda>attribution.
     case attribution of None \<Rightarrow> Inr None | Some va \<Rightarrow>
     if \<not> st_success result then Inr None
     else let route = parseDeclarationOrOffer declaration (va_offer va) in
       and_then (kp_current (so_serviceKeys opts)) (\<lambda>serviceKey.
       and_then (so_resolveCampaign opts route) (\<lambda>campaign.
       and_then (buildReceipt env rnd va campaign (so_merchantId opts) (so_merchantOrigin opts) result (sk_kid serviceKey) now) (\<lambda>r.
       and_then (signReceipt (xe_ed env) r (sk_privateSeed serviceKey)) (\<lambda>signed. Inr (Some signed))))))"

definition enrichSettlementResponse ::
  "extension_env \<Rightarrow> server_options \<Rightarrow> (nat \<Rightarrow> bytes) \<Rightarrow> int \<Rightarrow> (receipt \<Rightarrow> ('w, unit) action) option \<Rightarrow>
   json \<Rightarrow> json \<Rightarrow> settlement \<Rightarrow> validated_map \<Rightarrow> ('w, receipt option) action" where
  "enrichSettlementResponse env opts rnd now receiptSink declaration extension result st =
     (case settledReceipt env opts rnd now declaration extension result st of
        Inl e \<Rightarrow> throws e
      | Inr None \<Rightarrow> returns None
      | Inr (Some r) \<Rightarrow> awaits (case receiptSink of None \<Rightarrow> returns () | Some sink \<Rightarrow> sink r) (\<lambda>_. returns (Some r)))"

section \<open>The buyer's side\<close>

text \<open>\<open>createSplit402ClientExtension\<close>: what the buyer's agent sends for an advertised offer. \<open>pathname u\<close>
  is \<open>new URL(u).pathname\<close>, \<open>None\<close> when the constructor throws.\<close>

record client_options =
  co_referralClaim :: "referral_claim option"
  co_body :: "json option"
  co_pathTemplate :: "string option"
  co_pathParams :: "(string \<times> json) list option"
  co_query :: "(string \<times> json) list option"
  co_paymentId :: "string option"

definition inferMethod :: "json \<Rightarrow> string" where
  "inferMethod resource = (case asOptionalRecord resource of None \<Rightarrow> ''POST''
     | Some record \<Rightarrow> (case getString (member_of record ''method'') of None \<Rightarrow> ''POST'' | Some m \<Rightarrow> m))"

definition inferPath :: "(string \<Rightarrow> string option) \<Rightarrow> json \<Rightarrow> string" where
  "inferPath pathname url = (case getString url of None \<Rightarrow> ''/''
     | Some u \<Rightarrow> (case pathname u of None \<Rightarrow> u | Some p \<Rightarrow> p))"

definition parseAdvertisedOffer :: "extension_env \<Rightarrow> (string \<times> json) list \<Rightarrow> string + offer" where
  "parseAdvertisedOffer env info = (case parsedOffer env (pickOfferFields info) of
     Inl issues \<Rightarrow> Inl (join ''; '' issues) | Inr f \<Rightarrow> Inr f)"

definition enrichPaymentPayload ::
  "extension_env \<Rightarrow> client_options \<Rightarrow> (nat \<Rightarrow> bytes) \<Rightarrow> (string \<Rightarrow> string option) \<Rightarrow> json \<Rightarrow> json \<Rightarrow> json \<Rightarrow> string + json" where
  "enrichPaymentPayload env opts rnd pathname advertised payloadResource url =
     and_then (extractAdvertisedInfo advertised) (\<lambda>info.
     and_then (parseAdvertisedOffer env info) (\<lambda>f.
     and_then (case co_paymentId opts of Some p \<Rightarrow> Inr p | None \<Rightarrow> createPrefixedId ''pay'' 16 rnd) (\<lambda>paymentId.
     and_then (calculateOperationDigest (xe_sha256 env)
       \<lparr>opi_merchantId = of_merchantId f, opi_operationId = of_operationId f, opi_method = inferMethod payloadResource,
        opi_pathTemplate = (case co_pathTemplate opts of None \<Rightarrow> inferPath pathname url | Some p \<Rightarrow> p),
        opi_pathParams = co_pathParams opts, opi_query = co_query opts, opi_body = co_body opts,
        opi_paymentId = paymentId, opi_offerNonce = of_offerNonce f\<rparr>) (\<lambda>requestDigest.
     Inr (JObj [(''info'', JObj (offer_members f @ [(''paymentId'', JStr paymentId), (''requestDigest'', JStr requestDigest)] @
       (case co_referralClaim opts of None \<Rightarrow> [] | Some c \<Rightarrow> [(''referralClaim'', JObj (claim_members c))])))])))))"

section \<open>What is read is what was written\<close>

lemma member_of_simps [simp]:
  "member_of [] k = JUndefined" "member_of ((k', v) # es) k = (if k = k' then v else member_of es k)"
  by (simp_all add: member_of_def)

lemma integer_in_json_int [simp]: "integer_in (json_int i) = (if \<bar>i\<bar> < 2 ^ 53 then Some i else None)"
  by (simp add: json_int_def bigint_show_int)

lemma string_in_JStr [simp]: "string_in (JStr s) = s"
  by (simp add: string_in_def)

lemma strings_in_JArr [simp]: "strings_in (JArr (map JStr ss)) = Some ss"
  by (simp add: o_def)

text \<open>The integers of an offer, or of a claim, are the ones a JSON text carries.\<close>

definition safe_version :: "int \<Rightarrow> bool" where
  "safe_version i \<longleftrightarrow> i < 2 ^ 53"

lemma bps_safe: "bps_range n \<Longrightarrow> \<bar>n\<bar> < 2 ^ 53"
  by (simp add: bps_range_def)

lemma picked_offer:
  assumes "offer_schema (xe_zod env) f" "safe_version (of_campaignVersion f)"
  shows "parsedOffer env (pickOfferFields (offer_members f @ rest)) = Inr f"
proof -
  have v: "\<bar>of_campaignVersion f\<bar> < 2 ^ 53" "\<bar>of_commissionBps f\<bar> < 2 ^ 53" "\<bar>of_protocolFeeBpsOfCommission f\<bar> < 2 ^ 53"
    using assms bps_safe by (auto simp: offer_schema_def safe_version_def)
  have "offer_typed (pickOfferFields (offer_members f @ rest))"
    using v by (simp add: offer_typed_def pickOfferFields_def offer_members_def offer_string_keys_def offer_int_keys_def
        offer_bool_keys_def)
  moreover have "offer_in (pickOfferFields (offer_members f @ rest)) = f"
    using v by (cases f) (simp add: offer_in_def pickOfferFields_def offer_members_def Let_def int_in_def)
  ultimately show ?thesis using assms(1) by (simp add: parsedOffer_def)
qed

lemma jopt_text: "getString (jopt v) = v" "jopt v = JUndefined \<longleftrightarrow> v = None"
  by (simp_all add: jopt_def split: option.splits)

lemma written_claim:
  assumes "claim_schema (xe_zod env) c" "safe_version (cl_campaignVersionMin c)"
  shows "parsedClaim env (JObj (claim_members c)) = Inr c"
proof -
  have v: "\<bar>cl_campaignVersionMin c\<bar> < 2 ^ 53" using assms by (auto simp: claim_schema_def safe_version_def)
  have "claim_typed (claim_members c)"
    using v by (cases "cl_metadataHash c") (simp_all add: claim_typed_def claim_members_def claim_string_keys_def signature_keys_def jopt_text
        del: strings_in.simps)
  moreover have "claim_in (claim_members c) = c"
    using v by (cases c; cases "cl_signature c") (simp add: claim_in_def claim_members_def Let_def int_in_def jopt_text del: strings_in.simps)
  ultimately show ?thesis using assms(1) by (simp add: parsedClaim_def)
qed

section \<open>What a validated attribution is\<close>

definition offer_backed :: "extension_env \<Rightarrow> (string \<Rightarrow> string + string option) \<Rightarrow> string \<Rightarrow> offer \<Rightarrow> bool" where
  "offer_backed env resolve origin f \<longleftrightarrow> offer_schema (xe_zod env) f \<and> of_resourceOrigin f = origin \<and>
     (\<exists>pk. resolve (of_kid f) = Inr (Some pk) \<and> offer_signed_by (xe_ed env) pk f)"

definition claim_backed :: "extension_env \<Rightarrow> string \<Rightarrow> offer \<Rightarrow> referral_claim \<Rightarrow> bool" where
  "claim_backed env origin f c \<longleftrightarrow> claim_schema (xe_zod env) c \<and>
     sg_publicKey (cl_signature c) = cl_referrerWallet c \<and> claim_signed_by (xe_ed env) (cl_referrerWallet c) c \<and>
     cl_campaignId c = of_campaignId f \<and> cl_campaignVersionMin c \<le> of_campaignVersion f \<and>
     cl_resourceOrigin c = origin \<and> coversOperation c f"

definition attribution_sound :: "extension_env \<Rightarrow> (string \<Rightarrow> string + string option) \<Rightarrow> string \<Rightarrow> validated_attribution \<Rightarrow> bool" where
  "attribution_sound env resolve origin va \<longleftrightarrow> offer_backed env resolve origin (va_offer va) \<and>
     (case va_referralClaim va of None \<Rightarrow> va_claimStatus va \<noteq> Claim_valid
      | Some c \<Rightarrow> va_claimStatus va = Claim_valid \<and> claim_backed env origin (va_offer va) c) \<and>
     (va_claimStatus va = Claim_invalid \<longrightarrow> \<not> of_attributionRequired (va_offer va))"

lemma join_errors_Nil: "error_if b e @ es = [] \<longleftrightarrow> \<not> b \<and> es = []"
  by (simp add: error_if_def)

definition fits_payment :: "host \<Rightarrow> offer \<Rightarrow> payment_requirements \<Rightarrow> int \<Rightarrow> bool" where
  "fits_payment h f r now \<longleftrightarrow> of_network f = pr_network r \<and> of_asset f = pr_asset r \<and>
     of_requiredAmountAtomic f = pr_amount r \<and> of_payToWallet f = pr_payTo r \<and>
     (\<exists>t. dateParse h (of_validUntil f) = Some t \<and> now \<le> t)"

lemma fits_payment_iff:
  "validateOfferAgainstRequirements f r @ validateOfferTiming h f now = [] \<longleftrightarrow> fits_payment h f r now"
  by (auto simp: validateOfferAgainstRequirements_def validateOfferTiming_def fits_payment_def error_if_def not_less
      split: option.splits)

lemma claim_status:
  assumes "parseReferralClaim env v f origin now = Inr (status, es, claim)"
  shows "case claim of None \<Rightarrow> status \<noteq> Claim_valid | Some c \<Rightarrow> status = Claim_valid \<and> claim_backed env origin f c"
proof (cases "v = JUndefined")
  case False
  show ?thesis
  proof (cases "parsedClaim env v")
    case (Inr c)
    then have schema: "claim_schema (xe_zod env) c"
      by (auto simp: parsedClaim_def split: option.splits if_splits)
    obtain r where r: "verifyReferralClaimSignature (xe_ed env) c = Inr r"
      "vr_errors r = [] \<longleftrightarrow> sg_publicKey (cl_signature c) = cl_referrerWallet c \<and> claim_signed_by (xe_ed env) (cl_referrerWallet c) c"
      using claim_signature_result by blast
    have "vr_ok r \<longleftrightarrow> vr_errors r = []"
      using r(1) by (auto simp: verifyReferralClaimSignature_def err_simps)
    then show ?thesis
      using assms False Inr r schema
      by (auto simp: parseReferralClaim_def claim_backed_def validateClaimAgainstOffer_def Let_def split: if_splits)
  qed (use assms False in \<open>auto simp: parseReferralClaim_def\<close>)
qed (use assms in \<open>simp add: parseReferralClaim_def\<close>)

lemma claim_answers: "\<exists>status es claim. parseReferralClaim env v f origin now = Inr (status, es, claim)"
proof (cases "v = JUndefined")
  case False
  show ?thesis
  proof (cases "parsedClaim env v")
    case (Inr c)
    obtain r where "verifyReferralClaimSignature (xe_ed env) c = Inr r" using claim_signature_result by blast
    then show ?thesis using False Inr by (simp add: parseReferralClaim_def Let_def)
  qed (simp add: parseReferralClaim_def False)
qed (simp add: parseReferralClaim_def)

lemma claim_is_valid:
  assumes "claim_backed env origin f c" "safe_version (cl_campaignVersionMin c)"
    and "\<And>t. dateParse (xe_host env) (cl_expiresAt c) = Some t \<Longrightarrow> now \<le> t"
  shows "parseReferralClaim env (JObj (claim_members c)) f origin now = Inr (Claim_valid, [], Some c)"
proof -
  have p: "parsedClaim env (JObj (claim_members c)) = Inr c"
    by (rule written_claim) (use assms in \<open>simp_all add: claim_backed_def\<close>)
  obtain r where r: "verifyReferralClaimSignature (xe_ed env) c = Inr r" "vr_errors r = []"
    using claim_signature_result [of "xe_ed env" c] assms(1) by (auto simp: claim_backed_def)
  have "vr_ok r" using r by (auto simp: verifyReferralClaimSignature_def err_simps)
  moreover have "validateClaimAgainstOffer (xe_host env) c f origin now = []"
    using assms(1,3) by (auto simp: validateClaimAgainstOffer_def claim_backed_def not_less split: option.splits)
  ultimately show ?thesis using p r by (simp add: parseReferralClaim_def Let_def)
qed

lemma attribution_errors_Nil:
  assumes "attribution_errors env keys ctx info f origin now = Inr []"
  shows "(\<exists>pk. kp_resolvePublicKey keys (of_kid f) = Inr (Some pk) \<and> offer_signed_by (xe_ed env) pk f) \<and>
    fits_payment (xe_host env) f (vc_requirements ctx) now \<and> of_resourceOrigin f = origin \<and>
    (\<exists>p d. getString (member_of info ''paymentId'') = Some p \<and> getString (member_of info ''requestDigest'') = Some d \<and>
       take 7 d = ''sha256:'' \<and> calculateServerRequestDigest env ctx f p \<in> {Inr None, Inr (Some d)})"
proof -
  obtain k where k: "kp_resolvePublicKey keys (of_kid f) = Inr k"
    using assms by (auto simp: attribution_errors_def err_simps)
  obtain p d where pd: "getString (member_of info ''paymentId'') = Some p" "getString (member_of info ''requestDigest'') = Some d"
    using assms by (auto simp: attribution_errors_def err_simps Let_def split: option.splits)
  show ?thesis
  proof (cases k)
    case None
    then show ?thesis using assms k by (auto simp: attribution_errors_def err_simps Let_def)
  next
    case (Some pk)
    obtain v where v: "verifySplit402OfferSignature (xe_ed env) f pk = Inr v" "vr_errors v = [] \<longleftrightarrow> offer_signed_by (xe_ed env) pk f"
      using offer_signature_result by blast
    have "fits_payment (xe_host env) f (vc_requirements ctx) now"
      using assms k Some v pd unfolding fits_payment_iff [symmetric]
      by (auto simp: attribution_errors_def err_simps Let_def)
    then show ?thesis
      using assms k Some v pd by (auto simp: attribution_errors_def err_simps Let_def)
  qed
qed

lemma validated_attribution:
  assumes "validateAttributionPayload env ctx origin keys now = Inr (Inr va)"
  shows "\<exists>info. extractAdvertisedInfo (vc_extension ctx) = Inr info \<and>
    parsedOffer env (pickOfferFields info) = Inr (va_offer va) \<and>
    attribution_errors env keys ctx info (va_offer va) origin now = Inr [] \<and>
    parseReferralClaim env (member_of info ''referralClaim'') (va_offer va) origin now =
      Inr (va_claimStatus va, va_claimErrors va, va_referralClaim va) \<and>
    getString (member_of info ''paymentId'') = Some (va_paymentId va) \<and>
    getString (member_of info ''requestDigest'') = Some (va_requestDigest va)"
proof -
  from assms obtain info where info: "extractAdvertisedInfo (vc_extension ctx) = Inr info"
    by (auto simp: validateAttributionPayload_def err_simps)
  from assms info obtain f where f: "parsedOffer env (pickOfferFields info) = Inr f"
    by (auto simp: validateAttributionPayload_def split: sum.splits)
  from assms info f obtain es where es: "attribution_errors env keys ctx info f origin now = Inr es"
    by (auto simp: validateAttributionPayload_def err_simps)
  from assms info f es obtain p d where pd: "getString (member_of info ''paymentId'') = Some p"
    "getString (member_of info ''requestDigest'') = Some d" "es = []"
    by (auto simp: validateAttributionPayload_def split: option.splits if_splits)
  from assms info f es pd obtain status ces claim where c: "va_offer va = f"
    "parseReferralClaim env (member_of info ''referralClaim'') f origin now = Inr (status, ces, claim)"
    "va = \<lparr>va_offer = f, va_paymentId = p, va_requestDigest = d, va_referralClaim = claim,
       va_claimStatus = status, va_claimErrors = ces\<rparr>"
    by (auto simp: validateAttributionPayload_def err_simps)
  then show ?thesis using info f es pd by simp
qed

text \<open>The server's runs: any payments, keys that resolve to the same public keys, any campaigns.\<close>

inductive server_reaches :: "extension_env \<Rightarrow> (string \<Rightarrow> string + string option) \<Rightarrow> string \<Rightarrow> validated_map \<Rightarrow> bool"
  for env resolve origin where
  started: "server_reaches env resolve origin []"
| verified: "server_reaches env resolve origin st \<Longrightarrow> so_merchantOrigin opts = origin \<Longrightarrow>
    kp_resolvePublicKey (so_serviceKeys opts) = resolve \<Longrightarrow> onBeforeVerify env opts now ctx st = (res, st') \<Longrightarrow>
    server_reaches env resolve origin st'"

lemma verify_cases:
  assumes "onBeforeVerify env opts now ctx st = (res, st')"
  shows "st' = st \<and> res \<noteq> Inr None \<or>
    (\<exists>va. res = Inr None \<and> st' = map_set (va_paymentId va) va st \<and>
       validateAttributionPayload env ctx (so_merchantOrigin opts) (so_serviceKeys opts) now = Inr (Inr va) \<and>
       attribution_sound env (kp_resolvePublicKey (so_serviceKeys opts)) (so_merchantOrigin opts) va)"
proof (cases "validateAttributionPayload env ctx (so_merchantOrigin opts) (so_serviceKeys opts) now")
  case (Inr r)
  show ?thesis
  proof (cases r)
    case va: (Inr va)
    obtain info where info: "parsedOffer env (pickOfferFields info) = Inr (va_offer va)"
      "attribution_errors env (so_serviceKeys opts) ctx info (va_offer va) (so_merchantOrigin opts) now = Inr []"
      "parseReferralClaim env (member_of info ''referralClaim'') (va_offer va) (so_merchantOrigin opts) now =
        Inr (va_claimStatus va, va_claimErrors va, va_referralClaim va)"
      using validated_attribution Inr va by blast
    have "offer_schema (xe_zod env) (va_offer va)" using info(1) by (auto simp: parsedOffer_def split: if_splits)
    then show ?thesis
      using assms Inr va attribution_errors_Nil [OF info(2)] claim_status [OF info(3)]
      by (auto simp: onBeforeVerify_def attribution_sound_def offer_backed_def split: if_splits)
  qed (use assms Inr in \<open>auto simp: onBeforeVerify_def\<close>)
qed (use assms in \<open>auto simp: onBeforeVerify_def\<close>)

lemma reached_sound:
  assumes "server_reaches env resolve origin st"
  shows "\<forall>p va. map_get st p = Some va \<longrightarrow> va_paymentId va = p \<and> attribution_sound env resolve origin va"
  using assms
proof induction
  case (verified st opts now ctx res st')
  from verify_cases [OF verified(4)] verified(2,3,5) show ?case by (auto split: if_splits)
qed simp

section \<open>Signatures of the server\<close>

text \<open>What is assumed of the host's Ed25519: the public key in SPKI form has 32 bytes that are not all
  zero, a signature has 64 bytes and verifies.\<close>

definition ed_lawful :: "ed25519 \<Rightarrow> bool" where
  "ed_lawful ed \<longleftrightarrow> (\<forall>k m. (\<exists>raw. length raw = 32 \<and> (\<exists>b \<in> set raw. b \<noteq> 0) \<and> ed_spki ed k = ED25519_SPKI_PREFIX @ raw) \<and>
     length (ed_sign ed k m) = 64 \<and> ed_verify ed m (ed_spki ed k) (ed_sign ed k m) = Some True)"

lemma signed_verifies:
  assumes "ed_lawful ed" "signEd25519Message ed m seed = Inr d" "deriveEd25519PublicKey ed seed = Inr pk"
  shows "safeVerify ed m pk (ds_signature d)"
proof -
  have "verifyEd25519Signature ed m (ds_publicKey d) (ds_signature d) = Inr True \<and>
      deriveEd25519PublicKey ed seed = Inr (ds_publicKey d)"
    by (rule signed_message_verifies [OF _ _ _ assms(2)]) (use assms(1) in \<open>auto simp: ed_lawful_def\<close>)
  then show ?thesis using assms(3) by (simp add: safeVerify_def)
qed

lemma base64url_encoded: "bs \<noteq> [] \<Longrightarrow> base64url_regex (base64UrlEncode bs)"
proof -
  assume "bs \<noteq> []"
  then have "sextets bs \<noteq> []" by (cases bs rule: sextets.cases) auto
  moreover have "\<forall>d \<in> set (sextets bs). d < 64" using sextets_lt by blast
  ultimately show "base64url_regex (base64UrlEncode bs)"
    using base64url_char_props(2) by (auto simp: base64url_regex_def base64UrlEncode_eq)
qed

lemma signature_text: "ed_lawful ed \<Longrightarrow> signEd25519Message ed m seed = Inr d \<Longrightarrow> base64url_regex (ds_signature d)"
proof -
  assume "ed_lawful ed" "signEd25519Message ed m seed = Inr d"
  then obtain k where "ds_signature d = base64UrlEncode (ed_sign ed k m)" "length (ed_sign ed k m) = 64"
    by (auto simp: signEd25519Message_def err_simps ed_lawful_def)
  then show ?thesis using base64url_encoded [of "ed_sign ed k m"] by fastforce
qed

lemma offer_bytes_unsigned [simp]: "buildOfferSigningBytes (f\<lparr>of_signature := x\<rparr>) = buildOfferSigningBytes f"
  by (simp add: buildOfferSigningBytes_def offer_members_def omitKeys_def)

lemma receipt_bytes_unsigned [simp]: "buildReceiptSigningBytes (r\<lparr>rc_signature := x\<rparr>) = buildReceiptSigningBytes r"
  by (simp add: buildReceiptSigningBytes_def receipt_members_def omitKeys_def)

lemma signed_offer:
  assumes "signOffer ed f seed = Inr f'" "ed_lawful ed" "deriveEd25519PublicKey ed seed = Inr pk"
  shows "offer_signed_by ed pk f' \<and> (\<exists>x. f' = f\<lparr>of_signature := x\<rparr>)"
  using assms signed_verifies by (auto simp: signOffer_def err_simps offer_signed_by_def)

lemma signed_receipt:
  assumes "signReceipt ed r seed = Inr r'" "ed_lawful ed" "deriveEd25519PublicKey ed seed = Inr pk"
  shows "receipt_signed_by ed pk r' \<and> (\<exists>x. base64url_regex x \<and> r' = r\<lparr>rc_signature := x\<rparr>)"
proof -
  obtain m d where md: "buildReceiptSigningBytes r = Inr m" "signEd25519Message ed m seed = Inr d"
    "r' = r\<lparr>rc_signature := ds_signature d\<rparr>"
    using assms(1) by (auto simp: signReceipt_def err_simps)
  then show ?thesis
    using signed_verifies [OF assms(2) md(2) assms(3)] signature_text [OF assms(2) md(2)] by (auto simp: receipt_signed_by_def)
qed

section \<open>What a receipt says\<close>

text \<open>The claim that is paid: a valid one the self-referral policy of the offer allows.\<close>

definition paid_claim :: "validated_attribution \<Rightarrow> string \<Rightarrow> referral_claim option" where
  "paid_claim va payer = (case va_referralClaim va of
       Some c \<Rightarrow> if va_claimStatus va = Claim_valid \<and>
         (of_allowSelfReferral (va_offer va) \<or> payer \<noteq> cl_referrerWallet c \<and> payer \<noteq> cl_payoutWallet c) then Some c else None
     | None \<Rightarrow> None)"

lemma referral_of_paid:
  assumes "referral_of va st = Inr referral" "requiredString (st_payer st) label = Inr payer"
  shows "referral = paid_claim va payer"
  using assms
  by (auto simp: referral_of_def paid_claim_def requiredString_def evaluateSelfReferralPolicy_def
      split: claim_status.splits option.splits if_splits)

lemma referral_of_answers: "requiredString (st_payer st) label = Inr payer \<Longrightarrow> \<exists>referral. referral_of va st = Inr referral"
  by (auto simp: referral_of_def requiredString_def split: claim_status.splits option.splits if_splits)

definition due :: "string \<Rightarrow> int \<Rightarrow> int" where
  "due amount bps = (amount_of amount * bps) div 10000"

text \<open>The receipt of an attribution and a settlement, up to the id, the time, the key and the signature.\<close>

definition receipt_of :: "validated_attribution \<Rightarrow> string \<Rightarrow> settlement \<Rightarrow> receipt \<Rightarrow> bool" where
  "receipt_of va termsHash st r \<longleftrightarrow> (let f = va_offer va; referral = paid_claim va (rc_payerWallet r) in
     rc_operationId r = of_operationId f \<and> rc_campaignId r = of_campaignId f \<and> rc_campaignVersion r = of_campaignVersion f \<and>
     rc_campaignTermsHash r = termsHash \<and> rc_asset r = of_asset f \<and> rc_payToWallet r = of_payToWallet f \<and>
     rc_requiredAmountAtomic r = of_requiredAmountAtomic f \<and> rc_offerNonce r = of_offerNonce f \<and>
     rc_paymentId r = va_paymentId va \<and> rc_requestDigest r = va_requestDigest va \<and>
     Some (rc_payerWallet r) = st_payer st \<and> rc_settlementTxSignature r = st_transaction st \<and> rc_network r = st_network st \<and>
     rc_settledAmountAtomic r = Some (case st_amount st of None \<Rightarrow> of_requiredAmountAtomic f | Some a \<Rightarrow> a) \<and>
     rc_routeId r = map_option cl_routeId referral \<and> rc_referrerWallet r = map_option cl_referrerWallet referral \<and>
     rc_payoutWallet r = map_option cl_payoutWallet referral \<and>
     rc_commissionBps r = (if referral = None then 0 else of_commissionBps f) \<and>
     rc_protocolFeeBpsOfCommission r = (if referral = None then 0 else of_protocolFeeBpsOfCommission f))"

lemma receipt_of_unsigned [simp]: "receipt_of va h st (r\<lparr>rc_signature := x\<rparr>) = receipt_of va h st r"
  by (simp add: receipt_of_def)

lemma sums_unsigned [simp]: "receipt_sums_ok (r\<lparr>rc_signature := x\<rparr>) = receipt_sums_ok r"
  by (simp add: receipt_sums_ok_def)

text \<open>The draft \<open>buildReceipt\<close> returns, from the values it computes on the way.\<close>

definition receipt_draft ::
  "validated_attribution \<Rightarrow> string \<Rightarrow> string \<Rightarrow> string \<Rightarrow> settlement \<Rightarrow> string \<Rightarrow> string \<Rightarrow> referral_claim option \<Rightarrow>
   string \<Rightarrow> string \<Rightarrow> string \<Rightarrow> string \<Rightarrow> string \<Rightarrow> string \<Rightarrow> string option \<Rightarrow> receipt" where
  "receipt_draft va termsHash mid origin st kid timestamp referral receiptId payer transaction ca fe cr ch =
     (let f = va_offer va in
      \<lparr>rc_protocolVersion = ''0.1'', rc_receiptId = receiptId, rc_merchantId = mid,
        rc_merchantOrigin = origin, rc_operationId = of_operationId f, rc_requestDigest = va_requestDigest va,
        rc_campaignId = of_campaignId f, rc_campaignVersion = of_campaignVersion f, rc_campaignTermsHash = termsHash,
        rc_routeId = map_option cl_routeId referral, rc_referralClaimHash = ch,
        rc_referrerWallet = map_option cl_referrerWallet referral, rc_payoutWallet = map_option cl_payoutWallet referral,
        rc_paymentId = va_paymentId va, rc_network = st_network st, rc_asset = of_asset f, rc_payerWallet = payer,
        rc_payToWallet = of_payToWallet f, rc_requiredAmountAtomic = of_requiredAmountAtomic f,
        rc_settledAmountAtomic = Some (case st_amount st of None \<Rightarrow> of_requiredAmountAtomic f | Some a \<Rightarrow> a),
        rc_settlementTxSignature = transaction, rc_commissionBps = (if referral \<noteq> None then of_commissionBps f else 0),
        rc_protocolFeeBpsOfCommission = (if referral \<noteq> None then of_protocolFeeBpsOfCommission f else 0),
        rc_commissionBaseAtomic = of_requiredAmountAtomic f, rc_commissionAmountAtomic = ca,
        rc_protocolFeeAtomic = fe, rc_referrerCreditAtomic = cr, rc_settlementMode = ''accrual'',
        rc_offerNonce = of_offerNonce f, rc_settledAt = timestamp, rc_issuedAt = timestamp,
        rc_recordingStatus = ''accepted'', rc_eventId = None, rc_kid = kid, rc_signature = []\<rparr>)"

definition split_of :: "validated_attribution \<Rightarrow> referral_claim option \<Rightarrow> string \<Rightarrow> string \<Rightarrow> string \<Rightarrow> bool" where
  "split_of va referral ca fe cr \<longleftrightarrow> (\<exists>amount split. parseAtomicAmount (of_requiredAmountAtomic (va_offer va)) = Inr amount \<and>
     calculateCommission amount (if referral \<noteq> None then of_commissionBps (va_offer va) else 0)
       (if referral \<noteq> None then of_protocolFeeBpsOfCommission (va_offer va) else 0) = Inr split \<and>
     serializeAtomicAmount (commission split) = Inr ca \<and> serializeAtomicAmount (protocolFee split) = Inr fe \<and>
     serializeAtomicAmount (referrerCredit split) = Inr cr)"

lemma built_draft:
  assumes "buildReceipt env rnd va campaign mid origin st kid now = Inr r"
  shows "\<exists>payer receiptId ca fe cr ch. st_payer st = Some payer \<and> payer \<noteq> [] \<and> st_transaction st \<noteq> [] \<and>
    createPrefixedId ''rcp'' 16 rnd = Inr receiptId \<and> split_of va (paid_claim va payer) ca fe cr \<and>
    map_opt_err (\<lambda>c. hashProtocolObject (xe_sha256 env) (JObj (claim_members c))) (paid_claim va payer) = Inr ch \<and>
    r = receipt_draft va (ca_campaignTermsHash campaign) mid origin st kid (toRfc3339Utc (xe_host env) now) (paid_claim va payer)
      receiptId payer (st_transaction st) ca fe cr ch"
proof -
  from assms obtain amount referral split receiptId payer transaction ca fe cr ch where
    a: "parseAtomicAmount (of_requiredAmountAtomic (va_offer va)) = Inr amount"
    and ref: "referral_of va st = Inr referral"
    and split: "calculateCommission amount (if referral \<noteq> None then of_commissionBps (va_offer va) else 0)
      (if referral \<noteq> None then of_protocolFeeBpsOfCommission (va_offer va) else 0) = Inr split"
    and rid: "createPrefixedId ''rcp'' 16 rnd = Inr receiptId"
    and payer: "requiredString (st_payer st) ''settlement payer'' = Inr payer"
    and transaction: "requiredString (Some (st_transaction st)) ''settlement transaction'' = Inr transaction"
    and sums: "serializeAtomicAmount (commission split) = Inr ca" "serializeAtomicAmount (protocolFee split) = Inr fe"
      "serializeAtomicAmount (referrerCredit split) = Inr cr"
    and ch: "map_opt_err (\<lambda>c. hashProtocolObject (xe_sha256 env) (JObj (claim_members c))) referral = Inr ch"
    and r: "r = receipt_draft va (ca_campaignTermsHash campaign) mid origin st kid (toRfc3339Utc (xe_host env) now) referral
      receiptId payer transaction ca fe cr ch"
    unfolding buildReceipt_def Let_def and_then_Inr receipt_draft_def by (elim exE conjE) blast
  have w: "st_payer st = Some payer" "payer \<noteq> []" "transaction = st_transaction st" "st_transaction st \<noteq> []"
    using payer transaction by (auto simp: requiredString_def split: option.splits if_splits)
  have "split_of va (paid_claim va payer) ca fe cr"
    unfolding split_of_def referral_of_paid [OF ref payer, symmetric] using a split sums by blast
  then show ?thesis using w rid ch r unfolding referral_of_paid [OF ref payer] by blast
qed

lemma split_amounts:
  assumes "split_of va referral ca fe cr"
  shows "atomic_regex ca \<and> atomic_regex fe \<and> atomic_regex cr \<and>
    (let com = due (of_requiredAmountAtomic (va_offer va)) (if referral \<noteq> None then of_commissionBps (va_offer va) else 0);
         fee = (com * (if referral \<noteq> None then of_protocolFeeBpsOfCommission (va_offer va) else 0)) div 10000
     in amount_of ca = com \<and> amount_of fe = fee \<and> amount_of cr = com - fee)"
  using assms
  by (auto simp: split_of_def calculateCommission_Inr parseAtomicAmount_Inr serializeAtomicAmount_def due_def Let_def split: if_splits)

lemma built_receipt:
  assumes "buildReceipt env rnd va campaign mid origin st kid now = Inr r"
  shows "receipt_of va (ca_campaignTermsHash campaign) st r \<and> receipt_sums_ok r \<and>
    rc_merchantId r = mid \<and> rc_merchantOrigin r = origin \<and> rc_kid r = kid"
proof -
  from built_draft [OF assms] obtain payer receiptId ca fe cr ch where
    d: "st_payer st = Some payer" "split_of va (paid_claim va payer) ca fe cr"
    "r = receipt_draft va (ca_campaignTermsHash campaign) mid origin st kid (toRfc3339Utc (xe_host env) now) (paid_claim va payer)
      receiptId payer (st_transaction st) ca fe cr ch" by blast
  show ?thesis using d(1) split_amounts [OF d(2)] unfolding d(3) receipt_of_def receipt_sums_ok_def Let_def
    by (simp add: receipt_draft_def Let_def due_def)
qed

text \<open>The parts of the schema of a receipt that do not come from what the buyer or the facilitator sent.\<close>

definition configured :: "extension_env \<Rightarrow> string \<Rightarrow> string \<Rightarrow> string \<Rightarrow> int \<Rightarrow> bool" where
  "configured env mid termsHash kid now \<longleftrightarrow> id_regex mid \<and> sha256_regex termsHash \<and> kid \<noteq> [] \<and>
     utc_timestamp (xe_zod env) (toRfc3339Utc (xe_host env) now)"

definition remote_fields_ok :: "receipt \<Rightarrow> bool" where
  "remote_fields_ok r \<longleftrightarrow> id_regex (rc_paymentId r) \<and> sha256_regex (rc_requestDigest r) \<and> rc_network r \<noteq> [] \<and>
     payment_identifier (rc_payerWallet r) \<and> opt_all atomic_regex (rc_settledAmountAtomic r)"

lemma built_schema:
  assumes "buildReceipt env rnd va campaign mid origin st kid now = Inr r"
    and "attribution_sound env resolve origin va" "configured env mid (ca_campaignTermsHash campaign) kid now"
    and "length (rnd 16) = 16" "\<And>bs. length (xe_sha256 env bs) = 32" "base64url_regex sig"
  shows "receipt_schema (xe_zod env) (r\<lparr>rc_signature := sig\<rparr>) \<longleftrightarrow> remote_fields_ok r"
proof -
  from built_draft [OF assms(1)] obtain payer receiptId ca fe cr ch where
    d: "st_transaction st \<noteq> []" "createPrefixedId ''rcp'' 16 rnd = Inr receiptId"
    "split_of va (paid_claim va payer) ca fe cr"
    "map_opt_err (\<lambda>c. hashProtocolObject (xe_sha256 env) (JObj (claim_members c))) (paid_claim va payer) = Inr ch"
    "r = receipt_draft va (ca_campaignTermsHash campaign) mid origin st kid (toRfc3339Utc (xe_host env) now) (paid_claim va payer)
      receiptId payer (st_transaction st) ca fe cr ch" by blast
  have id: "id_regex receiptId"
    using createPrefixedId_valid [OF d(2) assms(4)] by (simp add: isPrefixedId_def is_lower_def code_def)
  note am = split_amounts [OF d(3)]
  have f: "offer_schema (xe_zod env) (va_offer va)" "of_resourceOrigin (va_offer va) = origin"
    using assms(2) by (auto simp: attribution_sound_def offer_backed_def)
  have claim: "case paid_claim va payer of None \<Rightarrow> ch = None
    | Some c \<Rightarrow> claim_schema (xe_zod env) c \<and> (\<exists>h. ch = Some h \<and> sha256_regex h)"
    using assms(2) d(4) hash_regex [OF _ assms(5)]
    by (auto simp: paid_claim_def attribution_sound_def claim_backed_def err_simps split: option.splits if_splits)
  have zero: "bps_range 0" by (simp add: bps_range_def)
  show ?thesis
  proof (cases "paid_claim va payer")
    case None
    then show ?thesis using d(1) id am f claim zero assms(3,6)
      unfolding d(5) receipt_draft_def Let_def receipt_schema_def remote_fields_ok_def
      by (auto simp: configured_def offer_schema_def route_fields_together_def)
  next
    case (Some c)
    then show ?thesis using d(1) id am f claim zero assms(3,6)
      unfolding d(5) receipt_draft_def Let_def receipt_schema_def remote_fields_ok_def
      by (auto simp: configured_def offer_schema_def claim_schema_def route_fields_together_def)
  qed
qed

end
