(* ===== verification/Paid_Referral.thy ===== *)
theory Paid_Referral
  imports Extension Routes
begin

text \<open>
  The merchant's server, the buyer's agent and the control plane together: an advertised offer that an
  agent pays is validated, the receipt of its settlement says what the offer says, and the control plane
  books it exactly when the fields that come from outside have their format.
\<close>

section \<open>From the offer to the payment\<close>

lemma advertised_offer:
  assumes "enrichPaymentRequiredResponse env opts rnd now declaration requirements = Inr f" "ed_lawful (xe_ed env)"
    and "kp_current (so_serviceKeys opts) = Inr key" "deriveEd25519PublicKey (xe_ed env) (sk_privateSeed key) = Inr pk"
  shows "offer_signed_by (xe_ed env) pk f \<and> of_kid f = sk_kid key \<and> of_resourceOrigin f = so_merchantOrigin opts \<and>
    of_validUntil f = toRfc3339Utc (xe_host env) (now + 90000) \<and>
    (\<exists>r rs. requirements = r # rs \<and> of_network f = pr_network r \<and> of_asset f = pr_asset r \<and>
       of_requiredAmountAtomic f = pr_amount r \<and> of_payToWallet f = pr_payTo r)"
proof -
  from assms(1) obtain r campaign k route f0 where
    r: "firstRequirement requirements = Inr r" and k: "kp_current (so_serviceKeys opts) = Inr k"
    and f0: "buildOffer (xe_host env) rnd campaign (so_merchantId opts) (so_merchantOrigin opts) (rd_operationId (route :: route_declaration)) r (sk_kid k) now = Inr f0"
    and f: "signOffer (xe_ed env) f0 (sk_privateSeed k) = Inr f"
    unfolding enrichPaymentRequiredResponse_def and_then_Inr by (elim exE conjE) (rule that; assumption)
  have k': "k = key" using k assms(3) by simp
  obtain x where "offer_signed_by (xe_ed env) pk f" "f = f0\<lparr>of_signature := x\<rparr>"
    using signed_offer [OF f [unfolded k'] assms(2,4)] by blast
  then show ?thesis using f0 r k' by (auto simp: buildOffer_def err_simps firstRequirement_def split: list.splits)
qed

lemma offer_read_back:
  assumes "parsedOffer env (pickOfferFields (offer_members f @ rest)) = Inr f'"
  shows "f' = f \<and> offer_schema (xe_zod env) f \<and> safe_version (of_campaignVersion f)"
proof -
  have t: "offer_typed (pickOfferFields (offer_members f @ rest))"
    and f': "f' = offer_in (pickOfferFields (offer_members f @ rest))" "offer_schema (xe_zod env) f'"
    using assms by (auto simp: parsedOffer_def split: if_splits)
  have v: "\<bar>of_campaignVersion f\<bar> < 2 ^ 53" "\<bar>of_commissionBps f\<bar> < 2 ^ 53" "\<bar>of_protocolFeeBpsOfCommission f\<bar> < 2 ^ 53"
    using t by (auto simp: offer_typed_def pickOfferFields_def offer_members_def offer_int_keys_def split: if_splits)
  have "offer_in (pickOfferFields (offer_members f @ rest)) = f"
    using v by (cases f) (simp add: offer_in_def pickOfferFields_def offer_members_def Let_def int_in_def)
  then show ?thesis using f' v by (simp add: safe_version_def)
qed

text \<open>What the agent digests and what the server digests are the same operation.\<close>

definition same_request :: "client_options \<Rightarrow> (string \<Rightarrow> string option) \<Rightarrow> json \<Rightarrow> json \<Rightarrow> transport_request \<Rightarrow> bool" where
  "same_request co pathname resource url http \<longleftrightarrow>
     map upper_char (inferMethod resource) = map upper_char (hr_method http) \<and>
     (case co_pathTemplate co of None \<Rightarrow> inferPath pathname url | Some p \<Rightarrow> p) =
       (case hr_routePattern http of None \<Rightarrow> hr_path http | Some p \<Rightarrow> p) \<and>
     co_pathParams co \<in> {None, Some []} \<and>
     (case co_query co of None \<Rightarrow> [] | Some q \<Rightarrow> q) = hr_queryParams http \<and>
     (case co_body co of None \<Rightarrow> JNull | Some b \<Rightarrow> if b = JUndefined then JNull else b) =
       (if hr_body http = JUndefined then JNull else hr_body http)"

lemma same_digest:
  assumes "same_request co pathname resource url http"
  shows "calculateOperationDigest sha
      \<lparr>opi_merchantId = m, opi_operationId = p, opi_method = inferMethod resource,
       opi_pathTemplate = (case co_pathTemplate co of None \<Rightarrow> inferPath pathname url | Some t \<Rightarrow> t),
       opi_pathParams = co_pathParams co, opi_query = co_query co, opi_body = co_body co,
       opi_paymentId = i, opi_offerNonce = n\<rparr> =
    calculateOperationDigest sha
      \<lparr>opi_merchantId = m, opi_operationId = p, opi_method = hr_method http,
       opi_pathTemplate = (case hr_routePattern http of None \<Rightarrow> hr_path http | Some t \<Rightarrow> t),
       opi_pathParams = None, opi_query = Some (hr_queryParams http), opi_body = Some (hr_body http),
       opi_paymentId = i, opi_offerNonce = n\<rparr>"
  using assms by (auto simp: same_request_def calculateOperationDigest_def buildOperationObject_def)

lemma digest_text: "calculateOperationDigest sha i = Inr d \<Longrightarrow> take 7 d = ''sha256:''"
  by (auto simp: calculateOperationDigest_def hashProtocolObject_def sha256Bytes_def err_simps)

lemma member_of_append: "member_of (xs @ ys) k = (case map_of xs k of None \<Rightarrow> member_of ys k | Some v \<Rightarrow> v)"
  by (simp add: member_of_def map_add_def split: option.splits)

lemma sent_members:
  assumes "map_of (offer_members f) k = None"
  shows "member_of (offer_members f @ es) k = member_of es k"
  using assms by (simp add: member_of_append)

lemma offer_lacks: "map_of (offer_members f) ''paymentId'' = None" "map_of (offer_members f) ''requestDigest'' = None"
  "map_of (offer_members f) ''referralClaim'' = None" "map_of (offer_members f) ''info'' = None"
  by (simp_all add: offer_members_def)

lemma no_attribution_errors:
  assumes "kp_resolvePublicKey keys (of_kid f) = Inr (Some pk)" "offer_signed_by (xe_ed env) pk f"
    and "fits_payment (xe_host env) f (vc_requirements ctx) now" "of_resourceOrigin f = origin"
    and "getString (member_of info ''paymentId'') = Some p" "getString (member_of info ''requestDigest'') = Some d"
    and "take 7 d = ''sha256:''" "calculateServerRequestDigest env ctx f p = Inr (Some d)"
  shows "attribution_errors env keys ctx info f origin now = Inr []"
proof -
  obtain v where v: "verifySplit402OfferSignature (xe_ed env) f pk = Inr v" "vr_errors v = []"
    using offer_signature_result assms(2) by blast
  have "validateOfferAgainstRequirements f (vc_requirements ctx) = []" "validateOfferTiming (xe_host env) f now = []"
    using assms(3) unfolding fits_payment_iff [symmetric] by simp_all
  then show ?thesis using assms v by (simp add: attribution_errors_def Let_def)
qed

lemma payment_validated:
  assumes "enrichPaymentRequiredResponse env opts rnd t0 declaration (r # rs) = Inr f" "ed_lawful (xe_ed env)"
    and "kp_current (so_serviceKeys opts) = Inr key" "deriveEd25519PublicKey (xe_ed env) (sk_privateSeed key) = Inr pk"
    and "kp_resolvePublicKey (so_serviceKeys opts) (sk_kid key) = Inr (Some pk)"
    and "enrichPaymentPayload env co rnd' pathname (JObj [(''info'', JObj (offer_members f))]) resource url = Inr extension"
    and "same_request co pathname resource url http"
    and "dateParse (xe_host env) (toRfc3339Utc (xe_host env) (t0 + 90000)) = Some t" "now \<le> t"
    and "\<And>c. co_referralClaim co = Some c \<Longrightarrow> claim_backed env (so_merchantOrigin opts) f c \<and>
      safe_version (cl_campaignVersionMin c) \<and> dateParse (xe_host env) (cl_expiresAt c) = Some t1 \<and> now \<le> t1"
  shows "\<exists>va. onBeforeVerify env opts now \<lparr>vc_extension = extension, vc_requirements = r, vc_http = Some http\<rparr> st =
      (Inr None, map_set (va_paymentId va) va st) \<and> va_offer va = f \<and> va_referralClaim va = co_referralClaim co \<and>
    va_claimStatus va = (if co_referralClaim co = None then Claim_missing else Claim_valid) \<and>
    (\<forall>p. co_paymentId co = Some p \<longrightarrow> va_paymentId va = p) \<and>
    calculateServerRequestDigest env \<lparr>vc_extension = extension, vc_requirements = r, vc_http = Some http\<rparr> f (va_paymentId va) =
      Inr (Some (va_requestDigest va)) \<and>
    (\<exists>info. extractAdvertisedInfo extension = Inr info \<and> getString (member_of info ''paymentId'') = Some (va_paymentId va))"
proof -
  let ?claims = "case co_referralClaim co of None \<Rightarrow> [] | Some c \<Rightarrow> [(''referralClaim'', JObj (claim_members c))]"
  have adv: "extractAdvertisedInfo (JObj [(''info'', JObj (offer_members f))]) = Inr (offer_members f)"
    by (simp add: extractAdvertisedInfo_def asRecord_def)
  from assms(6) obtain f' p d where f': "parsedOffer env (pickOfferFields (offer_members f)) = Inr f'"
    and p: "(case co_paymentId co of Some p \<Rightarrow> Inr p | None \<Rightarrow> createPrefixedId ''pay'' 16 rnd') = Inr p"
    and d: "calculateOperationDigest (xe_sha256 env)
       \<lparr>opi_merchantId = of_merchantId f', opi_operationId = of_operationId f', opi_method = inferMethod resource,
        opi_pathTemplate = (case co_pathTemplate co of None \<Rightarrow> inferPath pathname url | Some t \<Rightarrow> t),
        opi_pathParams = co_pathParams co, opi_query = co_query co, opi_body = co_body co,
        opi_paymentId = p, opi_offerNonce = of_offerNonce f'\<rparr> = Inr d"
    and ext: "extension = JObj [(''info'', JObj (offer_members f' @ [(''paymentId'', JStr p), (''requestDigest'', JStr d)] @ ?claims))]"
    by (auto simp: enrichPaymentPayload_def and_then_Inr adv parseAdvertisedOffer_def split: sum.splits)
  have ff: "f' = f" "offer_schema (xe_zod env) f" "safe_version (of_campaignVersion f)"
    using offer_read_back [of env f "[]" f'] f' by simp_all
  define info where "info = offer_members f @ [(''paymentId'', JStr p), (''requestDigest'', JStr d)] @ ?claims"
  have info: "extractAdvertisedInfo extension = Inr info"
    by (simp add: ext ff info_def extractAdvertisedInfo_def asRecord_def)
  have fields: "member_of info ''paymentId'' = JStr p" "member_of info ''requestDigest'' = JStr d"
    "member_of info ''referralClaim'' = (case co_referralClaim co of None \<Rightarrow> JUndefined | Some c \<Rightarrow> JObj (claim_members c))"
    by (simp_all add: info_def sent_members offer_lacks split: option.splits)
  have parsed: "parsedOffer env (pickOfferFields info) = Inr f"
    unfolding info_def by (rule picked_offer [OF ff(2,3)])
  let ?ctx = "\<lparr>vc_extension = extension, vc_requirements = r, vc_http = Some http\<rparr>"
  note A = advertised_offer [OF assms(1-4)]
  have digest: "calculateServerRequestDigest env ?ctx f p = Inr (Some d)"
    using d [unfolded same_digest [OF assms(7)]] ff(1) by (simp add: calculateServerRequestDigest_def)
  have "attribution_errors env (so_serviceKeys opts) ?ctx info f (so_merchantOrigin opts) now = Inr []"
  proof (rule no_attribution_errors)
    show "kp_resolvePublicKey (so_serviceKeys opts) (of_kid f) = Inr (Some pk)" using A assms(5) by simp
    show "fits_payment (xe_host env) f (vc_requirements ?ctx) now"
      using A assms(8,9) by (auto simp: fits_payment_def)
  qed (use A fields digest digest_text [OF d] in simp_all)
  moreover have "parseReferralClaim env (member_of info ''referralClaim'') f (so_merchantOrigin opts) now =
      Inr (if co_referralClaim co = None then Claim_missing else Claim_valid, [], co_referralClaim co)"
  proof (cases "co_referralClaim co")
    case (Some c)
    have "parseReferralClaim env (JObj (claim_members c)) f (so_merchantOrigin opts) now = Inr (Claim_valid, [], Some c)"
      by (rule claim_is_valid) (use assms(10) [OF Some] in auto)
    then show ?thesis using Some by (simp add: fields)
  qed (simp add: fields parseReferralClaim_def)
  moreover define va where "va = \<lparr>va_offer = f, va_paymentId = p, va_requestDigest = d, va_referralClaim = co_referralClaim co,
        va_claimStatus = (if co_referralClaim co = None then Claim_missing else Claim_valid), va_claimErrors = []\<rparr>"
  ultimately have "validateAttributionPayload env ?ctx (so_merchantOrigin opts) (so_serviceKeys opts) now = Inr (Inr va)"
    using info parsed fields by (simp add: validateAttributionPayload_def)
  moreover have "va_claimStatus va \<noteq> Claim_invalid" by (simp add: va_def)
  ultimately have "onBeforeVerify env opts now ?ctx st = (Inr None, map_set (va_paymentId va) va st)"
    by (simp add: onBeforeVerify_def)
  then show ?thesis using p digest info fields by (intro exI [of _ va]) (auto simp: va_def)
qed

text \<open>C5. What the buyer's agent makes of an offer the server advertised is accepted by the server before
  the offer runs out: the attribution is stored under its payment id with that offer, the digest of
  the request the server sees and, if the agent attached a claim its referrer signed for this campaign,
  origin and operation, with that claim. The payment id is whatever the agent chose.\<close>

theorem honest_payment_is_validated:
  assumes "enrichPaymentRequiredResponse env opts rnd t0 declaration (r # rs) = Inr f" "ed_lawful (xe_ed env)"
    and "kp_current (so_serviceKeys opts) = Inr key" "deriveEd25519PublicKey (xe_ed env) (sk_privateSeed key) = Inr pk"
    and "kp_resolvePublicKey (so_serviceKeys opts) (sk_kid key) = Inr (Some pk)"
    and "enrichPaymentPayload env co rnd' pathname (JObj [(''info'', JObj (offer_members f))]) resource url = Inr extension"
    and "same_request co pathname resource url http"
    and "dateParse (xe_host env) (toRfc3339Utc (xe_host env) (t0 + 90000)) = Some t" "now \<le> t"
    and "\<And>c. co_referralClaim co = Some c \<Longrightarrow> claim_backed env (so_merchantOrigin opts) f c \<and>
      safe_version (cl_campaignVersionMin c) \<and> dateParse (xe_host env) (cl_expiresAt c) = Some t1 \<and> now \<le> t1"
  shows "\<exists>va. onBeforeVerify env opts now \<lparr>vc_extension = extension, vc_requirements = r, vc_http = Some http\<rparr> st =
      (Inr None, map_set (va_paymentId va) va st) \<and> va_offer va = f \<and> va_referralClaim va = co_referralClaim co \<and>
    va_claimStatus va = (if co_referralClaim co = None then Claim_missing else Claim_valid) \<and>
    (\<forall>p. co_paymentId co = Some p \<longrightarrow> va_paymentId va = p) \<and>
    calculateServerRequestDigest env \<lparr>vc_extension = extension, vc_requirements = r, vc_http = Some http\<rparr> f (va_paymentId va) =
      Inr (Some (va_requestDigest va)) \<and>
    (\<exists>info. extractAdvertisedInfo extension = Inr info \<and> getString (member_of info ''paymentId'') = Some (va_paymentId va))"
  by (rule payment_validated [OF assms])

section \<open>From the settlement to the books\<close>

lemma settled_steps:
  assumes "settledReceipt env opts rnd now declaration extension result st = Inr (Some r)"
    and "kp_current (so_serviceKeys opts) = Inr key"
  shows "\<exists>p va campaign draft. map_get st p = Some va \<and> st_success result \<and>
    so_resolveCampaign opts (parseDeclarationOrOffer declaration (va_offer va)) = Inr campaign \<and>
    buildReceipt env rnd va campaign (so_merchantId opts) (so_merchantOrigin opts) result (sk_kid key) now = Inr draft \<and>
    signReceipt (xe_ed env) draft (sk_privateSeed key) = Inr r"
  using assms
  by (auto simp: settledReceipt_def getValidatedAttribution_def err_simps Let_def split: option.splits if_splits)

lemma settled_sound:
  assumes "server_reaches env resolve (so_merchantOrigin opts) st"
    and "settledReceipt env opts rnd now declaration extension result st = Inr (Some r)" "ed_lawful (xe_ed env)"
    and "kp_current (so_serviceKeys opts) = Inr key" "deriveEd25519PublicKey (xe_ed env) (sk_privateSeed key) = Inr pk"
  shows "\<exists>va draft campaign sig. map_get st (rc_paymentId r) = Some va \<and> attribution_sound env resolve (so_merchantOrigin opts) va \<and>
    buildReceipt env rnd va campaign (so_merchantId opts) (so_merchantOrigin opts) result (sk_kid key) now = Inr draft \<and>
    base64url_regex sig \<and> r = draft\<lparr>rc_signature := sig\<rparr> \<and> receipt_signed_by (xe_ed env) pk r \<and>
    receipt_of va (rc_campaignTermsHash r) result r \<and> receipt_sums_ok r \<and>
    ca_campaignTermsHash campaign = rc_campaignTermsHash r \<and>
    so_resolveCampaign opts (parseDeclarationOrOffer declaration (va_offer va)) = Inr campaign"
proof -
  obtain p va campaign draft where va: "map_get st p = Some va"
      "so_resolveCampaign opts (parseDeclarationOrOffer declaration (va_offer va)) = Inr campaign"
    and built: "buildReceipt env rnd va campaign (so_merchantId opts) (so_merchantOrigin opts) result (sk_kid key) now = Inr draft"
    and signed: "signReceipt (xe_ed env) draft (sk_privateSeed key) = Inr r"
    using settled_steps [OF assms(2,4)] by blast
  obtain sig where sig: "receipt_signed_by (xe_ed env) pk r" "base64url_regex sig" "r = draft\<lparr>rc_signature := sig\<rparr>"
    using signed_receipt [OF signed assms(3,5)] by blast
  note B = built_receipt [OF built]
  have h: "rc_campaignTermsHash r = ca_campaignTermsHash campaign" "rc_paymentId r = va_paymentId va"
    using B sig(3) by (simp_all add: receipt_of_def Let_def)
  have "va_paymentId va = p" "attribution_sound env resolve (so_merchantOrigin opts) va"
    using reached_sound [OF assms(1)] va by auto
  then show ?thesis using va built sig B h by auto
qed

lemma built_well_typed:
  assumes "buildReceipt env rnd va campaign mid origin st kid now = Inr r" "attribution_sound env resolve origin va"
  shows "receipt_well_typed r"
proof -
  from built_draft [OF assms(1)] obtain payer receiptId ca fe cr ch where
    d: "split_of va (paid_claim va payer) ca fe cr"
    "r = receipt_draft va (ca_campaignTermsHash campaign) mid origin st kid (toRfc3339Utc (xe_host env) now) (paid_claim va payer)
      receiptId payer (st_transaction st) ca fe cr ch" by blast
  have "offer_schema (xe_zod env) (va_offer va)" using assms(2) by (auto simp: attribution_sound_def offer_backed_def)
  then show ?thesis using split_amounts [OF d(1)] unfolding d(2)
    by (auto simp: receipt_well_typed_def receipt_draft_def Let_def offer_schema_def bps_range_def)
qed

lemma verifier_accepts:
  assumes "receipt_well_typed r" "receipt_signed_by ed pk r" "receipt_sums_ok r"
  shows "\<exists>v. verifySplit402ReceiptObject ed r pk = Inr v \<and> vr_ok v"
proof -
  obtain s where "verifySplit402ReceiptSignature ed r pk = Inr s" "vr_errors s = []"
    using receipt_signature_result assms(2) by blast
  moreover obtain a where "verifyReceiptArithmetic r = Inr a" "vr_errors a = []"
    using arithmetic_result [OF assms(1)] assms(3) by blast
  ultimately show ?thesis by (simp add: verifySplit402ReceiptObject_def)
qed

lemma shares:
  assumes "receipt_of va h st r" "receipt_sums_ok r"
  shows "amount_of (rc_referrerCreditAtomic r) + amount_of (rc_protocolFeeAtomic r) =
      (case paid_claim va (rc_payerWallet r) of None \<Rightarrow> 0
       | Some c \<Rightarrow> due (of_requiredAmountAtomic (va_offer va)) (of_commissionBps (va_offer va)))"
  using assms by (auto simp: receipt_of_def receipt_sums_ok_def Let_def due_def split: option.splits)

lemma seed_signs: "deriveEd25519PublicKey ed seed = Inr pk \<Longrightarrow> \<exists>d. signEd25519Message ed m seed = Inr d"
  by (auto simp: deriveEd25519PublicKey_def signEd25519Message_def err_simps)

lemma receipt_builds:
  assumes "attribution_sound env resolve origin va" "st_payer st = Some payer" "payer \<noteq> []" "st_transaction st \<noteq> []"
  shows "\<exists>r. buildReceipt env rnd va campaign mid origin st kid now = Inr r"
proof -
  have f: "offer_schema (xe_zod env) (va_offer va)" using assms(1) by (auto simp: attribution_sound_def offer_backed_def)
  then obtain amount where a: "parseAtomicAmount (of_requiredAmountAtomic (va_offer va)) = Inr amount" "0 \<le> amount"
    by (auto simp: offer_schema_def parseAtomicAmount_Inr)
  have payer: "requiredString (st_payer st) label = Inr payer" for label
    using assms(2,3) by (simp add: requiredString_def)
  then obtain referral where ref: "referral_of va st = Inr referral" using referral_of_answers by blast
  let ?bps = "if referral \<noteq> None then of_commissionBps (va_offer va) else 0"
  let ?fee = "if referral \<noteq> None then of_protocolFeeBpsOfCommission (va_offer va) else 0"
  have "0 \<le> ?bps \<and> ?bps \<le> 10000 \<and> 0 \<le> ?fee \<and> ?fee \<le> 10000" using f by (auto simp: offer_schema_def bps_range_def)
  then obtain split where split: "calculateCommission amount ?bps ?fee = Inr split"
    using calculateCommission_total a(2) by blast
  have nonneg: "0 \<le> commission split" "0 \<le> protocolFee split" "0 \<le> referrerCredit split"
    using bps_share [of amount ?bps] bps_share [of "commission split" ?fee] split by (auto simp: calculateCommission_Inr)
  obtain ch where "map_opt_err (\<lambda>c. hashProtocolObject (xe_sha256 env) (JObj (claim_members c))) referral = Inr ch"
  proof (cases referral)
    case (Some c)
    obtain h where "hashProtocolObject (xe_sha256 env) (JObj (claim_members c)) = Inr h" using claim_hash_total by blast
    then show ?thesis using that Some by simp
  qed (use that in simp)
  then show ?thesis using a ref split payer nonneg assms(4)
    by (simp add: buildReceipt_def Let_def createPrefixedId_def requiredString_def)
qed

lemma settlement_returns:
  assumes "extractAdvertisedInfo extension = Inr info" "getString (member_of info ''paymentId'') = Some p"
    and "map_get st p = Some va" "attribution_sound env resolve (so_merchantOrigin opts) va"
    and "st_success result" "st_payer result = Some payer" "payer \<noteq> []" "st_transaction result \<noteq> []"
    and "kp_current (so_serviceKeys opts) = Inr key" "deriveEd25519PublicKey (xe_ed env) (sk_privateSeed key) = Inr pk"
    and "so_resolveCampaign opts (parseDeclarationOrOffer declaration (va_offer va)) = Inr campaign"
  shows "\<exists>r. settledReceipt env opts rnd now declaration extension result st = Inr (Some r)"
proof -
  obtain draft where draft: "buildReceipt env rnd va campaign (so_merchantId opts) (so_merchantOrigin opts) result (sk_kid key) now = Inr draft"
    using receipt_builds [OF assms(4,6,7,8)] by blast
  obtain m where m: "buildReceiptSigningBytes draft = Inr m" using receipt_bytes_total by blast
  obtain d where "signEd25519Message (xe_ed env) m (sk_privateSeed key) = Inr d" using seed_signs [OF assms(10)] by blast
  then have "signReceipt (xe_ed env) draft (sk_privateSeed key) = Inr (draft\<lparr>rc_signature := ds_signature d\<rparr>)"
    using m by (simp add: signReceipt_def)
  then show ?thesis using assms draft by (simp add: settledReceipt_def getValidatedAttribution_def Let_def)
qed

text \<open>C4. A payment that was validated and is settled gets a receipt, and the receipt says what the
  validated offer and the settlement say: the offer is one the merchant signed and the claim, if there
  is a valid one, one its referrer signed; the amounts follow the commission formula at the rates of
  the offer, or are zero when there is no claim or the self-referral policy refuses it; the route fields
  are those of the paid claim; and the verifier accepts it under the current service key.\<close>

theorem settled_payment_gets_receipt:
  assumes "server_reaches env resolve (so_merchantOrigin opts) st" "ed_lawful (xe_ed env)"
    and "extractAdvertisedInfo extension = Inr info" "getString (member_of info ''paymentId'') = Some p" "map_get st p = Some va"
    and "st_success result" "st_payer result = Some payer" "payer \<noteq> []" "st_transaction result \<noteq> []"
    and "kp_current (so_serviceKeys opts) = Inr key" "deriveEd25519PublicKey (xe_ed env) (sk_privateSeed key) = Inr pk"
    and "so_resolveCampaign opts (parseDeclarationOrOffer declaration (va_offer va)) = Inr campaign"
  shows "\<exists>r v. settledReceipt env opts rnd now declaration extension result st = Inr (Some r) \<and>
    attribution_sound env resolve (so_merchantOrigin opts) va \<and> rc_paymentId r = p \<and>
    receipt_of va (ca_campaignTermsHash campaign) result r \<and> receipt_signed_by (xe_ed env) pk r \<and>
    verifySplit402ReceiptObject (xe_ed env) r pk = Inr v \<and> vr_ok v \<and>
    amount_of (rc_referrerCreditAtomic r) + amount_of (rc_protocolFeeAtomic r) =
      (case paid_claim va payer of None \<Rightarrow> 0
       | Some c \<Rightarrow> due (of_requiredAmountAtomic (va_offer va)) (of_commissionBps (va_offer va)))"
proof -
  have va: "va_paymentId va = p" "attribution_sound env resolve (so_merchantOrigin opts) va"
    using reached_sound [OF assms(1)] assms(5) by auto
  obtain r where r: "settledReceipt env opts rnd now declaration extension result st = Inr (Some r)"
    using settlement_returns [OF assms(3-5) va(2) assms(6-12)] by blast
  from r assms(3-6,10,12) obtain draft where
    built: "buildReceipt env rnd va campaign (so_merchantId opts) (so_merchantOrigin opts) result (sk_kid key) now = Inr draft"
    and signed: "signReceipt (xe_ed env) draft (sk_privateSeed key) = Inr r"
    by (auto simp: settledReceipt_def getValidatedAttribution_def err_simps Let_def)
  obtain sig where sig: "r = draft\<lparr>rc_signature := sig\<rparr>" "receipt_signed_by (xe_ed env) pk r"
    using signed_receipt [OF signed assms(2,11)] by blast
  have says: "receipt_of va (ca_campaignTermsHash campaign) result r" "receipt_sums_ok r"
    using built_receipt [OF built] sig(1) by simp_all
  have fields: "rc_paymentId r = p" "rc_payerWallet r = payer"
    using says(1) va(1) assms(7) by (simp_all add: receipt_of_def Let_def)
  have well: "receipt_well_typed r" using built_well_typed [OF built va(2)] sig(1) by (simp add: receipt_well_typed_def)
  show ?thesis using r va(2) fields says sig(2) verifier_accepts [OF well sig(2) says(2)] shares [OF says] by auto
qed

text \<open>C3. The control plane books a settled payment exactly when what came from outside has its format.
  For a receipt of the server, new to the store, with the merchant's key registered and the policy
  satisfied: if the payment id, the request digest, the network, the payer and the settled amount have
  the format of the receipt schema, the receipt is accepted and the accrual is the referrer's share of
  the commission at the rates of the offer, for the wallet of the paid claim; otherwise, although the
  payment is settled, it is rejected and nothing is booked.\<close>

theorem paid_referral_is_booked:
  assumes "server_reaches env resolve (so_merchantOrigin opts) st"
    and "settledReceipt env opts rnd now declaration extension result st = Inr (Some r)" "ed_lawful (xe_ed env)"
    and "kp_current (so_serviceKeys opts) = Inr key" "deriveEd25519PublicKey (xe_ed env) (sk_privateSeed key) = Inr pk"
    and "configured env (so_merchantId opts) (rc_campaignTermsHash r) (sk_kid key) now"
    and "length (rnd 16) = 16" "\<And>bs. length (xe_sha256 env bs) = 32"
    and "ie_zod cp = xe_zod env" "ie_ed cp = xe_ed env" "ie_resolveMerchantPublicKey cp r = Some pk"
    and "case ie_policyVerifier cp of None \<Rightarrow> True | Some verify \<Rightarrow> vr_ok (verify r)"
    and "store_ok s" "receipt_hash cp r = Inr hash" "unseen in_memory r hash s"
  shows "if remote_fields_ok r
    then \<exists>sn va. ingest cp in_memory r source s = (Inr (Created sn), save sn s) \<and>
      map_get st (rc_paymentId r) = Some va \<and>
      (case sn_accrual sn of
         None \<Rightarrow> paid_claim va (rc_payerWallet r) = None \<or> amount_of (rc_referrerCreditAtomic r) = 0
       | Some a \<Rightarrow> (\<exists>c. paid_claim va (rc_payerWallet r) = Some c \<and> ac_payoutWallet a = cl_payoutWallet c \<and>
           (let com = due (of_requiredAmountAtomic (va_offer va)) (of_commissionBps (va_offer va))
            in accrual_amount a = com - (com * of_protocolFeeBpsOfCommission (va_offer va)) div 10000)))
    else \<exists>es. ingest cp in_memory r source s = (Inr (Not_admitted es), s)"
proof -
  from settled_sound [OF assms(1-5)] obtain va draft campaign sig where
    va: "map_get st (rc_paymentId r) = Some va" "attribution_sound env resolve (so_merchantOrigin opts) va"
    and built: "buildReceipt env rnd va campaign (so_merchantId opts) (so_merchantOrigin opts) result (sk_kid key) now = Inr draft"
    and sig: "base64url_regex sig" "r = draft\<lparr>rc_signature := sig\<rparr>" "receipt_signed_by (xe_ed env) pk r"
    and says: "receipt_of va (rc_campaignTermsHash r) result r" "receipt_sums_ok r"
      "ca_campaignTermsHash campaign = rc_campaignTermsHash r" by blast
  have conf: "configured env (so_merchantId opts) (ca_campaignTermsHash campaign) (sk_kid key) now"
    using assms(6) says(3) by simp
  have "remote_fields_ok draft = remote_fields_ok r" using sig(2) by (simp add: remote_fields_ok_def)
  then have schema: "receipt_schema (ie_zod cp) r \<longleftrightarrow> remote_fields_ok r"
    using built_schema [OF built va(2) conf assms(7,8) sig(1)] sig(2) assms(9) by simp
  show ?thesis
  proof (cases "remote_fields_ok r")
    case False
    then show ?thesis using schema by (simp add: ingest_def)
  next
    case True
    then have ok: "receipt_schema (ie_zod cp) r" using schema by simp
    have adm: "admitted cp r" unfolding admitted_iff [OF ok] using assms(10-12) sig(3) says(2) by auto
    obtain sn where sn: "snapshot_books sn" "rr_receipt (sn_receipt sn) = r"
      "ingest cp in_memory r source s = (Inr (Created sn), save sn s)"
      using ingest_unseen [OF ok assms(14,15), of source] adm by (auto simp: in_memory_def)
    obtain a0 where "sn_accrual sn = None \<longleftrightarrow> rc_routeId r = None \<or> amount_of (rc_referrerCreditAtomic r) = 0"
      "\<And>a. sn_accrual sn = Some a \<Longrightarrow> Some (ac_payoutWallet a) = rc_payoutWallet r \<and>
         accrual_amount a = amount_of (rc_referrerCreditAtomic r)"
      using sn(1) unfolding snapshot_books_def Let_def sn(2) by blast
    then have "case sn_accrual sn of
         None \<Rightarrow> paid_claim va (rc_payerWallet r) = None \<or> amount_of (rc_referrerCreditAtomic r) = 0
       | Some a \<Rightarrow> (\<exists>c. paid_claim va (rc_payerWallet r) = Some c \<and> ac_payoutWallet a = cl_payoutWallet c \<and>
           (let com = due (of_requiredAmountAtomic (va_offer va)) (of_commissionBps (va_offer va))
            in accrual_amount a = com - (com * of_protocolFeeBpsOfCommission (va_offer va)) div 10000))"
      using says(1,2) unfolding receipt_of_def receipt_sums_ok_def Let_def due_def
      by (cases "paid_claim va (rc_payerWallet r)") (auto split: option.splits)
    then show ?thesis using True sn(3) va(1) by auto
  qed
qed

section \<open>A shop\<close>

text \<open>A merchant with one campaign and one key, an agent that sends the claim of \<open>Routes\<close>, a primitive that
  accepts every signature, and a clock on which the offer and the claim are still valid.\<close>

definition shop_host :: host where
  "shop_host = \<lparr>dateParse = (\<lambda>v. Some (int (length v))), toISOString = (\<lambda>t. if t = 1 then ''Z'' else ''ZZ''), localeCompare = string_compare\<rparr>"

definition shop_ed :: ed25519 where
  "shop_ed = \<lparr>ed_sign = (\<lambda>k m. replicate 64 7), ed_spki = (\<lambda>k. ED25519_SPKI_PREFIX @ replicate 32 7), ed_verify = (\<lambda>m k v. Some True)\<rparr>"

definition shop_env :: extension_env where
  "shop_env = \<lparr>xe_host = shop_host, xe_zod = any_zod, xe_ed = shop_ed, xe_sha256 = (\<lambda>bs. take 32 (bs @ replicate 32 0)),
     xe_offerIssues = (\<lambda>_. []), xe_claimIssues = (\<lambda>_. [])\<rparr>"

definition shop_key :: signing_key where
  "shop_key = \<lparr>sk_kid = ''k1'', sk_privateSeed = replicate 32 1\<rparr>"

definition shop_pk :: string where
  "shop_pk = base58Encode (replicate 32 7)"

definition shop_keys :: key_provider where
  "shop_keys = \<lparr>kp_current = Inr shop_key, kp_resolvePublicKey = (\<lambda>kid. Inr (if kid = sk_kid shop_key then Some shop_pk else None))\<rparr>"

definition shop_campaign :: campaign_config where
  "shop_campaign = \<lparr>ca_campaignId = ''cmp_'' @ replicate 32 (CHR ''1''), ca_campaignVersion = 1,
     ca_campaignTermsHash = ''sha256:'' @ replicate 64 (CHR ''b''), ca_commissionBps = 1000, ca_protocolFeeBpsOfCommission = 500,
     ca_attributionRequired = True, ca_allowSelfReferral = False\<rparr>"

definition shop_options :: server_options where
  "shop_options = \<lparr>so_merchantId = ''mrc_'' @ replicate 32 (CHR ''1''), so_merchantOrigin = ''o'', so_serviceKeys = shop_keys,
     so_resolveCampaign = (\<lambda>_. Inr shop_campaign)\<rparr>"

definition shop_price :: payment_requirements where
  "shop_price = \<lparr>pr_network = ''solana'', pr_asset = replicate 32 (CHR ''C''), pr_amount = ''1000'', pr_payTo = replicate 32 (CHR ''E'')\<rparr>"

definition shop_route :: json where
  "shop_route = JObj [(''campaignId'', JStr (''cmp_'' @ replicate 32 (CHR ''1''))), (''operationId'', JStr ''op'')]"

definition shop_offer :: offer where
  "shop_offer = \<lparr>of_protocolVersion = ''0.1'', of_campaignId = ''cmp_'' @ replicate 32 (CHR ''1''), of_campaignVersion = 1,
     of_campaignTermsHash = ''sha256:'' @ replicate 64 (CHR ''b''), of_merchantId = ''mrc_'' @ replicate 32 (CHR ''1''),
     of_resourceOrigin = ''o'', of_operationId = ''op'', of_network = ''solana'', of_asset = replicate 32 (CHR ''C''),
     of_requiredAmountAtomic = ''1000'', of_payToWallet = replicate 32 (CHR ''E''), of_commissionBps = 1000,
     of_protocolFeeBpsOfCommission = 500, of_commissionBase = ''required_amount'', of_settlementMode = ''accrual'',
     of_attributionRequired = True, of_allowSelfReferral = False, of_offerNonce = ''ofn_'' @ bytesToHex (replicate 16 1),
     of_issuedAt = ''Z'', of_validUntil = ''ZZ'', of_kid = ''k1'', of_signature = base64UrlEncode (replicate 64 7)\<rparr>"

definition shop_agent :: client_options where
  "shop_agent = \<lparr>co_referralClaim = Some (toy_claim [''*'']), co_body = None, co_pathTemplate = Some ''/p'', co_pathParams = None,
     co_query = None, co_paymentId = Some (''pay_'' @ replicate 32 (CHR ''5''))\<rparr>"

definition shop_request :: transport_request where
  "shop_request = \<lparr>hr_method = ''POST'', hr_path = ''/p'', hr_routePattern = None, hr_queryParams = [], hr_body = JUndefined\<rparr>"

definition shop_settlement :: settlement where
  "shop_settlement = \<lparr>st_success = True, st_payer = Some (replicate 32 (CHR ''D'')), st_transaction = ''sig'',
     st_network = ''solana'', st_amount = None\<rparr>"

lemma shop_lawful: "ed_lawful shop_ed"
proof -
  have "\<exists>raw :: bytes. length raw = 32 \<and> (\<exists>b \<in> set raw. b \<noteq> 0) \<and> ED25519_SPKI_PREFIX @ replicate 32 7 = ED25519_SPKI_PREFIX @ raw"
    by (intro exI [of _ "replicate 32 7"]) simp
  then show ?thesis by (simp add: ed_lawful_def shop_ed_def)
qed

lemma shop_private: "createEd25519PrivateKey (sk_privateSeed shop_key) = Inr (ED25519_PKCS8_PREFIX @ replicate 32 1)"
  by (simp add: createEd25519PrivateKey_def shop_key_def assertByteLength_def)

lemma shop_derives: "deriveEd25519PublicKey shop_ed (sk_privateSeed shop_key) = Inr shop_pk"
  by (simp add: deriveEd25519PublicKey_def shop_private shop_ed_def exportRawEd25519PublicKey_def assertByteLength_def shop_pk_def)

lemma shop_provider: "createStaticSplit402ServiceKeyProvider shop_ed shop_key = Inr shop_keys"
  by (simp add: createStaticSplit402ServiceKeyProvider_def shop_derives shop_keys_def)

lemma shop_signs: "signEd25519Message shop_ed m (sk_privateSeed shop_key) =
    Inr \<lparr>ds_publicKey = shop_pk, ds_signature = base64UrlEncode (replicate 64 7)\<rparr>"
  by (simp add: signEd25519Message_def shop_private)
    (simp add: shop_ed_def exportRawEd25519PublicKey_def assertByteLength_def shop_pk_def)

lemma shop_env_simps [simp]: "xe_host shop_env = shop_host" "xe_zod shop_env = any_zod" "xe_ed shop_env = shop_ed"
  by (simp_all add: shop_env_def)

lemma shop_options_simps [simp]: "so_serviceKeys shop_options = shop_keys" "so_merchantOrigin shop_options = ''o''"
  "so_resolveCampaign shop_options = (\<lambda>_. Inr shop_campaign)" "kp_current shop_keys = Inr shop_key"
  "kp_resolvePublicKey shop_keys (sk_kid shop_key) = Inr (Some shop_pk)"
  by (simp_all add: shop_options_def shop_keys_def)

lemma shop_advertises:
  "enrichPaymentRequiredResponse shop_env shop_options (\<lambda>n. replicate n 1) 1 shop_route [shop_price] = Inr shop_offer"
proof -
  have built: "buildOffer shop_host (\<lambda>n. replicate n 1) shop_campaign (so_merchantId shop_options) ''o'' ''op'' shop_price ''k1'' 1 =
      Inr (shop_offer\<lparr>of_signature := []\<rparr>)"
    by (simp add: buildOffer_def createPrefixedId_def shop_campaign_def shop_options_def shop_price_def shop_offer_def
        toRfc3339Utc_def shop_host_def)
  obtain m where "buildOfferSigningBytes shop_offer = Inr m" using offer_bytes_total by blast
  then have "signOffer shop_ed (shop_offer\<lparr>of_signature := []\<rparr>) (sk_privateSeed shop_key) = Inr shop_offer"
    by (simp add: signOffer_def shop_signs) (simp add: shop_offer_def)
  then show ?thesis using built
    by (simp add: enrichPaymentRequiredResponse_def parseDeclaration_def routeDeclarationRecord_def shop_route_def asRecord_def
        Let_def firstRequirement_def) (simp add: shop_key_def)
qed

lemma shop_offer_schema: "offer_schema any_zod shop_offer"
  by code_simp

lemma shop_claim_backed: "claim_backed shop_env ''o'' shop_offer (toy_claim [''*''])"
proof -
  have same: "safeVerify shop_ed = safeVerify (rg_ed route_env)"
    by (intro ext) (simp add: safeVerify_def verifyEd25519Signature_def shop_ed_def route_env_def)
  have v: "claim_schema any_zod (toy_claim [''*''])" "claim_signed_by (rg_ed route_env) (cl_referrerWallet (toy_claim [''*''])) (toy_claim [''*''])"
    "sg_publicKey (cl_signature (toy_claim [''*''])) = cl_referrerWallet (toy_claim [''*''])"
    using toy_claim_verified [of "[''*'']"] by (simp_all add: claim_verified_def)
  then have "claim_signed_by shop_ed (cl_referrerWallet (toy_claim [''*''])) (toy_claim [''*''])"
    unfolding claim_signed_by_def same by blast
  with v show ?thesis
    by (simp add: claim_backed_def)
      (simp add: toy_claim_def signed_claim_def toy_unsigned_def shop_offer_def coversOperation_def)
qed

lemma operation_digest_total:
  assumes "opi_pathParams i = None" "opi_query i = None" "opi_body i = None"
  shows "\<exists>d. calculateOperationDigest sha i = Inr d"
proof -
  have "\<exists>x. serializeJson (buildOperationObject i) = Inr x"
    unfolding buildOperationObject_def by (rule flat_serialises) (simp add: assms sorted_members_def)
  then show ?thesis
    by (auto simp: calculateOperationDigest_def hashProtocolObject_def canonicalizeToBytes_def canonicalizeProtocolObject_def)
qed

lemma shop_agent_pays: "\<exists>extension. enrichPaymentPayload shop_env shop_agent rnd pathname
    (JObj [(''info'', JObj (offer_members shop_offer))]) JUndefined url = Inr extension"
proof -
  have "parsedOffer shop_env (pickOfferFields (offer_members shop_offer @ [])) = Inr shop_offer"
    by (rule picked_offer) (use shop_offer_schema in \<open>simp_all add: safe_version_def shop_offer_def\<close>)
  moreover obtain d where "calculateOperationDigest (xe_sha256 shop_env)
       \<lparr>opi_merchantId = of_merchantId shop_offer, opi_operationId = of_operationId shop_offer, opi_method = ''POST'',
        opi_pathTemplate = ''/p'', opi_pathParams = None, opi_query = None, opi_body = None,
        opi_paymentId = ''pay_'' @ replicate 32 (CHR ''5''), opi_offerNonce = of_offerNonce shop_offer\<rparr> = Inr d"
    using operation_digest_total [of "\<lparr>opi_merchantId = of_merchantId shop_offer, opi_operationId = of_operationId shop_offer, opi_method = ''POST'',
        opi_pathTemplate = ''/p'', opi_pathParams = None, opi_query = None, opi_body = None,
        opi_paymentId = ''pay_'' @ replicate 32 (CHR ''5''), opi_offerNonce = of_offerNonce shop_offer\<rparr>"] by auto
  ultimately show ?thesis
    by (simp add: enrichPaymentPayload_def extractAdvertisedInfo_def asRecord_def parseAdvertisedOffer_def shop_agent_def
        inferMethod_def)
qed

lemma shop_same_request: "same_request shop_agent pathname JUndefined url shop_request"
  by (simp add: same_request_def shop_agent_def shop_request_def inferMethod_def)

lemma toy_claim_simps: "cl_expiresAt (toy_claim scope) = ''ZZ''" "cl_campaignVersionMin (toy_claim scope) = 1"
  "cl_referrerWallet (toy_claim scope) = toy_wallet" "cl_payoutWallet (toy_claim scope) = toy_wallet"
  by (simp_all add: toy_claim_def signed_claim_def toy_unsigned_def)

lemma shop_verifies:
  "\<exists>extension info va. onBeforeVerify shop_env shop_options 2 \<lparr>vc_extension = extension, vc_requirements = shop_price, vc_http = Some shop_request\<rparr> [] =
      (Inr None, [(''pay_'' @ replicate 32 (CHR ''5''), va)]) \<and> va_offer va = shop_offer \<and>
    va_referralClaim va = Some (toy_claim [''*'']) \<and> va_claimStatus va = Claim_valid \<and>
    va_paymentId va = ''pay_'' @ replicate 32 (CHR ''5'') \<and> sha256_regex (va_requestDigest va) \<and>
    extractAdvertisedInfo extension = Inr info \<and> getString (member_of info ''paymentId'') = Some (''pay_'' @ replicate 32 (CHR ''5''))"
proof -
  obtain extension where e: "enrichPaymentPayload shop_env shop_agent (\<lambda>n. []) (\<lambda>u. None)
      (JObj [(''info'', JObj (offer_members shop_offer))]) JUndefined JUndefined = Inr extension"
    using shop_agent_pays by blast
  let ?ctx = "\<lparr>vc_extension = extension, vc_requirements = shop_price, vc_http = Some shop_request\<rparr>"
  have "\<exists>va. onBeforeVerify shop_env shop_options 2 ?ctx [] = (Inr None, map_set (va_paymentId va) va []) \<and>
    va_offer va = shop_offer \<and> va_referralClaim va = co_referralClaim shop_agent \<and>
    va_claimStatus va = (if co_referralClaim shop_agent = None then Claim_missing else Claim_valid) \<and>
    (\<forall>p. co_paymentId shop_agent = Some p \<longrightarrow> va_paymentId va = p) \<and>
    calculateServerRequestDigest shop_env ?ctx shop_offer (va_paymentId va) = Inr (Some (va_requestDigest va)) \<and>
    (\<exists>info. extractAdvertisedInfo extension = Inr info \<and> getString (member_of info ''paymentId'') = Some (va_paymentId va))"
    by (rule payment_validated [OF shop_advertises _ _ _ _ e shop_same_request, where t = 2 and pk = shop_pk and key = shop_key])
      (use shop_claim_backed in \<open>auto simp: shop_lawful shop_derives shop_host_def toRfc3339Utc_def shop_agent_def toy_claim_simps safe_version_def\<close>)
  then obtain va info where va: "onBeforeVerify shop_env shop_options 2 ?ctx [] = (Inr None, map_set (va_paymentId va) va [])"
    "va_offer va = shop_offer" "va_referralClaim va = Some (toy_claim [''*''])" "va_claimStatus va = Claim_valid"
    "va_paymentId va = ''pay_'' @ replicate 32 (CHR ''5'')"
    "calculateServerRequestDigest shop_env ?ctx shop_offer (va_paymentId va) = Inr (Some (va_requestDigest va))"
    "extractAdvertisedInfo extension = Inr info" "getString (member_of info ''paymentId'') = Some (va_paymentId va)"
    by (auto simp: shop_agent_def)
  have "sha256_regex (va_requestDigest va)"
  proof -
    have "\<exists>i. hashProtocolObject (xe_sha256 shop_env) i = Inr (va_requestDigest va)"
      using va(6) by (auto simp: calculateServerRequestDigest_def calculateOperationDigest_def err_simps split: option.splits)
    then show ?thesis using hash_regex [of "xe_sha256 shop_env"] by (auto simp: shop_env_def)
  qed
  then show ?thesis using va by (intro exI [of _ extension] exI [of _ info] exI [of _ va]) (simp add: map_set_def)
qed

theorem honest_payment_is_validated_witness:
  "\<exists>extension va. enrichPaymentPayload shop_env shop_agent (\<lambda>n. []) (\<lambda>u. None)
      (JObj [(''info'', JObj (offer_members shop_offer))]) JUndefined JUndefined = Inr extension \<and>
    onBeforeVerify shop_env shop_options 2 \<lparr>vc_extension = extension, vc_requirements = shop_price, vc_http = Some shop_request\<rparr> [] =
      (Inr None, [(''pay_'' @ replicate 32 (CHR ''5''), va)]) \<and> va_referralClaim va = Some (toy_claim [''*'']) \<and> va_offer va = shop_offer"
proof -
  obtain extension where e: "enrichPaymentPayload shop_env shop_agent (\<lambda>n. []) (\<lambda>u. None)
      (JObj [(''info'', JObj (offer_members shop_offer))]) JUndefined JUndefined = Inr extension"
    using shop_agent_pays by blast
  have "\<exists>va. onBeforeVerify shop_env shop_options 2 \<lparr>vc_extension = extension, vc_requirements = shop_price, vc_http = Some shop_request\<rparr> [] =
      (Inr None, map_set (va_paymentId va) va []) \<and> va_offer va = shop_offer \<and> va_referralClaim va = co_referralClaim shop_agent \<and>
    va_claimStatus va = (if co_referralClaim shop_agent = None then Claim_missing else Claim_valid) \<and>
    (\<forall>p. co_paymentId shop_agent = Some p \<longrightarrow> va_paymentId va = p) \<and>
    calculateServerRequestDigest shop_env \<lparr>vc_extension = extension, vc_requirements = shop_price, vc_http = Some shop_request\<rparr>
      shop_offer (va_paymentId va) = Inr (Some (va_requestDigest va)) \<and>
    (\<exists>info. extractAdvertisedInfo extension = Inr info \<and> getString (member_of info ''paymentId'') = Some (va_paymentId va))"
    by (rule honest_payment_is_validated [OF shop_advertises _ _ _ _ e shop_same_request, where t = 2 and pk = shop_pk and key = shop_key])
      (use shop_claim_backed in \<open>auto simp: shop_lawful shop_derives shop_host_def toRfc3339Utc_def shop_agent_def toy_claim_simps safe_version_def\<close>)
  then show ?thesis using e by (auto simp: shop_agent_def map_set_def)
qed

lemma shop_attribution:
  assumes "va_offer va = shop_offer" "va_referralClaim va = Some (toy_claim [''*''])" "va_claimStatus va = Claim_valid"
  shows "paid_claim va (replicate 32 (CHR ''D'')) = Some (toy_claim [''*''])"
proof -
  have "replicate 32 (CHR ''D'') \<noteq> toy_wallet" by (simp add: toy_wallet_def numeral_eq_Suc)
  then show ?thesis using assms by (simp add: paid_claim_def toy_claim_simps)
qed

theorem settled_payment_gets_receipt_witness:
  "\<exists>va extension r v. map_get [(''pay_'' @ replicate 32 (CHR ''5''), va)] (rc_paymentId r) = Some va \<and>
     settledReceipt shop_env shop_options (\<lambda>n. replicate n 1) 1 shop_route extension shop_settlement
       [(''pay_'' @ replicate 32 (CHR ''5''), va)] = Inr (Some r) \<and>
     verifySplit402ReceiptObject shop_ed r shop_pk = Inr v \<and> vr_ok v \<and>
     amount_of (rc_referrerCreditAtomic r) + amount_of (rc_protocolFeeAtomic r) = 100"
proof -
  obtain extension info va where va: "onBeforeVerify shop_env shop_options 2 \<lparr>vc_extension = extension, vc_requirements = shop_price, vc_http = Some shop_request\<rparr> [] =
      (Inr None, [(''pay_'' @ replicate 32 (CHR ''5''), va)])" "va_offer va = shop_offer"
    "va_referralClaim va = Some (toy_claim [''*''])" "va_claimStatus va = Claim_valid"
    "extractAdvertisedInfo extension = Inr info" "getString (member_of info ''paymentId'') = Some (''pay_'' @ replicate 32 (CHR ''5''))"
    using shop_verifies by blast
  let ?st = "[(''pay_'' @ replicate 32 (CHR ''5''), va)]"
  have run: "server_reaches shop_env (kp_resolvePublicKey shop_keys) (so_merchantOrigin shop_options) ?st"
    by (rule server_reaches.verified [OF server_reaches.started _ _ va(1)]) simp_all
  have "\<exists>r v. settledReceipt shop_env shop_options (\<lambda>n. replicate n 1) 1 shop_route extension shop_settlement ?st = Inr (Some r) \<and>
    attribution_sound shop_env (kp_resolvePublicKey shop_keys) (so_merchantOrigin shop_options) va \<and>
    rc_paymentId r = ''pay_'' @ replicate 32 (CHR ''5'') \<and>
    receipt_of va (ca_campaignTermsHash shop_campaign) shop_settlement r \<and> receipt_signed_by (xe_ed shop_env) shop_pk r \<and>
    verifySplit402ReceiptObject (xe_ed shop_env) r shop_pk = Inr v \<and> vr_ok v \<and>
    amount_of (rc_referrerCreditAtomic r) + amount_of (rc_protocolFeeAtomic r) =
      (case paid_claim va (replicate 32 (CHR ''D'')) of None \<Rightarrow> 0
       | Some c \<Rightarrow> due (of_requiredAmountAtomic (va_offer va)) (of_commissionBps (va_offer va)))"
    by (rule settled_payment_gets_receipt [OF run _ va(5,6), where key = shop_key])
      (simp_all add: shop_lawful shop_derives shop_settlement_def map_get_def)
  moreover have "due (of_requiredAmountAtomic shop_offer) (of_commissionBps shop_offer) = 100" by code_simp
  ultimately show ?thesis using shop_attribution [OF va(2-4)] va(2) by (auto simp: map_get_def)
qed

theorem paid_referral_is_booked_witness:
  "\<exists>cp sn r source. ingest cp in_memory r source empty_store = (Inr (Created sn), save sn empty_store) \<and>
     (\<exists>a. sn_accrual sn = Some a \<and> ac_payoutWallet a = toy_wallet \<and> accrual_amount a = 95)"
proof -
  obtain extension info va where va: "onBeforeVerify shop_env shop_options 2 \<lparr>vc_extension = extension, vc_requirements = shop_price, vc_http = Some shop_request\<rparr> [] =
      (Inr None, [(''pay_'' @ replicate 32 (CHR ''5''), va)])" "va_offer va = shop_offer"
    "va_referralClaim va = Some (toy_claim [''*''])" "va_claimStatus va = Claim_valid"
    "extractAdvertisedInfo extension = Inr info" "getString (member_of info ''paymentId'') = Some (''pay_'' @ replicate 32 (CHR ''5''))"
    "va_paymentId va = ''pay_'' @ replicate 32 (CHR ''5'')" "sha256_regex (va_requestDigest va)"
    using shop_verifies by blast
  let ?st = "[(''pay_'' @ replicate 32 (CHR ''5''), va)]"
  have run: "server_reaches shop_env (kp_resolvePublicKey shop_keys) (so_merchantOrigin shop_options) ?st"
    by (rule server_reaches.verified [OF server_reaches.started _ _ va(1)]) simp_all
  have reached: "attribution_sound shop_env (kp_resolvePublicKey shop_keys) (so_merchantOrigin shop_options) va"
    using reached_sound [OF run] by (simp add: map_get_def)
  obtain r where r: "settledReceipt shop_env shop_options (\<lambda>n. replicate n 1) 1 shop_route extension shop_settlement ?st = Inr (Some r)"
    using settlement_returns [OF va(5,6) _ reached, of ?st shop_settlement "replicate 32 (CHR ''D'')" shop_key shop_pk]
    by (force simp: shop_derives shop_settlement_def map_get_def)
  have keys: "kp_current (so_serviceKeys shop_options) = Inr shop_key" "ed_lawful (xe_ed shop_env)"
    "deriveEd25519PublicKey (xe_ed shop_env) (sk_privateSeed shop_key) = Inr shop_pk"
    by (simp_all add: shop_derives shop_lawful)
  from settled_sound [OF run r keys(2,1,3)] obtain va' campaign where va': "map_get ?st (rc_paymentId r) = Some va'"
    and says: "receipt_of va' (rc_campaignTermsHash r) shop_settlement r" "receipt_sums_ok r"
      "ca_campaignTermsHash campaign = rc_campaignTermsHash r"
      "so_resolveCampaign shop_options (parseDeclarationOrOffer shop_route (va_offer va')) = Inr campaign" by blast
  have va'': "va' = va" using va' by (simp add: map_get_def split: if_splits)
  note paid = shop_attribution [OF va(2-4)]
  have fields: "rc_payerWallet r = replicate 32 (CHR ''D'')" "rc_paymentId r = ''pay_'' @ replicate 32 (CHR ''5'')"
    "rc_requestDigest r = va_requestDigest va" "rc_network r = ''solana''" "rc_settledAmountAtomic r = Some ''1000''"
    "rc_campaignTermsHash r = ca_campaignTermsHash shop_campaign" "rc_requiredAmountAtomic r = ''1000''"
    "rc_commissionBps r = 1000" "rc_protocolFeeBpsOfCommission r = 500"
    using says va'' va(2,7) paid by (auto simp: receipt_of_def Let_def shop_settlement_def shop_offer_def)
  have formats: "id_regex (''pay_'' @ replicate 32 (CHR ''5''))" "payment_identifier (replicate 32 (CHR ''D''))" "atomic_regex ''1000''"
    "id_regex (so_merchantId shop_options)" "sha256_regex (ca_campaignTermsHash shop_campaign)"
    "amount_of ''1000'' = 1000" by code_simp+
  have remote: "remote_fields_ok r" using formats(1-3) va(8) by (simp add: remote_fields_ok_def fields)
  have conf: "configured shop_env (so_merchantId shop_options) (rc_campaignTermsHash r) (sk_kid shop_key) 1"
    using formats(4,5) by (simp add: configured_def fields shop_key_def utc_timestamp_def toRfc3339Utc_def shop_host_def any_zod_def)
  have credit: "amount_of (rc_referrerCreditAtomic r) = 95"
    using says(2) by (simp add: receipt_sums_ok_def fields formats(6))
  define cp where "cp = sample_env\<lparr>ie_ed := shop_ed, ie_resolveMerchantPublicKey := (\<lambda>_. Some shop_pk)\<rparr>"
  obtain hash where hash: "receipt_hash cp r = Inr hash" using receipt_hash_total by blast
  have un: "unseen in_memory r hash empty_store"
    unfolding unseen_in_memory [OF empty_store_ok] by (simp add: empty_store_def getByReceiptId_def)
  have "if remote_fields_ok r
    then \<exists>sn va. ingest cp in_memory r From_relay empty_store = (Inr (Created sn), save sn empty_store) \<and>
      map_get ?st (rc_paymentId r) = Some va \<and>
      (case sn_accrual sn of
         None \<Rightarrow> paid_claim va (rc_payerWallet r) = None \<or> amount_of (rc_referrerCreditAtomic r) = 0
       | Some a \<Rightarrow> (\<exists>c. paid_claim va (rc_payerWallet r) = Some c \<and> ac_payoutWallet a = cl_payoutWallet c \<and>
           (let com = due (of_requiredAmountAtomic (va_offer va)) (of_commissionBps (va_offer va))
            in accrual_amount a = com - (com * of_protocolFeeBpsOfCommission (va_offer va)) div 10000)))
    else \<exists>es. ingest cp in_memory r From_relay empty_store = (Inr (Not_admitted es), empty_store)"
    by (rule paid_referral_is_booked [OF run r keys(2,1,3) conf _ _ _ _ _ _ empty_store_ok hash un])
      (simp_all add: cp_def sample_env_def shop_env_def)
  then obtain sn where sn: "ingest cp in_memory r From_relay empty_store = (Inr (Created sn), save sn empty_store)"
    "case sn_accrual sn of None \<Rightarrow> False
     | Some a \<Rightarrow> ac_payoutWallet a = toy_wallet \<and> accrual_amount a = 95"
    using remote va' va'' va(2) paid credit
    by (auto simp: fields toy_claim_simps shop_offer_def due_def formats(6) Let_def split: option.splits)
  then show ?thesis by (cases "sn_accrual sn") auto
qed

end
