(* ===== verification/Spec2Isabelle.thy ===== *)
theory Spec2Isabelle
  imports Policy Webhooks Paid_Referral
begin

text \<open>
  \<^bold>\<open>Split402\<close>: referral attribution, commission accounting and payouts for x402 payments.

  A merchant sells HTTP operations for a token payment and runs campaigns that pay a commission to whoever
  referred the buyer. The merchant's server advertises a signed \<^emph>\<open>offer\<close>; the buyer's agent pays and may
  attach a \<^emph>\<open>referral claim\<close> its referrer signed; the merchant signs a \<^emph>\<open>receipt\<close> for the settled payment
  and sends it to the control plane. The control plane admits the receipt (schema, key, signature,
  arithmetic, campaign policy), books an \<^emph>\<open>accrual\<close> in a double-entry ledger, has a worker check the
  settlement on the chain, groups accruals into payout batches, records the signed transactions that pay
  them, follows these to finality and closes the ledger of a finalized batch. Merchants, campaigns and
  referral routes live in registries; events for workers and webhooks go through an outbox.

  \<^bold>\<open>Theories.\<close> Paths are under \<^verbatim>\<open>packages/\<close>; a definition has the name of the function, method or type it models.

  \<^item> \<open>Prelude\<close>: JavaScript strings, insertion-ordered maps, calls that may throw, stable sorting, the host
    functions ECMAScript leaves open; the hint collections \<open>err_simps\<close> and \<open>js_map_simps\<close>.
  \<^item> \<open>Amounts\<close>, \<open>Commission\<close>, \<open>Encoding\<close>, \<open>Canonical\<close>, \<open>Protocol\<close>, \<open>Signing\<close>: \<^verbatim>\<open>protocol/src\<close>, that is
    \<^verbatim>\<open>amounts.ts\<close>; \<^verbatim>\<open>commission.ts\<close> and \<^verbatim>\<open>self-referral.ts\<close>; \<^verbatim>\<open>encoding.ts\<close>; \<^verbatim>\<open>canonical.ts\<close> and
    \<^verbatim>\<open>operation.ts\<close>; \<^verbatim>\<open>schemas.ts\<close> and \<^verbatim>\<open>ids.ts\<close>; \<^verbatim>\<open>signing.ts\<close> and \<^verbatim>\<open>verification.ts\<close>.
  \<^item> \<open>Payout_Types\<close>, \<open>Payout_Preview\<close>, \<open>Payout_Plan\<close>, \<open>Payout_Transactions\<close>, \<open>Payout_Release\<close>,
    \<open>Payout_Views\<close>: \<^verbatim>\<open>control-plane/src/payouts.ts\<close>, one theory per stage of a payout, and the records of
    \<^verbatim>\<open>index.ts\<close> it works on.
  \<^item> \<open>Receipt_Store\<close>: \<open>InMemoryReceiptIngestionStore\<close> of \<^verbatim>\<open>control-plane/src/index.ts\<close>; its five maps are the
    fields of the record \<open>store\<close>, each method a function from the store to a result and the new store.
  \<^item> \<open>Ingestion\<close>: \<open>ReceiptIngestor\<close> of \<^verbatim>\<open>index.ts\<close> over any store of the interface \<open>ReceiptIngestionStore\<close>.
  \<^item> \<open>Registry_Base\<close>, \<open>Merchants\<close>, \<open>Campaigns\<close>, \<open>Routes\<close>: the in-memory registries of \<^verbatim>\<open>merchants.ts\<close>,
    \<^verbatim>\<open>campaigns.ts\<close> and \<^verbatim>\<open>routes.ts\<close>, each with its step relation and the invariants of what is reachable.
  \<^item> \<open>Policy\<close>: \<open>ControlPlaneReceiptPolicyVerifier\<close> of \<^verbatim>\<open>index.ts\<close> over the registries, and its composition
    with ingestion and the merchant key resolver.
  \<^item> \<open>Outbox\<close>: \<open>PostgresOutboxEventStore\<close> of \<^verbatim>\<open>postgres.ts\<close>, one SQL statement one step.
  \<^item> \<open>Workers\<close>, \<open>Receipt_Worker\<close>, \<open>Webhooks\<close>: \<^verbatim>\<open>workers.ts\<close> and \<^verbatim>\<open>webhooks.ts\<close>, the polling loop, the receipt
    chain worker, the payout finality worker, the webhook worker and its HTTP dispatcher.
  \<^item> \<open>Extension\<close>: \<^verbatim>\<open>x402-extension/src/index.ts\<close>, the merchant's server (offers, the check of an attribution, the
    map of validated payments, receipts) and what the buyer's agent sends; \<open>Paid_Referral\<close> composes it with
    ingestion, from an advertised offer to the booked accrual.
  \<^item> \<open>Store_Runs\<close>, \<open>Store_Refinement\<close>, \<open>Double_Release\<close>: no code of their own. They make the store a
    transition system, state what its payout operations promise as an abstract machine, prove the
    simulation, and give concrete runs inside and outside its conditions.

  \<^bold>\<open>Interfaces.\<close> Where a component relies on another through an interface, the operations and their laws are
  a locale, the client's lemmas are proved in it, and it is interpreted on the model's own definitions:
  the receipt store for the ingestor, the registries for the policy verifier, the outbox for the workers.
  The top-level theorems are statements about those definitions and need no locale assumption.

  \<^bold>\<open>What is shown.\<close>

  \<^item> Values: parsing and printing of amounts, base58 and base64url decode what they encode; the commission
    split loses no unit; canonical text and domain-separated signing bytes identify the object.
  \<^item> Payments: what an agent makes of an advertised offer is validated, a settled payment gets a receipt the
    verifier accepts, and the control plane books it exactly when the fields from outside are well formed.
  \<^item> Signatures: attribution and receipt verification return on every valid object and answer ok exactly
    when the signatures and the arithmetic are right; an accepted receipt is one the merchant signed.
  \<^item> Payout arithmetic: preview, plan, transactions, finality roll-up, ledger closure and views account for
    each accrual once and with its exact amount.
  \<^item> Store: ingestion answers every input, books exactly what it accepts and changes nothing otherwise; in
    every reachable store the ledger balances and each receipt is stored once; on careful runs the store
    refines the abstract payout machine, in which no accrual is held by two batches.
  \<^item> Registries: identities, signed terms and route histories only grow or stay; an accrual booked through
    them is backed by the signatures of merchant and referrer.
  \<^item> Workers: what one pass does on every answer of the chain or endpoint, that the finality loop returns,
    that the webhook queue drains, and that a throwing verifier leaves its event locked.

  Several theorems state behaviour that looks unintended (runs of zeros in base58, a second release of a
  cancelled batch, a wildcard scope that is altered, an event that stays locked, a pass counted twice):
  they say what the code does.

  \<^bold>\<open>Reading of the language.\<close> A string is a list of code units below 256. A \<open>bigint\<close> is an \<open>int\<close>; a
  \<open>number\<close> that holds a count is an \<open>int\<close>, one that can be \<open>NaN\<close> an \<open>int option\<close>. An object is a record, an
  optional member an \<open>option\<close>, a union of literals a \<open>datatype\<close>. A call that may throw has a sum type with
  the error on the left. A \<open>Map\<close> is an association list in insertion order. SHA-256, Ed25519, HMAC, \<open>fetch\<close>,
  \<open>new URL\<close>, \<open>Date.parse\<close>, \<open>toISOString\<close>, \<open>localeCompare\<close>, the clock, the id factories, the string formats
  and issue texts of the schema library and the database operator for JSON are arguments. What is
  assumed of them is a hypothesis of the theorem that needs it, and its witness instantiates it.
  An \<open>await\<close> inside one operation of a store is atomic; between the calls of a worker other callers may
  take steps of the store, which are actions the model takes as arguments.

  \<^bold>\<open>Bounds.\<close> The loops over lists are structural folds or recursions. The polling loop is a
  \<open>partial_function\<close> in the option monad, \<open>None\<close> for a loop that never returns; \<open>finality_loop_returns\<close> and
  \<open>webhook_queue_drains\<close> show that it returns, with \<open>maxIterations\<close> and with the number of attempts
  left in the queue as bounds. No definition uses fuel.

  \<^bold>\<open>Not modelled.\<close> The remaining PostgreSQL stores are SQL text over the interfaces the in-memory stores
  implement. The Solana adapters parse node responses the repository does not fix. The HTTP routers,
  authentication by bearer token and wallet signature, discovery documents, origin verification and the
  runtime are Express wiring, environment parsing and network access around the modelled operations. The
  network table is a constant. The router and the agent SDK are clients of third-party payment
  libraries. The command lines, the applications, the staging drills and the launch and evidence tooling
  read and write files and start processes.
\<close>

end
